(* ===== verification/Prelude.thy ===== *)
theory Prelude
  imports
    Main
    "HOL-Library.Word"
    "HOL-Library.State_Monad"
begin

text \<open>
  Shared types, collections and generic lemmas of the development.

  Go's \<open>string\<close> and \<open>[]byte\<close> are byte sequences: both are \<^typ>\<open>string\<close> here, and a
  \<^typ>\<open>char\<close> is one byte.  A Go \<open>rune\<close> is an \<^typ>\<open>int\<close> (the scanner uses \<open>-1\<close> for the
  end of the input).
\<close>

unbundle bit_operations_syntax

type_synonym rune = int

named_theorems goo_defs \<open>definitions unfolded by the component proofs\<close>
named_theorems goo_eval \<open>closed equations used to evaluate the model\<close>

subsection \<open>Bytes and runes\<close>

definition rune_of :: "char \<Rightarrow> rune" where
  "rune_of c = of_char c"

definition byte_of :: "int \<Rightarrow> char" where
  "byte_of i = char_of i"

lemma rune_of_mod: "rune_of c mod 256 = rune_of c"
  by (simp add: rune_of_def)

lemma rune_of_nonneg [simp]: "0 \<le> rune_of c"
  using rune_of_mod [of c] by presburger

lemma rune_of_less_256 [simp]: "rune_of c < 256"
  using rune_of_mod [of c] by presburger

lemma rune_of_inject [simp]: "rune_of c = rune_of d \<longleftrightarrow> c = d"
  by (simp add: rune_of_def)

lemma rune_of_byte_of: "rune_of (byte_of i) = i mod 256"
  by (simp add: rune_of_def byte_of_def)

lemma byte_of_rune_of [simp]: "byte_of (rune_of c) = c"
  by (simp add: rune_of_def byte_of_def)

subsection \<open>Decimal printing (strconv.Itoa on non-negative values)\<close>

fun itoa :: "nat \<Rightarrow> string" where
  "itoa n = (if n < 10 then [byte_of (48 + int n)]
             else itoa (n div 10) @ [byte_of (48 + int (n mod 10))])"

declare itoa.simps [simp del]

lemma itoa_nonempty [simp]: "itoa n \<noteq> []"
  by (subst itoa.simps) simp

end
