(* ===== verification/Pos.thy ===== *)
theory Pos
  imports Prelude "HOL-Library.Char_ord" "HOL-Library.List_Lexorder"
begin

text \<open>
  Source positions, \<open>cmd/compile/internal/syntax/pos.go\<close>.  A \<open>*PosBase\<close> is an index into the
  list of all position bases in the order of their creation (\<open>None\<close> is the nil pointer), because a
  file base refers to itself.  \<open>uint\<close> is 64 bits wide.
\<close>

type_synonym uint64 = "64 word"
type_synonym base_ref = "nat option"

record Pos =
  p_base :: base_ref
  p_line :: "32 word"
  p_col :: "32 word"

record PosBase =
  b_pos :: Pos
  b_filename :: string
  b_line :: "32 word"
  b_col :: "32 word"
  b_trimmed :: bool

type_synonym bases = "PosBase list"

definition PosMax :: uint64 where "PosMax = 1073741824"

definition sat32 :: "uint64 \<Rightarrow> 32 word" where
  "sat32 x = (if x > PosMax then ucast PosMax else ucast x)"

definition MakePos :: "base_ref \<Rightarrow> uint64 \<Rightarrow> uint64 \<Rightarrow> Pos" where
  "MakePos b l c = \<lparr>p_base = b, p_line = sat32 l, p_col = sat32 c\<rparr>"

definition zero_Pos :: Pos where "zero_Pos = \<lparr>p_base = None, p_line = 0, p_col = 0\<rparr>"

definition IsKnown :: "Pos \<Rightarrow> bool" where "IsKnown p \<longleftrightarrow> p_line p > 0"
definition Base :: "Pos \<Rightarrow> base_ref" where "Base p = p_base p"
definition Line :: "Pos \<Rightarrow> uint64" where "Line p = ucast (p_line p)"
definition Col :: "Pos \<Rightarrow> uint64" where "Col p = ucast (p_col p)"

text \<open>The methods of \<open>*PosBase\<close>; each of them accepts the nil pointer.\<close>

definition base_Pos :: "bases \<Rightarrow> base_ref \<Rightarrow> Pos" where
  "base_Pos B b = (case b of None \<Rightarrow> zero_Pos | Some i \<Rightarrow> b_pos (B ! i))"

definition base_Filename :: "bases \<Rightarrow> base_ref \<Rightarrow> string" where
  "base_Filename B b = (case b of None \<Rightarrow> [] | Some i \<Rightarrow> b_filename (B ! i))"

definition base_Line :: "bases \<Rightarrow> base_ref \<Rightarrow> uint64" where
  "base_Line B b = (case b of None \<Rightarrow> 0 | Some i \<Rightarrow> ucast (b_line (B ! i)))"

definition base_Col :: "bases \<Rightarrow> base_ref \<Rightarrow> uint64" where
  "base_Col B b = (case b of None \<Rightarrow> 0 | Some i \<Rightarrow> ucast (b_col (B ! i)))"

definition base_Trimmed :: "bases \<Rightarrow> base_ref \<Rightarrow> bool" where
  "base_Trimmed B b = (case b of None \<Rightarrow> False | Some i \<Rightarrow> b_trimmed (B ! i))"

definition IsFileBase :: "bases \<Rightarrow> base_ref \<Rightarrow> bool" where
  "IsFileBase B b = (case b of None \<Rightarrow> False | Some i \<Rightarrow> p_base (b_pos (B ! i)) = Some i)"

text \<open>The constructors return the new list and the pointer to the new base.\<close>

definition NewTrimmedFileBase :: "string \<Rightarrow> bool \<Rightarrow> bases \<Rightarrow> bases \<times> base_ref" where
  "NewTrimmedFileBase filename trimmed B =
     (let i = length B in
      (B @ [\<lparr>b_pos = (MakePos None 1 1)\<lparr>p_base := Some i\<rparr>, b_filename = filename,
             b_line = 1, b_col = 1, b_trimmed = trimmed\<rparr>], Some i))"

definition NewFileBase :: "string \<Rightarrow> bases \<Rightarrow> bases \<times> base_ref" where
  "NewFileBase filename B = NewTrimmedFileBase filename False B"

definition NewLineBase :: "Pos \<Rightarrow> string \<Rightarrow> bool \<Rightarrow> uint64 \<Rightarrow> uint64 \<Rightarrow> bases \<Rightarrow> bases \<times> base_ref" where
  "NewLineBase p filename trimmed l c B =
     (B @ [\<lparr>b_pos = p, b_filename = filename, b_line = sat32 l, b_col = sat32 c,
            b_trimmed = trimmed\<rparr>], Some (length B))"

text \<open>\<open>FileBase\<close> follows the chain of bases; on a cyclic chain it would not return (\<open>None\<close>).\<close>

partial_function (option) file_base :: "bases \<Rightarrow> base_ref \<Rightarrow> base_ref option" where
  "file_base B b =
     (case b of
        None \<Rightarrow> Some None
      | Some i \<Rightarrow>
          if p_base (b_pos (B ! i)) = b then Some b else file_base B (p_base (b_pos (B ! i))))"

definition FileBase :: "bases \<Rightarrow> Pos \<Rightarrow> base_ref option" where
  "FileBase B p = file_base B (p_base p)"

definition RelFilename :: "bases \<Rightarrow> Pos \<Rightarrow> string" where
  "RelFilename B p = base_Filename B (p_base p)"

definition RelLine :: "bases \<Rightarrow> Pos \<Rightarrow> uint64" where
  "RelLine B p =
     (let b = p_base p in
      if base_Line B b = 0 then 0 else base_Line B b + (Line p - Line (base_Pos B b)))"

definition RelCol :: "bases \<Rightarrow> Pos \<Rightarrow> uint64" where
  "RelCol B p =
     (let b = p_base p in
      if base_Col B b = 0 then 0
      else if Line p = Line (base_Pos B b) then base_Col B b + (Col p - Col (base_Pos B b))
      else Col p)"

definition Cmp :: "bases \<Rightarrow> Pos \<Rightarrow> Pos \<Rightarrow> int" where
  "Cmp B p q =
     (let pname = RelFilename B p; qname = RelFilename B q in
      if pname < qname then -1 else if pname > qname then 1
      else if Line p < Line q then -1 else if Line p > Line q then 1
      else if Col p < Col q then -1 else if Col p > Col q then 1
      else 0)"

type_synonym position = "string \<times> uint64 \<times> uint64"

definition position_String :: "position \<Rightarrow> string" where
  "position_String pp =
     (case pp of (f, l, c) \<Rightarrow>
        if l = 0 then (if f = [] then ''<unknown position>'' else f)
        else if c = 0 then f @ '':'' @ itoa (unat l)
        else f @ '':'' @ itoa (unat l) @ '':'' @ itoa (unat c))"

definition Pos_String :: "bases \<Rightarrow> Pos \<Rightarrow> string" where
  "Pos_String B p =
     (let rel = (RelFilename B p, RelLine B p, RelCol B p);
          abs = (RelFilename B (base_Pos B (Base p)), Line p, Col p)
      in position_String rel @ (if rel \<noteq> abs then ''['' @ position_String abs @ '']'' else []))"

subsection \<open>Saturation\<close>

lemma PosMax_ucast: "ucast PosMax = (0x40000000 :: 32 word)"
  by (simp add: PosMax_def)

lemma unat_sat32: "unat (sat32 x) = min (unat x) 0x40000000"
proof (cases "x > PosMax")
  case True
  then have "0x40000000 < unat x" by (simp add: PosMax_def word_less_nat_alt)
  then show ?thesis using True by (simp add: sat32_def PosMax_ucast)
next
  case False
  then have u: "unat x \<le> 0x40000000" by (simp add: PosMax_def word_le_nat_alt not_less)
  then have "unat (ucast x :: 32 word) = unat x"
    by (simp add: unsigned_ucast_eq take_bit_nat_eq_self_iff)
  with False u show ?thesis by (simp add: sat32_def)
qed

subsection \<open>Three-way comparison\<close>

text \<open>The contract of a three-way comparison and what its clients derive from it.\<close>

locale three_way =
  fixes cmp :: "'a \<Rightarrow> 'a \<Rightarrow> int"
  assumes cmp_range: "cmp p q \<in> {-1, 0, 1}"
    and cmp_swap: "cmp q p = - cmp p q"
    and cmp_le_trans: "cmp p q \<le> 0 \<Longrightarrow> cmp q r \<le> 0 \<Longrightarrow> cmp p r \<le> 0"
begin

lemma cmp_refl: "cmp p p = 0"
  using cmp_swap [of p p] by simp

lemma cmp_less_trans: "cmp p q < 0 \<Longrightarrow> cmp q r \<le> 0 \<Longrightarrow> cmp p r < 0"
  using cmp_le_trans [of p q r] cmp_le_trans [of q r p] cmp_swap [of p q] cmp_swap [of p r]
  by linarith

lemma cmp_eq_cong: "cmp p q = 0 \<Longrightarrow> cmp p r = cmp q r"
  using cmp_le_trans [of p q r] cmp_le_trans [of q p r] cmp_le_trans [of r q p]
    cmp_le_trans [of r p q] cmp_swap [of p q] cmp_swap [of p r] cmp_swap [of q r]
    cmp_range [of p r] cmp_range [of q r]
  by auto

end

text \<open>The key by which \<open>Cmp\<close> orders positions.\<close>

definition pos_key :: "bases \<Rightarrow> Pos \<Rightarrow> string \<times> uint64 \<times> uint64" where
  "pos_key B p = (RelFilename B p, Line p, Col p)"

definition key_less :: "'a::linorder \<times> 'b::linorder \<times> 'c::linorder \<Rightarrow> 'a \<times> 'b \<times> 'c \<Rightarrow> bool" where
  "key_less x y \<longleftrightarrow> fst x < fst y \<or> fst x = fst y \<and>
     (fst (snd x) < fst (snd y) \<or> fst (snd x) = fst (snd y) \<and> snd (snd x) < snd (snd y))"

lemma Cmp_key:
  "Cmp B p q = (if key_less (pos_key B p) (pos_key B q) then -1
                else if key_less (pos_key B q) (pos_key B p) then 1 else 0)"
  unfolding Cmp_def key_less_def pos_key_def Let_def fst_conv snd_conv
  by (cases "RelFilename B p" "RelFilename B q" rule: linorder_cases;
      cases "Line p" "Line q" rule: linorder_cases; simp add: order.asym)

lemma key_less_irrefl: "\<not> key_less x x"
  by (simp add: key_less_def)

lemma key_less_trans: "key_less x y \<Longrightarrow> key_less y z \<Longrightarrow> key_less x z"
  by (auto simp: key_less_def)

lemma key_less_asym: "key_less x y \<Longrightarrow> \<not> key_less y x"
  using key_less_trans key_less_irrefl by blast

lemma key_less_total: "key_less x y \<or> x = y \<or> key_less y x"
  unfolding key_less_def by (metis linorder_neq_iff prod_eqI)

interpretation pos_cmp: three_way "Cmp B"
proof
  fix p q r
  show "Cmp B p q \<in> {-1, 0, 1}" by (simp add: Cmp_key)
  show "Cmp B q p = - Cmp B p q" by (simp add: Cmp_key key_less_asym)
  assume "Cmp B p q \<le> 0" "Cmp B q r \<le> 0"
  then have "\<not> key_less (pos_key B q) (pos_key B p)" "\<not> key_less (pos_key B r) (pos_key B q)"
    by (auto simp: Cmp_key split: if_splits dest: key_less_asym)
  then have "\<not> key_less (pos_key B r) (pos_key B p)"
    using key_less_total key_less_trans by metis
  then show "Cmp B p r \<le> 0" by (simp add: Cmp_key)
qed

lemma Cmp_eq_0: "Cmp B p q = 0 \<longleftrightarrow> pos_key B p = pos_key B q"
  using key_less_total [of "pos_key B p" "pos_key B q"] by (auto simp: Cmp_key key_less_irrefl)

subsection \<open>Chains of position bases\<close>

text \<open>The lists of bases that the constructors build; a line base is made at a position of an
  existing base.\<close>

inductive bases_reach :: "bases \<Rightarrow> bool" where
  bases_nil: "bases_reach []"
| bases_file: "bases_reach B \<Longrightarrow> bases_reach (fst (NewTrimmedFileBase f t B))"
| bases_line: "bases_reach B \<Longrightarrow> (case p_base p of None \<Rightarrow> True | Some i \<Rightarrow> i < length B) \<Longrightarrow>
    bases_reach (fst (NewLineBase p f t l c B))"

definition base_down :: "bases \<Rightarrow> bool" where
  "base_down B \<longleftrightarrow> (\<forall>i < length B. case p_base (b_pos (B ! i)) of None \<Rightarrow> True | Some j \<Rightarrow> j \<le> i)"

lemma bases_reach_down: "bases_reach B \<Longrightarrow> base_down B"
  by (induction rule: bases_reach.induct)
    (auto simp: base_down_def NewTrimmedFileBase_def NewLineBase_def Let_def nth_append less_Suc_eq
        split: option.splits)

lemma file_base_down:
  assumes "base_down B"
  shows "i < length B \<Longrightarrow> \<exists>b. file_base B (Some i) = Some b \<and> (b = None \<or> IsFileBase B b)"
proof (induction i rule: less_induct)
  case (less i)
  consider "p_base (b_pos (B ! i)) = None" | "p_base (b_pos (B ! i)) = Some i"
    | j where "p_base (b_pos (B ! i)) = Some j" "j < i"
    using assms less.prems by (force simp: base_down_def split: option.splits)
  then show ?case
  proof cases
    case (3 j)
    with less.IH [of j] less.prems show ?thesis by (subst file_base.simps) simp
  qed (subst file_base.simps, simp add: IsFileBase_def file_base.simps)+
qed

text \<open>Positions at a line directive's base are numbered from the directive's line and column.\<close>

lemma RelLine_LineBase:
  assumes "(B', b) = NewLineBase p f t l c B" "sat32 l \<noteq> 0" "p_base q = b"
  shows "RelLine B' q = ucast (sat32 l) + (Line q - Line p)" "RelFilename B' q = f"
proof -
  have nz: "ucast (sat32 l) \<noteq> (0 :: uint64)"
  proof -
    have "unat (sat32 l) \<noteq> 0" using assms(2) by (simp add: unat_eq_zero)
    then have "unat (ucast (sat32 l) :: uint64) \<noteq> 0"
      by (subst unsigned_ucast_eq) (simp add: take_bit_nat_eq_self unat_sat32)
    then show ?thesis by (metis unsigned_0)
  qed
  from nz show "RelLine B' q = ucast (sat32 l) + (Line q - Line p)" "RelFilename B' q = f"
    using assms by (simp_all add: NewLineBase_def RelLine_def base_Line_def base_Pos_def
        RelFilename_def base_Filename_def Let_def)
qed

subsection \<open>Properties\<close>

text \<open>A line or column number in a position is the number itself up to \<open>PosMax\<close> and \<open>PosMax\<close>
  beyond, so the conversion to 32 bits is monotone and never wraps.\<close>

lemma make_pos_saturates:
  "unat (Line (MakePos b l c)) = min (unat l) (unat PosMax) \<and> unat (Col (MakePos b l c)) = min (unat c) (unat PosMax)"
proof -
  have "unat (ucast (sat32 x) :: uint64) = unat (sat32 x)" for x
    by (subst unsigned_ucast_eq) (simp add: take_bit_nat_eq_self unat_sat32)
  then show ?thesis by (simp add: Line_def Col_def MakePos_def unat_sat32 PosMax_def)
qed

text \<open>\<open>Cmp\<close> is a three-way comparison: it returns \<open>-1\<close>, \<open>0\<close> or \<open>1\<close>, swapping the arguments negates it,
  it is transitive, and it returns \<open>0\<close> exactly for the same file name, line and column.\<close>

lemma cmp_total_order:
  "Cmp B p q \<in> {-1, 0, 1} \<and> Cmp B q p = - Cmp B p q
   \<and> (Cmp B p q \<le> 0 \<and> Cmp B q r \<le> 0 \<longrightarrow> Cmp B p r \<le> 0)
   \<and> (Cmp B p q = 0 \<longleftrightarrow> RelFilename B p = RelFilename B q \<and> Line p = Line q \<and> Col p = Col q)"
  using pos_cmp.cmp_range pos_cmp.cmp_swap pos_cmp.cmp_le_trans Cmp_eq_0 [of B p q]
  unfolding pos_key_def prod.inject by blast

lemma cmp_total_order_witness:
  "let B = fst (NewFileBase ''a'' []); p = MakePos (Some 0) 1 1; q = MakePos (Some 0) 1 5; r = MakePos (Some 0) 2 1
   in Cmp B p q \<le> 0 \<and> Cmp B q r \<le> 0 \<and> Cmp B p r \<le> 0"
proof -
  let ?B = "fst (NewFileBase ''a'' [])" and ?p = "MakePos (Some 0) 1 1" and ?q = "MakePos (Some 0) 1 5"
    and ?r = "MakePos (Some 0) 2 1"
  have "Cmp ?B ?p ?q \<le> 0" "Cmp ?B ?q ?r \<le> 0"
    by (simp_all add: Cmp_def Let_def RelFilename_def MakePos_def Line_def Col_def sat32_def PosMax_def)
  with cmp_total_order [of ?B ?p ?q ?r] show ?thesis by (simp add: Let_def)
qed

text \<open>On every list of position bases that the constructors can build, the walk of \<open>FileBase\<close> up the
  chain of bases ends, and it ends at the base of a file or at nil.\<close>

lemma file_base_terminates:
  assumes "bases_reach B" "case p_base p of None \<Rightarrow> True | Some i \<Rightarrow> i < length B"
  shows "\<exists>b. FileBase B p = Some b \<and> (b = None \<or> IsFileBase B b)"
proof (cases "p_base p")
  case None
  then show ?thesis by (simp add: FileBase_def file_base.simps)
next
  case (Some i)
  with assms file_base_down [OF bases_reach_down] show ?thesis by (simp add: FileBase_def)
qed

lemma file_base_terminates_witness:
  "let B1 = fst (NewTrimmedFileBase ''a'' False []);
       B2 = fst (NewLineBase (MakePos (Some 0) 3 1) ''b'' False 10 0 B1)
   in bases_reach B2 \<and> (\<exists>b. FileBase B2 (MakePos (Some 1) 4 1) = Some b \<and> (b = None \<or> IsFileBase B2 b))"
proof -
  let ?B1 = "fst (NewTrimmedFileBase ''a'' False [])"
  let ?B2 = "fst (NewLineBase (MakePos (Some 0) 3 1) ''b'' False 10 0 ?B1)"
  have r: "bases_reach ?B2"
    by (intro bases_line bases_file bases_nil) (simp add: MakePos_def NewTrimmedFileBase_def Let_def)
  have "case p_base (MakePos (Some 1) 4 1) of None \<Rightarrow> True | Some i \<Rightarrow> i < length ?B2"
    by (simp add: MakePos_def NewTrimmedFileBase_def NewLineBase_def Let_def)
  from file_base_terminates [OF r this] r show ?thesis by (simp only: Let_def)
qed

text \<open>After a line directive, a position is reported in the file of the directive, with the
  line of the directive plus the distance from the position the directive was recorded for.\<close>

lemma line_directive_lines:
  assumes "NewLineBase p f t l c B = (B', b)" "l \<noteq> 0" "l \<le> PosMax" "p_base q = b" "Line p \<le> Line q"
  shows "RelFilename B' q = f \<and> RelLine B' q = l + (Line q - Line p)"
proof -
  have u: "ucast (sat32 l) = l"
    using assms(3) by (subst word_unat_eq_iff, subst unsigned_ucast_eq)
      (simp add: take_bit_nat_eq_self unat_sat32 word_le_nat_alt PosMax_def)
  have "sat32 l \<noteq> 0" using u assms(2) by (metis unsigned_0)
  from RelLine_LineBase [OF assms(1) [symmetric] this assms(4)] u show ?thesis by simp
qed

lemma line_directive_lines_witness:
  "let (B1, b0) = NewFileBase ''x.goo'' []; p = MakePos b0 3 1; (B2, b1) = NewLineBase p ''y.y'' False 100 0 B1;
       q = MakePos b1 7 5 in RelFilename B2 q = ''y.y'' \<and> RelLine B2 q = 104"
proof -
  have l: "Line (MakePos (Some 0) 3 1) = 3" "Line (MakePos (Some 1) 7 5) = 7"
    by (simp_all add: Line_def MakePos_def sat32_def PosMax_def)
  let ?B1 = "fst (NewFileBase ''x.goo'' [])"
  have "length ?B1 = 1" by (simp add: NewFileBase_def NewTrimmedFileBase_def Let_def)
  then have n: "NewLineBase (MakePos (Some 0) 3 1) ''y.y'' False 100 0 ?B1
      = (fst (NewLineBase (MakePos (Some 0) 3 1) ''y.y'' False 100 0 ?B1), Some 1)"
    by (simp add: NewLineBase_def)
  have "RelFilename (fst (NewLineBase (MakePos (Some 0) 3 1) ''y.y'' False 100 0 ?B1)) (MakePos (Some 1) 7 5) = ''y.y''
     \<and> RelLine (fst (NewLineBase (MakePos (Some 0) 3 1) ''y.y'' False 100 0 ?B1)) (MakePos (Some 1) 7 5) = 100 + (7 - 3)"
    using line_directive_lines [OF n, of "MakePos (Some 1) 7 5"] l
    by (simp add: PosMax_def MakePos_def)
  then show ?thesis
    by (simp add: NewFileBase_def NewTrimmedFileBase_def NewLineBase_def Let_def case_prod_beta)
qed

end
