(* ===== verification/Tokens.thy ===== *)
theory Tokens
  imports Prelude
begin

text \<open>
  The token and operator tables of \<open>cmd/compile/internal/syntax/tokens.go\<close> and
  \<open>token_string.go\<close>, the 64-bit token sets of the parser, and the keyword hash table that
  \<open>scanner.go\<close> fills at start-up.

  Go declares the tokens as consecutive \<open>uint\<close> constants; \<open>T_None\<close> stands for the
  zero value, \<open>token_num\<close> gives the constant's value.  The lemmas show that a token set
  built by or-ing shifted bits has exactly the listed members, that start-up never reaches
  the \<open>imperfect hash\<close> panic, and that looking a word up by its hash recognises exactly
  the keywords.
\<close>

subsection \<open>Tokens\<close>

datatype token =
    T_None
  | T_EOF
  | T_Name
  | T_Literal
  | T_Operator
  | T_AssignOp
  | T_IncOp
  | T_Assign
  | T_Define
  | T_Arrow
  | T_Star
  | T_Lparen
  | T_Lbrack
  | T_Lbrace
  | T_Rparen
  | T_Rbrack
  | T_Rbrace
  | T_Comma
  | T_Semi
  | T_Colon
  | T_Dot
  | T_DotDotDot
  | T_Hash
  | T_Break
  | T_Case
  | T_Chan
  | T_Check
  | T_Const
  | T_Enum
  | T_Continue
  | T_Default
  | T_Defer
  | T_Else
  | T_Fallthrough
  | T_For
  | T_Func
  | T_Go
  | T_Goto
  | T_If
  | T_Import
  | T_Interface
  | T_Map
  | T_Package
  | T_Range
  | T_Return
  | T_Select
  | T_Struct
  | T_Switch
  | T_Type
  | T_Var

definition all_tokens :: "token list" where
  "all_tokens =
     [T_None, T_EOF, T_Name, T_Literal, T_Operator, T_AssignOp, T_IncOp, T_Assign,
     T_Define, T_Arrow, T_Star, T_Lparen, T_Lbrack, T_Lbrace, T_Rparen, T_Rbrack, T_Rbrace,
     T_Comma, T_Semi, T_Colon, T_Dot, T_DotDotDot, T_Hash, T_Break, T_Case, T_Chan,
     T_Check, T_Const, T_Enum, T_Continue, T_Default, T_Defer, T_Else, T_Fallthrough,
     T_For, T_Func, T_Go, T_Goto, T_If, T_Import, T_Interface, T_Map, T_Package, T_Range,
     T_Return, T_Select, T_Struct, T_Switch, T_Type, T_Var]"

text \<open>The value of the Go constant: its position in the \<open>iota\<close> list.\<close>

fun token_num :: "token \<Rightarrow> nat" where
  "token_num T_None = 0"
| "token_num T_EOF = 1"
| "token_num T_Name = 2"
| "token_num T_Literal = 3"
| "token_num T_Operator = 4"
| "token_num T_AssignOp = 5"
| "token_num T_IncOp = 6"
| "token_num T_Assign = 7"
| "token_num T_Define = 8"
| "token_num T_Arrow = 9"
| "token_num T_Star = 10"
| "token_num T_Lparen = 11"
| "token_num T_Lbrack = 12"
| "token_num T_Lbrace = 13"
| "token_num T_Rparen = 14"
| "token_num T_Rbrack = 15"
| "token_num T_Rbrace = 16"
| "token_num T_Comma = 17"
| "token_num T_Semi = 18"
| "token_num T_Colon = 19"
| "token_num T_Dot = 20"
| "token_num T_DotDotDot = 21"
| "token_num T_Hash = 22"
| "token_num T_Break = 23"
| "token_num T_Case = 24"
| "token_num T_Chan = 25"
| "token_num T_Check = 26"
| "token_num T_Const = 27"
| "token_num T_Enum = 28"
| "token_num T_Continue = 29"
| "token_num T_Default = 30"
| "token_num T_Defer = 31"
| "token_num T_Else = 32"
| "token_num T_Fallthrough = 33"
| "token_num T_For = 34"
| "token_num T_Func = 35"
| "token_num T_Go = 36"
| "token_num T_Goto = 37"
| "token_num T_If = 38"
| "token_num T_Import = 39"
| "token_num T_Interface = 40"
| "token_num T_Map = 41"
| "token_num T_Package = 42"
| "token_num T_Range = 43"
| "token_num T_Return = 44"
| "token_num T_Select = 45"
| "token_num T_Struct = 46"
| "token_num T_Switch = 47"
| "token_num T_Type = 48"
| "token_num T_Var = 49"

definition tokenCount :: nat where
  "tokenCount = 50"

text \<open>\<open>TokenNames\<close>; the array literal has no entry for \<open>_Hash\<close>, which leaves it empty.\<close>

fun TokenNames :: "token \<Rightarrow> string" where
  "TokenNames T_None = []"
| "TokenNames T_EOF = ''EOF''"
| "TokenNames T_Name = ''name''"
| "TokenNames T_Literal = ''literal''"
| "TokenNames T_Operator = ''op''"
| "TokenNames T_AssignOp = ''op=''"
| "TokenNames T_IncOp = ''opop''"
| "TokenNames T_Assign = ''=''"
| "TokenNames T_Define = '':=''"
| "TokenNames T_Arrow = ''<-''"
| "TokenNames T_Star = ''*''"
| "TokenNames T_Lparen = ''(''"
| "TokenNames T_Lbrack = ''[''"
| "TokenNames T_Lbrace = ''{''"
| "TokenNames T_Rparen = '')''"
| "TokenNames T_Rbrack = '']''"
| "TokenNames T_Rbrace = ''}''"
| "TokenNames T_Comma = '',''"
| "TokenNames T_Semi = '';''"
| "TokenNames T_Colon = '':''"
| "TokenNames T_Dot = ''.''"
| "TokenNames T_DotDotDot = ''...''"
| "TokenNames T_Hash = []"
| "TokenNames T_Break = ''break''"
| "TokenNames T_Case = ''case''"
| "TokenNames T_Chan = ''chan''"
| "TokenNames T_Check = ''check''"
| "TokenNames T_Const = ''const''"
| "TokenNames T_Enum = ''enum''"
| "TokenNames T_Continue = ''continue''"
| "TokenNames T_Default = ''default''"
| "TokenNames T_Defer = ''defer''"
| "TokenNames T_Else = ''else''"
| "TokenNames T_Fallthrough = ''fallthrough''"
| "TokenNames T_For = ''for''"
| "TokenNames T_Func = ''func''"
| "TokenNames T_Go = ''go''"
| "TokenNames T_Goto = ''goto''"
| "TokenNames T_If = ''if''"
| "TokenNames T_Import = ''import''"
| "TokenNames T_Interface = ''interface''"
| "TokenNames T_Map = ''map''"
| "TokenNames T_Package = ''package''"
| "TokenNames T_Range = ''range''"
| "TokenNames T_Return = ''return''"
| "TokenNames T_Select = ''select''"
| "TokenNames T_Struct = ''struct''"
| "TokenNames T_Switch = ''switch''"
| "TokenNames T_Type = ''type''"
| "TokenNames T_Var = ''var''"

definition token_String :: "token \<Rightarrow> string" where
  "token_String tok = (if TokenNames tok \<noteq> [] then TokenNames tok
     else ''token('' @ itoa (token_num tok) @ '')'')"

definition tokStrFast :: "token \<Rightarrow> string" where
  "tokStrFast tok = TokenNames tok"

subsection \<open>Token sets\<close>

definition tokbit :: "token \<Rightarrow> 64 word" where
  "tokbit tok = push_bit (token_num tok) 1"

definition contains :: "64 word \<Rightarrow> token \<Rightarrow> bool" where
  "contains tokset tok \<longleftrightarrow> tokset AND tokbit tok \<noteq> 0"

definition tokset_of :: "token list \<Rightarrow> 64 word" where
  "tokset_of toks = foldr (\<lambda>t w. tokbit t OR w) toks 0"

subsection \<open>Literal kinds and operators\<close>

datatype LitKind = IntLit | FloatLit | ImagLit | RuneLit | StringLit

datatype Operator =
    Op_None
  | Op_Def
  | Op_Not
  | Op_Recv
  | Op_Tilde
  | Op_OrOr
  | Op_AndAnd
  | Op_Eql
  | Op_Neq
  | Op_Lss
  | Op_Leq
  | Op_Gtr
  | Op_Geq
  | Op_Add
  | Op_Sub
  | Op_Or
  | Op_Xor
  | Op_Mul
  | Op_Div
  | Op_Rem
  | Op_And
  | Op_AndNot
  | Op_Shl
  | Op_Shr

fun Operator_num :: "Operator \<Rightarrow> nat" where
  "Operator_num Op_None = 0"
| "Operator_num Op_Def = 1"
| "Operator_num Op_Not = 2"
| "Operator_num Op_Recv = 3"
| "Operator_num Op_Tilde = 4"
| "Operator_num Op_OrOr = 5"
| "Operator_num Op_AndAnd = 6"
| "Operator_num Op_Eql = 7"
| "Operator_num Op_Neq = 8"
| "Operator_num Op_Lss = 9"
| "Operator_num Op_Leq = 10"
| "Operator_num Op_Gtr = 11"
| "Operator_num Op_Geq = 12"
| "Operator_num Op_Add = 13"
| "Operator_num Op_Sub = 14"
| "Operator_num Op_Or = 15"
| "Operator_num Op_Xor = 16"
| "Operator_num Op_Mul = 17"
| "Operator_num Op_Div = 18"
| "Operator_num Op_Rem = 19"
| "Operator_num Op_And = 20"
| "Operator_num Op_AndNot = 21"
| "Operator_num Op_Shl = 22"
| "Operator_num Op_Shr = 23"

fun OperatorNames :: "Operator \<Rightarrow> string" where
  "OperatorNames Op_None = []"
| "OperatorNames Op_Def = '':''"
| "OperatorNames Op_Not = ''!''"
| "OperatorNames Op_Recv = ''<-''"
| "OperatorNames Op_Tilde = ''~''"
| "OperatorNames Op_OrOr = ''||''"
| "OperatorNames Op_AndAnd = ''&&''"
| "OperatorNames Op_Eql = ''==''"
| "OperatorNames Op_Neq = ''!=''"
| "OperatorNames Op_Lss = ''<''"
| "OperatorNames Op_Leq = ''<=''"
| "OperatorNames Op_Gtr = ''>''"
| "OperatorNames Op_Geq = ''>=''"
| "OperatorNames Op_Add = ''+''"
| "OperatorNames Op_Sub = ''-''"
| "OperatorNames Op_Or = ''|''"
| "OperatorNames Op_Xor = ''^''"
| "OperatorNames Op_Mul = ''*''"
| "OperatorNames Op_Div = ''/''"
| "OperatorNames Op_Rem = ''%''"
| "OperatorNames Op_And = ''&''"
| "OperatorNames Op_AndNot = ''&^''"
| "OperatorNames Op_Shl = ''<<''"
| "OperatorNames Op_Shr = ''>>''"

definition Operator_String :: "Operator \<Rightarrow> string" where
  "Operator_String op = (if OperatorNames op \<noteq> [] then OperatorNames op
     else ''Operator('' @ itoa (Operator_num op) @ '')'')"

text \<open>Operator precedences.\<close>

definition precOrOr :: nat where "precOrOr = 1"
definition precAndAnd :: nat where "precAndAnd = 2"
definition precCmp :: nat where "precCmp = 3"
definition precAdd :: nat where "precAdd = 4"
definition precMul :: nat where "precMul = 5"

lemmas prec_defs = precOrOr_def precAndAnd_def precCmp_def precAdd_def precMul_def

subsection \<open>The keyword table\<close>

text \<open>
  \<open>hash\<close> reads \<open>s[0]\<close> and \<open>s[1]\<close>; on a shorter slice Go panics, which is \<open>None\<close> here.
  Go's \<open>^\<close> and \<open>+\<close> have the same precedence and associate to the left.
\<close>

fun hash :: "string \<Rightarrow> (64 word) option" where
  "hash (a # b # s) =
     Some (((push_bit 4 (of_char a) XOR of_char b) + of_nat (length (a # b # s))) AND 127)"
| "hash _ = None"

definition keyword_tokens :: "token list" where
  "keyword_tokens = filter (\<lambda>t. token_num T_Break \<le> token_num t \<and> token_num t \<le> token_num T_Var)
     all_tokens"

text \<open>
  One round of the \<open>init\<close> loop: \<open>None\<close> is the \<open>imperfect hash\<close> panic (or a hash panic).
\<close>

definition keywordMap_insert :: "token \<Rightarrow> token list \<Rightarrow> token list option" where
  "keywordMap_insert tok m =
     (case hash (token_String tok) of
        None \<Rightarrow> None
      | Some h \<Rightarrow> if m ! unat h \<noteq> T_None then None else Some (m[unat h := tok]))"

fun keywordMap_fill :: "token list \<Rightarrow> token list \<Rightarrow> token list option" where
  "keywordMap_fill [] m = Some m"
| "keywordMap_fill (t # ts) m =
     (case keywordMap_insert t m of None \<Rightarrow> None | Some m' \<Rightarrow> keywordMap_fill ts m')"

definition keywordMap_init :: "token list option" where
  "keywordMap_init = keywordMap_fill keyword_tokens (replicate 128 T_None)"

text \<open>The table after start-up.\<close>

definition keywordMap :: "token list" where
  "keywordMap = (case keywordMap_init of None \<Rightarrow> [] | Some m \<Rightarrow> m)"

text \<open>The lookup in \<open>scanner.ident\<close> (lines 395--402).\<close>

definition keyword_lookup :: "string \<Rightarrow> token option" where
  "keyword_lookup lit =
     (if length lit \<ge> 2 then
        (case hash lit of
           None \<Rightarrow> None
         | Some h \<Rightarrow>
             let tok = keywordMap ! unat h in
             if tok \<noteq> T_None \<and> tokStrFast tok = lit then Some tok else None)
      else None)"

subsection \<open>Lemmas: token numbers and token sets\<close>

lemma token_num_less [simp]: "token_num t < tokenCount"
  by (cases t) (simp_all add: tokenCount_def)

lemma token_num_less_64: "token_num t < 64"
  using token_num_less [of t] by (simp add: tokenCount_def)

lemma all_tokens_nth: "all_tokens ! token_num t = t"
  by (cases t) (simp_all add: all_tokens_def)

lemma token_num_inject [simp]: "token_num s = token_num t \<longleftrightarrow> s = t"
  by (metis all_tokens_nth)

lemma all_tokens_complete: "t \<in> set all_tokens"
  by (cases t) (simp_all add: all_tokens_def)

lemma contains_iff_bit: "contains w t \<longleftrightarrow> bit w (token_num t)"
  by (simp add: contains_def tokbit_def bit_iff_and_push_bit_not_eq_0)

lemma bit_tokbit [simp]: "bit (tokbit s) (token_num t) \<longleftrightarrow> s = t"
  by (auto simp: tokbit_def bit_exp_iff token_num_less_64 possible_bit_word)

lemma contains_0 [simp]: "\<not> contains 0 t"
  by (simp add: contains_def)

lemma contains_or [simp]: "contains (v OR w) t \<longleftrightarrow> contains v t \<or> contains w t"
  by (simp add: contains_iff_bit bit_or_iff)

lemma contains_tokbit [simp]: "contains (tokbit s) t \<longleftrightarrow> s = t"
  by (simp add: contains_iff_bit)

lemma contains_tokset_of: "contains (tokset_of ts) t \<longleftrightarrow> t \<in> set ts"
  by (induction ts) (auto simp: tokset_of_def)

subsection \<open>Lemmas: the keyword table\<close>

lemma keywordMap_init_eq:
  "keywordMap_init = Some
  [T_None, T_None, T_None, T_Import, T_Var, T_None, T_None, T_Interface,
   T_None, T_None, T_None, T_None, T_Fallthrough, T_None, T_None, T_None,
   T_None, T_None, T_For, T_None, T_None, T_None, T_None, T_None, T_None,
   T_Func, T_None, T_None, T_None, T_None, T_None, T_None, T_None, T_Go,
   T_None, T_Goto, T_None, T_None, T_None, T_None, T_None, T_None, T_Defer,
   T_None, T_Default, T_None, T_None, T_None, T_None, T_None, T_None,
   T_None, T_Map, T_None, T_None, T_None, T_None, T_None, T_None, T_None,
   T_None, T_Type, T_None, T_None, T_Else, T_None, T_Enum, T_None, T_None,
   T_None, T_Range, T_None, T_None, T_None, T_Struct, T_Return, T_None,
   T_Switch, T_None, T_None, T_None, T_None, T_None, T_None, T_None, T_Case,
   T_None, T_Break, T_None, T_None, T_None, T_Select, T_Chan, T_Check,
   T_None, T_None, T_None, T_None, T_None, T_None, T_Const, T_None, T_None,
   T_Continue, T_Package, T_None, T_None, T_None, T_None, T_None, T_None,
   T_None, T_None, T_None, T_None, T_None, T_None, T_None, T_None, T_None,
   T_If, T_None, T_None, T_None, T_None, T_None, T_None, T_None]"
  by code_simp

lemma keywordMap_eq [code]:
  "keywordMap =
  [T_None, T_None, T_None, T_Import, T_Var, T_None, T_None, T_Interface,
   T_None, T_None, T_None, T_None, T_Fallthrough, T_None, T_None, T_None,
   T_None, T_None, T_For, T_None, T_None, T_None, T_None, T_None, T_None,
   T_Func, T_None, T_None, T_None, T_None, T_None, T_None, T_None, T_Go,
   T_None, T_Goto, T_None, T_None, T_None, T_None, T_None, T_None, T_Defer,
   T_None, T_Default, T_None, T_None, T_None, T_None, T_None, T_None,
   T_None, T_Map, T_None, T_None, T_None, T_None, T_None, T_None, T_None,
   T_None, T_Type, T_None, T_None, T_Else, T_None, T_Enum, T_None, T_None,
   T_None, T_Range, T_None, T_None, T_None, T_Struct, T_Return, T_None,
   T_Switch, T_None, T_None, T_None, T_None, T_None, T_None, T_None, T_Case,
   T_None, T_Break, T_None, T_None, T_None, T_Select, T_Chan, T_Check,
   T_None, T_None, T_None, T_None, T_None, T_None, T_Const, T_None, T_None,
   T_Continue, T_Package, T_None, T_None, T_None, T_None, T_None, T_None,
   T_None, T_None, T_None, T_None, T_None, T_None, T_None, T_None, T_None,
   T_If, T_None, T_None, T_None, T_None, T_None, T_None, T_None]"
  by (simp only: keywordMap_def keywordMap_init_eq option.case)

lemma keyword_lookup_keywords:
  "list_all (\<lambda>t. keyword_lookup (TokenNames t) = Some t) keyword_tokens"
  by code_simp

lemma keywordMap_members:
  "list_all (\<lambda>t. t = T_None \<or> List.member keyword_tokens t) keywordMap"
  by code_simp

lemma keywordMap_length: "length keywordMap = 128"
  by (simp add: keywordMap_eq)

lemma hash_less: "hash s = Some h \<Longrightarrow> unat h < 128"
proof (induction s rule: hash.induct)
  case (1 a b s)
  then have "h \<le> 127" using word_and_le1 by auto
  then have "unat h \<le> 127" by (simp add: word_le_nat_alt)
  then show ?case by simp
qed simp_all

lemma keyword_lookup_iff:
  "keyword_lookup lit = Some tok \<longleftrightarrow> tok \<in> set keyword_tokens \<and> TokenNames tok = lit"
proof
  assume l: "keyword_lookup lit = Some tok"
  then obtain h where h: "hash lit = Some h" and t: "tok = keywordMap ! unat h"
    and n: "tok \<noteq> T_None" "TokenNames tok = lit"
    by (auto simp: keyword_lookup_def tokStrFast_def Let_def split: if_splits option.splits)
  have "tok \<in> set keywordMap"
    using hash_less [OF h] t by (simp add: keywordMap_length)
  with keywordMap_members n show "tok \<in> set keyword_tokens \<and> TokenNames tok = lit"
    by (auto simp: list_all_iff)
next
  assume "tok \<in> set keyword_tokens \<and> TokenNames tok = lit"
  with keyword_lookup_keywords show "keyword_lookup lit = Some tok"
    by (auto simp: list_all_iff)
qed

subsection \<open>Properties\<close>

text \<open>A token set built from a list of tokens contains exactly these tokens; the set is a 64-bit
  word, and no token's bit is lost.\<close>

lemma token_set_membership: "contains (tokset_of ts) t \<longleftrightarrow> t \<in> set ts"
  by (rule contains_tokset_of)

text \<open>C38: filling the keyword table at start-up never meets a collision, and the lookup in it accepts
  exactly the spellings of the keywords, each as its own token.\<close>

theorem keyword_recognition:
  "keywordMap_init \<noteq> None
   \<and> (keyword_lookup l = Some t \<longleftrightarrow> t \<in> set keyword_tokens \<and> TokenNames t = l)"
  by (simp add: keywordMap_init_eq keyword_lookup_iff)

text \<open>The token \<open>_Hash\<close> has no entry in \<open>TokenNames\<close>, so its printed form is the number of the
  token, unlike that of every other token of the language.\<close>

theorem hash_token_unnamed:
  "token_String T_Hash = ''token(22)''
   \<and> list_all (\<lambda>t. t = T_Hash \<or> t = T_None \<or> token_String t = TokenNames t \<and> TokenNames t \<noteq> []) all_tokens"
  by code_simp

end
