(* ===== verification/Nodes.thy ===== *)
theory Nodes
  imports Pos Tokens
begin

text \<open>
  The syntax tree of \<open>cmd/compile/internal/syntax/nodes.go\<close>.  Every Go struct is a constructor whose
  first argument is the position of the node and whose other arguments are the fields in the
  order of the source; a field that may be nil is an \<open>option\<close>.  The five statements whose
  identity \<open>branches.go\<close> observes carry an address (\<open>addr\<close>), a number the parser hands out at
  each allocation.  \<open>BranchStmt.Target\<close> is kept beside the tree, as a map from addresses to
  addresses.  The results of type checking (\<open>typeAndValue\<close>) are not part of the tree.
\<close>

type_synonym addr = nat

record Name =
  n_pos :: Pos
  n_value :: string

record BasicLit =
  l_pos :: Pos
  l_value :: string
  l_kind :: LitKind
  l_bad :: bool

definition NewName :: "Pos \<Rightarrow> string \<Rightarrow> Name" where
  "NewName p v = \<lparr>n_pos = p, n_value = v\<rparr>"

datatype ChanDir = NoDir | SendOnly | RecvOnly

datatype (plugins only: code size) Expr =
    BadExpr Pos
  | NameE Name
  | LitE BasicLit
  | CompositeLit Pos "Expr option" "Expr list" nat Pos
  | KeyValueExpr Pos Expr Expr
  | FuncLit Pos FuncType BlockStmt
  | ParenExpr Pos Expr
  | SelectorExpr Pos Expr Name
  | IndexExpr Pos Expr Expr
  | SliceExpr Pos Expr "Expr option" "Expr option" "Expr option" bool
  | AssertExpr Pos Expr Expr
  | TypeSwitchGuard Pos "Name option" Expr
  | Operation Pos Operator Expr "Expr option"
  | CallExpr Pos Expr "Expr list" bool
  | ListExpr Pos "Expr list"
  | ArrayType Pos "Expr option" Expr
  | SliceType Pos Expr
  | DotsType Pos Expr
  | StructType Pos "Field list" "BasicLit option list"
  | InterfaceType Pos "Field list"
  | FuncTypeE FuncType
  | MapType Pos Expr Expr
  | ChanType Pos ChanDir Expr
and Field = Field Pos "Name option" "Expr option"
and FuncType = FuncType Pos "Field list" "Field list"
and BlockStmt = Block Pos "Stmt list" Pos
and Stmt =
    EmptyStmt Pos
  | LabeledStmt addr Pos Name Stmt
  | BlockS BlockStmt
  | ExprStmt Pos Expr
  | SendStmt Pos Expr Expr
  | DeclStmt Pos "Decl list"
  | AssignStmt Pos Operator Expr "Expr option"
  | BranchStmt addr Pos token "Name option"
  | CallStmt Pos token Expr
  | ReturnStmt Pos "Expr option"
  | CheckStmt Pos Expr
  | IfStmt Pos "Stmt option" "Expr option" BlockStmt "Stmt option"
  | ForStmt addr Pos "Stmt option" "Expr option" "Stmt option" BlockStmt
  | SwitchStmt addr Pos "Stmt option" "Expr option" "CaseClause list" Pos
  | SelectStmt addr Pos "CommClause list" Pos
  | RangeClause Pos "Expr option" bool Expr
and CaseClause = CaseClause Pos "Expr option" "Stmt list" Pos
and CommClause = CommClause Pos "Stmt option" "Stmt list" Pos
and Decl =
    ImportDecl Pos "nat option" "nat option" "Name option" "BasicLit option"
  | ConstDecl Pos "nat option" "nat option" "Name list" "Expr option" "Expr option"
  | TypeDecl Pos "nat option" "nat option" Name "Field list" bool Expr
  | VarDecl Pos "nat option" "nat option" "Name list" "Expr option" "Expr option"
  | FuncDecl Pos "nat option" "Field option" Name "Field list" FuncType "BlockStmt option"

end
