(* ===== verification/Branches.thy ===== *)
theory Branches
  imports Nodes
begin

text \<open>
  \<open>cmd/compile/internal/syntax/branches.go\<close>: the check of labels and branch statements of a
  function body.  A \<open>*block\<close> is a record with a number of its own; the chain of enclosing blocks is
  the list of them, innermost first.  The Go code sets \<open>BranchStmt.Target\<close> in place; here the
  writes are recorded in order, as pairs of the address of the branch statement and the address of
  its target.  The Go map of labels is an association list in the order of declaration (the
  code iterates over it only to report unused labels, in no particular order).  The printer and the
  position bases, which only occur in messages, are the parameters \<open>str\<close> and \<open>B\<close>.
\<close>

record block =
  blk_id :: nat
  blk_start :: Pos
  blk_lstmt :: "addr option"

record label =
  lb_parent :: block
  lb_addr :: addr
  lb_label :: Name
  lb_stmt :: Stmt
  lb_used :: bool

record labelScope =
  ls_errs :: "(Pos \<times> string) list"
  ls_labels :: "(string \<times> label) list"
  ls_targets :: "(addr \<times> addr) list"
  ls_next :: nat
  ls_panic :: bool

record targets =
  t_breaks :: "Stmt option"
  t_continues :: "Stmt option"
  t_caseIndex :: int

record fwd_goto =
  g_addr :: addr
  g_label :: Name

text \<open>The local variables of \<open>blockBranches\<close>.\<close>

record branch_vars =
  v_pos :: Pos
  v_name :: "Expr option"
  v_fwd :: "fwd_goto list"
  v_bad :: "fwd_goto list"

definition ls_errf :: "Pos \<Rightarrow> string \<Rightarrow> labelScope \<Rightarrow> labelScope" where
  "ls_errf p msg ls = ls\<lparr>ls_errs := ls_errs ls @ [(p, msg)]\<rparr>"

definition set_target :: "addr \<Rightarrow> addr \<Rightarrow> labelScope \<Rightarrow> labelScope" where
  "set_target a t ls = ls\<lparr>ls_targets := ls_targets ls @ [(a, t)]\<rparr>"

definition set_used :: "string \<Rightarrow> labelScope \<Rightarrow> labelScope" where
  "set_used name ls =
     ls\<lparr>ls_labels := map (\<lambda>(n, l). (n, if n = name then l\<lparr>lb_used := True\<rparr> else l)) (ls_labels ls)\<rparr>"

definition declare_label :: "bases \<Rightarrow> block \<Rightarrow> addr \<Rightarrow> Name \<Rightarrow> Stmt \<Rightarrow> labelScope \<Rightarrow> labelScope" where
  "declare_label B b a l s ls =
     (case map_of (ls_labels ls) (n_value l) of
        Some alt \<Rightarrow> ls_errf (n_pos l) (''label '' @ n_value l @ '' already defined at ''
                      @ Pos_String B (n_pos (lb_label alt))) ls
      | None \<Rightarrow> ls\<lparr>ls_labels := ls_labels ls @
          [(n_value l, \<lparr>lb_parent = b, lb_addr = a, lb_label = l, lb_stmt = s, lb_used = False\<rparr>)]\<rparr>)"

definition gotoTarget :: "block list \<Rightarrow> string \<Rightarrow> labelScope \<Rightarrow> addr option \<times> labelScope" where
  "gotoTarget bs name ls =
     (case map_of (ls_labels ls) name of
        Some l \<Rightarrow> (if list_ex (\<lambda>b. blk_id (lb_parent l) = blk_id b) bs then Some (lb_addr l) else None,
                   set_used name ls)
      | None \<Rightarrow> (None, ls))"

datatype enclosing = NoLabel | InvalidLabel | Encl Stmt

definition enclosingTarget :: "block list \<Rightarrow> string \<Rightarrow> labelScope \<Rightarrow> enclosing \<times> labelScope" where
  "enclosingTarget bs name ls =
     (case map_of (ls_labels ls) name of
        Some l \<Rightarrow> (if list_ex (\<lambda>b. blk_lstmt b = Some (lb_addr l)) bs then Encl (lb_stmt l)
                   else InvalidLabel, set_used name ls)
      | None \<Rightarrow> (NoLabel, ls))"

fun trimTrailingEmptyStmts :: "Stmt list \<Rightarrow> Stmt list" where
  "trimTrailingEmptyStmts [] = []"
| "trimTrailingEmptyStmts (s # ss) =
     (case trimTrailingEmptyStmts ss of
        [] \<Rightarrow> (case s of EmptyStmt _ \<Rightarrow> [] | _ \<Rightarrow> [s])
      | r \<Rightarrow> s # r)"

definition recordVarDecl :: "Pos \<Rightarrow> Expr \<Rightarrow> branch_vars \<Rightarrow> branch_vars" where
  "recordVarDecl p name v = v\<lparr>v_pos := p, v_name := Some name, v_bad := v_fwd v\<rparr>"

definition jumpsOverVarDecl :: "fwd_goto \<Rightarrow> branch_vars \<Rightarrow> bool" where
  "jumpsOverVarDecl f v \<longleftrightarrow> IsKnown (v_pos v) \<and> list_ex (\<lambda>g. g_addr g = g_addr f) (v_bad v)"

text \<open>The case \<open>*DeclStmt\<close>: the first variable declaration of the list.\<close>

fun record_decls :: "Decl list \<Rightarrow> branch_vars \<Rightarrow> branch_vars" where
  "record_decls [] v = v"
| "record_decls (d # ds) v =
     (case d of VarDecl p _ _ (n # _) _ _ \<Rightarrow> recordVarDecl p (NameE n) v | _ \<Rightarrow> record_decls ds v)"

text \<open>The case \<open>*LabeledStmt\<close>: resolve the forward gotos to the label.\<close>

definition goto_over_msg :: "bases \<Rightarrow> (Expr \<Rightarrow> string) \<Rightarrow> string \<Rightarrow> branch_vars \<Rightarrow> string" where
  "goto_over_msg B str name v =
     ''goto '' @ name @ '' jumps over declaration of ''
       @ (case v_name v of Some e \<Rightarrow> str e | None \<Rightarrow> []) @ '' at '' @ Pos_String B (v_pos v)"

fun resolve_gotos ::
    "bases \<Rightarrow> (Expr \<Rightarrow> string) \<Rightarrow> addr \<Rightarrow> string \<Rightarrow> branch_vars \<Rightarrow> fwd_goto list \<Rightarrow> labelScope
       \<Rightarrow> fwd_goto list \<times> labelScope" where
  "resolve_gotos B str a name v [] ls = ([], ls)"
| "resolve_gotos B str a name v (f # fs) ls =
     (if n_value (g_label f) = name then
        let ls = set_used name (set_target (g_addr f) a ls);
            ls = (if jumpsOverVarDecl f v
                  then ls_errf (n_pos (g_label f)) (goto_over_msg B str name v) ls else ls)
        in resolve_gotos B str a name v fs ls
      else
        let (kept, ls) = resolve_gotos B str a name v fs ls in (f # kept, ls))"

fun stmt_addr :: "Stmt \<Rightarrow> addr" where
  "stmt_addr (LabeledStmt a _ _ _) = a"
| "stmt_addr (BranchStmt a _ _ _) = a"
| "stmt_addr (ForStmt a _ _ _ _ _) = a"
| "stmt_addr (SwitchStmt a _ _ _ _ _) = a"
| "stmt_addr (SelectStmt a _ _ _) = a"
| "stmt_addr _ = 0"

fun is_breakable :: "Stmt \<Rightarrow> bool" where
  "is_breakable (ForStmt _ _ _ _ _ _) = True"
| "is_breakable (SwitchStmt _ _ _ _ _ _) = True"
| "is_breakable (SelectStmt _ _ _ _) = True"
| "is_breakable _ = False"

fun is_for :: "Stmt \<Rightarrow> bool" where
  "is_for (ForStmt _ _ _ _ _ _) = True"
| "is_for _ = False"

text \<open>The message of a misplaced \<open>fallthrough\<close>; \<open>None\<close> when it is in place.\<close>

definition fallthrough_msg :: "targets \<Rightarrow> bool \<Rightarrow> string option" where
  "fallthrough_msg ctxt is_last =
     (case t_breaks ctxt of
        Some (SwitchStmt _ _ _ tag body _) \<Rightarrow>
          (case tag of
             Some (TypeSwitchGuard _ _ _) \<Rightarrow> Some ''cannot fallthrough in type switch''
           | _ \<Rightarrow>
               if t_caseIndex ctxt < 0 \<or> \<not> is_last then Some ''fallthrough statement out of place''
               else if t_caseIndex ctxt + 1 = int (length body)
               then Some ''cannot fallthrough final case in switch''
               else None)
      | _ \<Rightarrow> Some ''fallthrough statement out of place'')"

text \<open>The case \<open>*BranchStmt\<close>; the first result is a goto to add to the forward gotos.\<close>

definition branch_unlabeled :: "targets \<Rightarrow> bool \<Rightarrow> addr \<Rightarrow> Pos \<Rightarrow> token \<Rightarrow> labelScope \<Rightarrow> labelScope" where
  "branch_unlabeled ctxt is_last a p t ls =
     (case t of
        T_Break \<Rightarrow> (case t_breaks ctxt of
            Some s \<Rightarrow> set_target a (stmt_addr s) ls
          | None \<Rightarrow> ls_errf p ''break is not in a loop, switch, or select'' ls)
      | T_Continue \<Rightarrow> (case t_continues ctxt of
            Some s \<Rightarrow> set_target a (stmt_addr s) ls
          | None \<Rightarrow> ls_errf p ''continue is not in a loop'' ls)
      | T_Fallthrough \<Rightarrow> (case fallthrough_msg ctxt is_last of
            Some m \<Rightarrow> ls_errf p m ls
          | None \<Rightarrow> ls)
      | _ \<Rightarrow> ls\<lparr>ls_panic := True\<rparr>)"

definition branch_labeled ::
    "block list \<Rightarrow> addr \<Rightarrow> token \<Rightarrow> Name \<Rightarrow> labelScope \<Rightarrow> fwd_goto list \<times> labelScope" where
  "branch_labeled bs a t l ls =
     (let name = n_value l in
      case t of
        T_Break \<Rightarrow> (case enclosingTarget bs name ls of
            (Encl s, ls) \<Rightarrow> ([], if is_breakable s then set_target a (stmt_addr s) ls
                                 else ls_errf (n_pos l) (''invalid break label '' @ name) ls)
          | (InvalidLabel, ls) \<Rightarrow> ([], ls_errf (n_pos l) (''invalid break label '' @ name) ls)
          | (NoLabel, ls) \<Rightarrow> ([], ls_errf (n_pos l) (''break label not defined: '' @ name) ls))
      | T_Continue \<Rightarrow> (case enclosingTarget bs name ls of
            (Encl s, ls) \<Rightarrow> ([], if is_for s then set_target a (stmt_addr s) ls
                                 else ls_errf (n_pos l) (''invalid continue label '' @ name) ls)
          | (InvalidLabel, ls) \<Rightarrow> ([], ls_errf (n_pos l) (''invalid continue label '' @ name) ls)
          | (NoLabel, ls) \<Rightarrow> ([], ls_errf (n_pos l) (''continue label not defined: '' @ name) ls))
      | T_Goto \<Rightarrow> (case gotoTarget bs name ls of
            (Some t, ls) \<Rightarrow> ([], set_target a t ls)
          | (None, ls) \<Rightarrow> ([\<lparr>g_addr = a, g_label = l\<rparr>], ls))
      | _ \<Rightarrow> ([], ls\<lparr>ls_panic := True\<rparr>))"

text \<open>
  \<open>blockBranches\<close>, its loop over the statements, and its \<open>switch\<close>.  \<open>bs\<close> is the chain of enclosing
  blocks, in the loop with the current block first; \<open>ll\<close> is the variable \<open>lstmt\<close>.
\<close>

lemma size_trim: "size_list size (trimTrailingEmptyStmts ss) \<le> size_list size ss"
  by (induction ss) (auto split: list.splits Stmt.splits)

definition add_fwd :: "fwd_goto list \<Rightarrow> branch_vars \<Rightarrow> branch_vars" where
  "add_fwd fs v = v\<lparr>v_fwd := v_fwd v @ fs\<rparr>"

definition no_vars :: branch_vars where
  "no_vars = \<lparr>v_pos = zero_Pos, v_name = None, v_fwd = [], v_bad = []\<rparr>"

definition nested :: "targets \<Rightarrow> targets" where
  "nested ctxt = ctxt\<lparr>t_caseIndex := -1\<rparr>"

fun stmt_pos :: "Stmt \<Rightarrow> Pos" where
  "stmt_pos (EmptyStmt p) = p"
| "stmt_pos (LabeledStmt _ p _ _) = p"
| "stmt_pos (BlockS (Block p _ _)) = p"
| "stmt_pos (ExprStmt p _) = p"
| "stmt_pos (SendStmt p _ _) = p"
| "stmt_pos (DeclStmt p _) = p"
| "stmt_pos (AssignStmt p _ _ _) = p"
| "stmt_pos (BranchStmt _ p _ _) = p"
| "stmt_pos (CallStmt p _ _) = p"
| "stmt_pos (ReturnStmt p _) = p"
| "stmt_pos (CheckStmt p _) = p"
| "stmt_pos (IfStmt p _ _ _ _) = p"
| "stmt_pos (ForStmt _ p _ _ _ _) = p"
| "stmt_pos (SwitchStmt _ p _ _ _ _) = p"
| "stmt_pos (SelectStmt _ p _ _) = p"
| "stmt_pos (RangeClause p _ _ _) = p"

function (sequential)
  blockBranches :: "bases \<Rightarrow> (Expr \<Rightarrow> string) \<Rightarrow> block list \<Rightarrow> targets \<Rightarrow> addr option \<Rightarrow> Pos \<Rightarrow> Stmt list
      \<Rightarrow> labelScope \<Rightarrow> fwd_goto list \<times> labelScope" and
  stmts_branches :: "bases \<Rightarrow> (Expr \<Rightarrow> string) \<Rightarrow> block list \<Rightarrow> targets \<Rightarrow> Stmt list
      \<Rightarrow> branch_vars \<times> labelScope \<Rightarrow> branch_vars \<times> labelScope" and
  stmt_branches :: "bases \<Rightarrow> (Expr \<Rightarrow> string) \<Rightarrow> block list \<Rightarrow> targets \<Rightarrow> addr option \<Rightarrow> bool \<Rightarrow> Stmt
      \<Rightarrow> branch_vars \<times> labelScope \<Rightarrow> branch_vars \<times> labelScope" and
  cases_branches :: "bases \<Rightarrow> (Expr \<Rightarrow> string) \<Rightarrow> block list \<Rightarrow> targets \<Rightarrow> addr option \<Rightarrow> nat \<Rightarrow> CaseClause list
      \<Rightarrow> branch_vars \<times> labelScope \<Rightarrow> branch_vars \<times> labelScope" and
  comms_branches :: "bases \<Rightarrow> (Expr \<Rightarrow> string) \<Rightarrow> block list \<Rightarrow> targets \<Rightarrow> addr option \<Rightarrow> CommClause list
      \<Rightarrow> branch_vars \<times> labelScope \<Rightarrow> branch_vars \<times> labelScope"
where
  "blockBranches B str bs ctxt ll start body ls =
     (let b = \<lparr>blk_id = ls_next ls, blk_start = start, blk_lstmt = ll\<rparr>;
          (v, ls) = stmts_branches B str (b # bs) ctxt (trimTrailingEmptyStmts body)
                      (no_vars, ls\<lparr>ls_next := ls_next ls + 1\<rparr>)
      in (v_fwd v, ls))"
| "stmts_branches B str bs ctxt [] vl = vl"
| "stmts_branches B str bs ctxt (s # ss) vl =
     stmts_branches B str bs ctxt ss (stmt_branches B str bs ctxt None (ss = []) s vl)"
| "stmt_branches B str bs ctxt ll lst (DeclStmt p ds) (v, ls) = (record_decls ds v, ls)"
| "stmt_branches B str bs ctxt ll lst (LabeledStmt a p l s) (v, ls) =
     (if n_value l \<noteq> ''_'' then
        let ls = declare_label B (hd bs) a l s ls;
            (kept, ls) = resolve_gotos B str a (n_value l) v (v_fwd v) ls
        in stmt_branches B str bs ctxt (Some a) lst s (v\<lparr>v_fwd := kept\<rparr>, ls)
      else stmt_branches B str bs ctxt ll lst s (v, ls))"
| "stmt_branches B str bs ctxt ll lst (BranchStmt a p t lo) (v, ls) =
     (case lo of
        None \<Rightarrow> (v, branch_unlabeled ctxt lst a p t ls)
      | Some l \<Rightarrow> let (fs, ls) = branch_labeled bs a t l ls in (add_fwd fs v, ls))"
| "stmt_branches B str bs ctxt ll lst (AssignStmt p o1 lhs rhs) (v, ls) =
     (if o1 = Op_Def then (recordVarDecl p lhs v, ls) else (v, ls))"
| "stmt_branches B str bs ctxt ll lst (BlockS (Block p body r)) (v, ls) =
     (let (fs, ls) = blockBranches B str bs (nested ctxt) ll p body ls in (add_fwd fs v, ls))"
| "stmt_branches B str bs ctxt ll lst (IfStmt p i c (Block bp body r) els) (v, ls) =
     (let (fs, ls) = blockBranches B str bs (nested ctxt) ll bp body ls; v = add_fwd fs v in
      case els of
        None \<Rightarrow> (v, ls)
      | Some e \<Rightarrow>
          let (fs, ls) = blockBranches B str bs (nested ctxt) ll (stmt_pos e) [e] ls
          in (add_fwd fs v, ls))"
| "stmt_branches B str bs ctxt ll lst (ForStmt a p i c po (Block bp body r)) (v, ls) =
     (let self = ForStmt a p i c po (Block bp body r);
          (fs, ls) = blockBranches B str bs
            \<lparr>t_breaks = Some self, t_continues = Some self, t_caseIndex = -1\<rparr> ll bp body ls
      in (add_fwd fs v, ls))"
| "stmt_branches B str bs ctxt ll lst (SwitchStmt a p i tag ccs r) vl =
     cases_branches B str bs (ctxt\<lparr>t_breaks := Some (SwitchStmt a p i tag ccs r)\<rparr>) ll 0 ccs vl"
| "stmt_branches B str bs ctxt ll lst (SelectStmt a p ccs r) vl =
     comms_branches B str bs
       (ctxt\<lparr>t_breaks := Some (SelectStmt a p ccs r), t_caseIndex := -1\<rparr>) ll ccs vl"
| "stmt_branches B str bs ctxt ll lst s vl = vl"
| "cases_branches B str bs inner ll i [] vl = vl"
| "cases_branches B str bs inner ll i (CaseClause p c body r # ccs) (v, ls) =
     (let (fs, ls) = blockBranches B str bs (inner\<lparr>t_caseIndex := int i\<rparr>) ll p body ls
      in cases_branches B str bs inner ll (Suc i) ccs (add_fwd fs v, ls))"
| "comms_branches B str bs inner ll [] vl = vl"
| "comms_branches B str bs inner ll (CommClause p c body r # ccs) (v, ls) =
     (let (fs, ls) = blockBranches B str bs inner ll p body ls
      in comms_branches B str bs inner ll ccs (add_fwd fs v, ls))"
  by pat_completeness auto
termination
  by (relation "measure (\<lambda>x. case x of
       Inl (Inl (B, str, bs, ctxt, ll, start, body, ls)) \<Rightarrow> 2 * size_list size body + 1
     | Inl (Inr (B, str, bs, ctxt, ss, vl)) \<Rightarrow> 2 * size_list size ss
     | Inr (Inl (B, str, bs, ctxt, ll, lst, s, vl)) \<Rightarrow> 2 * size s
     | Inr (Inr (Inl (B, str, bs, inner, ll, i, ccs, vl))) \<Rightarrow> 2 * size_list size ccs + 1
     | Inr (Inr (Inr (B, str, bs, inner, ll, ccs, vl))) \<Rightarrow> 2 * size_list size ccs + 1)")
    (simp_all add: le_imp_less_Suc size_trim)

text \<open>The two loops at the end: the forward gotos that are left, and the unused labels.\<close>

definition report_goto :: "bases \<Rightarrow> fwd_goto \<Rightarrow> labelScope \<Rightarrow> labelScope" where
  "report_goto B f ls =
     (let name = n_value (g_label f) in
      case map_of (ls_labels ls) name of
        Some l \<Rightarrow> ls_errf (n_pos (g_label f)) (''goto '' @ name @ '' jumps into block starting at ''
            @ Pos_String B (blk_start (lb_parent l))) (set_used name ls)
      | None \<Rightarrow> ls_errf (n_pos (g_label f)) (''label '' @ name @ '' not defined'') ls)"

definition report_unused :: "string \<times> label \<Rightarrow> labelScope \<Rightarrow> labelScope" where
  "report_unused nl ls =
     (let l = snd nl in
      if lb_used l then ls
      else ls_errf (n_pos (lb_label l)) (''label '' @ n_value (lb_label l) @ '' defined and not used'') ls)"

definition scope_init :: labelScope where
  "scope_init = \<lparr>ls_errs = [], ls_labels = [], ls_targets = [], ls_next = 0, ls_panic = False\<rparr>"

definition checkBranches :: "bases \<Rightarrow> (Expr \<Rightarrow> string) \<Rightarrow> BlockStmt option \<Rightarrow> labelScope" where
  "checkBranches B str body =
     (case body of
        None \<Rightarrow> scope_init
      | Some (Block p ss r) \<Rightarrow>
          let (fs, ls) = blockBranches B str [] \<lparr>t_breaks = None, t_continues = None, t_caseIndex = 0\<rparr>
                           None p ss scope_init;
              ls = fold (report_goto B) fs ls
          in fold report_unused (ls_labels ls) ls)"

subsection \<open>The statements of a body\<close>

text \<open>All statements of a statement, itself first, without the bodies of function literals.\<close>

fun substmts :: "Stmt \<Rightarrow> Stmt list" where
  "substmts (LabeledStmt a p l s) = LabeledStmt a p l s # substmts s"
| "substmts (BlockS (Block p ss r)) = BlockS (Block p ss r) # concat (map substmts ss)"
| "substmts (IfStmt p i c (Block bp ss r) els) =
     IfStmt p i c (Block bp ss r) els # concat (map substmts ss)
       @ (case els of None \<Rightarrow> [] | Some e \<Rightarrow> substmts e)"
| "substmts (ForStmt a p i c po (Block bp ss r)) =
     ForStmt a p i c po (Block bp ss r) # concat (map substmts ss)"
| "substmts (SwitchStmt a p i tag ccs r) =
     SwitchStmt a p i tag ccs r
       # concat (map (\<lambda>cc. case cc of CaseClause _ _ body _ \<Rightarrow> concat (map substmts body)) ccs)"
| "substmts (SelectStmt a p ccs r) =
     SelectStmt a p ccs r
       # concat (map (\<lambda>cc. case cc of CommClause _ _ body _ \<Rightarrow> concat (map substmts body)) ccs)"
| "substmts s = [s]"

definition stmts_sub :: "Stmt list \<Rightarrow> Stmt list" where
  "stmts_sub ss = concat (map substmts ss)"

fun label_name :: "Stmt \<Rightarrow> string list" where
  "label_name (LabeledStmt _ _ l _) = (if n_value l \<noteq> ''_'' then [n_value l] else [])"
| "label_name _ = []"

fun label_ref :: "Stmt \<Rightarrow> string list" where
  "label_ref (BranchStmt _ _ _ (Some l)) = [n_value l]"
| "label_ref _ = []"

fun jump_addr :: "Stmt \<Rightarrow> addr list" where
  "jump_addr (BranchStmt a _ t _) = (if t = T_Fallthrough then [] else [a])"
| "jump_addr _ = []"

definition label_names :: "Stmt list \<Rightarrow> string list" where
  "label_names X = concat (map label_name X)"
definition label_refs :: "Stmt list \<Rightarrow> string list" where
  "label_refs X = concat (map label_ref X)"
definition jump_addrs :: "Stmt list \<Rightarrow> addr list" where
  "jump_addrs X = concat (map jump_addr X)"

lemmas collect_defs = label_names_def label_refs_def jump_addrs_def

subsection \<open>What a run of the checker accounts for\<close>

definition keys :: "labelScope \<Rightarrow> string list" where
  "keys ls = map fst (ls_labels ls)"

definition used_keys :: "labelScope \<Rightarrow> string set" where
  "used_keys ls = {n. \<exists>l. (n, l) \<in> set (ls_labels ls) \<and> lb_used l}"

definition fwd_names :: "fwd_goto list \<Rightarrow> string set" where
  "fwd_names f = (\<lambda>g. n_value (g_label g)) ` set f"

definition quiet :: "labelScope \<Rightarrow> bool" where
  "quiet ls \<longleftrightarrow> ls_errs ls = [] \<and> \<not> ls_panic ls"

text \<open>
  \<open>acct X f ls f' ls'\<close>: a run over the statements \<open>X\<close>, started with the forward gotos \<open>f\<close> in \<open>ls\<close>,
  ended with \<open>f'\<close> in \<open>ls'\<close>.  Errors, panics and targets only accumulate; labels stay distinct;
  and if nothing was reported every jump has a target or is still a forward goto, the labels of
  \<open>X\<close> were declared in order, every label a jump names is declared or still looked for, and only labels
  that a jump names were marked as used.
\<close>

definition acct_quiet :: "Stmt list \<Rightarrow> fwd_goto list \<Rightarrow> labelScope \<Rightarrow> fwd_goto list \<Rightarrow> labelScope \<Rightarrow> bool" where
  "acct_quiet X f ls f' ls' \<longleftrightarrow>
     set (jump_addrs X) \<union> g_addr ` set f \<subseteq> fst ` set (ls_targets ls') \<union> g_addr ` set f'
   \<and> keys ls' = keys ls @ label_names X
   \<and> set (label_refs X) \<union> fwd_names f \<subseteq> set (keys ls') \<union> fwd_names f'
   \<and> fwd_names f' \<subseteq> fwd_names f \<union> set (label_refs X)
   \<and> used_keys ls' \<subseteq> used_keys ls \<union> fwd_names f \<union> set (label_refs X)"

definition acct :: "Stmt list \<Rightarrow> fwd_goto list \<Rightarrow> labelScope \<Rightarrow> fwd_goto list \<Rightarrow> labelScope \<Rightarrow> bool" where
  "acct X f ls f' ls' \<longleftrightarrow>
     (quiet ls' \<longrightarrow> quiet ls)
   \<and> set (ls_targets ls) \<subseteq> set (ls_targets ls')
   \<and> (distinct (keys ls) \<longrightarrow> distinct (keys ls'))
   \<and> (quiet ls' \<longrightarrow> acct_quiet X f ls f' ls')"

lemmas acct_defs = acct_def acct_quiet_def

lemmas acct_quietD =
  acct_quiet_def [THEN iffD1, THEN conjunct1]
  acct_quiet_def [THEN iffD1, THEN conjunct2, THEN conjunct1]
  acct_quiet_def [THEN iffD1, THEN conjunct2, THEN conjunct2, THEN conjunct1]
  acct_quiet_def [THEN iffD1, THEN conjunct2, THEN conjunct2, THEN conjunct2, THEN conjunct1]
  acct_quiet_def [THEN iffD1, THEN conjunct2, THEN conjunct2, THEN conjunct2, THEN conjunct2]

lemma acct_refl: "acct [] f ls f ls"
  by (auto simp: acct_defs collect_defs)

lemma acct_trans:
  assumes "acct X f ls f1 ls1" and "acct Y f1 ls1 f2 ls2"
  shows "acct (X @ Y) f ls f2 ls2"
proof -
  have q: "quiet ls2 \<Longrightarrow> quiet ls1" "quiet ls1 \<Longrightarrow> quiet ls" using assms by (auto simp: acct_def)
  have t: "set (ls_targets ls) \<subseteq> set (ls_targets ls1)" "set (ls_targets ls1) \<subseteq> set (ls_targets ls2)"
    "distinct (keys ls) \<longrightarrow> distinct (keys ls2)"
    using assms by (auto simp: acct_def)
  have "acct_quiet (X @ Y) f ls f2 ls2" if "quiet ls2"
  proof -
    have X: "acct_quiet X f ls f1 ls1" and Y: "acct_quiet Y f1 ls1 f2 ls2"
      using assms q that by (auto simp: acct_def)
    note a = acct_quietD [OF X] and b = acct_quietD [OF Y]
    have s: "set (jump_addrs (X @ Y)) = set (jump_addrs X) \<union> set (jump_addrs Y)"
      "label_names (X @ Y) = label_names X @ label_names Y"
      "set (label_refs (X @ Y)) = set (label_refs X) \<union> set (label_refs Y)"
      by (simp_all add: collect_defs)
    have k: "set (keys ls1) \<subseteq> set (keys ls2)" using b(2) by auto
    have i: "fst ` set (ls_targets ls1) \<subseteq> fst ` set (ls_targets ls2)" using t(2) by blast
    show ?thesis unfolding acct_quiet_def s
    proof (intro conjI)
      show "set (jump_addrs X) \<union> set (jump_addrs Y) \<union> g_addr ` set f
          \<subseteq> fst ` set (ls_targets ls2) \<union> g_addr ` set f2" using a(1) b(1) i by blast
      show "keys ls2 = keys ls @ label_names X @ label_names Y" using a(2) b(2) by simp
      show "set (label_refs X) \<union> set (label_refs Y) \<union> fwd_names f \<subseteq> set (keys ls2) \<union> fwd_names f2"
        using a(3) b(3) k by blast
      show "fwd_names f2 \<subseteq> fwd_names f \<union> (set (label_refs X) \<union> set (label_refs Y))"
        using a(4) b(4) by blast
      show "used_keys ls2 \<subseteq> used_keys ls \<union> fwd_names f \<union> (set (label_refs X) \<union> set (label_refs Y))"
        using a(4,5) b(5) by blast
    qed
  qed
  then show ?thesis using t q unfolding acct_def by blast
qed

text \<open>A nested block starts with no forward gotos and hands its own to the enclosing block.\<close>

lemma acct_block: "acct X [] ls f' ls' \<Longrightarrow> acct X f ls (f @ f') ls'"
  by (auto simp: acct_defs fwd_names_def)

lemma acct_skip: "jump_addr s = [] \<Longrightarrow> label_name s = [] \<Longrightarrow> label_ref s = [] \<Longrightarrow>
    acct X f ls f' ls' \<Longrightarrow> acct (s # X) f ls f' ls'"
  using acct_trans [of "[s]" f ls f ls X f' ls'] by (simp add: acct_def [of "[s]"] acct_quiet_def [of "[s]"] collect_defs)

lemma trim_collect:
  "jump_addrs (stmts_sub (trimTrailingEmptyStmts ss)) = jump_addrs (stmts_sub ss)"
  "label_names (stmts_sub (trimTrailingEmptyStmts ss)) = label_names (stmts_sub ss)"
  "label_refs (stmts_sub (trimTrailingEmptyStmts ss)) = label_refs (stmts_sub ss)"
  by (induction ss) (auto simp: stmts_sub_def collect_defs split: list.splits Stmt.splits)

lemma acct_trim: "acct (stmts_sub (trimTrailingEmptyStmts ss)) f ls f' ls' = acct (stmts_sub ss) f ls f' ls'"
  by (simp add: acct_defs trim_collect)

lemma acct_next: "acct X f (ls\<lparr>ls_next := n\<rparr>) f' ls' = acct X f ls f' ls'"
  by (simp add: acct_defs quiet_def keys_def used_keys_def)

lemma set_used_simps [simp]:
  "keys (set_used n ls) = keys ls" "ls_targets (set_used n ls) = ls_targets ls"
  "quiet (set_used n ls) = quiet ls"
  by (auto simp: set_used_def keys_def quiet_def)

lemma used_keys_set_used: "x \<in> used_keys (set_used n ls) \<Longrightarrow> x = n \<or> x \<in> used_keys ls"
  by (auto simp: set_used_def used_keys_def split: if_splits)

lemma map_of_keys: "map_of (ls_labels ls) n = Some l \<Longrightarrow> n \<in> set (keys ls)"
  by (force simp: keys_def dest: map_of_SomeD)

lemma set_target_simps [simp]:
  "keys (set_target a u ls) = keys ls" "ls_targets (set_target a u ls) = ls_targets ls @ [(a, u)]"
  "quiet (set_target a u ls) = quiet ls" "used_keys (set_target a u ls) = used_keys ls"
  by (auto simp: set_target_def keys_def quiet_def used_keys_def)

lemma ls_errf_simps [simp]:
  "keys (ls_errf p m ls) = keys ls" "ls_targets (ls_errf p m ls) = ls_targets ls"
  "\<not> quiet (ls_errf p m ls)" "used_keys (ls_errf p m ls) = used_keys ls"
  by (auto simp: ls_errf_def keys_def quiet_def used_keys_def)

lemma ls_panic_simps [simp]:
  "keys (ls\<lparr>ls_panic := True\<rparr>) = keys ls" "\<not> quiet (ls\<lparr>ls_panic := True\<rparr>)"
  by (auto simp: keys_def quiet_def)

lemma resolve_gotos_acct:
  "resolve_gotos B str a name v f ls = (f', ls') \<Longrightarrow> name \<in> set (keys ls) \<Longrightarrow> acct [] f ls f' ls'"
proof (induction f arbitrary: ls f' ls')
  case (Cons g f)
  show ?case
  proof (cases "n_value (g_label g) = name")
    case True
    let ?ls1 = "set_used name (set_target (g_addr g) a ls)"
    let ?ls2 = "if jumpsOverVarDecl g v then ls_errf (n_pos (g_label g)) (goto_over_msg B str name v) ?ls1 else ?ls1"
    have "acct [] f ?ls2 f' ls'" using Cons True by (intro Cons.IH) (auto simp: Let_def)
    moreover have "acct [] (g # f) ls f ?ls2"
      using True Cons.prems(2)
      by (auto simp: acct_defs collect_defs fwd_names_def dest: used_keys_set_used)
    ultimately show ?thesis using acct_trans by fastforce
  next
    case False
    then obtain k where k: "resolve_gotos B str a name v f ls = (k, ls')" "f' = g # k"
      using Cons.prems(1) by (auto simp: Let_def split: prod.splits)
    from Cons.IH [OF k(1) Cons.prems(2)] show ?thesis
      by (auto simp: acct_defs k(2) fwd_names_def)
  qed
qed (simp add: acct_refl)

lemma declare_label_acct:
  assumes "n_value l \<noteq> ''_''"
  shows "acct [LabeledStmt a p l s] f ls f (declare_label B b a l s ls)
    \<and> n_value l \<in> set (keys (declare_label B b a l s ls))"
proof (cases "map_of (ls_labels ls) (n_value l)")
  case None
  then have "n_value l \<notin> set (keys ls)" by (simp add: keys_def map_of_eq_None_iff)
  then show ?thesis using None assms
    by (auto simp: declare_label_def acct_defs collect_defs keys_def used_keys_def quiet_def)
next
  case (Some alt)
  then have "n_value l \<in> set (keys ls)" by (rule map_of_keys)
  with Some show ?thesis by (simp add: declare_label_def acct_def)
qed

lemma branch_unlabeled_acct: "acct [BranchStmt a p t None] f ls f (branch_unlabeled ctxt lst a p t ls)"
  by (auto simp: branch_unlabeled_def acct_defs collect_defs split: token.splits option.splits)

lemma enclosingTarget_acct:
  assumes "enclosingTarget bs n ls = (e, ls')"
  shows "quiet ls' = quiet ls" "ls_targets ls' = ls_targets ls" "keys ls' = keys ls"
    "used_keys ls' \<subseteq> insert n (used_keys ls)" "e \<noteq> NoLabel \<Longrightarrow> n \<in> set (keys ls)"
  using assms by (auto simp: enclosingTarget_def dest: used_keys_set_used map_of_keys split: option.splits)

lemma gotoTarget_acct:
  assumes "gotoTarget bs n ls = (e, ls')"
  shows "quiet ls' = quiet ls" "ls_targets ls' = ls_targets ls" "keys ls' = keys ls"
    "used_keys ls' \<subseteq> insert n (used_keys ls)" "e \<noteq> None \<Longrightarrow> n \<in> set (keys ls)"
  using assms by (auto simp: gotoTarget_def dest: used_keys_set_used map_of_keys split: option.splits)

lemma branch_labeled_acct:
  assumes "branch_labeled bs a t l ls = (f', ls')"
  shows "acct [BranchStmt a p t (Some l)] f ls (f @ f') ls'"
proof -
  obtain e ls1 where e: "enclosingTarget bs (n_value l) ls = (e, ls1)" by fastforce
  obtain g ls2 where g: "gotoTarget bs (n_value l) ls = (g, ls2)" by fastforce
  consider "t = T_Break" | "t = T_Continue" | "t = T_Goto" | "f' = []" "ls' = ls\<lparr>ls_panic := True\<rparr>"
    using assms by (auto simp: branch_labeled_def Let_def split: token.splits)
  then show ?thesis
  proof cases
    case 1
    then show ?thesis using assms enclosingTarget_acct [OF e]
      by (auto simp: branch_labeled_def e acct_defs collect_defs Let_def split: enclosing.splits if_splits)
  next
    case 2
    then show ?thesis using assms enclosingTarget_acct [OF e]
      by (auto simp: branch_labeled_def e acct_defs collect_defs Let_def split: enclosing.splits if_splits)
  next
    case 3
    then show ?thesis using assms gotoTarget_acct [OF g]
      by (auto simp: branch_labeled_def g acct_defs collect_defs fwd_names_def Let_def split: option.splits)
  qed (simp add: acct_def)
qed

lemma record_decls_fwd [simp]: "v_fwd (record_decls ds v) = v_fwd v"
  by (induction ds v rule: record_decls.induct) (auto simp: recordVarDecl_def split: Decl.splits list.splits)

lemma vars_fwd [simp]:
  "v_fwd (recordVarDecl p e v) = v_fwd v" "v_fwd (add_fwd fs v) = v_fwd v @ fs" "v_fwd no_vars = []"
  by (simp_all add: recordVarDecl_def add_fwd_def no_vars_def)

lemma stmts_sub_simps [simp]: "stmts_sub [] = []" "stmts_sub (s # ss) = substmts s @ stmts_sub ss"
  by (simp_all add: stmts_sub_def)

abbreviation acct_run where
  "acct_run X vl vl' \<equiv> acct X (v_fwd (fst vl)) (snd vl) (v_fwd (fst vl')) (snd vl')"

fun case_body :: "CaseClause \<Rightarrow> Stmt list" where "case_body (CaseClause _ _ body _) = body"
fun comm_body :: "CommClause \<Rightarrow> Stmt list" where "comm_body (CommClause _ _ body _) = body"

lemma substmts_clauses:
  "substmts (SwitchStmt a p i tag ccs r) = SwitchStmt a p i tag ccs r # concat (map (stmts_sub \<circ> case_body) ccs)"
  "substmts (SelectStmt a p cms r) = SelectStmt a p cms r # concat (map (stmts_sub \<circ> comm_body) cms)"
  by (auto simp: stmts_sub_def intro!: arg_cong [where f = concat] map_cong split: CaseClause.splits CommClause.splits)

lemma branches_acct:
  shows "acct (stmts_sub body) [] ls (fst (blockBranches B str bs ctxt ll start body ls))
      (snd (blockBranches B str bs ctxt ll start body ls))"
    and "acct_run (stmts_sub ss) vl (stmts_branches B str bs ctxt ss vl)"
    and "acct_run (substmts s) vl (stmt_branches B str bs ctxt ll lst s vl)"
    and "acct_run (concat (map (stmts_sub \<circ> case_body) ccs)) vl (cases_branches B str bs ctxt ll i ccs vl)"
    and "acct_run (concat (map (stmts_sub \<circ> comm_body) cms)) vl (comms_branches B str bs ctxt ll cms vl)"
proof (induction B str bs ctxt ll start body ls and B str bs ctxt ss vl and B str bs ctxt ll lst s vl
    and B str bs ctxt ll i ccs vl and B str bs ctxt ll cms vl
    rule: blockBranches_stmts_branches_stmt_branches_cases_branches_comms_branches.induct)
  case (1 B str bs ctxt ll start body ls)
  then show ?case by (simp add: Let_def case_prod_beta acct_trim acct_next)
next
  case (3 B str bs ctxt s ss vl)
  then show ?case by (simp add: acct_trans)
next
  case (5 B str bs ctxt ll lst a p l s v ls)
  show ?case
  proof (cases "n_value l = ''_''")
    case True
    with "5.IH"(2) show ?thesis by (auto intro!: acct_skip)
  next
    case False
    define ls1 where "ls1 = declare_label B (hd bs) a l s ls"
    obtain k ls2 where r: "resolve_gotos B str a (n_value l) v (v_fwd v) ls1 = (k, ls2)" by fastforce
    have d: "acct [LabeledStmt a p l s] (v_fwd v) ls (v_fwd v) ls1" "n_value l \<in> set (keys ls1)"
      using declare_label_acct [OF False, of a p s "v_fwd v" ls B "hd bs"] by (simp_all add: ls1_def)
    let ?w = "stmt_branches B str bs ctxt (Some a) lst s (v\<lparr>v_fwd := k\<rparr>, ls2)"
    have "acct (substmts s) k ls2 (v_fwd (fst ?w)) (snd ?w)"
      using "5.IH"(1) [OF False refl] r by (simp add: ls1_def)
    from acct_trans [OF acct_trans [OF d(1) resolve_gotos_acct [OF r d(2)]] this]
    show ?thesis using False r by (simp add: ls1_def)
  qed
next
  case (6 B str bs ctxt ll lst a p t lo v ls)
  show ?case
    by (cases lo) (auto simp: case_prod_beta Let_def branch_unlabeled_acct branch_labeled_acct [OF surjective_pairing])
next
  case (8 B str bs ctxt ll lst p body r v ls)
  then show ?case by (auto simp: Let_def case_prod_beta stmts_sub_def [symmetric] intro!: acct_skip acct_block)
next
  case (9 B str bs ctxt ll lst p i c bp body r els v ls)
  obtain fs ls1 where b: "blockBranches B str bs (nested ctxt) ll bp body ls = (fs, ls1)" by fastforce
  have A: "acct (stmts_sub body) (v_fwd v) ls (v_fwd v @ fs) ls1" using "9.IH"(1) b by (simp add: acct_block)
  show ?case
  proof (cases els)
    case None
    with A b show ?thesis by (auto simp: Let_def stmts_sub_def [symmetric] intro!: acct_skip)
  next
    case (Some e)
    obtain fs2 ls2 where c: "blockBranches B str bs (nested ctxt) ll (stmt_pos e) [e] ls1 = (fs2, ls2)"
      by fastforce
    have "acct (substmts e) (v_fwd v @ fs) ls1 ((v_fwd v @ fs) @ fs2) ls2"
      using "9.IH"(2) [OF b [symmetric] refl refl Some] c by (intro acct_block) simp
    from acct_trans [OF A this] show ?thesis using b c Some
      by (auto simp: Let_def stmts_sub_def [symmetric] intro!: acct_skip)
  qed
next
  case (10 B str bs ctxt ll lst a p i c po bp body r v ls)
  then show ?case by (auto simp: Let_def case_prod_beta stmts_sub_def [symmetric] intro!: acct_skip acct_block)
next
  case (11 B str bs ctxt ll lst a p i tag ccs r vl)
  then show ?case unfolding substmts_clauses by (auto simp: comp_def intro!: acct_skip)
next
  case (12 B str bs ctxt ll lst a p ccs r vl)
  then show ?case unfolding substmts_clauses by (auto simp: comp_def intro!: acct_skip)
next
  case (15 B str bs inner ll i p c body r ccs v ls)
  obtain fs ls1 where b: "blockBranches B str bs (inner\<lparr>t_caseIndex := int i\<rparr>) ll p body ls = (fs, ls1)"
    by fastforce
  have A: "acct (stmts_sub body) (v_fwd v) ls (v_fwd v @ fs) ls1"
    using "15.IH"(1) b by (intro acct_block) simp
  show ?case using acct_trans [OF A] "15.IH"(2) [OF b [symmetric] refl] b by simp
next
  case (17 B str bs inner ll p c body r ccs v ls)
  obtain fs ls1 where b: "blockBranches B str bs inner ll p body ls = (fs, ls1)" by fastforce
  have A: "acct (stmts_sub body) (v_fwd v) ls (v_fwd v @ fs) ls1"
    using "17.IH"(1) b by (intro acct_block) simp
  show ?case using acct_trans [OF A] "17.IH"(2) [OF b [symmetric] refl] b by simp
qed (auto intro!: acct_refl acct_skip)

text \<open>The final loops report every forward goto that is left and every unused label.\<close>

lemma report_goto_loud: "\<not> quiet (report_goto B f ls)"
  by (simp add: report_goto_def Let_def split: option.split)

lemma report_gotos_quiet: "quiet (fold (report_goto B) fs ls) \<longleftrightarrow> fs = [] \<and> quiet ls"
  by (induction fs arbitrary: ls) (auto simp: report_goto_loud)

lemma report_unused_quiet: "quiet (report_unused nl ls) \<longleftrightarrow> quiet ls \<and> lb_used (snd nl)"
  by (auto simp: report_unused_def Let_def)

lemma report_unuseds_quiet:
  "quiet (fold report_unused lbs ls) \<longleftrightarrow> quiet ls \<and> (\<forall>nl \<in> set lbs. lb_used (snd nl))"
  by (induction lbs arbitrary: ls) (auto simp: report_unused_quiet)

lemma report_unused_frame: "ls_targets (fold report_unused lbs ls) = ls_targets ls"
  by (induction lbs arbitrary: ls) (auto simp: report_unused_def Let_def)

text \<open>A body without a report: every jump has its target, and the labels declared are, without
  repetition, the labels that jumps name.\<close>

lemma checkBranches_quiet:
  assumes "quiet (checkBranches B str (Some (Block p ss r)))"
  shows "set (jump_addrs (stmts_sub ss)) \<subseteq> fst ` set (ls_targets (checkBranches B str (Some (Block p ss r))))"
    and "distinct (label_names (stmts_sub ss))"
    and "set (label_names (stmts_sub ss)) = set (label_refs (stmts_sub ss))"
proof -
  obtain fs ls where b: "blockBranches B str [] \<lparr>t_breaks = None, t_continues = None, t_caseIndex = 0\<rparr>
      None p ss scope_init = (fs, ls)" by fastforce
  have c: "checkBranches B str (Some (Block p ss r)) =
      fold report_unused (ls_labels (fold (report_goto B) fs ls)) (fold (report_goto B) fs ls)"
    by (simp add: checkBranches_def b Let_def del: blockBranches.simps)
  have fs: "fs = []" "quiet ls" using assms by (simp_all add: c report_unuseds_quiet report_gotos_quiet)
  have used: "\<forall>nl \<in> set (ls_labels ls). lb_used (snd nl)"
    using assms by (simp add: c report_unuseds_quiet fs(1))
  have "acct (stmts_sub ss) [] scope_init [] ls"
    using branches_acct(1) [of ss scope_init B str "[]"] b fs(1) by (metis fst_conv snd_conv)
  then have q: "acct_quiet (stmts_sub ss) [] scope_init [] ls" and d: "distinct (keys ls)"
    using fs(2) by (simp_all add: acct_def) (simp add: keys_def scope_init_def)
  note q = acct_quietD [OF q, unfolded fwd_names_def keys_def [of scope_init] used_keys_def [of scope_init]]
  have k: "keys ls = label_names (stmts_sub ss)" using q(2) by (simp add: scope_init_def)
  show "distinct (label_names (stmts_sub ss))" using d by (simp add: k)
  show "set (jump_addrs (stmts_sub ss)) \<subseteq> fst ` set (ls_targets (checkBranches B str (Some (Block p ss r))))"
    using q(1) by (simp add: c fs(1) report_unused_frame)
  have "set (keys ls) \<subseteq> used_keys ls" using used by (force simp: keys_def used_keys_def)
  then show "set (label_names (stmts_sub ss)) = set (label_refs (stmts_sub ss))"
    using q(3,5) k by (auto simp: scope_init_def)
qed

subsection \<open>Unlabeled break and continue\<close>

text \<open>
  The reference: each unlabeled \<open>break\<close> (\<open>continue\<close>) below a statement with the nearest enclosing
  breakable statement (loop), given those around it.
\<close>

fun nearest :: "addr option \<Rightarrow> addr option \<Rightarrow> Stmt \<Rightarrow> (addr \<times> addr) list" where
  "nearest b c (LabeledStmt a p l s) = nearest b c s"
| "nearest b c (BranchStmt a p t None) =
     (case (if t = T_Break then b else if t = T_Continue then c else None) of
        Some u \<Rightarrow> [(a, u)] | None \<Rightarrow> [])"
| "nearest b c (BlockS (Block p ss r)) = concat (map (nearest b c) ss)"
| "nearest b c (IfStmt p i e (Block bp ss r) els) =
     concat (map (nearest b c) ss) @ (case els of None \<Rightarrow> [] | Some s \<Rightarrow> nearest b c s)"
| "nearest b c (ForStmt a p i e po (Block bp ss r)) = concat (map (nearest (Some a) (Some a)) ss)"
| "nearest b c (SwitchStmt a p i tag ccs r) =
     concat (map (\<lambda>cc. case cc of CaseClause _ _ body _ \<Rightarrow> concat (map (nearest (Some a) c) body)) ccs)"
| "nearest b c (SelectStmt a p ccs r) =
     concat (map (\<lambda>cc. case cc of CommClause _ _ body _ \<Rightarrow> concat (map (nearest (Some a) c) body)) ccs)"
| "nearest b c s = []"

definition nearests :: "addr option \<Rightarrow> addr option \<Rightarrow> Stmt list \<Rightarrow> (addr \<times> addr) set" where
  "nearests b c ss = (\<Union>s \<in> set ss. set (nearest b c s))"

lemma nearests_simps [simp]:
  "nearests b c [] = {}" "nearests b c (s # ss) = set (nearest b c s) \<union> nearests b c ss"
  by (auto simp: nearests_def)

lemma clause_body:
  "(case cc of CaseClause _ _ body _ \<Rightarrow> g body) = g (case_body cc)"
  "(case cm of CommClause _ _ body _ \<Rightarrow> g body) = g (comm_body cm)"
  by (cases cc; simp) (cases cm; simp)

lemma nearest_clauses:
  "set (nearest b c (SwitchStmt a p i tag ccs r)) = (\<Union>cc \<in> set ccs. nearests (Some a) c (case_body cc))"
  "set (nearest b c (SelectStmt a p cms r)) = (\<Union>cm \<in> set cms. nearests (Some a) c (comm_body cm))"
  by (simp_all add: nearests_def clause_body)

lemma trim_Cons:
  "trimTrailingEmptyStmts (s # ss) =
     (if trimTrailingEmptyStmts ss = [] \<and> (\<exists>p. s = EmptyStmt p) then [] else s # trimTrailingEmptyStmts ss)"
  by (cases s) (simp_all split: list.split)

lemma nearests_trim: "nearests b c (trimTrailingEmptyStmts ss) = nearests b c ss"
proof (induction ss)
  case (Cons s ss)
  then show ?case unfolding trim_Cons by (auto simp del: trimTrailingEmptyStmts.simps)
qed simp

abbreviation brk where "brk ctxt \<equiv> map_option stmt_addr (t_breaks ctxt)"
abbreviation cont where "cont ctxt \<equiv> map_option stmt_addr (t_continues ctxt)"

text \<open>Targets are never withdrawn.\<close>

lemma acct_targets: "acct X f ls f' ls' \<Longrightarrow> set (ls_targets ls) \<subseteq> set (ls_targets ls')"
  by (simp add: acct_def)

lemmas targets_mono = branches_acct [THEN acct_targets]

lemma branches_nearest:
  shows "nearests (brk ctxt) (cont ctxt) body
      \<subseteq> set (ls_targets (snd (blockBranches B str bs ctxt ll start body ls)))"
    and "nearests (brk ctxt) (cont ctxt) ss \<subseteq> set (ls_targets (snd (stmts_branches B str bs ctxt ss vl)))"
    and "set (nearest (brk ctxt) (cont ctxt) s)
      \<subseteq> set (ls_targets (snd (stmt_branches B str bs ctxt ll lst s vl)))"
    and "(\<Union>cc \<in> set ccs. nearests (brk ctxt) (cont ctxt) (case_body cc))
      \<subseteq> set (ls_targets (snd (cases_branches B str bs ctxt ll i ccs vl)))"
    and "(\<Union>cm \<in> set cms. nearests (brk ctxt) (cont ctxt) (comm_body cm))
      \<subseteq> set (ls_targets (snd (comms_branches B str bs ctxt ll cms vl)))"
proof (induction B str bs ctxt ll start body ls and B str bs ctxt ss vl and B str bs ctxt ll lst s vl
    and B str bs ctxt ll i ccs vl and B str bs ctxt ll cms vl
    rule: blockBranches_stmts_branches_stmt_branches_cases_branches_comms_branches.induct)
  case (1 B str bs ctxt ll start body ls)
  then show ?case by (simp add: Let_def case_prod_beta nearests_trim)
next
  case (3 B str bs ctxt s ss vl)
  let ?w = "stmt_branches B str bs ctxt None (ss = []) s vl"
  show ?case using "3.IH" targets_mono(2) [of ?w B str bs ctxt ss] by auto
next
  case (5 B str bs ctxt ll lst a p l s v ls)
  then show ?case by (auto simp: Let_def case_prod_beta)
next
  case (6 B str bs ctxt ll lst a p t lo v ls)
  then show ?case by (cases lo) (auto simp: branch_unlabeled_def split: option.splits)
next
  case (8 B str bs ctxt ll lst p body r v ls)
  then show ?case by (simp add: Let_def case_prod_beta nested_def nearests_def)
next
  case (9 B str bs ctxt ll lst p i c bp body r els v ls)
  obtain fs ls1 where b: "blockBranches B str bs (nested ctxt) ll bp body ls = (fs, ls1)" by fastforce
  show ?case
  proof (cases els)
    case None
    with "9.IH"(1) b show ?thesis by (simp add: Let_def nested_def nearests_def)
  next
    case (Some e)
    with "9.IH"(1) "9.IH"(2) [OF b [symmetric] refl refl Some] b
      targets_mono(1) [of ls1 B str bs "nested ctxt" ll "stmt_pos e" "[e]"]
    show ?thesis by (auto simp: Let_def case_prod_beta nested_def nearests_def)
  qed
next
  case (10 B str bs ctxt ll lst a p i c po bp body r v ls)
  then show ?case by (simp add: Let_def case_prod_beta nearests_def)
next
  case (11 B str bs ctxt ll lst a p i tag ccs r vl)
  then show ?case unfolding nearest_clauses by simp
next
  case (12 B str bs ctxt ll lst a p ccs r vl)
  then show ?case unfolding nearest_clauses by simp
next
  case (15 B str bs inner ll i p c body r ccs v ls)
  obtain fs ls1 where b: "blockBranches B str bs (inner\<lparr>t_caseIndex := int i\<rparr>) ll p body ls = (fs, ls1)"
    by fastforce
  show ?case using "15.IH"(1) "15.IH"(2) [OF b [symmetric] refl] b
      targets_mono(4) [of "(add_fwd fs v, ls1)" B str bs inner ll "Suc i" ccs] by auto
next
  case (17 B str bs inner ll p c body r ccs v ls)
  obtain fs ls1 where b: "blockBranches B str bs inner ll p body ls = (fs, ls1)" by fastforce
  show ?case using "17.IH"(1) "17.IH"(2) [OF b [symmetric] refl] b
      targets_mono(5) [of "(add_fwd fs v, ls1)" B str bs inner ll ccs] by auto
qed auto

lemma report_gotos_frame: "ls_targets (fold (report_goto B) fs ls) = ls_targets ls"
  by (induction fs arbitrary: ls) (auto simp: report_goto_def Let_def split: option.split)

lemma checkBranches_nearest:
  "nearests None None ss \<subseteq> set (ls_targets (checkBranches B str (Some (Block p ss r))))"
  using branches_nearest(1) [of "\<lparr>t_breaks = None, t_continues = None, t_caseIndex = 0\<rparr>" ss B str "[]" None p scope_init]
  by (simp add: checkBranches_def Let_def case_prod_beta report_unused_frame report_gotos_frame
      del: blockBranches.simps)

subsection \<open>Properties\<close>

text \<open>C5: if the checker reports nothing for a function body, every break, continue and goto of the
  body, at any depth, has got a target.\<close>

theorem every_branch_resolved:
  assumes "ls_errs (checkBranches B str (Some (Block p ss r))) = []"
    and "\<not> ls_panic (checkBranches B str (Some (Block p ss r)))"
    and "a \<in> set (jump_addrs (stmts_sub ss))"
  shows "\<exists>u. (a, u) \<in> set (ls_targets (checkBranches B str (Some (Block p ss r))))"
  using checkBranches_quiet(1) [of B str p ss r] assms unfolding quiet_def by force

definition example_body :: "Stmt list" where
  "example_body = [LabeledStmt 1 zero_Pos (NewName zero_Pos ''L'')
     (ForStmt 2 zero_Pos None None None (Block zero_Pos
        [BranchStmt 3 zero_Pos T_Continue None,
         BranchStmt 4 zero_Pos T_Break (Some (NewName zero_Pos ''L''))] zero_Pos))]"

lemma example_body_quiet:
  "ls_errs (checkBranches [] (\<lambda>_. []) (Some (Block zero_Pos example_body zero_Pos))) = []"
  "\<not> ls_panic (checkBranches [] (\<lambda>_. []) (Some (Block zero_Pos example_body zero_Pos)))"
  "jump_addrs (stmts_sub example_body) = [3, 4]"
  by code_simp+

theorem every_branch_resolved_witness:
  "\<exists>u. (4, u) \<in> set (ls_targets (checkBranches [] (\<lambda>_. []) (Some (Block zero_Pos example_body zero_Pos))))"
  by (rule every_branch_resolved [OF example_body_quiet(1,2)]) (simp add: example_body_quiet(3))

text \<open>C7: if the checker reports nothing for a function body, its labels are distinct and they are
  exactly the labels that its branch statements name.\<close>

theorem labels_exact:
  assumes "ls_errs (checkBranches B str (Some (Block p ss r))) = []"
    and "\<not> ls_panic (checkBranches B str (Some (Block p ss r)))"
  shows "distinct (label_names (stmts_sub ss))
    \<and> set (label_names (stmts_sub ss)) = set (label_refs (stmts_sub ss))"
  using checkBranches_quiet(2,3) [of B str p ss r] assms by (simp add: quiet_def)

theorem labels_exact_witness:
  "distinct (label_names (stmts_sub example_body))
    \<and> set (label_names (stmts_sub example_body)) = set (label_refs (stmts_sub example_body))"
  by (rule labels_exact [OF example_body_quiet(1,2)])

text \<open>C32: the target of an unlabeled break is the innermost enclosing for, switch or select statement,
  and that of an unlabeled continue the innermost enclosing for statement, as the structural
  reference computes them, whatever else the body contains: these targets are among those that are recorded.\<close>

theorem nearest_enclosing_target:
  "(\<Union>s \<in> set ss. set (nearest None None s)) \<subseteq> set (ls_targets (checkBranches B str (Some (Block p ss r))))"
  using checkBranches_nearest [of ss B str p r] by (simp add: nearests_def)

text \<open>A fallthrough is accepted exactly as the last statement of a case, other than the last
  case, of an expression switch.\<close>

lemma fallthrough_rule:
  "fallthrough_msg ctxt is_last = None \<longleftrightarrow>
     (\<exists>a p i tag body r. t_breaks ctxt = Some (SwitchStmt a p i tag body r)
        \<and> \<not> (\<exists>q l x. tag = Some (TypeSwitchGuard q l x))
        \<and> 0 \<le> t_caseIndex ctxt \<and> is_last \<and> t_caseIndex ctxt + 1 \<noteq> int (length body))"
proof (cases "t_breaks ctxt")
  case (Some s)
  then show ?thesis
    by (cases s) (auto simp: fallthrough_msg_def not_less split: option.splits Expr.splits)
qed (simp add: fallthrough_msg_def)

end
