(* ===== verification/Unicode_Tables.thy ===== *)
theory Unicode_Tables
  imports Prelude
begin

text \<open>
  The Unicode data that identifier scanning and error messages use, as the repository has it:
  the range tables of the categories \<open>L\<close> and \<open>Nd\<close> and the Latin-1 property table
  (\<open>src/unicode/tables.go\<close>), and the printability tables of \<open>src/strconv/isprint.go\<close>.
  A range is \<open>(Lo, Hi, Stride)\<close>; a property is the bit set of the \<open>p\<close> constants of
  \<open>src/unicode/graphic.go\<close>.
\<close>

type_synonym range_entry = "int \<times> int \<times> int"

definition Letter_R16_1 :: "range_entry list" where
  "Letter_R16_1 =
     [(0x41, 0x5a, 1), (0x61, 0x7a, 1), (0xaa, 0xb5, 11), (0xba, 0xc0, 6), (0xc1, 0xd6, 1),
     (0xd8, 0xf6, 1), (0xf8, 0x2c1, 1), (0x2c6, 0x2d1, 1), (0x2e0, 0x2e4, 1),
     (0x2ec, 0x2ee, 2), (0x370, 0x374, 1), (0x376, 0x377, 1), (0x37a, 0x37d, 1),
     (0x37f, 0x386, 7), (0x388, 0x38a, 1), (0x38c, 0x38e, 2), (0x38f, 0x3a1, 1),
     (0x3a3, 0x3f5, 1), (0x3f7, 0x481, 1), (0x48a, 0x52f, 1), (0x531, 0x556, 1),
     (0x559, 0x560, 7), (0x561, 0x588, 1), (0x5d0, 0x5ea, 1), (0x5ef, 0x5f2, 1),
     (0x620, 0x64a, 1), (0x66e, 0x66f, 1), (0x671, 0x6d3, 1), (0x6d5, 0x6e5, 16),
     (0x6e6, 0x6ee, 8), (0x6ef, 0x6fa, 11), (0x6fb, 0x6fc, 1), (0x6ff, 0x710, 17),
     (0x712, 0x72f, 1), (0x74d, 0x7a5, 1), (0x7b1, 0x7ca, 25), (0x7cb, 0x7ea, 1),
     (0x7f4, 0x7f5, 1), (0x7fa, 0x800, 6), (0x801, 0x815, 1), (0x81a, 0x824, 10),
     (0x828, 0x840, 24), (0x841, 0x858, 1), (0x860, 0x86a, 1), (0x870, 0x887, 1),
     (0x889, 0x88e, 1), (0x8a0, 0x8c9, 1), (0x904, 0x939, 1), (0x93d, 0x950, 19),
     (0x958, 0x961, 1), (0x971, 0x980, 1), (0x985, 0x98c, 1), (0x98f, 0x990, 1),
     (0x993, 0x9a8, 1), (0x9aa, 0x9b0, 1), (0x9b2, 0x9b6, 4), (0x9b7, 0x9b9, 1),
     (0x9bd, 0x9ce, 17), (0x9dc, 0x9dd, 1), (0x9df, 0x9e1, 1), (0x9f0, 0x9f1, 1),
     (0x9fc, 0xa05, 9), (0xa06, 0xa0a, 1), (0xa0f, 0xa10, 1), (0xa13, 0xa28, 1),
     (0xa2a, 0xa30, 1), (0xa32, 0xa33, 1), (0xa35, 0xa36, 1), (0xa38, 0xa39, 1),
     (0xa59, 0xa5c, 1), (0xa5e, 0xa72, 20), (0xa73, 0xa74, 1), (0xa85, 0xa8d, 1),
     (0xa8f, 0xa91, 1), (0xa93, 0xaa8, 1), (0xaaa, 0xab0, 1), (0xab2, 0xab3, 1),
     (0xab5, 0xab9, 1), (0xabd, 0xad0, 19), (0xae0, 0xae1, 1), (0xaf9, 0xb05, 12),
     (0xb06, 0xb0c, 1), (0xb0f, 0xb10, 1), (0xb13, 0xb28, 1), (0xb2a, 0xb30, 1),
     (0xb32, 0xb33, 1), (0xb35, 0xb39, 1), (0xb3d, 0xb5c, 31), (0xb5d, 0xb5f, 2),
     (0xb60, 0xb61, 1), (0xb71, 0xb83, 18), (0xb85, 0xb8a, 1), (0xb8e, 0xb90, 1),
     (0xb92, 0xb95, 1), (0xb99, 0xb9a, 1), (0xb9c, 0xb9e, 2), (0xb9f, 0xba3, 4),
     (0xba4, 0xba8, 4), (0xba9, 0xbaa, 1), (0xbae, 0xbb9, 1), (0xbd0, 0xc05, 53),
     (0xc06, 0xc0c, 1), (0xc0e, 0xc10, 1), (0xc12, 0xc28, 1), (0xc2a, 0xc39, 1),
     (0xc3d, 0xc58, 27), (0xc59, 0xc5a, 1), (0xc5d, 0xc60, 3), (0xc61, 0xc80, 31),
     (0xc85, 0xc8c, 1), (0xc8e, 0xc90, 1), (0xc92, 0xca8, 1), (0xcaa, 0xcb3, 1),
     (0xcb5, 0xcb9, 1), (0xcbd, 0xcdd, 32), (0xcde, 0xce0, 2), (0xce1, 0xcf1, 16),
     (0xcf2, 0xd04, 18), (0xd05, 0xd0c, 1), (0xd0e, 0xd10, 1), (0xd12, 0xd3a, 1),
     (0xd3d, 0xd4e, 17), (0xd54, 0xd56, 1), (0xd5f, 0xd61, 1), (0xd7a, 0xd7f, 1),
     (0xd85, 0xd96, 1), (0xd9a, 0xdb1, 1), (0xdb3, 0xdbb, 1), (0xdbd, 0xdc0, 3),
     (0xdc1, 0xdc6, 1), (0xe01, 0xe30, 1), (0xe32, 0xe33, 1), (0xe40, 0xe46, 1),
     (0xe81, 0xe82, 1), (0xe84, 0xe86, 2), (0xe87, 0xe8a, 1), (0xe8c, 0xea3, 1),
     (0xea5, 0xea7, 2), (0xea8, 0xeb0, 1), (0xeb2, 0xeb3, 1), (0xebd, 0xec0, 3),
     (0xec1, 0xec4, 1), (0xec6, 0xedc, 22), (0xedd, 0xedf, 1), (0xf00, 0xf40, 64),
     (0xf41, 0xf47, 1), (0xf49, 0xf6c, 1), (0xf88, 0xf8c, 1), (0x1000, 0x102a, 1)]"

definition Letter_R16_2 :: "range_entry list" where
  "Letter_R16_2 =
     [(0x103f, 0x1050, 17), (0x1051, 0x1055, 1), (0x105a, 0x105d, 1), (0x1061, 0x1065, 4),
     (0x1066, 0x106e, 8), (0x106f, 0x1070, 1), (0x1075, 0x1081, 1), (0x108e, 0x10a0, 18),
     (0x10a1, 0x10c5, 1), (0x10c7, 0x10cd, 6), (0x10d0, 0x10fa, 1), (0x10fc, 0x1248, 1),
     (0x124a, 0x124d, 1), (0x1250, 0x1256, 1), (0x1258, 0x125a, 2), (0x125b, 0x125d, 1),
     (0x1260, 0x1288, 1), (0x128a, 0x128d, 1), (0x1290, 0x12b0, 1), (0x12b2, 0x12b5, 1),
     (0x12b8, 0x12be, 1), (0x12c0, 0x12c2, 2), (0x12c3, 0x12c5, 1), (0x12c8, 0x12d6, 1),
     (0x12d8, 0x1310, 1), (0x1312, 0x1315, 1), (0x1318, 0x135a, 1), (0x1380, 0x138f, 1),
     (0x13a0, 0x13f5, 1), (0x13f8, 0x13fd, 1), (0x1401, 0x166c, 1), (0x166f, 0x167f, 1),
     (0x1681, 0x169a, 1), (0x16a0, 0x16ea, 1), (0x16f1, 0x16f8, 1), (0x1700, 0x1711, 1),
     (0x171f, 0x1731, 1), (0x1740, 0x1751, 1), (0x1760, 0x176c, 1), (0x176e, 0x1770, 1),
     (0x1780, 0x17b3, 1), (0x17d7, 0x17dc, 5), (0x1820, 0x1878, 1), (0x1880, 0x1884, 1),
     (0x1887, 0x18a8, 1), (0x18aa, 0x18b0, 6), (0x18b1, 0x18f5, 1), (0x1900, 0x191e, 1),
     (0x1950, 0x196d, 1), (0x1970, 0x1974, 1), (0x1980, 0x19ab, 1), (0x19b0, 0x19c9, 1),
     (0x1a00, 0x1a16, 1), (0x1a20, 0x1a54, 1), (0x1aa7, 0x1b05, 94), (0x1b06, 0x1b33, 1),
     (0x1b45, 0x1b4c, 1), (0x1b83, 0x1ba0, 1), (0x1bae, 0x1baf, 1), (0x1bba, 0x1be5, 1),
     (0x1c00, 0x1c23, 1), (0x1c4d, 0x1c4f, 1), (0x1c5a, 0x1c7d, 1), (0x1c80, 0x1c88, 1),
     (0x1c90, 0x1cba, 1), (0x1cbd, 0x1cbf, 1), (0x1ce9, 0x1cec, 1), (0x1cee, 0x1cf3, 1),
     (0x1cf5, 0x1cf6, 1), (0x1cfa, 0x1d00, 6), (0x1d01, 0x1dbf, 1), (0x1e00, 0x1f15, 1),
     (0x1f18, 0x1f1d, 1), (0x1f20, 0x1f45, 1), (0x1f48, 0x1f4d, 1), (0x1f50, 0x1f57, 1),
     (0x1f59, 0x1f5f, 2), (0x1f60, 0x1f7d, 1), (0x1f80, 0x1fb4, 1), (0x1fb6, 0x1fbc, 1),
     (0x1fbe, 0x1fc2, 4), (0x1fc3, 0x1fc4, 1), (0x1fc6, 0x1fcc, 1), (0x1fd0, 0x1fd3, 1),
     (0x1fd6, 0x1fdb, 1), (0x1fe0, 0x1fec, 1), (0x1ff2, 0x1ff4, 1), (0x1ff6, 0x1ffc, 1),
     (0x2071, 0x207f, 14), (0x2090, 0x209c, 1), (0x2102, 0x2107, 5), (0x210a, 0x2113, 1),
     (0x2115, 0x2119, 4), (0x211a, 0x211d, 1), (0x2124, 0x212a, 2), (0x212b, 0x212d, 1),
     (0x212f, 0x2139, 1), (0x213c, 0x213f, 1), (0x2145, 0x2149, 1), (0x214e, 0x2183, 53),
     (0x2184, 0x2c00, 2684), (0x2c01, 0x2ce4, 1), (0x2ceb, 0x2cee, 1), (0x2cf2, 0x2cf3, 1),
     (0x2d00, 0x2d25, 1), (0x2d27, 0x2d2d, 6), (0x2d30, 0x2d67, 1), (0x2d6f, 0x2d80, 17),
     (0x2d81, 0x2d96, 1), (0x2da0, 0x2da6, 1), (0x2da8, 0x2dae, 1), (0x2db0, 0x2db6, 1),
     (0x2db8, 0x2dbe, 1), (0x2dc0, 0x2dc6, 1), (0x2dc8, 0x2dce, 1), (0x2dd0, 0x2dd6, 1),
     (0x2dd8, 0x2dde, 1), (0x2e2f, 0x3005, 470), (0x3006, 0x3031, 43), (0x3032, 0x3035, 1),
     (0x303b, 0x303c, 1), (0x3041, 0x3096, 1), (0x309d, 0x309f, 1), (0x30a1, 0x30fa, 1),
     (0x30fc, 0x30ff, 1), (0x3105, 0x312f, 1), (0x3131, 0x318e, 1), (0x31a0, 0x31bf, 1),
     (0x31f0, 0x31ff, 1), (0x3400, 0x4dbf, 1), (0x4e00, 0xa48c, 1), (0xa4d0, 0xa4fd, 1),
     (0xa500, 0xa60c, 1), (0xa610, 0xa61f, 1), (0xa62a, 0xa62b, 1), (0xa640, 0xa66e, 1),
     (0xa67f, 0xa69d, 1), (0xa6a0, 0xa6e5, 1), (0xa717, 0xa71f, 1), (0xa722, 0xa788, 1),
     (0xa78b, 0xa7ca, 1), (0xa7d0, 0xa7d1, 1), (0xa7d3, 0xa7d5, 2), (0xa7d6, 0xa7d9, 1),
     (0xa7f2, 0xa801, 1), (0xa803, 0xa805, 1), (0xa807, 0xa80a, 1), (0xa80c, 0xa822, 1),
     (0xa840, 0xa873, 1), (0xa882, 0xa8b3, 1)]"

definition Letter_R16_3 :: "range_entry list" where
  "Letter_R16_3 =
     [(0xa8f2, 0xa8f7, 1), (0xa8fb, 0xa8fd, 2), (0xa8fe, 0xa90a, 12), (0xa90b, 0xa925, 1),
     (0xa930, 0xa946, 1), (0xa960, 0xa97c, 1), (0xa984, 0xa9b2, 1), (0xa9cf, 0xa9e0, 17),
     (0xa9e1, 0xa9e4, 1), (0xa9e6, 0xa9ef, 1), (0xa9fa, 0xa9fe, 1), (0xaa00, 0xaa28, 1),
     (0xaa40, 0xaa42, 1), (0xaa44, 0xaa4b, 1), (0xaa60, 0xaa76, 1), (0xaa7a, 0xaa7e, 4),
     (0xaa7f, 0xaaaf, 1), (0xaab1, 0xaab5, 4), (0xaab6, 0xaab9, 3), (0xaaba, 0xaabd, 1),
     (0xaac0, 0xaac2, 2), (0xaadb, 0xaadd, 1), (0xaae0, 0xaaea, 1), (0xaaf2, 0xaaf4, 1),
     (0xab01, 0xab06, 1), (0xab09, 0xab0e, 1), (0xab11, 0xab16, 1), (0xab20, 0xab26, 1),
     (0xab28, 0xab2e, 1), (0xab30, 0xab5a, 1), (0xab5c, 0xab69, 1), (0xab70, 0xabe2, 1),
     (0xac00, 0xd7a3, 1), (0xd7b0, 0xd7c6, 1), (0xd7cb, 0xd7fb, 1), (0xf900, 0xfa6d, 1),
     (0xfa70, 0xfad9, 1), (0xfb00, 0xfb06, 1), (0xfb13, 0xfb17, 1), (0xfb1d, 0xfb1f, 2),
     (0xfb20, 0xfb28, 1), (0xfb2a, 0xfb36, 1), (0xfb38, 0xfb3c, 1), (0xfb3e, 0xfb40, 2),
     (0xfb41, 0xfb43, 2), (0xfb44, 0xfb46, 2), (0xfb47, 0xfbb1, 1), (0xfbd3, 0xfd3d, 1),
     (0xfd50, 0xfd8f, 1), (0xfd92, 0xfdc7, 1), (0xfdf0, 0xfdfb, 1), (0xfe70, 0xfe74, 1),
     (0xfe76, 0xfefc, 1), (0xff21, 0xff3a, 1), (0xff41, 0xff5a, 1), (0xff66, 0xffbe, 1),
     (0xffc2, 0xffc7, 1), (0xffca, 0xffcf, 1), (0xffd2, 0xffd7, 1), (0xffda, 0xffdc, 1)]"

definition Letter_R16 :: "range_entry list" where
  "Letter_R16 = Letter_R16_1 @ Letter_R16_2 @ Letter_R16_3"

definition Letter_R32_1 :: "range_entry list" where
  "Letter_R32_1 =
     [(0x10000, 0x1000b, 1), (0x1000d, 0x10026, 1), (0x10028, 0x1003a, 1),
     (0x1003c, 0x1003d, 1), (0x1003f, 0x1004d, 1), (0x10050, 0x1005d, 1),
     (0x10080, 0x100fa, 1), (0x10280, 0x1029c, 1), (0x102a0, 0x102d0, 1),
     (0x10300, 0x1031f, 1), (0x1032d, 0x10340, 1), (0x10342, 0x10349, 1),
     (0x10350, 0x10375, 1), (0x10380, 0x1039d, 1), (0x103a0, 0x103c3, 1),
     (0x103c8, 0x103cf, 1), (0x10400, 0x1049d, 1), (0x104b0, 0x104d3, 1),
     (0x104d8, 0x104fb, 1), (0x10500, 0x10527, 1), (0x10530, 0x10563, 1),
     (0x10570, 0x1057a, 1), (0x1057c, 0x1058a, 1), (0x1058c, 0x10592, 1),
     (0x10594, 0x10595, 1), (0x10597, 0x105a1, 1), (0x105a3, 0x105b1, 1),
     (0x105b3, 0x105b9, 1), (0x105bb, 0x105bc, 1), (0x10600, 0x10736, 1),
     (0x10740, 0x10755, 1), (0x10760, 0x10767, 1), (0x10780, 0x10785, 1),
     (0x10787, 0x107b0, 1), (0x107b2, 0x107ba, 1), (0x10800, 0x10805, 1),
     (0x10808, 0x1080a, 2), (0x1080b, 0x10835, 1), (0x10837, 0x10838, 1),
     (0x1083c, 0x1083f, 3), (0x10840, 0x10855, 1), (0x10860, 0x10876, 1),
     (0x10880, 0x1089e, 1), (0x108e0, 0x108f2, 1), (0x108f4, 0x108f5, 1),
     (0x10900, 0x10915, 1), (0x10920, 0x10939, 1), (0x10980, 0x109b7, 1),
     (0x109be, 0x109bf, 1), (0x10a00, 0x10a10, 16), (0x10a11, 0x10a13, 1),
     (0x10a15, 0x10a17, 1), (0x10a19, 0x10a35, 1), (0x10a60, 0x10a7c, 1),
     (0x10a80, 0x10a9c, 1), (0x10ac0, 0x10ac7, 1), (0x10ac9, 0x10ae4, 1),
     (0x10b00, 0x10b35, 1), (0x10b40, 0x10b55, 1), (0x10b60, 0x10b72, 1),
     (0x10b80, 0x10b91, 1), (0x10c00, 0x10c48, 1), (0x10c80, 0x10cb2, 1),
     (0x10cc0, 0x10cf2, 1), (0x10d00, 0x10d23, 1), (0x10e80, 0x10ea9, 1),
     (0x10eb0, 0x10eb1, 1), (0x10f00, 0x10f1c, 1), (0x10f27, 0x10f30, 9),
     (0x10f31, 0x10f45, 1), (0x10f70, 0x10f81, 1), (0x10fb0, 0x10fc4, 1),
     (0x10fe0, 0x10ff6, 1), (0x11003, 0x11037, 1), (0x11071, 0x11072, 1),
     (0x11075, 0x11083, 14), (0x11084, 0x110af, 1), (0x110d0, 0x110e8, 1),
     (0x11103, 0x11126, 1), (0x11144, 0x11147, 3), (0x11150, 0x11172, 1),
     (0x11176, 0x11183, 13), (0x11184, 0x111b2, 1), (0x111c1, 0x111c4, 1),
     (0x111da, 0x111dc, 2), (0x11200, 0x11211, 1), (0x11213, 0x1122b, 1),
     (0x1123f, 0x11240, 1), (0x11280, 0x11286, 1), (0x11288, 0x1128a, 2),
     (0x1128b, 0x1128d, 1), (0x1128f, 0x1129d, 1), (0x1129f, 0x112a8, 1),
     (0x112b0, 0x112de, 1), (0x11305, 0x1130c, 1), (0x1130f, 0x11310, 1),
     (0x11313, 0x11328, 1), (0x1132a, 0x11330, 1), (0x11332, 0x11333, 1),
     (0x11335, 0x11339, 1), (0x1133d, 0x11350, 19), (0x1135d, 0x11361, 1),
     (0x11400, 0x11434, 1), (0x11447, 0x1144a, 1), (0x1145f, 0x11461, 1),
     (0x11480, 0x114af, 1), (0x114c4, 0x114c5, 1), (0x114c7, 0x11580, 185),
     (0x11581, 0x115ae, 1), (0x115d8, 0x115db, 1), (0x11600, 0x1162f, 1),
     (0x11644, 0x11680, 60), (0x11681, 0x116aa, 1), (0x116b8, 0x11700, 72),
     (0x11701, 0x1171a, 1), (0x11740, 0x11746, 1), (0x11800, 0x1182b, 1),
     (0x118a0, 0x118df, 1), (0x118ff, 0x11906, 1), (0x11909, 0x1190c, 3),
     (0x1190d, 0x11913, 1), (0x11915, 0x11916, 1), (0x11918, 0x1192f, 1),
     (0x1193f, 0x11941, 2), (0x119a0, 0x119a7, 1), (0x119aa, 0x119d0, 1),
     (0x119e1, 0x119e3, 2), (0x11a00, 0x11a0b, 11), (0x11a0c, 0x11a32, 1),
     (0x11a3a, 0x11a50, 22), (0x11a5c, 0x11a89, 1), (0x11a9d, 0x11ab0, 19),
     (0x11ab1, 0x11af8, 1), (0x11c00, 0x11c08, 1), (0x11c0a, 0x11c2e, 1),
     (0x11c40, 0x11c72, 50), (0x11c73, 0x11c8f, 1), (0x11d00, 0x11d06, 1),
     (0x11d08, 0x11d09, 1), (0x11d0b, 0x11d30, 1), (0x11d46, 0x11d60, 26),
     (0x11d61, 0x11d65, 1), (0x11d67, 0x11d68, 1), (0x11d6a, 0x11d89, 1),
     (0x11d98, 0x11ee0, 328), (0x11ee1, 0x11ef2, 1), (0x11f02, 0x11f04, 2),
     (0x11f05, 0x11f10, 1), (0x11f12, 0x11f33, 1)]"

definition Letter_R32_2 :: "range_entry list" where
  "Letter_R32_2 =
     [(0x11fb0, 0x12000, 80), (0x12001, 0x12399, 1), (0x12480, 0x12543, 1),
     (0x12f90, 0x12ff0, 1), (0x13000, 0x1342f, 1), (0x13441, 0x13446, 1),
     (0x14400, 0x14646, 1), (0x16800, 0x16a38, 1), (0x16a40, 0x16a5e, 1),
     (0x16a70, 0x16abe, 1), (0x16ad0, 0x16aed, 1), (0x16b00, 0x16b2f, 1),
     (0x16b40, 0x16b43, 1), (0x16b63, 0x16b77, 1), (0x16b7d, 0x16b8f, 1),
     (0x16e40, 0x16e7f, 1), (0x16f00, 0x16f4a, 1), (0x16f50, 0x16f93, 67),
     (0x16f94, 0x16f9f, 1), (0x16fe0, 0x16fe1, 1), (0x16fe3, 0x17000, 29),
     (0x17001, 0x187f7, 1), (0x18800, 0x18cd5, 1), (0x18d00, 0x18d08, 1),
     (0x1aff0, 0x1aff3, 1), (0x1aff5, 0x1affb, 1), (0x1affd, 0x1affe, 1),
     (0x1b000, 0x1b122, 1), (0x1b132, 0x1b150, 30), (0x1b151, 0x1b152, 1),
     (0x1b155, 0x1b164, 15), (0x1b165, 0x1b167, 1), (0x1b170, 0x1b2fb, 1),
     (0x1bc00, 0x1bc6a, 1), (0x1bc70, 0x1bc7c, 1), (0x1bc80, 0x1bc88, 1),
     (0x1bc90, 0x1bc99, 1), (0x1d400, 0x1d454, 1), (0x1d456, 0x1d49c, 1),
     (0x1d49e, 0x1d49f, 1), (0x1d4a2, 0x1d4a5, 3), (0x1d4a6, 0x1d4a9, 3),
     (0x1d4aa, 0x1d4ac, 1), (0x1d4ae, 0x1d4b9, 1), (0x1d4bb, 0x1d4bd, 2),
     (0x1d4be, 0x1d4c3, 1), (0x1d4c5, 0x1d505, 1), (0x1d507, 0x1d50a, 1),
     (0x1d50d, 0x1d514, 1), (0x1d516, 0x1d51c, 1), (0x1d51e, 0x1d539, 1),
     (0x1d53b, 0x1d53e, 1), (0x1d540, 0x1d544, 1), (0x1d546, 0x1d54a, 4),
     (0x1d54b, 0x1d550, 1), (0x1d552, 0x1d6a5, 1), (0x1d6a8, 0x1d6c0, 1),
     (0x1d6c2, 0x1d6da, 1), (0x1d6dc, 0x1d6fa, 1), (0x1d6fc, 0x1d714, 1),
     (0x1d716, 0x1d734, 1), (0x1d736, 0x1d74e, 1), (0x1d750, 0x1d76e, 1),
     (0x1d770, 0x1d788, 1), (0x1d78a, 0x1d7a8, 1), (0x1d7aa, 0x1d7c2, 1),
     (0x1d7c4, 0x1d7cb, 1), (0x1df00, 0x1df1e, 1), (0x1df25, 0x1df2a, 1),
     (0x1e030, 0x1e06d, 1), (0x1e100, 0x1e12c, 1), (0x1e137, 0x1e13d, 1),
     (0x1e14e, 0x1e290, 322), (0x1e291, 0x1e2ad, 1), (0x1e2c0, 0x1e2eb, 1),
     (0x1e4d0, 0x1e4eb, 1), (0x1e7e0, 0x1e7e6, 1), (0x1e7e8, 0x1e7eb, 1),
     (0x1e7ed, 0x1e7ee, 1), (0x1e7f0, 0x1e7fe, 1), (0x1e800, 0x1e8c4, 1),
     (0x1e900, 0x1e943, 1), (0x1e94b, 0x1ee00, 1205), (0x1ee01, 0x1ee03, 1),
     (0x1ee05, 0x1ee1f, 1), (0x1ee21, 0x1ee22, 1), (0x1ee24, 0x1ee27, 3),
     (0x1ee29, 0x1ee32, 1), (0x1ee34, 0x1ee37, 1), (0x1ee39, 0x1ee3b, 2),
     (0x1ee42, 0x1ee47, 5), (0x1ee49, 0x1ee4d, 2), (0x1ee4e, 0x1ee4f, 1),
     (0x1ee51, 0x1ee52, 1), (0x1ee54, 0x1ee57, 3), (0x1ee59, 0x1ee61, 2),
     (0x1ee62, 0x1ee64, 2), (0x1ee67, 0x1ee6a, 1), (0x1ee6c, 0x1ee72, 1),
     (0x1ee74, 0x1ee77, 1), (0x1ee79, 0x1ee7c, 1), (0x1ee7e, 0x1ee80, 2),
     (0x1ee81, 0x1ee89, 1), (0x1ee8b, 0x1ee9b, 1), (0x1eea1, 0x1eea3, 1),
     (0x1eea5, 0x1eea9, 1), (0x1eeab, 0x1eebb, 1), (0x20000, 0x2a6df, 1),
     (0x2a700, 0x2b739, 1), (0x2b740, 0x2b81d, 1), (0x2b820, 0x2cea1, 1),
     (0x2ceb0, 0x2ebe0, 1), (0x2f800, 0x2fa1d, 1), (0x30000, 0x3134a, 1), (0x31350, 0x323af, 1)]"

definition Letter_R32 :: "range_entry list" where
  "Letter_R32 = Letter_R32_1 @ Letter_R32_2"

definition Digit_R16 :: "range_entry list" where
  "Digit_R16 =
     [(0x30, 0x39, 1), (0x660, 0x669, 1), (0x6f0, 0x6f9, 1), (0x7c0, 0x7c9, 1),
     (0x966, 0x96f, 1), (0x9e6, 0x9ef, 1), (0xa66, 0xa6f, 1), (0xae6, 0xaef, 1),
     (0xb66, 0xb6f, 1), (0xbe6, 0xbef, 1), (0xc66, 0xc6f, 1), (0xce6, 0xcef, 1),
     (0xd66, 0xd6f, 1), (0xde6, 0xdef, 1), (0xe50, 0xe59, 1), (0xed0, 0xed9, 1),
     (0xf20, 0xf29, 1), (0x1040, 0x1049, 1), (0x1090, 0x1099, 1), (0x17e0, 0x17e9, 1),
     (0x1810, 0x1819, 1), (0x1946, 0x194f, 1), (0x19d0, 0x19d9, 1), (0x1a80, 0x1a89, 1),
     (0x1a90, 0x1a99, 1), (0x1b50, 0x1b59, 1), (0x1bb0, 0x1bb9, 1), (0x1c40, 0x1c49, 1),
     (0x1c50, 0x1c59, 1), (0xa620, 0xa629, 1), (0xa8d0, 0xa8d9, 1), (0xa900, 0xa909, 1),
     (0xa9d0, 0xa9d9, 1), (0xa9f0, 0xa9f9, 1), (0xaa50, 0xaa59, 1), (0xabf0, 0xabf9, 1),
     (0xff10, 0xff19, 1)]"

definition Digit_R32 :: "range_entry list" where
  "Digit_R32 =
     [(0x104a0, 0x104a9, 1), (0x10d30, 0x10d39, 1), (0x11066, 0x1106f, 1),
     (0x110f0, 0x110f9, 1), (0x11136, 0x1113f, 1), (0x111d0, 0x111d9, 1),
     (0x112f0, 0x112f9, 1), (0x11450, 0x11459, 1), (0x114d0, 0x114d9, 1),
     (0x11650, 0x11659, 1), (0x116c0, 0x116c9, 1), (0x11730, 0x11739, 1),
     (0x118e0, 0x118e9, 1), (0x11950, 0x11959, 1), (0x11c50, 0x11c59, 1),
     (0x11d50, 0x11d59, 1), (0x11da0, 0x11da9, 1), (0x11f50, 0x11f59, 1),
     (0x16a60, 0x16a69, 1), (0x16ac0, 0x16ac9, 1), (0x16b50, 0x16b59, 1),
     (0x1d7ce, 0x1d7ff, 1), (0x1e140, 0x1e149, 1), (0x1e2f0, 0x1e2f9, 1),
     (0x1e4f0, 0x1e4f9, 1), (0x1e950, 0x1e959, 1), (0x1fbf0, 0x1fbf9, 1)]"

definition properties_1 :: "int list" where
  "properties_1 =
     [1, 1, 1, 1, 1, 1, 1, 1, 1, 1, 1, 1, 1, 1, 1, 1, 1, 1, 1, 1, 1, 1, 1, 1, 1, 1, 1, 1, 1, 1,
     1, 1, 144, 130, 130, 130, 136, 130, 130, 130, 130, 130, 130, 136, 130, 130, 130, 130, 132,
     132, 132, 132, 132, 132, 132, 132, 132, 132, 130, 130, 136, 136, 136, 130, 130, 160, 160,
     160, 160, 160, 160, 160, 160, 160, 160, 160, 160, 160, 160, 160, 160, 160, 160, 160, 160,
     160, 160, 160, 160, 160, 160, 130, 130, 130, 136, 130, 136, 192, 192, 192, 192, 192, 192,
     192, 192, 192, 192, 192, 192, 192, 192, 192, 192, 192, 192, 192, 192, 192, 192, 192, 192,
     192, 192, 130, 136, 130, 136, 1]"

definition properties_2 :: "int list" where
  "properties_2 =
     [1, 1, 1, 1, 1, 1, 1, 1, 1, 1, 1, 1, 1, 1, 1, 1, 1, 1, 1, 1, 1, 1, 1, 1, 1, 1, 1, 1, 1, 1,
     1, 1, 16, 130, 136, 136, 136, 136, 136, 130, 136, 136, 224, 130, 136, 0, 136, 136, 136,
     136, 132, 132, 136, 192, 130, 130, 136, 132, 224, 130, 132, 132, 132, 130, 160, 160, 160,
     160, 160, 160, 160, 160, 160, 160, 160, 160, 160, 160, 160, 160, 160, 160, 160, 160, 160,
     160, 160, 136, 160, 160, 160, 160, 160, 160, 160, 192, 192, 192, 192, 192, 192, 192, 192,
     192, 192, 192, 192, 192, 192, 192, 192, 192, 192, 192, 192, 192, 192, 192, 192, 136, 192,
     192, 192, 192, 192, 192, 192, 192]"

definition isPrint16_1 :: "int list" where
  "isPrint16_1 =
     [0x20, 0x7e, 0xa1, 0x377, 0x37a, 0x37f, 0x384, 0x556, 0x559, 0x58a, 0x58d, 0x5c7, 0x5d0,
     0x5ea, 0x5ef, 0x5f4, 0x606, 0x70d, 0x710, 0x74a, 0x74d, 0x7b1, 0x7c0, 0x7fa, 0x7fd, 0x82d,
     0x830, 0x85b, 0x85e, 0x86a, 0x870, 0x88e, 0x898, 0x98c, 0x98f, 0x990, 0x993, 0x9b2, 0x9b6,
     0x9b9, 0x9bc, 0x9c4, 0x9c7, 0x9c8, 0x9cb, 0x9ce, 0x9d7, 0x9d7, 0x9dc, 0x9e3, 0x9e6, 0x9fe,
     0xa01, 0xa0a, 0xa0f, 0xa10, 0xa13, 0xa39, 0xa3c, 0xa42, 0xa47, 0xa48, 0xa4b, 0xa4d, 0xa51,
     0xa51, 0xa59, 0xa5e, 0xa66, 0xa76, 0xa81, 0xab9, 0xabc, 0xacd, 0xad0, 0xad0, 0xae0, 0xae3,
     0xae6, 0xaf1, 0xaf9, 0xb0c, 0xb0f, 0xb10, 0xb13, 0xb39, 0xb3c, 0xb44, 0xb47, 0xb48, 0xb4b,
     0xb4d, 0xb55, 0xb57, 0xb5c, 0xb63, 0xb66, 0xb77, 0xb82, 0xb8a, 0xb8e, 0xb95, 0xb99, 0xb9f,
     0xba3, 0xba4, 0xba8, 0xbaa, 0xbae, 0xbb9, 0xbbe, 0xbc2, 0xbc6, 0xbcd, 0xbd0, 0xbd0, 0xbd7,
     0xbd7, 0xbe6, 0xbfa, 0xc00, 0xc39, 0xc3c, 0xc4d, 0xc55, 0xc5a, 0xc5d, 0xc5d, 0xc60, 0xc63,
     0xc66, 0xc6f, 0xc77, 0xcb9, 0xcbc, 0xccd, 0xcd5, 0xcd6, 0xcdd, 0xce3, 0xce6, 0xcf3, 0xd00,
     0xd4f, 0xd54, 0xd63, 0xd66, 0xd96, 0xd9a, 0xdbd, 0xdc0, 0xdc6, 0xdca, 0xdca, 0xdcf, 0xddf,
     0xde6, 0xdef, 0xdf2, 0xdf4, 0xe01, 0xe3a, 0xe3f, 0xe5b, 0xe81, 0xebd, 0xec0, 0xed9, 0xedc,
     0xedf, 0xf00, 0xf6c, 0xf71, 0xfda, 0x1000, 0x10c7, 0x10cd, 0x10cd, 0x10d0, 0x124d, 0x1250,
     0x125d, 0x1260, 0x128d, 0x1290, 0x12b5, 0x12b8, 0x12c5, 0x12c8, 0x1315, 0x1318, 0x135a,
     0x135d, 0x137c, 0x1380, 0x1399, 0x13a0, 0x13f5, 0x13f8, 0x13fd, 0x1400, 0x169c, 0x16a0,
     0x16f8, 0x1700, 0x1715, 0x171f, 0x1736, 0x1740, 0x1753, 0x1760, 0x1773, 0x1780, 0x17dd,
     0x17e0, 0x17e9, 0x17f0, 0x17f9, 0x1800, 0x1819, 0x1820, 0x1878, 0x1880, 0x18aa, 0x18b0,
     0x18f5, 0x1900, 0x192b, 0x1930, 0x193b, 0x1940, 0x1940, 0x1944, 0x196d, 0x1970, 0x1974,
     0x1980, 0x19ab, 0x19b0, 0x19c9, 0x19d0, 0x19da, 0x19de, 0x1a1b, 0x1a1e, 0x1a7c, 0x1a7f,
     0x1a89, 0x1a90, 0x1a99, 0x1aa0, 0x1aad, 0x1ab0, 0x1ace, 0x1b00, 0x1b4c, 0x1b50, 0x1bf3,
     0x1bfc, 0x1c37, 0x1c3b, 0x1c49, 0x1c4d, 0x1c88, 0x1c90, 0x1cba, 0x1cbd, 0x1cc7, 0x1cd0,
     0x1cfa, 0x1d00, 0x1f15, 0x1f18, 0x1f1d, 0x1f20, 0x1f45, 0x1f48, 0x1f4d, 0x1f50, 0x1f7d,
     0x1f80, 0x1fd3, 0x1fd6, 0x1fef, 0x1ff2, 0x1ffe, 0x2010, 0x2027, 0x2030, 0x205e, 0x2070,
     0x2071, 0x2074, 0x209c, 0x20a0, 0x20c0, 0x20d0, 0x20f0, 0x2100, 0x218b]"

definition isPrint16_2 :: "int list" where
  "isPrint16_2 =
     [0x2190, 0x2426, 0x2440, 0x244a, 0x2460, 0x2b73, 0x2b76, 0x2cf3, 0x2cf9, 0x2d27, 0x2d2d,
     0x2d2d, 0x2d30, 0x2d67, 0x2d6f, 0x2d70, 0x2d7f, 0x2d96, 0x2da0, 0x2e5d, 0x2e80, 0x2ef3,
     0x2f00, 0x2fd5, 0x2ff0, 0x2ffb, 0x3001, 0x3096, 0x3099, 0x30ff, 0x3105, 0x31e3, 0x31f0,
     0xa48c, 0xa490, 0xa4c6, 0xa4d0, 0xa62b, 0xa640, 0xa6f7, 0xa700, 0xa7ca, 0xa7d0, 0xa7d9,
     0xa7f2, 0xa82c, 0xa830, 0xa839, 0xa840, 0xa877, 0xa880, 0xa8c5, 0xa8ce, 0xa8d9, 0xa8e0,
     0xa953, 0xa95f, 0xa97c, 0xa980, 0xa9d9, 0xa9de, 0xaa36, 0xaa40, 0xaa4d, 0xaa50, 0xaa59,
     0xaa5c, 0xaac2, 0xaadb, 0xaaf6, 0xab01, 0xab06, 0xab09, 0xab0e, 0xab11, 0xab16, 0xab20,
     0xab6b, 0xab70, 0xabed, 0xabf0, 0xabf9, 0xac00, 0xd7a3, 0xd7b0, 0xd7c6, 0xd7cb, 0xd7fb,
     0xf900, 0xfa6d, 0xfa70, 0xfad9, 0xfb00, 0xfb06, 0xfb13, 0xfb17, 0xfb1d, 0xfbc2, 0xfbd3,
     0xfd8f, 0xfd92, 0xfdc7, 0xfdcf, 0xfdcf, 0xfdf0, 0xfe19, 0xfe20, 0xfe6b, 0xfe70, 0xfefc,
     0xff01, 0xffbe, 0xffc2, 0xffc7, 0xffca, 0xffcf, 0xffd2, 0xffd7, 0xffda, 0xffdc, 0xffe0,
     0xffee, 0xfffc, 0xfffd]"

definition isPrint16 :: "int list" where
  "isPrint16 = isPrint16_1 @ isPrint16_2"

definition isNotPrint16 :: "int list" where
  "isNotPrint16 =
     [0xad, 0x38b, 0x38d, 0x3a2, 0x530, 0x590, 0x61c, 0x6dd, 0x83f, 0x85f, 0x8e2, 0x984, 0x9a9,
     0x9b1, 0x9de, 0xa04, 0xa29, 0xa31, 0xa34, 0xa37, 0xa3d, 0xa5d, 0xa84, 0xa8e, 0xa92, 0xaa9,
     0xab1, 0xab4, 0xac6, 0xaca, 0xb00, 0xb04, 0xb29, 0xb31, 0xb34, 0xb5e, 0xb84, 0xb91, 0xb9b,
     0xb9d, 0xbc9, 0xc0d, 0xc11, 0xc29, 0xc45, 0xc49, 0xc57, 0xc8d, 0xc91, 0xca9, 0xcb4, 0xcc5,
     0xcc9, 0xcdf, 0xcf0, 0xd0d, 0xd11, 0xd45, 0xd49, 0xd80, 0xd84, 0xdb2, 0xdbc, 0xdd5, 0xdd7,
     0xe83, 0xe85, 0xe8b, 0xea4, 0xea6, 0xec5, 0xec7, 0xecf, 0xf48, 0xf98, 0xfbd, 0xfcd,
     0x10c6, 0x1249, 0x1257, 0x1259, 0x1289, 0x12b1, 0x12bf, 0x12c1, 0x12d7, 0x1311, 0x1680,
     0x176d, 0x1771, 0x180e, 0x191f, 0x1a5f, 0x1b7f, 0x1f58, 0x1f5a, 0x1f5c, 0x1f5e, 0x1fb5,
     0x1fc5, 0x1fdc, 0x1ff5, 0x208f, 0x2b96, 0x2d26, 0x2da7, 0x2daf, 0x2db7, 0x2dbf, 0x2dc7,
     0x2dcf, 0x2dd7, 0x2ddf, 0x2e9a, 0x3040, 0x3130, 0x318f, 0x321f, 0xa7d2, 0xa7d4, 0xa9ce,
     0xa9ff, 0xab27, 0xab2f, 0xfb37, 0xfb3d, 0xfb3f, 0xfb42, 0xfb45, 0xfe53, 0xfe67, 0xfe75,
     0xffe7]"

definition isPrint32_1 :: "int list" where
  "isPrint32_1 =
     [0x10000, 0x1004d, 0x10050, 0x1005d, 0x10080, 0x100fa, 0x10100, 0x10102, 0x10107, 0x10133,
     0x10137, 0x1019c, 0x101a0, 0x101a0, 0x101d0, 0x101fd, 0x10280, 0x1029c, 0x102a0, 0x102d0,
     0x102e0, 0x102fb, 0x10300, 0x10323, 0x1032d, 0x1034a, 0x10350, 0x1037a, 0x10380, 0x103c3,
     0x103c8, 0x103d5, 0x10400, 0x1049d, 0x104a0, 0x104a9, 0x104b0, 0x104d3, 0x104d8, 0x104fb,
     0x10500, 0x10527, 0x10530, 0x10563, 0x1056f, 0x105bc, 0x10600, 0x10736, 0x10740, 0x10755,
     0x10760, 0x10767, 0x10780, 0x107ba, 0x10800, 0x10805, 0x10808, 0x10838, 0x1083c, 0x1083c,
     0x1083f, 0x1089e, 0x108a7, 0x108af, 0x108e0, 0x108f5, 0x108fb, 0x1091b, 0x1091f, 0x10939,
     0x1093f, 0x1093f, 0x10980, 0x109b7, 0x109bc, 0x109cf, 0x109d2, 0x10a06, 0x10a0c, 0x10a35,
     0x10a38, 0x10a3a, 0x10a3f, 0x10a48, 0x10a50, 0x10a58, 0x10a60, 0x10a9f, 0x10ac0, 0x10ae6,
     0x10aeb, 0x10af6, 0x10b00, 0x10b35, 0x10b39, 0x10b55, 0x10b58, 0x10b72, 0x10b78, 0x10b91,
     0x10b99, 0x10b9c, 0x10ba9, 0x10baf, 0x10c00, 0x10c48, 0x10c80, 0x10cb2, 0x10cc0, 0x10cf2,
     0x10cfa, 0x10d27, 0x10d30, 0x10d39, 0x10e60, 0x10ead, 0x10eb0, 0x10eb1, 0x10efd, 0x10f27,
     0x10f30, 0x10f59, 0x10f70, 0x10f89, 0x10fb0, 0x10fcb, 0x10fe0, 0x10ff6, 0x11000, 0x1104d,
     0x11052, 0x11075, 0x1107f, 0x110c2, 0x110d0, 0x110e8, 0x110f0, 0x110f9, 0x11100, 0x11147,
     0x11150, 0x11176, 0x11180, 0x111f4, 0x11200, 0x11241, 0x11280, 0x112a9, 0x112b0, 0x112ea,
     0x112f0, 0x112f9, 0x11300, 0x1130c, 0x1130f, 0x11310, 0x11313, 0x11344, 0x11347, 0x11348,
     0x1134b, 0x1134d, 0x11350, 0x11350, 0x11357, 0x11357, 0x1135d, 0x11363, 0x11366, 0x1136c,
     0x11370, 0x11374, 0x11400, 0x11461, 0x11480, 0x114c7, 0x114d0, 0x114d9, 0x11580, 0x115b5,
     0x115b8, 0x115dd, 0x11600, 0x11644, 0x11650, 0x11659, 0x11660, 0x1166c, 0x11680, 0x116b9,
     0x116c0, 0x116c9, 0x11700, 0x1171a, 0x1171d, 0x1172b, 0x11730, 0x11746, 0x11800, 0x1183b,
     0x118a0, 0x118f2, 0x118ff, 0x11906, 0x11909, 0x11909, 0x1190c, 0x11938, 0x1193b, 0x11946,
     0x11950, 0x11959, 0x119a0, 0x119a7, 0x119aa, 0x119d7, 0x119da, 0x119e4, 0x11a00, 0x11a47,
     0x11a50, 0x11aa2, 0x11ab0, 0x11af8, 0x11b00, 0x11b09, 0x11c00, 0x11c45, 0x11c50, 0x11c6c,
     0x11c70, 0x11c8f, 0x11c92, 0x11cb6, 0x11d00, 0x11d36, 0x11d3a, 0x11d47, 0x11d50, 0x11d59,
     0x11d60, 0x11d98, 0x11da0, 0x11da9, 0x11ee0, 0x11ef8, 0x11f00, 0x11f3a, 0x11f3e, 0x11f59,
     0x11fb0, 0x11fb0, 0x11fc0, 0x11ff1, 0x11fff, 0x12399, 0x12400, 0x12474, 0x12480, 0x12543,
     0x12f90, 0x12ff2, 0x13000, 0x1342f, 0x13440, 0x13455, 0x14400, 0x14646, 0x16800, 0x16a38,
     0x16a40, 0x16a69, 0x16a6e, 0x16ac9, 0x16ad0, 0x16aed, 0x16af0, 0x16af5, 0x16b00, 0x16b45,
     0x16b50, 0x16b77, 0x16b7d, 0x16b8f, 0x16e40, 0x16e9a, 0x16f00, 0x16f4a, 0x16f4f, 0x16f87,
     0x16f8f, 0x16f9f, 0x16fe0, 0x16fe4, 0x16ff0, 0x16ff1, 0x17000, 0x187f7, 0x18800, 0x18cd5]"

definition isPrint32_2 :: "int list" where
  "isPrint32_2 =
     [0x18d00, 0x18d08, 0x1aff0, 0x1b122, 0x1b132, 0x1b132, 0x1b150, 0x1b152, 0x1b155, 0x1b155,
     0x1b164, 0x1b167, 0x1b170, 0x1b2fb, 0x1bc00, 0x1bc6a, 0x1bc70, 0x1bc7c, 0x1bc80, 0x1bc88,
     0x1bc90, 0x1bc99, 0x1bc9c, 0x1bc9f, 0x1cf00, 0x1cf2d, 0x1cf30, 0x1cf46, 0x1cf50, 0x1cfc3,
     0x1d000, 0x1d0f5, 0x1d100, 0x1d126, 0x1d129, 0x1d172, 0x1d17b, 0x1d1ea, 0x1d200, 0x1d245,
     0x1d2c0, 0x1d2d3, 0x1d2e0, 0x1d2f3, 0x1d300, 0x1d356, 0x1d360, 0x1d378, 0x1d400, 0x1d49f,
     0x1d4a2, 0x1d4a2, 0x1d4a5, 0x1d4a6, 0x1d4a9, 0x1d50a, 0x1d50d, 0x1d546, 0x1d54a, 0x1d6a5,
     0x1d6a8, 0x1d7cb, 0x1d7ce, 0x1da8b, 0x1da9b, 0x1daaf, 0x1df00, 0x1df1e, 0x1df25, 0x1df2a,
     0x1e000, 0x1e018, 0x1e01b, 0x1e02a, 0x1e030, 0x1e06d, 0x1e08f, 0x1e08f, 0x1e100, 0x1e12c,
     0x1e130, 0x1e13d, 0x1e140, 0x1e149, 0x1e14e, 0x1e14f, 0x1e290, 0x1e2ae, 0x1e2c0, 0x1e2f9,
     0x1e2ff, 0x1e2ff, 0x1e4d0, 0x1e4f9, 0x1e7e0, 0x1e8c4, 0x1e8c7, 0x1e8d6, 0x1e900, 0x1e94b,
     0x1e950, 0x1e959, 0x1e95e, 0x1e95f, 0x1ec71, 0x1ecb4, 0x1ed01, 0x1ed3d, 0x1ee00, 0x1ee24,
     0x1ee27, 0x1ee3b, 0x1ee42, 0x1ee42, 0x1ee47, 0x1ee54, 0x1ee57, 0x1ee64, 0x1ee67, 0x1ee9b,
     0x1eea1, 0x1eebb, 0x1eef0, 0x1eef1, 0x1f000, 0x1f02b, 0x1f030, 0x1f093, 0x1f0a0, 0x1f0ae,
     0x1f0b1, 0x1f0f5, 0x1f100, 0x1f1ad, 0x1f1e6, 0x1f202, 0x1f210, 0x1f23b, 0x1f240, 0x1f248,
     0x1f250, 0x1f251, 0x1f260, 0x1f265, 0x1f300, 0x1f6d7, 0x1f6dc, 0x1f6ec, 0x1f6f0, 0x1f6fc,
     0x1f700, 0x1f776, 0x1f77b, 0x1f7d9, 0x1f7e0, 0x1f7eb, 0x1f7f0, 0x1f7f0, 0x1f800, 0x1f80b,
     0x1f810, 0x1f847, 0x1f850, 0x1f859, 0x1f860, 0x1f887, 0x1f890, 0x1f8ad, 0x1f8b0, 0x1f8b1,
     0x1f900, 0x1fa53, 0x1fa60, 0x1fa6d, 0x1fa70, 0x1fa7c, 0x1fa80, 0x1fa88, 0x1fa90, 0x1fac5,
     0x1face, 0x1fadb, 0x1fae0, 0x1fae8, 0x1faf0, 0x1faf8, 0x1fb00, 0x1fbca, 0x1fbf0, 0x1fbf9,
     0x20000, 0x2a6df, 0x2a700, 0x2b739, 0x2b740, 0x2b81d, 0x2b820, 0x2cea1, 0x2ceb0, 0x2ebe0,
     0x2f800, 0x2fa1d, 0x30000, 0x3134a, 0x31350, 0x323af, 0xe0100, 0xe01ef]"

definition isPrint32 :: "int list" where
  "isPrint32 = isPrint32_1 @ isPrint32_2"

definition isNotPrint32 :: "int list" where
  "isNotPrint32 =
     [0xc, 0x27, 0x3b, 0x3e, 0x18f, 0x39e, 0x57b, 0x58b, 0x593, 0x596, 0x5a2, 0x5b2, 0x5ba,
     0x786, 0x7b1, 0x809, 0x836, 0x856, 0x8f3, 0xa04, 0xa14, 0xa18, 0xe7f, 0xeaa, 0x10bd,
     0x1135, 0x11e0, 0x1212, 0x1287, 0x1289, 0x128e, 0x129e, 0x1304, 0x1329, 0x1331, 0x1334,
     0x133a, 0x145c, 0x1914, 0x1917, 0x1936, 0x1c09, 0x1c37, 0x1ca8, 0x1d07, 0x1d0a, 0x1d3b,
     0x1d3e, 0x1d66, 0x1d69, 0x1d8f, 0x1d92, 0x1f11, 0x246f, 0x6a5f, 0x6abf, 0x6b5a, 0x6b62,
     0xaff4, 0xaffc, 0xafff, 0xd455, 0xd49d, 0xd4ad, 0xd4ba, 0xd4bc, 0xd4c4, 0xd506, 0xd515,
     0xd51d, 0xd53a, 0xd53f, 0xd545, 0xd551, 0xdaa0, 0xe007, 0xe022, 0xe025, 0xe7e7, 0xe7ec,
     0xe7ef, 0xe7ff, 0xee04, 0xee20, 0xee23, 0xee28, 0xee33, 0xee38, 0xee3a, 0xee48, 0xee4a,
     0xee4c, 0xee50, 0xee53, 0xee58, 0xee5a, 0xee5c, 0xee5e, 0xee60, 0xee63, 0xee6b, 0xee73,
     0xee78, 0xee7d, 0xee7f, 0xee8a, 0xeea4, 0xeeaa, 0xf0c0, 0xf0d0, 0xfabe, 0xfb93]"

end
