(* ===== verification/Utf8.thy ===== *)
theory Utf8
  imports Prelude
begin

text \<open>
  The UTF-8 codec of \<open>src/unicode/utf8/utf8.go\<close> that the source reader relies on: the
  \<open>first\<close> and \<open>acceptRanges\<close> tables, \<open>FullRune\<close>, \<open>DecodeRune\<close>, \<open>EncodeRune\<close>,
  \<open>AppendRune\<close>, \<open>RuneLen\<close>, \<open>RuneStart\<close> and \<open>ValidRune\<close>.

  A byte slice is a \<^typ>\<open>string\<close>, a byte value an \<^typ>\<open>int\<close> between 0 and 255, a rune an
  \<^typ>\<open>int\<close>; conversions to \<open>uint32\<close>, \<open>byte\<close> and \<open>int32\<close> are \<open>take_bit\<close> and
  \<open>signed_take_bit\<close>.  The lemmas show that decoding inverts encoding, that every successful
  decoding is an encoding of a valid rune, and that \<open>FullRune\<close> tells exactly the prefixes
  whose decoding no further input can change.
\<close>

subsection \<open>Constants and tables\<close>

definition RuneError :: rune where "RuneError = 0xFFFD"
definition RuneSelf :: rune where "RuneSelf = 0x80"
definition MaxRune :: rune where "MaxRune = 0x10FFFF"
definition UTFMax :: nat where "UTFMax = 4"
definition surrogateMin :: rune where "surrogateMin = 0xD800"
definition surrogateMax :: rune where "surrogateMax = 0xDFFF"

definition tx :: int where "tx = 128"
definition t2 :: int where "t2 = 192"
definition t3 :: int where "t3 = 224"
definition t4 :: int where "t4 = 240"
definition maskx :: int where "maskx = 63"
definition mask2 :: int where "mask2 = 31"
definition mask3 :: int where "mask3 = 15"
definition mask4 :: int where "mask4 = 7"
definition rune1Max :: rune where "rune1Max = push_bit 7 1 - 1"
definition rune2Max :: rune where "rune2Max = push_bit 11 1 - 1"
definition rune3Max :: rune where "rune3Max = push_bit 16 1 - 1"
definition locb :: int where "locb = 128"
definition hicb :: int where "hicb = 191"
definition xx :: int where "xx = 0xF1"
definition ascii_tag :: int where "ascii_tag = 0xF0"

lemmas utf8_consts = RuneError_def RuneSelf_def MaxRune_def UTFMax_def surrogateMin_def
  surrogateMax_def tx_def t2_def t3_def t4_def maskx_def mask2_def mask3_def mask4_def
  rune1Max_def rune2Max_def rune3Max_def locb_def hicb_def xx_def ascii_tag_def

definition runeErrorByte0 :: int where "runeErrorByte0 = t3 OR drop_bit 12 RuneError"
definition runeErrorByte1 :: int where "runeErrorByte1 = tx OR (drop_bit 6 RuneError AND maskx)"
definition runeErrorByte2 :: int where "runeErrorByte2 = tx OR (RuneError AND maskx)"

text \<open>
  The table \<open>first\<close>, written as runs of equal entries: \<open>0x00-0x7F\<close> ASCII, \<open>0x80-0xC1\<close>
  invalid, then the starters \<open>s1\<close> to \<open>s7\<close> and the invalid bytes from \<open>0xF5\<close> on.
\<close>

definition first_table :: "int list" where
  "first_table =
     replicate 128 ascii_tag @ replicate 66 xx @ replicate 30 0x02 @ [0x13] @ replicate 12 0x03 @
     [0x23] @ replicate 2 0x03 @ [0x34] @ replicate 3 0x04 @ [0x44] @ replicate 11 xx"

definition first :: "int \<Rightarrow> int" where
  "first b = first_table ! nat b"

definition acceptRanges :: "(int \<times> int) list" where
  "acceptRanges = [(locb, hicb), (0xA0, hicb), (locb, 0x9F), (0x90, hicb), (locb, 0x8F)]
     @ replicate 11 (0, 0)"

definition accept :: "int \<Rightarrow> int \<times> int" where
  "accept x = acceptRanges ! nat (drop_bit 4 x)"

definition byte_at :: "string \<Rightarrow> nat \<Rightarrow> int" where
  "byte_at p i = rune_of (p ! i)"

subsection \<open>Decoding\<close>

definition FullRune :: "string \<Rightarrow> bool" where
  "FullRune p =
     (let n = length p in
      if n = 0 then False
      else
        let x = first (byte_at p 0) in
        if int n \<ge> x AND 7 then True
        else
          let (lo, hi) = accept x in
          if n > 1 \<and> (byte_at p 1 < lo \<or> hi < byte_at p 1) then True
          else if n > 2 \<and> (byte_at p 2 < locb \<or> hicb < byte_at p 2) then True
          else False)"

definition DecodeRune :: "string \<Rightarrow> rune \<times> nat" where
  "DecodeRune p =
     (let n = length p in
      if n < 1 then (RuneError, 0)
      else
        let p0 = byte_at p 0; x = first p0 in
        if x \<ge> ascii_tag then
          let mask = drop_bit 31 (signed_take_bit 31 (push_bit 31 x))
          in ((p0 AND NOT mask) OR (RuneError AND mask), 1)
        else
          let sz = x AND 7; (lo, hi) = accept x in
          if int n < sz then (RuneError, 1)
          else
            let b1 = byte_at p 1 in
            if b1 < lo \<or> hi < b1 then (RuneError, 1)
            else if sz \<le> 2 then (push_bit 6 (p0 AND mask2) OR (b1 AND maskx), 2)
            else
              let b2 = byte_at p 2 in
              if b2 < locb \<or> hicb < b2 then (RuneError, 1)
              else if sz \<le> 3 then
                (push_bit 12 (p0 AND mask3) OR push_bit 6 (b1 AND maskx) OR (b2 AND maskx), 3)
              else
                let b3 = byte_at p 3 in
                if b3 < locb \<or> hicb < b3 then (RuneError, 1)
                else (push_bit 18 (p0 AND mask4) OR push_bit 12 (b1 AND maskx)
                        OR push_bit 6 (b2 AND maskx) OR (b3 AND maskx), 4))"

subsection \<open>Encoding\<close>

definition RuneLen :: "rune \<Rightarrow> int" where
  "RuneLen r =
     (if r < 0 then -1
      else if r \<le> rune1Max then 1
      else if r \<le> rune2Max then 2
      else if surrogateMin \<le> r \<and> r \<le> surrogateMax then -1
      else if r \<le> rune3Max then 3
      else if r \<le> MaxRune then 4
      else -1)"

text \<open>\<open>byte(r>>k)\<close> and \<open>tx | byte(r>>k)&maskx\<close>.\<close>

definition lead :: "int \<Rightarrow> nat \<Rightarrow> rune \<Rightarrow> char" where
  "lead t k r = byte_of (t OR take_bit 8 (drop_bit k r))"

definition cont :: "nat \<Rightarrow> rune \<Rightarrow> char" where
  "cont k r = byte_of (tx OR (take_bit 8 (drop_bit k r) AND maskx))"

text \<open>The bytes \<open>encodeRuneNonASCII\<close> stores into \<open>p\<close>; the count it returns is their number.\<close>

definition encodeRuneNonASCII :: "rune \<Rightarrow> string" where
  "encodeRuneNonASCII r =
     (let i = take_bit 32 r in
      if i \<le> rune2Max then [lead t2 6 r, cont 0 r]
      else if i < surrogateMin \<or> surrogateMax < i \<and> i \<le> rune3Max
      then [lead t3 12 r, cont 6 r, cont 0 r]
      else if i > rune3Max \<and> i \<le> MaxRune
      then [lead t4 18 r, cont 12 r, cont 6 r, cont 0 r]
      else [byte_of runeErrorByte0, byte_of runeErrorByte1, byte_of runeErrorByte2])"

definition EncodeRune :: "rune \<Rightarrow> string" where
  "EncodeRune r =
     (if take_bit 32 r \<le> rune1Max then [byte_of (take_bit 8 r)] else encodeRuneNonASCII r)"

definition AppendRune :: "string \<Rightarrow> rune \<Rightarrow> string" where
  "AppendRune p r =
     (if take_bit 32 r \<le> rune1Max then p @ [byte_of (take_bit 8 r)]
      else p @ encodeRuneNonASCII r)"

definition ValidRune :: "rune \<Rightarrow> bool" where
  "ValidRune r \<longleftrightarrow> 0 \<le> r \<and> r < surrogateMin \<or> surrogateMax < r \<and> r \<le> MaxRune"

definition RuneStart :: "char \<Rightarrow> bool" where
  "RuneStart b \<longleftrightarrow> rune_of b AND 0xC0 \<noteq> 0x80"

subsection \<open>The tables, as case distinctions\<close>

lemma first_cases:
  assumes "0 \<le> b" "b < 256"
  shows "first b =
    (if b < 128 then 240 else if b < 194 then 241 else if b < 224 then 2
     else if b = 224 then 19 else if b < 237 then 3 else if b = 237 then 35
     else if b < 240 then 3 else if b = 240 then 52 else if b < 244 then 4
     else if b = 244 then 68 else 241)"
proof -
  have *: "list_all (\<lambda>n. let b = int n in first b =
      (if b < 128 then 240 else if b < 194 then 241 else if b < 224 then 2
       else if b = 224 then 19 else if b < 237 then 3 else if b = 237 then 35
       else if b < 240 then 3 else if b = 240 then 52 else if b < 244 then 4
       else if b = 244 then 68 else 241)) [0..<256]"
    by code_simp
  from assms obtain n where b: "b = int n" and n: "n \<in> set [0..<256]"
    by (metis atLeast_upt lessThan_iff nonneg_int_cases of_nat_less_numeral_iff)
  show ?thesis unfolding b by (rule bspec [OF * [unfolded list_all_iff Let_def] n])
qed

lemma first_byte_cases:
  "first (rune_of c) =
    (if rune_of c < 128 then 240 else if rune_of c < 194 then 241 else if rune_of c < 224 then 2
     else if rune_of c = 224 then 19 else if rune_of c < 237 then 3 else if rune_of c = 237 then 35
     else if rune_of c < 240 then 3 else if rune_of c = 240 then 52 else if rune_of c < 244 then 4
     else if rune_of c = 244 then 68 else 241)"
  by (rule first_cases) simp_all

lemma first_range:
  obtains "rune_of a < 128" "first (rune_of a) = 240"
  | "128 \<le> rune_of a" "rune_of a < 194 \<or> 245 \<le> rune_of a" "first (rune_of a) = 241"
  | "194 \<le> rune_of a" "rune_of a < 224" "first (rune_of a) = 2"
  | "rune_of a = 224" "first (rune_of a) = 19"
  | "224 < rune_of a" "rune_of a < 240" "rune_of a \<noteq> 237" "first (rune_of a) = 3"
  | "rune_of a = 237" "first (rune_of a) = 35"
  | "rune_of a = 240" "first (rune_of a) = 52"
  | "240 < rune_of a" "rune_of a < 244" "first (rune_of a) = 4"
  | "rune_of a = 244" "first (rune_of a) = 68"
  using first_byte_cases [of a] by (smt (verit))

lemma accept_simps:
  "accept 2 = (128, 191)" "accept 19 = (160, 191)" "accept 3 = (128, 191)"
  "accept 35 = (128, 159)" "accept 52 = (144, 191)" "accept 4 = (128, 191)" "accept 68 = (128, 143)"
  by (simp_all add: accept_def acceptRanges_def utf8_consts)

subsection \<open>Bit operations as arithmetic\<close>

lemma or_eq_add:
  fixes a b :: int
  assumes "0 \<le> b" "b < 2 ^ n"
  shows "push_bit n a OR b = 2 ^ n * a + b"
proof -
  have t: "take_bit n b = b"
    using assms by (simp add: take_bit_int_eq_self)
  have "\<not> bit (push_bit n a) k \<or> \<not> bit b k" for k
  proof (cases "k < n")
    case True
    then show ?thesis by (simp add: bit_push_bit_iff)
  next
    case False
    then have "\<not> bit (take_bit n b) k" by (simp add: bit_take_bit_iff)
    with t show ?thesis by simp
  qed
  then have "push_bit n a + b = push_bit n a OR b"
    by (rule disjunctive_add)
  then show ?thesis by (simp add: push_bit_eq_mult mult.commute)
qed

lemma and_mask_mod:
  fixes x :: int
  shows "x AND 63 = x mod 64" "x AND 31 = x mod 32" "x AND 15 = x mod 16" "x AND 7 = x mod 8"
  using take_bit_eq_mask [of 6 x] take_bit_eq_mask [of 5 x] take_bit_eq_mask [of 4 x]
    take_bit_eq_mask [of 3 x]
  by (simp_all add: take_bit_eq_mod mask_eq_exp_minus_1)

lemma lead_eq:
  assumes "0 \<le> r"
  shows "r div 2 ^ k < 32 \<Longrightarrow> lead t2 k r = byte_of (192 + r div 2 ^ k)"
    and "r div 2 ^ k < 16 \<Longrightarrow> lead t3 k r = byte_of (224 + r div 2 ^ k)"
    and "r div 2 ^ k < 8 \<Longrightarrow> lead t4 k r = byte_of (240 + r div 2 ^ k)"
  using or_eq_add [of "r div 2 ^ k" 5 6] or_eq_add [of "r div 2 ^ k" 4 14]
    or_eq_add [of "r div 2 ^ k" 3 30] assms
  by (simp_all add: lead_def utf8_consts drop_bit_eq_div take_bit_int_eq_self pos_imp_zdiv_nonneg_iff)

lemma cont_eq: "cont k r = byte_of (128 + r div 2 ^ k mod 64)"
proof -
  have "take_bit 8 (drop_bit k r) AND 63 = r div 2 ^ k mod 64"
    by (simp add: and_mask_mod take_bit_eq_mod drop_bit_eq_div mod_mod_cancel)
  then show ?thesis
    using or_eq_add [of "r div 2 ^ k mod 64" 6 2] by (simp add: cont_def utf8_consts)
qed

lemma EncodeRune_1: "0 \<le> r \<Longrightarrow> r < 128 \<Longrightarrow> EncodeRune r = [byte_of r]"
  by (simp add: EncodeRune_def utf8_consts take_bit_int_eq_self)

lemma EncodeRune_2:
  assumes "128 \<le> r" "r < 2048"
  shows "EncodeRune r = [byte_of (192 + r div 64), byte_of (128 + r mod 64)]"
proof -
  have "r div 2 ^ 6 < 32" using assms by simp
  then show ?thesis using assms lead_eq(1) [of r 6]
    by (simp add: EncodeRune_def encodeRuneNonASCII_def cont_eq utf8_consts take_bit_int_eq_self)
qed

lemma EncodeRune_3:
  assumes "2048 \<le> r" "r < 65536" "r < 55296 \<or> 57343 < r"
  shows "EncodeRune r =
    [byte_of (224 + r div 4096), byte_of (128 + r div 64 mod 64), byte_of (128 + r mod 64)]"
proof -
  have "r div 2 ^ 12 < 16" using assms by simp
  then show ?thesis using assms lead_eq(2) [of r 12]
    by (simp add: EncodeRune_def encodeRuneNonASCII_def cont_eq utf8_consts take_bit_int_eq_self)
qed

lemma EncodeRune_4:
  assumes "65536 \<le> r" "r < 1114112"
  shows "EncodeRune r =
    [byte_of (240 + r div 262144), byte_of (128 + r div 4096 mod 64),
     byte_of (128 + r div 64 mod 64), byte_of (128 + r mod 64)]"
proof -
  have "r div 2 ^ 18 < 8" using assms by simp
  then show ?thesis using assms lead_eq(3) [of r 18]
    by (simp add: EncodeRune_def encodeRuneNonASCII_def cont_eq utf8_consts take_bit_int_eq_self)
qed

lemmas EncodeRune_eqs = EncodeRune_1 EncodeRune_2 EncodeRune_3 EncodeRune_4

subsection \<open>Decoding, case by case\<close>

abbreviation is_cont :: "char \<Rightarrow> bool" where
  "is_cont c \<equiv> 128 \<le> rune_of c \<and> rune_of c \<le> 191"

lemmas decode_simps = DecodeRune_def byte_at_def first_byte_cases accept_simps utf8_consts Let_def

lemma DecodeRune_Nil: "DecodeRune [] = (RuneError, 0)"
  by (simp add: DecodeRune_def)

lemma DecodeRune_1: "rune_of a < 128 \<Longrightarrow> DecodeRune (a # p) = (rune_of a, 1)"
  by (simp add: decode_simps)

lemma mod_sub: "128 \<le> x \<Longrightarrow> x \<le> 191 \<Longrightarrow> x mod 64 = x - (128::int)"
  by presburger

lemma DecodeRune_2:
  assumes "194 \<le> rune_of a" "rune_of a < 224" "is_cont b"
  shows "DecodeRune (a # b # p) = (64 * (rune_of a - 192) + (rune_of b - 128), 2)"
proof -
  have "rune_of a mod 32 = rune_of a - 192" using assms by presburger
  then show ?thesis
    using assms or_eq_add [of "rune_of b - 128" 6 "rune_of a - 192"]
    by (simp add: decode_simps and_mask_mod mod_sub)
qed

lemma DecodeRune_3:
  assumes "224 \<le> rune_of a" "rune_of a < 240" "is_cont b" "is_cont c"
    and "rune_of a = 224 \<longrightarrow> 160 \<le> rune_of b" "rune_of a = 237 \<longrightarrow> rune_of b \<le> 159"
  shows "DecodeRune (a # b # c # p) =
    (4096 * (rune_of a - 224) + 64 * (rune_of b - 128) + (rune_of c - 128), 3)"
proof -
  have m: "rune_of a mod 16 = rune_of a - 224" using assms(1,2) by presburger
  have "push_bit 12 (rune_of a - 224) OR push_bit 6 (rune_of b - 128) OR (rune_of c - 128)
      = 4096 * (rune_of a - 224) + 64 * (rune_of b - 128) + (rune_of c - 128)"
    using assms(3,4) or_eq_add [of "rune_of c - 128" 6 "rune_of b - 128"]
      or_eq_add [of "64 * (rune_of b - 128) + (rune_of c - 128)" 12 "rune_of a - 224"]
    by (simp add: or.assoc)
  then show ?thesis
    using assms m
    by (cases rule: first_range [of a])
      (auto simp: DecodeRune_def byte_at_def accept_simps utf8_consts and_mask_mod mod_sub)
qed

lemma DecodeRune_4:
  assumes "240 \<le> rune_of a" "rune_of a < 245" "is_cont b" "is_cont c" "is_cont d"
    and "rune_of a = 240 \<longrightarrow> 144 \<le> rune_of b" "rune_of a = 244 \<longrightarrow> rune_of b \<le> 143"
  shows "DecodeRune (a # b # c # d # p) =
    (262144 * (rune_of a - 240) + 4096 * (rune_of b - 128) + 64 * (rune_of c - 128)
      + (rune_of d - 128), 4)"
proof -
  have m: "rune_of a mod 8 = rune_of a - 240" using assms(1,2) by presburger
  have "push_bit 18 (rune_of a - 240) OR push_bit 12 (rune_of b - 128)
        OR push_bit 6 (rune_of c - 128) OR (rune_of d - 128)
      = 262144 * (rune_of a - 240) + 4096 * (rune_of b - 128) + 64 * (rune_of c - 128)
        + (rune_of d - 128)"
    using assms(3-5) or_eq_add [of "rune_of d - 128" 6 "rune_of c - 128"]
      or_eq_add [of "64 * (rune_of c - 128) + (rune_of d - 128)" 12 "rune_of b - 128"]
      or_eq_add [of "4096 * (rune_of b - 128) + (64 * (rune_of c - 128) + (rune_of d - 128))"
        18 "rune_of a - 240"]
    by (simp add: or.assoc)
  then show ?thesis
    using assms m
    by (cases rule: first_range [of a])
      (auto simp: DecodeRune_def byte_at_def accept_simps utf8_consts and_mask_mod mod_sub)
qed

text \<open>Every other input is reported as an error of width one.\<close>

inductive utf8_seq :: "string \<Rightarrow> bool" where
  seq1: "rune_of a < 128 \<Longrightarrow> utf8_seq [a]"
| seq2: "194 \<le> rune_of a \<Longrightarrow> rune_of a < 224 \<Longrightarrow> is_cont b \<Longrightarrow> utf8_seq [a, b]"
| seq3: "224 \<le> rune_of a \<Longrightarrow> rune_of a < 240 \<Longrightarrow> is_cont b \<Longrightarrow> is_cont c \<Longrightarrow>
    (rune_of a = 224 \<longrightarrow> 160 \<le> rune_of b) \<Longrightarrow> (rune_of a = 237 \<longrightarrow> rune_of b \<le> 159) \<Longrightarrow>
    utf8_seq [a, b, c]"
| seq4: "240 \<le> rune_of a \<Longrightarrow> rune_of a < 245 \<Longrightarrow> is_cont b \<Longrightarrow> is_cont c \<Longrightarrow> is_cont d \<Longrightarrow>
    (rune_of a = 240 \<longrightarrow> 144 \<le> rune_of b) \<Longrightarrow> (rune_of a = 244 \<longrightarrow> rune_of b \<le> 143) \<Longrightarrow>
    utf8_seq [a, b, c, d]"

inductive_simps utf8_seq_1: "utf8_seq [a]"
inductive_simps utf8_seq_2: "utf8_seq [a, b]"
inductive_simps utf8_seq_3: "utf8_seq [a, b, c]"
inductive_simps utf8_seq_4: "utf8_seq [a, b, c, d]"

lemmas utf8_seq_simps = utf8_seq_1 utf8_seq_2 utf8_seq_3 utf8_seq_4

lemma length_ge_2_cases:
  obtains "length q < 2" | b c r where "q = b # c # r"
  by (cases q; cases "tl q") auto

lemma length_ge_3_cases:
  obtains "length q < 3" | b c d r where "q = b # c # d # r"
  by (cases q; cases "tl q"; cases "tl (tl q)") auto

lemma DecodeRune_error:
  assumes "p \<noteq> []" and "\<And>n. \<not> utf8_seq (take n p)"
  shows "DecodeRune p = (RuneError, 1)"
proof -
  obtain a q where p: "p = a # q" using assms(1) by (cases p) auto
  note no = assms(2) [of 1] assms(2) [of 2] assms(2) [of 3] assms(2) [of 4]
  note unfold = DecodeRune_def byte_at_def accept_simps utf8_consts Let_def p
  show ?thesis
  proof (cases rule: first_range [of a])
    case 1
    with no(1) p show ?thesis by (simp add: utf8_seq_1)
  next
    case 2
    then show ?thesis by (simp add: unfold)
  next
    case 3
    then show ?thesis using no(2) by (cases q) (auto simp: unfold utf8_seq_2)
  next
    case 4
    then show ?thesis using no(3)
      by (cases rule: length_ge_2_cases [of q]) (auto simp: unfold utf8_seq_3)
  next
    case 5
    then show ?thesis using no(3)
      by (cases rule: length_ge_2_cases [of q]) (auto simp: unfold utf8_seq_3)
  next
    case 6
    then show ?thesis using no(3)
      by (cases rule: length_ge_2_cases [of q]) (auto simp: unfold utf8_seq_3)
  next
    case 7
    then show ?thesis using no(4)
      by (cases rule: length_ge_3_cases [of q]) (auto simp: unfold utf8_seq_4)
  next
    case 8
    then show ?thesis using no(4)
      by (cases rule: length_ge_3_cases [of q]) (auto simp: unfold utf8_seq_4)
  next
    case 9
    then show ?thesis using no(4)
      by (cases rule: length_ge_3_cases [of q]) (auto simp: unfold utf8_seq_4)
  qed
qed

lemma utf8_seq_cases:
  assumes "p \<noteq> []"
  obtains n where "utf8_seq (take n p)" | "\<And>n. \<not> utf8_seq (take n p)"
  by blast

lemma digit_div_mod:
  fixes m x z :: int
  assumes "0 \<le> z" "z < m"
  shows "(m * x + z) div m = x" "(m * x + z) mod m = z"
  using assms by simp_all

lemma digits_3:
  fixes x y z :: int
  assumes "0 \<le> y" "y < 64" "0 \<le> z" "z < 64"
  shows "(4096 * x + 64 * y + z) div 4096 = x" "(4096 * x + 64 * y + z) div 64 mod 64 = y"
    "(4096 * x + 64 * y + z) mod 64 = z"
proof -
  have e: "4096 * x + 64 * y + z = 64 * (64 * x + y) + z" by simp
  have d: "(4096 * x + 64 * y + z) div 64 = 64 * x + y"
    unfolding e using digit_div_mod(1) [OF assms(3,4)] .
  show "(4096 * x + 64 * y + z) mod 64 = z"
    unfolding e using digit_div_mod(2) [OF assms(3,4)] .
  show "(4096 * x + 64 * y + z) div 64 mod 64 = y"
    unfolding d using digit_div_mod(2) [OF assms(1,2)] .
  have "(4096 * x + 64 * y + z) div 4096 = (4096 * x + 64 * y + z) div 64 div 64"
    by (simp add: zdiv_zmult2_eq [symmetric])
  then show "(4096 * x + 64 * y + z) div 4096 = x"
    unfolding d using digit_div_mod(1) [OF assms(1,2)] by simp
qed

lemma digits_4:
  fixes w x y z :: int
  assumes "0 \<le> x" "x < 64" "0 \<le> y" "y < 64" "0 \<le> z" "z < 64"
  shows "(262144 * w + 4096 * x + 64 * y + z) div 262144 = w"
    "(262144 * w + 4096 * x + 64 * y + z) div 4096 mod 64 = x"
    "(262144 * w + 4096 * x + 64 * y + z) div 64 mod 64 = y"
    "(262144 * w + 4096 * x + 64 * y + z) mod 64 = z"
proof -
  have e: "262144 * w + 4096 * x + 64 * y + z = 4096 * (64 * w + x) + 64 * y + z" by simp
  show "(262144 * w + 4096 * x + 64 * y + z) mod 64 = z"
    "(262144 * w + 4096 * x + 64 * y + z) div 64 mod 64 = y"
    unfolding e using digits_3(2,3) [OF assms(3-6), of "64 * w + x"] by simp_all
  have d: "(262144 * w + 4096 * x + 64 * y + z) div 4096 = 64 * w + x"
    unfolding e using digits_3(1) [OF assms(3-6), of "64 * w + x"] .
  show "(262144 * w + 4096 * x + 64 * y + z) div 4096 mod 64 = x"
    unfolding d using digit_div_mod(2) [OF assms(1,2)] .
  have "(262144 * w + 4096 * x + 64 * y + z) div 262144
      = (262144 * w + 4096 * x + 64 * y + z) div 4096 div 64"
    by (simp add: zdiv_zmult2_eq [symmetric])
  then show "(262144 * w + 4096 * x + 64 * y + z) div 262144 = w"
    unfolding d using digit_div_mod(1) [OF assms(1,2)] by simp
qed

text \<open>A well-formed sequence is the encoding of the rune it decodes to.\<close>

definition seq_spec :: "string \<Rightarrow> rune \<Rightarrow> bool" where
  "seq_spec q r \<longleftrightarrow> ValidRune r \<and> EncodeRune r = q
     \<and> (\<forall>s. DecodeRune (q @ s) = (r, length q))"

lemma seq_spec_2:
  assumes "194 \<le> rune_of a" "rune_of a < 224" "is_cont b"
  shows "seq_spec [a, b] (64 * (rune_of a - 192) + (rune_of b - 128))" (is "seq_spec _ ?r")
proof -
  have d: "?r div 64 = rune_of a - 192" "?r mod 64 = rune_of b - 128"
    using digit_div_mod [of "rune_of b - 128" 64 "rune_of a - 192"] assms(3) by simp_all
  have v: "128 \<le> ?r" "?r < 2048" using assms by (smt (verit))+
  have "EncodeRune ?r = [a, b]" unfolding EncodeRune_2 [OF v] d by simp
  with assms v show ?thesis by (simp add: seq_spec_def DecodeRune_2 ValidRune_def utf8_consts)
qed

lemma seq_spec_3:
  assumes "224 \<le> rune_of a" "rune_of a < 240" "is_cont b" "is_cont c"
    and "rune_of a = 224 \<longrightarrow> 160 \<le> rune_of b" "rune_of a = 237 \<longrightarrow> rune_of b \<le> 159"
  shows "seq_spec [a, b, c] (4096 * (rune_of a - 224) + 64 * (rune_of b - 128) + (rune_of c - 128))"
    (is "seq_spec _ ?r")
proof -
  have d: "?r div 4096 = rune_of a - 224" "?r div 64 mod 64 = rune_of b - 128"
    "?r mod 64 = rune_of c - 128"
    using digits_3 [of "rune_of b - 128" "rune_of c - 128" "rune_of a - 224"] assms(3,4)
    by simp_all
  have v: "2048 \<le> ?r" "?r < 65536" "?r < 55296 \<or> 57343 < ?r"
    using assms by (smt (verit))+
  have "EncodeRune ?r = [a, b, c]" unfolding EncodeRune_3 [OF v] d by simp
  moreover have "ValidRune ?r" using v unfolding ValidRune_def utf8_consts by linarith
  ultimately show ?thesis unfolding seq_spec_def using DecodeRune_3 [OF assms] by simp
qed

lemma seq_spec_4:
  assumes "240 \<le> rune_of a" "rune_of a < 245" "is_cont b" "is_cont c" "is_cont d"
    and "rune_of a = 240 \<longrightarrow> 144 \<le> rune_of b" "rune_of a = 244 \<longrightarrow> rune_of b \<le> 143"
  shows "seq_spec [a, b, c, d] (262144 * (rune_of a - 240) + 4096 * (rune_of b - 128)
      + 64 * (rune_of c - 128) + (rune_of d - 128))" (is "seq_spec _ ?r")
proof -
  have c: "0 \<le> rune_of b - 128" "rune_of b - 128 < 64" "0 \<le> rune_of c - 128"
    "rune_of c - 128 < 64" "0 \<le> rune_of d - 128" "rune_of d - 128 < 64"
    using assms(3-5) by simp_all
  note d = digits_4 [OF c, of "rune_of a - 240"]
  have v: "65536 \<le> ?r" "?r < 1114112"
  proof -
    consider "rune_of a = 240" "144 \<le> rune_of b" | "rune_of a = 244" "rune_of b \<le> 143"
      | "240 < rune_of a" "rune_of a < 244"
      using assms(1,2,6,7) by linarith
    then have "65536 \<le> ?r \<and> ?r < 1114112" using c by cases auto
    then show "65536 \<le> ?r" "?r < 1114112" by simp_all
  qed
  have "EncodeRune ?r = [a, b, c, d]" unfolding EncodeRune_4 [OF v] d by simp
  moreover have "ValidRune ?r" using v unfolding ValidRune_def utf8_consts by linarith
  moreover have "DecodeRune ([a, b, c, d] @ s) = (?r, length [a, b, c, d])" for s
    unfolding append_Cons append_Nil DecodeRune_4 [OF assms] by simp
  ultimately show ?thesis unfolding seq_spec_def by blast
qed

lemma utf8_seq_spec: "utf8_seq q \<Longrightarrow> \<exists>r. seq_spec q r"
proof (induction rule: utf8_seq.induct)
  case (seq1 a)
  then have "seq_spec [a] (rune_of a)"
    by (simp add: seq_spec_def EncodeRune_1 DecodeRune_1 ValidRune_def utf8_consts)
  then show ?case ..
qed (blast intro: seq_spec_2 seq_spec_3 seq_spec_4)+

text \<open>The encoding of a valid rune is a well-formed sequence.\<close>

lemma mod_64_le: "x mod 64 \<le> (63::int)"
  by presburger

lemma EncodeRune_seq_3:
  assumes "2048 \<le> r" "r < 65536" "r < 55296 \<or> 57343 < r"
  shows "utf8_seq (EncodeRune r)"
proof -
  define q where "q = r div 64"
  have q: "32 \<le> q" "q < 1024" "q < 864 \<or> 896 \<le> q" using assms by (auto simp: q_def)
  have e: "r div 4096 = q div 64" by (simp add: q_def zdiv_zmult2_eq [symmetric])
  have "0 \<le> q div 64" "q div 64 < 16" "q div 64 = 0 \<longrightarrow> 32 \<le> q mod 64"
    "q div 64 = 13 \<longrightarrow> q mod 64 \<le> 31" using q by presburger+
  then show ?thesis
    unfolding EncodeRune_3 [OF assms] e q_def [symmetric] utf8_seq_simps rune_of_byte_of
    by (simp add: mod_64_le)
qed

lemma EncodeRune_seq_4:
  assumes "65536 \<le> r" "r < 1114112"
  shows "utf8_seq (EncodeRune r)"
proof -
  define q where "q = r div 4096"
  have q: "16 \<le> q" "q < 272" using assms by (auto simp: q_def)
  have e: "r div 262144 = q div 64" by (simp add: q_def zdiv_zmult2_eq [symmetric])
  have "0 \<le> q div 64" "q div 64 < 5" "q div 64 = 0 \<longrightarrow> 16 \<le> q mod 64"
    "q div 64 = 4 \<longrightarrow> q mod 64 \<le> 15" using q by presburger+
  then show ?thesis
    unfolding EncodeRune_4 [OF assms] e q_def [symmetric] utf8_seq_simps rune_of_byte_of
    by (simp add: mod_64_le)
qed

lemma EncodeRune_seq:
  assumes "ValidRune r"
  shows "utf8_seq (EncodeRune r)"
proof -
  consider "0 \<le> r" "r < 128" | "128 \<le> r" "r < 2048"
    | "2048 \<le> r" "r < 65536" "r < 55296 \<or> 57343 < r" | "65536 \<le> r" "r < 1114112"
    using assms unfolding ValidRune_def utf8_consts by linarith
  then show ?thesis
  proof cases
    case 1
    then show ?thesis by (simp add: EncodeRune_1 utf8_seq_simps rune_of_byte_of)
  next
    case 2
    then have "2 \<le> r div 64" "r div 64 < 32" by auto
    with 2 show ?thesis by (simp add: EncodeRune_2 utf8_seq_simps rune_of_byte_of)
  qed (rule EncodeRune_seq_3 EncodeRune_seq_4; assumption)+
qed

lemma recompose_3: "4096 * (r div 4096) + 64 * (r div 64 mod 64) + r mod 64 = (r::int)"
proof -
  have "r div 4096 = r div 64 div 64" by (simp add: zdiv_zmult2_eq [symmetric])
  then have "4096 * (r div 4096) + 64 * (r div 64 mod 64) + r mod 64
      = 64 * (64 * (r div 64 div 64) + r div 64 mod 64) + r mod 64"
    by (simp only: distrib_left mult.assoc [symmetric] numeral_times_numeral semiring_norm)
  also have "\<dots> = r" by (simp only: mult_div_mod_eq)
  finally show ?thesis .
qed

lemma recompose_4:
  "262144 * (r div 262144) + 4096 * (r div 4096 mod 64) + 64 * (r div 64 mod 64) + r mod 64 = (r::int)"
proof -
  have "r div 262144 = r div 4096 div 64" by (simp add: zdiv_zmult2_eq [symmetric])
  then have "262144 * (r div 262144) + 4096 * (r div 4096 mod 64)
      = 4096 * (64 * (r div 4096 div 64) + r div 4096 mod 64)"
    by (simp only: distrib_left mult.assoc [symmetric] numeral_times_numeral semiring_norm)
  also have "\<dots> = 4096 * (r div 4096)" by (simp only: mult_div_mod_eq)
  finally show ?thesis using recompose_3 [of r] by simp
qed

lemma EncodeRune_spec:
  assumes "ValidRune r"
  shows "seq_spec (EncodeRune r) r"
proof -
  note seq = EncodeRune_seq [OF assms]
  consider "0 \<le> r" "r < 128" | "128 \<le> r" "r < 2048"
    | "2048 \<le> r" "r < 65536" "r < 55296 \<or> 57343 < r" | "65536 \<le> r" "r < 1114112"
    using assms unfolding ValidRune_def utf8_consts by linarith
  then show ?thesis
  proof cases
    case 1
    with assms show ?thesis
      by (simp add: seq_spec_def EncodeRune_1 DecodeRune_1 rune_of_byte_of)
  next
    case 2
    note e = EncodeRune_2 [OF 2]
    have "0 \<le> r div 64" "r div 64 < 32" using 2 by auto
    then have b: "rune_of (byte_of (192 + r div 64)) = 192 + r div 64"
      "rune_of (byte_of (128 + r mod 64)) = 128 + r mod 64"
      by (simp_all add: rune_of_byte_of)
    show ?thesis
      using seq seq_spec_2 unfolding e utf8_seq_simps by (fastforce simp: b)
  next
    case 3
    note e = EncodeRune_3 [OF 3]
    have "0 \<le> r div 4096" "r div 4096 < 16" using 3 by auto
    then have b: "rune_of (byte_of (224 + r div 4096)) = 224 + r div 4096"
      "rune_of (byte_of (128 + r div 64 mod 64)) = 128 + r div 64 mod 64"
      "rune_of (byte_of (128 + r mod 64)) = 128 + r mod 64"
      by (simp_all add: rune_of_byte_of)
    from seq have "seq_spec (EncodeRune r)
        (4096 * (r div 4096) + 64 * (r div 64 mod 64) + r mod 64)"
      unfolding e utf8_seq_simps using seq_spec_3 [of "byte_of (224 + r div 4096)"
        "byte_of (128 + r div 64 mod 64)" "byte_of (128 + r mod 64)"]
      by (simp add: b)
    then show ?thesis by (simp only: recompose_3)
  next
    case 4
    note e = EncodeRune_4 [OF 4]
    have "0 \<le> r div 262144" "r div 262144 < 5" using 4 by auto
    then have b: "rune_of (byte_of (240 + r div 262144)) = 240 + r div 262144"
      "rune_of (byte_of (128 + r div 4096 mod 64)) = 128 + r div 4096 mod 64"
      "rune_of (byte_of (128 + r div 64 mod 64)) = 128 + r div 64 mod 64"
      "rune_of (byte_of (128 + r mod 64)) = 128 + r mod 64"
      by (simp_all add: rune_of_byte_of)
    from seq have "seq_spec (EncodeRune r)
        (262144 * (r div 262144) + 4096 * (r div 4096 mod 64) + 64 * (r div 64 mod 64) + r mod 64)"
      unfolding e utf8_seq_simps using seq_spec_4 [of "byte_of (240 + r div 262144)"
        "byte_of (128 + r div 4096 mod 64)" "byte_of (128 + r div 64 mod 64)"
        "byte_of (128 + r mod 64)"]
      by (simp add: b)
    then show ?thesis by (simp only: recompose_4)
  qed
qed

lemma DecodeRune_EncodeRune:
  "ValidRune r \<Longrightarrow> DecodeRune (EncodeRune r @ s) = (r, length (EncodeRune r))"
  using EncodeRune_spec by (simp add: seq_spec_def)

lemma utf8_seq_length: "utf8_seq q \<Longrightarrow> 0 < length q \<and> length q \<le> 4"
  by (auto elim: utf8_seq.cases)

text \<open>Every decoding is an error of width one, or of a valid rune that encodes to the bytes read.\<close>

lemma DecodeRune_cases:
  assumes "p \<noteq> []"
  obtains (invalid) "DecodeRune p = (RuneError, 1)" "\<And>n. \<not> utf8_seq (take n p)"
  | (valid) r n where "DecodeRune p = (r, n)" "ValidRune r" "take n p = EncodeRune r"
      "0 < n" "n \<le> 4" "n \<le> length p" "utf8_seq (take n p)"
proof (cases "\<exists>n. utf8_seq (take n p)")
  case True
  then obtain k where k: "utf8_seq (take k p)" ..
  define n where "n = length (take k p)"
  have t: "take n p = take k p" by (simp add: n_def min_def)
  with k obtain r where r: "seq_spec (take n p) r" using utf8_seq_spec by metis
  have "DecodeRune p = (r, length (take n p))"
    using r append_take_drop_id [of n p] unfolding seq_spec_def by metis
  moreover have "length (take n p) = n" by (simp add: n_def)
  moreover have "0 < n \<and> n \<le> 4" using utf8_seq_length [OF k] unfolding n_def by simp
  moreover have "n \<le> length p" by (simp add: n_def)
  ultimately show thesis using valid [of r n] r k t by (simp add: seq_spec_def)
next
  case False
  with DecodeRune_error [OF assms] invalid show thesis by blast
qed

lemma DecodeRune_width: "p \<noteq> [] \<Longrightarrow> 0 < snd (DecodeRune p) \<and> snd (DecodeRune p) \<le> length p"
  by (cases p rule: DecodeRune_cases) (auto simp: Suc_le_eq)

subsection \<open>FullRune\<close>

lemma FullRune_Nil: "\<not> FullRune []"
  by (simp add: FullRune_def)

text \<open>The bytes that may follow a starter byte.\<close>

definition second_ok :: "char \<Rightarrow> char \<Rightarrow> bool" where
  "second_ok a b \<longleftrightarrow> is_cont b \<and> (rune_of a = 224 \<longrightarrow> 160 \<le> rune_of b)
     \<and> (rune_of a = 237 \<longrightarrow> rune_of b \<le> 159) \<and> (rune_of a = 240 \<longrightarrow> 144 \<le> rune_of b)
     \<and> (rune_of a = 244 \<longrightarrow> rune_of b \<le> 143)"

lemma not_FullRune_cases:
  assumes "\<not> FullRune p"
  obtains "p = []"
  | a where "p = [a]" "194 \<le> rune_of a" "rune_of a < 245"
  | a b where "p = [a, b]" "224 \<le> rune_of a" "rune_of a < 245" "second_ok a b"
  | a b c where "p = [a, b, c]" "240 \<le> rune_of a" "rune_of a < 245" "second_ok a b" "is_cont c"
proof (cases p)
  case (Cons a q)
  note unfold = Cons FullRune_def byte_at_def accept_simps second_ok_def Let_def
  show thesis
  proof (cases rule: length_ge_3_cases [of q])
    case 1
    then consider "q = []" | b where "q = [b]" | b c where "q = [b, c]"
      by (cases q; cases "tl q"; cases "tl (tl q)") auto
    then show thesis
    proof cases
      case 1
      with assms show thesis
        by (cases rule: first_range [of a]) (auto simp: unfold intro: that(2))
    next
      case (2 b)
      with assms show thesis
        by (cases rule: first_range [of a])
          (auto simp: unfold utf8_consts intro!: that(3) split: if_splits)
    next
      case (3 b c)
      with assms show thesis
        by (cases rule: first_range [of a])
          (auto simp: unfold utf8_consts intro!: that(4) split: if_splits)
    qed
  next
    case (2 b c d r)
    with assms show thesis by (cases rule: first_range [of a]) (auto simp: unfold)
  qed
qed (rule that(1))

lemma DecodeRune_short:
  assumes "utf8_seq (a # q)" "n < length q"
  shows "DecodeRune (a # take n q) = (RuneError, 1)"
proof (rule DecodeRune_error)
  show "\<not> utf8_seq (take m (a # take n q))" for m
  proof
    assume "utf8_seq (take m (a # take n q))"
    then show False using assms by (auto elim!: utf8_seq.cases simp: take_Cons' split: if_splits)
  qed
qed simp

lemma utf8_seq_prefix_not_full:
  assumes "utf8_seq q" "k < length q"
  shows "\<not> FullRune (take k q)"
  using assms(1)
proof cases
  case (seq1 a)
  with assms(2) show ?thesis by (simp add: FullRune_Nil)
next
  case (seq2 a b)
  with assms(2) show ?thesis
    by (cases rule: first_range [of a])
      (auto simp: take_Cons' FullRune_def byte_at_def)
next
  case (seq3 a b c)
  with assms(2) show ?thesis
    by (cases rule: first_range [of a])
      (auto simp: take_Cons' FullRune_def byte_at_def accept_simps utf8_consts)
next
  case (seq4 a b c d)
  with assms(2) show ?thesis
    by (cases rule: first_range [of a])
      (auto simp: take_Cons' FullRune_def byte_at_def accept_simps utf8_consts)
qed

lemma utf8_seq_ext:
  assumes "\<not> FullRune p"
  shows "\<exists>s. s \<noteq> [] \<and> utf8_seq (p @ s)"
  using assms
proof (cases rule: not_FullRune_cases)
  case 1
  have "utf8_seq ([] @ [byte_of 65])" by (simp add: utf8_seq_simps rune_of_byte_of)
  with 1 show ?thesis by blast
next
  case (2 a)
  consider "rune_of a < 224" | "224 \<le> rune_of a" "rune_of a < 240" | "240 \<le> rune_of a"
    by linarith
  then show ?thesis
  proof cases
    case 1
    with 2 have "utf8_seq (p @ [byte_of 128])" by (simp add: utf8_seq_simps rune_of_byte_of)
    then show ?thesis by blast
  next
    case c: 2
    define b where "b = (if rune_of a = 224 then 160 else 128 :: int)"
    have "utf8_seq (p @ [byte_of b, byte_of 128])"
      using c 2 by (simp add: utf8_seq_simps rune_of_byte_of b_def)
    then show ?thesis by blast
  next
    case 3
    define b where "b = (if rune_of a = 240 then 144 else 128 :: int)"
    have "utf8_seq (p @ [byte_of b, byte_of 128, byte_of 128])"
      using 3 2 by (simp add: utf8_seq_simps rune_of_byte_of b_def)
    then show ?thesis by blast
  qed
next
  case (3 a b)
  show ?thesis
  proof (cases "rune_of a < 240")
    case True
    with 3 have "utf8_seq (p @ [byte_of 128])"
      by (simp add: utf8_seq_simps rune_of_byte_of second_ok_def)
    then show ?thesis by blast
  next
    case False
    with 3 have "utf8_seq (p @ [byte_of 128, byte_of 128])"
      by (simp add: utf8_seq_simps rune_of_byte_of second_ok_def)
    then show ?thesis by blast
  qed
next
  case (4 a b c)
  then have "utf8_seq (p @ [byte_of 128])"
    by (simp add: utf8_seq_simps rune_of_byte_of second_ok_def)
  then show ?thesis by blast
qed

lemma FullRune_stable:
  assumes "FullRune p"
  shows "DecodeRune (p @ s) = DecodeRune p"
proof -
  have ne: "p \<noteq> []" using assms FullRune_Nil by auto
  then show ?thesis
  proof (cases rule: DecodeRune_cases)
    case invalid
    have "\<not> utf8_seq (take n (p @ s))" for n
    proof
      assume q: "utf8_seq (take n (p @ s))"
      show False
      proof (cases "n \<le> length p")
        case True
        with q invalid(2) show False by simp
      next
        case False
        show False
        proof (cases "take (n - length p) s = []")
          case True
          with q invalid(2) [of "length p"] False show False by simp
        next
          case False
          then have "\<not> FullRune (take (length p) (take n (p @ s)))"
            using \<open>\<not> n \<le> length p\<close> by (intro utf8_seq_prefix_not_full [OF q]) auto
          with assms \<open>\<not> n \<le> length p\<close> show False by simp
        qed
      qed
    qed
    with ne invalid(1) show ?thesis by (simp add: DecodeRune_error)
  next
    case (valid r n)
    have "p @ s = EncodeRune r @ (drop n p @ s)"
      using append_take_drop_id [of n p] valid(3) by (metis append.assoc)
    moreover have "length (EncodeRune r) = n" using valid(3,6) by (metis length_take min.absorb2)
    ultimately show ?thesis using DecodeRune_EncodeRune [OF valid(2)] valid(1) by metis
  qed
qed

lemma FullRune_iff_stable: "FullRune p \<longleftrightarrow> (\<forall>s. DecodeRune (p @ s) = DecodeRune p)"
proof
  show "FullRune p \<Longrightarrow> \<forall>s. DecodeRune (p @ s) = DecodeRune p"
    by (simp add: FullRune_stable)
next
  assume st: "\<forall>s. DecodeRune (p @ s) = DecodeRune p"
  show "FullRune p"
  proof (rule ccontr)
    assume "\<not> FullRune p"
    then obtain s where s: "s \<noteq> []" "utf8_seq (p @ s)" using utf8_seq_ext by blast
    then obtain r where "DecodeRune (p @ s) = (r, length (p @ s))"
      using utf8_seq_spec [of "p @ s"] unfolding seq_spec_def by (metis append_Nil2)
    moreover have "snd (DecodeRune p) \<le> length p"
      using DecodeRune_width [of p] by (cases "p = []") (auto simp: DecodeRune_Nil)
    ultimately show False using st s(1) by (metis add_le_same_cancel1 length_0_conv
          length_append le_zero_eq snd_conv)
  qed
qed

lemma DecodeRune_take4: "DecodeRune (take 4 p) = DecodeRune p"
proof (cases "p = []")
  case False
  then show ?thesis
  proof (cases rule: DecodeRune_cases)
    case invalid
    have "\<not> utf8_seq (take n (take 4 p))" for n using invalid(2) by (simp add: take_take)
    then show ?thesis using invalid False by (simp add: DecodeRune_error)
  next
    case (valid r n)
    have "take 4 p = EncodeRune r @ drop n (take 4 p)"
      using append_take_drop_id [of n "take 4 p"] valid(3,5) by (simp add: take_take min_absorb1)
    moreover have "length (EncodeRune r) = n" using valid(3,6) by (metis length_take min.absorb2)
    ultimately show ?thesis using DecodeRune_EncodeRune [OF valid(2)] valid(1) by metis
  qed
qed simp

subsection \<open>Properties\<close>

text \<open>C30: decoding the encoding of a valid rune, whatever follows it, returns the rune and the
  number of bytes that were encoded.\<close>

theorem decode_encode:
  assumes "ValidRune r"
  shows "DecodeRune (EncodeRune r @ s) = (r, length (EncodeRune r))"
  using assms by (rule DecodeRune_EncodeRune)

theorem decode_encode_witness:
  "ValidRune 8364 \<and> DecodeRune (EncodeRune 8364 @ ''x'') = (8364, length (EncodeRune 8364))"
proof
  show v: "ValidRune 8364" by (simp add: ValidRune_def utf8_consts)
  show "DecodeRune (EncodeRune 8364 @ ''x'') = (8364, length (EncodeRune 8364))"
    by (rule decode_encode [OF v])
qed

text \<open>On non-empty input, decoding either reports an invalid encoding of width one or returns
  a valid rune whose encoding is exactly the bytes consumed.\<close>

lemma decode_sound:
  assumes "p \<noteq> []"
  shows "DecodeRune p = (RuneError, 1)
    \<or> (\<exists>r n. DecodeRune p = (r, n) \<and> ValidRune r \<and> take n p = EncodeRune r \<and> 0 < n \<and> n \<le> length p)"
  using assms by (cases rule: DecodeRune_cases) auto

lemma decode_sound_witness:
  "[CHR 0xC3] \<noteq> [] \<and> (DecodeRune [CHR 0xC3] = (RuneError, 1)
    \<or> (\<exists>r n. DecodeRune [CHR 0xC3] = (r, n) \<and> ValidRune r \<and> take n [CHR 0xC3] = EncodeRune r
        \<and> 0 < n \<and> n \<le> length [CHR 0xC3]))"
  using decode_sound [of "[CHR 0xC3]"] by simp

text \<open>C36: \<open>FullRune\<close> answers yes exactly when more input cannot change the decoding, which is what
  the refill loop of the source reader needs.\<close>

theorem full_rune_exact: "FullRune p \<longleftrightarrow> (\<forall>s. DecodeRune (p @ s) = DecodeRune p)"
  by (rule FullRune_iff_stable)

end
