(* ===== verification/Unicode.thy ===== *)
theory Unicode
  imports Unicode_Tables Utf8
begin

text \<open>
  Character classes of \<open>src/unicode\<close> (\<open>letter.go\<close>, \<open>graphic.go\<close>, \<open>digit.go\<close>) and the
  rune formatting the scanner's messages use: \<open>strconv.IsPrint\<close>, \<open>strconv.AppendQuoteRune\<close>
  (verb \<open>%q\<close>) and \<open>fmt.fmtUnicode\<close> (verb \<open>%#U\<close>).  The lemmas show that the linear and
  the binary search over a sorted range table both decide membership, and that the tables of
  this repository are sorted.
\<close>

subsection \<open>Range tables\<close>

record RangeTable =
  R16 :: "range_entry list"
  R32 :: "range_entry list"
  LatinOffset :: nat

definition MaxLatin1 :: rune where "MaxLatin1 = 0xFF"
definition linearMax :: nat where "linearMax = 18"

definition Letter :: RangeTable where
  "Letter = \<lparr>R16 = Letter_R16, R32 = Letter_R32, LatinOffset = 6\<rparr>"

definition Digit :: RangeTable where
  "Digit = \<lparr>R16 = Digit_R16, R32 = Digit_R32, LatinOffset = 1\<rparr>"

fun range_hit :: "range_entry \<Rightarrow> int \<Rightarrow> bool" where
  "range_hit (lo, hi, stride) r \<longleftrightarrow> stride = 1 \<or> (r - lo) mod stride = 0"

fun linear_search :: "range_entry list \<Rightarrow> int \<Rightarrow> bool" where
  "linear_search [] r = False"
| "linear_search ((lo, hi, stride) # rs) r =
     (if r < lo then False
      else if r \<le> hi then range_hit (lo, hi, stride) r
      else linear_search rs r)"

function binary_search :: "range_entry list \<Rightarrow> int \<Rightarrow> nat \<Rightarrow> nat \<Rightarrow> bool" where
  "binary_search ranges r lo hi =
     (if lo < hi then
        let m = (lo + hi) div 2; (l, h, stride) = ranges ! m in
        if l \<le> r \<and> r \<le> h then range_hit (l, h, stride) r
        else if r < l then binary_search ranges r lo m
        else binary_search ranges r (m + 1) hi
      else False)"
  by pat_completeness auto
termination
  by (relation "measure (\<lambda>(ranges, r, lo, hi). hi - lo)") auto

declare binary_search.simps [simp del]

definition is16 :: "range_entry list \<Rightarrow> int \<Rightarrow> bool" where
  "is16 ranges r =
     (if length ranges \<le> linearMax \<or> r \<le> MaxLatin1 then linear_search ranges r
      else binary_search ranges r 0 (length ranges))"

definition is32 :: "range_entry list \<Rightarrow> int \<Rightarrow> bool" where
  "is32 ranges r =
     (if length ranges \<le> linearMax then linear_search ranges r
      else binary_search ranges r 0 (length ranges))"

definition entry_lo :: "range_entry \<Rightarrow> int" where "entry_lo e = fst e"
definition entry_hi :: "range_entry \<Rightarrow> int" where "entry_hi e = fst (snd e)"

definition isExcludingLatin :: "RangeTable \<Rightarrow> rune \<Rightarrow> bool" where
  "isExcludingLatin tab r =
     (let r16 = R16 tab; off = LatinOffset tab; r32 = R32 tab in
      if length r16 > off \<and> take_bit 32 r \<le> entry_hi (last r16)
      then is16 (drop off r16) (take_bit 16 r)
      else if r32 \<noteq> [] \<and> r \<ge> entry_lo (hd r32) then is32 r32 (take_bit 32 r)
      else False)"

definition pLmask :: int where "pLmask = 96"

definition properties :: "rune \<Rightarrow> int" where
  "properties r = (properties_1 @ properties_2) ! nat (take_bit 8 r)"

definition IsLetter :: "rune \<Rightarrow> bool" where
  "IsLetter r =
     (if take_bit 32 r \<le> MaxLatin1 then properties r AND pLmask \<noteq> 0
      else isExcludingLatin Letter r)"

definition IsDigit :: "rune \<Rightarrow> bool" where
  "IsDigit r = (if r \<le> MaxLatin1 then 48 \<le> r \<and> r \<le> 57 else isExcludingLatin Digit r)"

subsection \<open>Printing runes\<close>

text \<open>\<open>bsearch\<close> of \<open>strconv/quote.go\<close>: the first index whose element is not below \<open>v\<close>.\<close>

function bsearch_loop :: "int list \<Rightarrow> int \<Rightarrow> nat \<Rightarrow> nat \<Rightarrow> nat" where
  "bsearch_loop s v i j =
     (if i < j then
        let h = i + (j - i) div 2 in
        if s ! h < v then bsearch_loop s v (h + 1) j else bsearch_loop s v i h
      else i)"
  by pat_completeness auto
termination
  by (relation "measure (\<lambda>(s, v, i, j). j - i)") auto

declare bsearch_loop.simps [simp del]

definition bsearch :: "int list \<Rightarrow> int \<Rightarrow> nat \<times> bool" where
  "bsearch s v = (let i = bsearch_loop s v 0 (length s) in (i, i < length s \<and> s ! i = v))"

definition in_pairs :: "int list \<Rightarrow> int \<Rightarrow> bool" where
  "in_pairs isPrint rr =
     (let i = fst (bsearch isPrint rr) in
      \<not> (i \<ge> length isPrint \<or> rr < isPrint ! (i - i mod 2) \<or> isPrint ! (i - i mod 2 + 1) < rr))"

definition IsPrint :: "rune \<Rightarrow> bool" where
  "IsPrint r =
     (if r \<le> 0xFF then
        if 0x20 \<le> r \<and> r \<le> 0x7E then True
        else if 0xA1 \<le> r \<and> r \<le> 0xFF then r \<noteq> 0xAD
        else False
      else if 0 \<le> r \<and> r < 65536 then
        in_pairs isPrint16 r \<and> \<not> snd (bsearch isNotPrint16 r)
      else if \<not> in_pairs isPrint32 (take_bit 32 r) then False
      else if r \<ge> 0x20000 then True
      else \<not> snd (bsearch isNotPrint32 (take_bit 16 (r - 0x10000))))"

definition hexdigit :: "string \<Rightarrow> int \<Rightarrow> char" where
  "hexdigit ds n = ds ! nat (n AND 15)"

definition lowerhex :: string where "lowerhex = ''0123456789abcdef''"
definition udigits :: string where "udigits = ''0123456789ABCDEF''"

definition backslash :: char where "backslash = byte_of 92"

text \<open>The last \<open>k\<close> hexadecimal digits of \<open>r\<close>, most significant first.\<close>

fun hex_tail :: "nat \<Rightarrow> rune \<Rightarrow> string" where
  "hex_tail 0 r = []"
| "hex_tail (Suc k) r = hexdigit lowerhex (drop_bit (4 * k) r) # hex_tail k r"

definition appendEscapedRune :: "string \<Rightarrow> rune \<Rightarrow> char \<Rightarrow> string" where
  "appendEscapedRune buf r quote =
     (if r = rune_of quote \<or> r = 92 then buf @ [backslash, byte_of (take_bit 8 r)]
      else if IsPrint r then AppendRune buf r
      else if r = 7 then buf @ [backslash, CHR ''a'']
      else if r = 8 then buf @ [backslash, CHR ''b'']
      else if r = 12 then buf @ [backslash, CHR ''f'']
      else if r = 10 then buf @ [backslash, CHR ''n'']
      else if r = 13 then buf @ [backslash, CHR ''r'']
      else if r = 9 then buf @ [backslash, CHR ''t'']
      else if r = 11 then buf @ [backslash, CHR ''v'']
      else if r < 32 \<or> r = 0x7F then
        buf @ [backslash, CHR ''x''] @ hex_tail 2 (take_bit 8 r)
      else
        let r = (if \<not> ValidRune r then 0xFFFD else r) in
        if r < 0x10000 then buf @ [backslash, CHR ''u''] @ hex_tail 4 r
        else buf @ [backslash, CHR ''U''] @ hex_tail 8 r)"

definition AppendQuoteRune :: "string \<Rightarrow> rune \<Rightarrow> string" where
  "AppendQuoteRune buf r =
     (let quote = byte_of 39;
          r = (if \<not> ValidRune r then RuneError else r)
      in appendEscapedRune (buf @ [quote]) r quote @ [quote])"

text \<open>\<open>fmt\<close>'s \<open>%q\<close> of a rune.  Its argument is an unsigned 64-bit value.\<close>

definition fmtQc :: "rune \<Rightarrow> string" where
  "fmtQc c = AppendQuoteRune [] (if take_bit 64 c > MaxRune then RuneError else c)"

text \<open>The hexadecimal digits of \<open>u\<close>, least significant last (the loop fills from the right).\<close>

fun hexU :: "nat \<Rightarrow> string" where
  "hexU u = (if u \<ge> 16 then hexU (u div 16) @ [udigits ! (u mod 16)] else [udigits ! u])"

declare hexU.simps [simp del]

definition fmtUnicode :: "rune \<Rightarrow> string" where
  "fmtUnicode c =
     (let u = take_bit 64 c;
          h = hexU (nat u);
          q = (if u \<le> MaxRune \<and> IsPrint u
               then [CHR '' '', byte_of 39] @ EncodeRune u @ [byte_of 39] else [])
      in ''U+'' @ replicate (4 - length h) (CHR ''0'') @ h @ q)"

subsection \<open>Searching a sorted range table\<close>

definition in_range :: "int \<Rightarrow> range_entry \<Rightarrow> bool" where
  "in_range r e \<longleftrightarrow> entry_lo e \<le> r \<and> r \<le> entry_hi e \<and> range_hit e r"

text \<open>Neighbouring ranges do not overlap and grow, which the searches rely on.\<close>

fun ranges_ok :: "range_entry list \<Rightarrow> bool" where
  "ranges_ok [] = True"
| "ranges_ok [e] = (entry_lo e \<le> entry_hi e)"
| "ranges_ok (e # f # es) = (entry_lo e \<le> entry_hi e \<and> entry_hi e < entry_lo f \<and> ranges_ok (f # es))"

lemmas entry_simps [simp] = entry_lo_def entry_hi_def

lemma ranges_ok_Cons:
  "ranges_ok (e # es) \<Longrightarrow> ranges_ok es \<and> (\<forall>f \<in> set es. entry_hi e < entry_lo f)"
proof (induction es arbitrary: e)
  case (Cons f es)
  from Cons.prems have 1: "ranges_ok (f # es)" "entry_hi e < entry_lo f" "entry_lo f \<le> entry_hi f"
    by (cases es; simp)+
  with Cons.IH [OF 1(1)] show ?case by fastforce
qed simp

lemma ranges_ok_sorted:
  "ranges_ok rs \<Longrightarrow> i < j \<Longrightarrow> j < length rs \<Longrightarrow> entry_hi (rs ! i) < entry_lo (rs ! j)"
proof (induction rs arbitrary: i j)
  case (Cons e es)
  then obtain k where k: "j = Suc k" by (cases j) auto
  show ?case
  proof (cases i)
    case 0
    with Cons.prems k ranges_ok_Cons [OF Cons.prems(1)] show ?thesis by simp
  next
    case (Suc i')
    with Cons k ranges_ok_Cons [OF Cons.prems(1)] show ?thesis by simp
  qed
qed simp

lemma ranges_ok_nth: "ranges_ok rs \<Longrightarrow> i < length rs \<Longrightarrow> entry_lo (rs ! i) \<le> entry_hi (rs ! i)"
proof (induction rs arbitrary: i)
  case (Cons e es)
  then show ?case using ranges_ok_Cons [OF Cons.prems(1)]
    by (cases i; cases es) auto
qed simp

lemma linear_search_iff: "ranges_ok rs \<Longrightarrow> linear_search rs r \<longleftrightarrow> (\<exists>e \<in> set rs. in_range r e)"
proof (induction rs r rule: linear_search.induct)
  case (2 lo hi stride rs r)
  note ok = ranges_ok_Cons [OF "2.prems"]
  have lh: "lo \<le> hi" using "2.prems" by (cases rs) auto
  have none: "\<not> in_range r e" if "r \<le> hi" "e \<in> set rs" for e
    using ok that by (fastforce simp: in_range_def)
  consider "r < lo" | "lo \<le> r" "r \<le> hi" | "hi < r" by linarith
  then show ?case
  proof cases
    case 1
    with none lh show ?thesis by (simp add: in_range_def)
  next
    case 2
    with none show ?thesis by (auto simp: in_range_def)
  next
    case 3
    with "2.IH" ok lh show ?thesis by (simp add: in_range_def)
  qed
qed simp

lemma binary_search_iff:
  assumes "ranges_ok rs" "hi \<le> length rs"
  shows "binary_search rs r lo hi \<longleftrightarrow> (\<exists>i. lo \<le> i \<and> i < hi \<and> in_range r (rs ! i))"
  using assms
proof (induction rs r lo hi rule: binary_search.induct)
  case (1 rs r lo hi)
  show ?case
  proof (cases "lo < hi")
    case True
    define m where "m = (lo + hi) div 2"
    obtain l h st where e: "rs ! m = (l, h, st)" by (cases "rs ! m")
    have m: "lo \<le> m" "m < hi" "m < length rs" using True "1.prems"(2) by (auto simp: m_def)
    have below: "entry_hi (rs ! i) < l" if "i < m" for i
      using ranges_ok_sorted [OF "1.prems"(1) that m(3)] e by simp
    have above: "h < entry_lo (rs ! i)" if "m < i" "i < hi" for i
      using ranges_ok_sorted [OF "1.prems"(1) that(1)] that(2) "1.prems"(2) e by simp
    have lh: "l \<le> h" using ranges_ok_nth [OF "1.prems"(1) m(3)] e by simp
    note unf = binary_search.simps [of rs r lo hi]
    consider "l \<le> r" "r \<le> h" | "r < l" | "h < r" by linarith
    then show ?thesis
    proof cases
      case 1
      then have "\<not> in_range r (rs ! i)" if "lo \<le> i" "i < hi" "i \<noteq> m" for i
        using below [of i] above [of i] that by (cases "i < m") (auto simp: in_range_def)
      moreover have "in_range r (rs ! m) \<longleftrightarrow> range_hit (l, h, st) r"
        using 1 e by (simp add: in_range_def)
      moreover have "binary_search rs r lo hi \<longleftrightarrow> range_hit (l, h, st) r"
        using True 1 e unf by (simp add: m_def Let_def)
      ultimately show ?thesis using m by blast
    next
      case 2
      then have "binary_search rs r lo hi = binary_search rs r lo m"
        using True e unf by (simp add: m_def Let_def)
      moreover have "\<not> in_range r (rs ! i)" if "m \<le> i" "i < hi" for i
        using 2 lh above [of i] that e by (cases "i = m") (auto simp: in_range_def)
      moreover have "binary_search rs r lo m = (\<exists>i\<ge>lo. i < m \<and> in_range r (rs ! i))"
        using "1.IH"(1) [OF True m_def e [symmetric] refl refl] 2 "1.prems" m by simp
      ultimately show ?thesis using m by (metis less_trans not_less)
    next
      case 3
      then have "binary_search rs r lo hi = binary_search rs r (m + 1) hi"
        using True e lh unf by (simp add: m_def Let_def)
      moreover have "\<not> in_range r (rs ! i)" if "i \<le> m" for i
        using 3 lh below [of i] that e by (cases "i = m") (auto simp: in_range_def)
      moreover have "binary_search rs r (m + 1) hi = (\<exists>i\<ge>m + 1. i < hi \<and> in_range r (rs ! i))"
        using "1.IH"(2) [OF True m_def e [symmetric] refl refl] 3 lh "1.prems" m by simp
      ultimately show ?thesis using m
        by (metis Suc_eq_plus1 Suc_leI le_trans less_imp_le_nat not_less)
    qed
  next
    case False
    then show ?thesis by (simp add: binary_search.simps [of rs r lo hi])
  qed
qed

lemma ex_nth_set: "(\<exists>i < length rs. P (rs ! i)) \<longleftrightarrow> (\<exists>e \<in> set rs. P e)"
  by (metis in_set_conv_nth)

lemma is16_iff: "ranges_ok rs \<Longrightarrow> is16 rs r \<longleftrightarrow> (\<exists>e \<in> set rs. in_range r e)"
  by (simp add: is16_def linear_search_iff binary_search_iff ex_nth_set)

lemma is32_iff: "ranges_ok rs \<Longrightarrow> is32 rs r \<longleftrightarrow> (\<exists>e \<in> set rs. in_range r e)"
  by (simp add: is32_def linear_search_iff binary_search_iff ex_nth_set)

lemma tables_ok:
  "ranges_ok Letter_R16" "ranges_ok Letter_R32" "ranges_ok Digit_R16" "ranges_ok Digit_R32"
  by code_simp+

text \<open>The split of a table between its 16-bit and its 32-bit half, beyond Latin-1.\<close>

definition split_ok :: "RangeTable \<Rightarrow> bool" where
  "split_ok tab \<longleftrightarrow> LatinOffset tab < length (R16 tab) \<and> R32 tab \<noteq> []
     \<and> ranges_ok (drop (LatinOffset tab) (R16 tab)) \<and> ranges_ok (R32 tab)
     \<and> entry_hi (last (R16 tab)) < entry_lo (hd (R32 tab)) \<and> entry_hi (last (R16 tab)) < 65536"

lemma ranges_ok_last: "ranges_ok rs \<Longrightarrow> e \<in> set rs \<Longrightarrow> entry_hi e \<le> entry_hi (last rs)"
proof (induction rs)
  case (Cons f fs)
  show ?case
  proof (cases "fs = []")
    case False
    have f: "ranges_ok fs" "\<forall>g \<in> set fs. entry_hi f < entry_lo g" using ranges_ok_Cons [OF Cons.prems(1)] by auto
    have "entry_lo (last fs) \<le> entry_hi (last fs)"
      using ranges_ok_nth [OF f(1), of "length fs - 1"] False by (simp add: last_conv_nth)
    moreover have "entry_hi f < entry_lo (last fs)" using f(2) False by simp
    ultimately show ?thesis using Cons f(1) False by auto
  qed (use Cons in auto)
qed simp

lemma ranges_ok_hd: "ranges_ok rs \<Longrightarrow> e \<in> set rs \<Longrightarrow> entry_lo (hd rs) \<le> entry_lo e"
proof (cases rs)
  case (Cons f fs)
  assume rs: "ranges_ok rs" "e \<in> set rs"
  have "entry_lo f \<le> entry_hi f" using ranges_ok_nth [OF rs(1), of 0] Cons by simp
  then show ?thesis using ranges_ok_Cons [of f fs] rs Cons by force
qed simp

lemma isExcludingLatin_iff:
  assumes "split_ok tab" "0 \<le> r" "r < 2 ^ 32"
  shows "isExcludingLatin tab r \<longleftrightarrow> (\<exists>e \<in> set (drop (LatinOffset tab) (R16 tab)) \<union> set (R32 tab). in_range r e)"
proof -
  let ?d = "drop (LatinOffset tab) (R16 tab)"
  have s: "LatinOffset tab < length (R16 tab)" "R32 tab \<noteq> []" "ranges_ok ?d" "ranges_ok (R32 tab)"
    "entry_hi (last (R16 tab)) < entry_lo (hd (R32 tab))" "entry_hi (last (R16 tab)) < 65536"
    using assms(1) by (auto simp: split_ok_def)
  have l: "last ?d = last (R16 tab)" using s(1) by (simp add: last_drop)
  have b: "take_bit 32 r = r" using assms(2,3) by (simp add: take_bit_int_eq_self)
  have lo: "\<not> in_range r e" if "e \<in> set ?d" "r > entry_hi (last (R16 tab))" for e
    using ranges_ok_last [OF s(3) that(1)] that(2) by (simp add: l in_range_def)
  have hi: "\<not> in_range r e" if "e \<in> set (R32 tab)" "r < entry_lo (hd (R32 tab))" for e
    using ranges_ok_hd [OF s(4) that(1)] that(2) by (simp add: in_range_def)
  show ?thesis
  proof (cases "r \<le> entry_hi (last (R16 tab))")
    case True
    then have "take_bit 16 r = r" using assms(2) s(6) by (simp add: take_bit_int_eq_self)
    then have "isExcludingLatin tab r = is16 ?d r"
      using True s(1) b unfolding isExcludingLatin_def Let_def by simp
    then show ?thesis using hi True s(5) is16_iff [OF s(3)] by (auto simp del: entry_simps)
  next
    case False
    then have "isExcludingLatin tab r = (r \<ge> entry_lo (hd (R32 tab)) \<and> is32 (R32 tab) r)"
      using s(2) b unfolding isExcludingLatin_def Let_def by simp
    then show ?thesis using lo hi False is32_iff [OF s(4)] by (auto simp del: entry_simps)
  qed
qed

subsection \<open>Properties\<close>

text \<open>Beyond Latin-1, the letters and the decimal digits that the scanner accepts are exactly the
  runes of the ranges listed in the Unicode tables: the linear and the binary search and the split
  into 16-bit and 32-bit tables lose nothing.\<close>

lemma letter_digit_tables:
  assumes "MaxLatin1 < r" "r \<le> MaxRune"
  shows "(IsLetter r \<longleftrightarrow> (\<exists>e \<in> set (drop (LatinOffset Letter) (R16 Letter)) \<union> set (R32 Letter). in_range r e))
    \<and> (IsDigit r \<longleftrightarrow> (\<exists>e \<in> set (drop (LatinOffset Digit) (R16 Digit)) \<union> set (R32 Digit). in_range r e))"
proof -
  have r: "0 \<le> r" "r < 2 ^ 32" "take_bit 32 r = r"
    using assms by (simp_all add: MaxLatin1_def utf8_consts take_bit_int_eq_self)
  have t: "split_ok Letter" "split_ok Digit" by code_simp+
  show ?thesis
    using assms(1) isExcludingLatin_iff [OF t(1) r(1,2)] isExcludingLatin_iff [OF t(2) r(1,2)]
    by (simp only: IsLetter_def IsDigit_def r(3) not_le [symmetric] if_False)
qed

lemma letter_digit_tables_witness:
  "MaxLatin1 < 0x3B1 \<and> 0x3B1 \<le> MaxRune \<and>
   (IsLetter 0x3B1 \<longleftrightarrow> (\<exists>e \<in> set (drop (LatinOffset Letter) (R16 Letter)) \<union> set (R32 Letter). in_range 0x3B1 e))"
proof -
  have "MaxLatin1 < 0x3B1" "0x3B1 \<le> MaxRune" by (simp_all add: MaxLatin1_def utf8_consts)
  with letter_digit_tables [of "0x3B1"] show ?thesis by blast
qed

end
