(* ===== verification/Source.thy ===== *)
theory Source
  imports Unicode
begin

text \<open>
  The character reader of \<open>cmd/compile/internal/syntax/source.go\<close>, seen by its client: the
  whole input is in \<open>data\<close>, \<open>rd_r\<close> is the offset after the current character \<open>ch\<close>,
  \<open>seg_b\<close> the start of the active segment (or \<open>-1\<close>), \<open>src_line\<close> and \<open>src_col\<close> the
  0-based position of \<open>ch\<close>.  The buffer that the code keeps in front of its \<open>io.Reader\<close>
  is the subject of \<open>Source_Buffer\<close>, which proves that it refines this reader.

  Go reports errors, and hands over comments, by calling the handler \<open>errh\<close>; the model
  records the calls in order in \<open>errs\<close>, with the value that \<open>scanner.blank\<close> has at the
  call (the parser's handler reads it).  A Go panic is recorded in \<open>panicked\<close>, which no
  operation clears.
\<close>

type_synonym errh_call = "nat \<times> nat \<times> string \<times> bool"

record source =
  data :: string
  seg_b :: int
  rd_r :: nat
  src_line :: nat
  src_col :: int
  ch :: rune
  chw :: nat
  blank :: bool
  errs :: "errh_call list"
  panicked :: "string option"

definition sentinel :: rune where "sentinel = RuneSelf"
definition linebase :: nat where "linebase = 1"
definition colbase :: nat where "colbase = 1"
definition BOM :: rune where "BOM = 0xFEFF"

definition source_init :: "string \<Rightarrow> source" where
  "source_init inp = \<lparr>data = inp, seg_b = -1, rd_r = 0, src_line = 0, src_col = 0, ch = 32, chw = 0,
     blank = False, errs = [], panicked = None\<rparr>"

definition src_pos :: "'a source_scheme \<Rightarrow> nat \<times> nat" where
  "src_pos s = (linebase + src_line s, nat (int colbase + src_col s))"

definition errh :: "nat \<Rightarrow> nat \<Rightarrow> string \<Rightarrow> 'a source_scheme \<Rightarrow> 'a source_scheme" where
  "errh l c msg s = s\<lparr>errs := errs s @ [(l, c, msg, blank s)]\<rparr>"

definition error :: "string \<Rightarrow> 'a source_scheme \<Rightarrow> 'a source_scheme" where
  "error msg s = (let (l, c) = src_pos s in errh l c msg s)"

definition go_panic :: "string \<Rightarrow> 'a source_scheme \<Rightarrow> 'a source_scheme" where
  "go_panic msg s = (case panicked s of None \<Rightarrow> s\<lparr>panicked := Some msg\<rparr> | Some _ \<Rightarrow> s)"

definition start :: "'a source_scheme \<Rightarrow> 'a source_scheme" where
  "start s = s\<lparr>seg_b := int (rd_r s) - int (chw s)\<rparr>"

definition stop :: "'a source_scheme \<Rightarrow> 'a source_scheme" where
  "stop s = s\<lparr>seg_b := -1\<rparr>"

definition segment :: "'a source_scheme \<Rightarrow> string" where
  "segment s = take (nat (int (rd_r s) - int (chw s) - seg_b s)) (drop (nat (seg_b s)) (data s))"

text \<open>The first lines of \<open>nextch\<close>: advance the position past the current character.\<close>

definition step_pos :: "'a source_scheme \<Rightarrow> 'a source_scheme" where
  "step_pos s =
     (let s = s\<lparr>src_col := src_col s + int (chw s)\<rparr> in
      if ch s = 10 then s\<lparr>src_line := src_line s + 1, src_col := 0\<rparr> else s)"

text \<open>
  Reading one character at the current offset, without the \<open>redo\<close> jumps: the flag says that
  the character is to be skipped (NUL, invalid encoding, byte order mark).
\<close>

definition read_char :: "'a source_scheme \<Rightarrow> 'a source_scheme \<times> bool" where
  "read_char s =
     (if rd_r s < length (data s) then
        let c = rune_of (data s ! rd_r s) in
        if c < sentinel then
          let s = s\<lparr>ch := c, rd_r := rd_r s + 1, chw := 1\<rparr> in
          if c = 0 then (error ''invalid NUL character'' s, True) else (s, False)
        else
          let (x, w) = DecodeRune (drop (rd_r s) (data s));
              s = s\<lparr>ch := x, chw := w, rd_r := rd_r s + w\<rparr> in
          if x = RuneError \<and> w = 1 then (error ''invalid UTF-8 encoding'' s, True)
          else if x = BOM then
            (if src_line s > 0 \<or> src_col s > 0
             then error ''invalid BOM in the middle of the file'' s else s, True)
          else (s, False)
      else (s\<lparr>ch := -1, chw := 0\<rparr>, False))"

lemmas source_defs [goo_defs] = src_pos_def errh_def error_def go_panic_def start_def stop_def
  step_pos_def linebase_def colbase_def

lemma step_pos_frame [simp]:
  "data (step_pos s) = data s" "rd_r (step_pos s) = rd_r s" "ch (step_pos s) = ch s"
  "chw (step_pos s) = chw s" "seg_b (step_pos s) = seg_b s" "errs (step_pos s) = errs s"
  "panicked (step_pos s) = panicked s" "blank (step_pos s) = blank s"
  by (simp_all add: step_pos_def Let_def)

lemma error_frame [simp]:
  "data (error m s) = data s" "rd_r (error m s) = rd_r s" "ch (error m s) = ch s"
  "chw (error m s) = chw s" "seg_b (error m s) = seg_b s" "panicked (error m s) = panicked s"
  "blank (error m s) = blank s" "src_line (error m s) = src_line s" "src_col (error m s) = src_col s"
  "more (error m s) = more s"
  by (simp_all add: error_def errh_def split: prod.split)

lemma read_char_data [simp]: "data (fst (read_char s)) = data s"
  by (simp add: read_char_def Let_def split: prod.split)

lemma read_char_redo:
  "snd (read_char s) \<Longrightarrow> rd_r s < length (data s) \<and> rd_r s < rd_r (fst (read_char s))
     \<and> rd_r (fst (read_char s)) \<le> length (data s) \<and> 0 \<le> ch (fst (read_char s))"
  using DecodeRune_width [of "drop (rd_r s) (data s)"]
  by (auto simp: read_char_def Let_def RuneError_def BOM_def split: prod.splits if_splits)

function nextch :: "'a source_scheme \<Rightarrow> 'a source_scheme" where
  "nextch s =
     (let (s', redo) = read_char (step_pos s) in if redo then nextch s' else s')"
  by pat_completeness auto
termination
proof (relation "measure (\<lambda>s. length (data s) - rd_r s)")
  show "wf (measure (\<lambda>s :: 'a source_scheme. length (data s) - rd_r s))" by simp
next
  fix s x xa y
  assume "x = read_char (step_pos (s :: 'a source_scheme))" "(xa, y) = x" "y"
  then show "(xa, s) \<in> measure (\<lambda>s. length (data s) - rd_r s)"
    using read_char_redo [of "step_pos s"] read_char_data [of "step_pos s"]
    by (metis (no_types, lifting) diff_less_mono2 fst_conv in_measure snd_conv step_pos_frame(1,2))
qed

declare nextch.simps [simp del]

definition rewind :: "'a source_scheme \<Rightarrow> 'a source_scheme" where
  "rewind s =
     (if seg_b s < 0 then go_panic ''no active segment'' s
      else nextch (s\<lparr>src_col := src_col s - (int (rd_r s) - seg_b s), rd_r := nat (seg_b s)\<rparr>))"

subsection \<open>Progress\<close>

text \<open>What is left to read, counting the current character.\<close>

definition remaining :: "'a source_scheme \<Rightarrow> nat" where
  "remaining s = length (data s) - rd_r s + (if ch s = -1 then 0 else 1)"

lemma nextch_induct [case_names step]:
  assumes "\<And>s. (snd (read_char (step_pos s)) \<Longrightarrow> P (fst (read_char (step_pos s)))) \<Longrightarrow> P s"
  shows "P s"
  by (induction s rule: nextch.induct) (metis assms prod.collapse)

lemma nextch_unfold:
  "nextch s = (if snd (read_char (step_pos s)) then nextch (fst (read_char (step_pos s)))
     else fst (read_char (step_pos s)))"
  by (subst nextch.simps) (simp add: case_prod_beta)

lemma nextch_data [simp]: "data (nextch s) = data s"
  by (induction s rule: nextch_induct) (subst nextch_unfold, simp)

lemma read_char_frame [simp]:
  "seg_b (fst (read_char s)) = seg_b s" "panicked (fst (read_char s)) = panicked s"
  "blank (fst (read_char s)) = blank s" "more (fst (read_char s)) = more s"
  by (auto simp: read_char_def Let_def split: prod.split)

lemma step_pos_more [simp]: "more (step_pos s) = more s"
  by (simp add: step_pos_def Let_def)

lemma nextch_frame [simp]:
  "seg_b (nextch s) = seg_b s" "panicked (nextch s) = panicked s" "blank (nextch s) = blank s"
  "more (nextch s) = more s"
  by (induction s rule: nextch_induct; subst nextch_unfold, simp)+

lemma DecodeRune_nonneg: "0 \<le> fst (DecodeRune p)"
proof (cases "p = []")
  case False
  then show ?thesis
    by (cases rule: DecodeRune_cases) (auto simp: ValidRune_def utf8_consts)
qed (simp add: DecodeRune_Nil RuneError_def)

lemma read_char_stop:
  assumes "\<not> snd (read_char s)"
  shows "(ch (fst (read_char s)) < 0 \<longleftrightarrow> rd_r s \<ge> length (data s))
     \<and> (rd_r s \<ge> length (data s) \<longrightarrow> ch (fst (read_char s)) = -1)
     \<and> (rd_r s < length (data s) \<longrightarrow> rd_r s < rd_r (fst (read_char s)))
     \<and> (rd_r s \<ge> length (data s) \<longrightarrow> rd_r (fst (read_char s)) = rd_r s)"
proof (cases "rd_r s < length (data s)")
  case True
  then have ne: "drop (rd_r s) (data s) \<noteq> []" by simp
  show ?thesis using True assms DecodeRune_width [OF ne] DecodeRune_nonneg [of "drop (rd_r s) (data s)"]
    by (auto simp: read_char_def Let_def not_less split: prod.splits if_splits)
qed (simp add: read_char_def)

lemma nextch_remaining_less': "ch s \<noteq> -1 \<Longrightarrow> remaining (nextch s) < remaining s"
proof (induction s rule: nextch_induct)
  case (step s)
  let ?t = "fst (read_char (step_pos s))"
  show ?case
  proof (cases "snd (read_char (step_pos s))")
    case True
    note r = read_char_redo [OF True]
    have "remaining (nextch ?t) < remaining ?t" using r by (intro step.IH [OF True]) simp
    also have "remaining ?t \<le> remaining s" using r step.prems by (auto simp: remaining_def)
    finally show ?thesis using True by (subst nextch_unfold) simp
  next
    case False
    then show ?thesis using read_char_stop [OF False] step.prems
      by (subst nextch_unfold) (auto simp: remaining_def not_less)
  qed
qed

lemma nextch_remaining_less: "0 \<le> ch s \<Longrightarrow> remaining (nextch s) < remaining s"
  by (simp add: nextch_remaining_less')

lemma nextch_remaining_le: "remaining (nextch s) \<le> remaining s"
proof (induction s rule: nextch_induct)
  case (step s)
  let ?t = "fst (read_char (step_pos s))"
  show ?case
  proof (cases "snd (read_char (step_pos s))")
    case True
    note r = read_char_redo [OF True]
    have "remaining (nextch ?t) \<le> remaining ?t" by (rule step.IH [OF True])
    also have "remaining ?t \<le> remaining s" using r by (auto simp: remaining_def)
    finally show ?thesis using True by (subst nextch_unfold) simp
  next
    case False
    then show ?thesis using read_char_stop [OF False]
      by (subst nextch_unfold) (auto simp: remaining_def not_less)
  qed
qed

lemma nextch_at_end: "rd_r s \<ge> length (data s) \<Longrightarrow> ch (nextch s) = -1"
  by (subst nextch_unfold) (simp add: read_char_def)

subsection \<open>Reader invariant\<close>

text \<open>
  The part of the invariant in \<open>source.go\<close> that concerns the client: \<open>ch\<close> occupies the
  \<open>chw\<close> bytes before \<open>rd_r\<close>, and is negative exactly at the end of the input.
\<close>

definition src_inv :: "'a source_scheme \<Rightarrow> bool" where
  "src_inv s \<longleftrightarrow> chw s \<le> rd_r s \<and> rd_r s \<le> length (data s)
     \<and> seg_b s \<le> int (rd_r s) - int (chw s) \<and> -1 \<le> seg_b s
     \<and> (ch s < 0 \<longrightarrow> chw s = 0 \<and> rd_r s = length (data s))"

lemma src_inv_init: "src_inv (source_init inp)"
  by (simp add: src_inv_def source_init_def)

lemma rune_of_not_neg [simp]: "\<not> rune_of c < 0"
  by (simp add: not_less)

lemma read_char_width:
  assumes "rd_r s \<le> length (data s)"
  shows "rd_r (fst (read_char s)) = rd_r s + chw (fst (read_char s))
     \<and> rd_r (fst (read_char s)) \<le> length (data s)
     \<and> (ch (fst (read_char s)) < 0 \<longrightarrow> chw (fst (read_char s)) = 0
          \<and> rd_r (fst (read_char s)) = length (data s))"
proof (cases "rd_r s < length (data s)")
  case True
  obtain x w where d: "DecodeRune (drop (rd_r s) (data s)) = (x, w)" by fastforce
  have "0 \<le> x" "w \<le> length (data s) - rd_r s"
    using DecodeRune_nonneg [of "drop (rd_r s) (data s)"] True
      DecodeRune_width [of "drop (rd_r s) (data s)"] by (simp_all add: d)
  with True show ?thesis by (auto simp: read_char_def d Let_def)
next
  case False
  with assms show ?thesis by (simp add: read_char_def)
qed

text \<open>\<open>nextch\<close> establishes the invariant from a valid offset, whatever \<open>ch\<close> was.\<close>

lemma nextch_establishes:
  "rd_r s \<le> length (data s) \<Longrightarrow> -1 \<le> seg_b s \<Longrightarrow> seg_b s \<le> int (rd_r s) \<Longrightarrow> src_inv (nextch s)"
proof (induction s rule: nextch_induct)
  case (step s)
  let ?t = "fst (read_char (step_pos s))"
  from step.prems have w: "rd_r (step_pos s) \<le> length (data (step_pos s))" by simp
  show ?case
  proof (cases "snd (read_char (step_pos s))")
    case True
    with step.IH [OF True] step.prems read_char_width [OF w] show ?thesis
      by (subst nextch_unfold) simp
  next
    case False
    with step.prems read_char_width [OF w] show ?thesis
      by (subst nextch_unfold) (auto simp: src_inv_def)
  qed
qed

lemma nextch_src_inv: "src_inv s \<Longrightarrow> src_inv (nextch s)"
  by (rule nextch_establishes) (auto simp: src_inv_def)

lemma start_src_inv: "src_inv s \<Longrightarrow> src_inv (start s)"
  by (simp add: src_inv_def start_def)

lemma stop_src_inv: "src_inv s \<Longrightarrow> src_inv (stop s)"
  by (simp add: src_inv_def stop_def)

lemma error_src_inv [simp]: "src_inv (error m s) \<longleftrightarrow> src_inv s"
  by (simp add: src_inv_def)

lemma rewind_src_inv: "src_inv s \<Longrightarrow> src_inv (rewind s)"
proof (cases "seg_b s < 0")
  case True
  then show "src_inv s \<Longrightarrow> src_inv (rewind s)"
    by (auto simp: rewind_def go_panic_def src_inv_def split: option.split)
next
  case False
  assume "src_inv s"
  with False have "src_inv (nextch (s\<lparr>src_col := src_col s - (int (rd_r s) - seg_b s),
      rd_r := nat (seg_b s)\<rparr>))"
    by (intro nextch_establishes) (auto simp: src_inv_def)
  with False show "src_inv (rewind s)" by (simp add: rewind_def)
qed

end
