(* ===== verification/Scanner.thy ===== *)
theory Scanner
  imports Source Tokens
begin

text \<open>
  The tokenizer of \<open>cmd/compile/internal/syntax/scanner.go\<close>.  The Go struct embeds
  \<open>source\<close>; here the record \<open>scanner\<close> extends the record \<open>source\<close>.  Every method is a
  function on the record; a method with a result returns it first.  A loop of the source is a
  recursive function whose termination is proved from the input left to read, so no operation
  of this theory needs fuel.  \<open>goto redo\<close> is the flag that \<open>scan_token\<close> returns.
\<close>

record scanner = source +
  mode :: nat
  nlsemi :: bool
  line :: nat
  col :: nat
  tok :: token
  lit :: string
  bad :: bool
  kind :: LitKind
  op :: Operator
  prec :: nat

definition comments :: nat where "comments = 1"
definition directives :: nat where "directives = 2"

definition scanner_init :: "string \<Rightarrow> nat \<Rightarrow> scanner" where
  "scanner_init src m = source.extend (source_init src)
     \<lparr>mode = m, nlsemi = False, line = 0, col = 0, tok = T_None, lit = [], bad = False,
      kind = IntLit, op = Op_None, prec = 0\<rparr>"

definition errorf :: "string \<Rightarrow> 'a scanner_scheme \<Rightarrow> 'a scanner_scheme" where
  "errorf msg s = error msg s"

definition errorAtf :: "nat \<Rightarrow> string \<Rightarrow> 'a scanner_scheme \<Rightarrow> 'a scanner_scheme" where
  "errorAtf offset msg s = errh (line s) (col s + offset) msg s"

text \<open>The bounds of the slice in \<open>segment\<close>: the operations that take the text of the segment panic out of them.\<close>

definition check_segment :: "'a source_scheme \<Rightarrow> 'a source_scheme" where
  "check_segment s =
     (if 0 \<le> seg_b s \<and> seg_b s \<le> int (rd_r s) - int (chw s) then s
      else go_panic ''slice bounds out of range'' s)"

definition setLit :: "LitKind \<Rightarrow> bool \<Rightarrow> 'a scanner_scheme \<Rightarrow> 'a scanner_scheme" where
  "setLit k ok s =
     (check_segment s)\<lparr>nlsemi := True, tok := T_Literal, lit := segment s, bad := \<not> ok, kind := k\<rparr>"

subsection \<open>Character classes\<close>

definition lower :: "rune \<Rightarrow> rune" where
  "lower c = 32 OR c"

definition isLetter :: "rune \<Rightarrow> bool" where
  "isLetter c \<longleftrightarrow> 97 \<le> lower c \<and> lower c \<le> 122 \<or> c = 95"

definition isDecimal :: "rune \<Rightarrow> bool" where
  "isDecimal c \<longleftrightarrow> 48 \<le> c \<and> c \<le> 57"

definition isHex :: "rune \<Rightarrow> bool" where
  "isHex c \<longleftrightarrow> 48 \<le> c \<and> c \<le> 57 \<or> 97 \<le> lower c \<and> lower c \<le> 102"

lemma lower_nonneg: "97 \<le> lower c \<Longrightarrow> 0 \<le> c"
proof -
  assume "97 \<le> lower c"
  then have "0 \<le> 32 OR c" unfolding lower_def by linarith
  then show "0 \<le> c" by simp
qed

lemma class_nonneg:
  "isLetter c \<Longrightarrow> 0 \<le> c" "isDecimal c \<Longrightarrow> 0 \<le> c" "isHex c \<Longrightarrow> 0 \<le> c"
  by (auto simp: isLetter_def isDecimal_def isHex_def dest: lower_nonneg)

subsection \<open>Loops over the input\<close>

lemma remaining_update [simp]:
  "remaining (s\<lparr>mode := v1\<rparr>) = remaining s" "remaining (s\<lparr>nlsemi := v2\<rparr>) = remaining s"
  "remaining (s\<lparr>line := v3\<rparr>) = remaining s" "remaining (s\<lparr>col := v4\<rparr>) = remaining s"
  "remaining (s\<lparr>tok := v5\<rparr>) = remaining s" "remaining (s\<lparr>lit := v6\<rparr>) = remaining s"
  "remaining (s\<lparr>bad := v7\<rparr>) = remaining s" "remaining (s\<lparr>kind := v8\<rparr>) = remaining s"
  "remaining (s\<lparr>op := v9\<rparr>) = remaining s" "remaining (s\<lparr>prec := v10\<rparr>) = remaining s"
  for s :: "'a scanner_scheme"
  by (simp_all add: remaining_def)

lemma remaining_source_update [simp]:
  "remaining (s\<lparr>seg_b := v1\<rparr>) = remaining s" "remaining (s\<lparr>blank := v2\<rparr>) = remaining s"
  "remaining (error m s) = remaining s" "remaining (errh l c m s) = remaining s"
  "remaining (start s) = remaining s" "remaining (stop s) = remaining s"
  by (simp_all add: remaining_def errh_def start_def stop_def)

lemma remaining_panic [simp]: "remaining (go_panic m s) = remaining s" "remaining (check_segment s) = remaining s"
  by (simp_all add: remaining_def go_panic_def check_segment_def split: option.split)

lemma remaining_scanner_ops [simp]:
  "remaining (errorf m s) = remaining s" "remaining (errorAtf k m s) = remaining s"
  "remaining (setLit kd ok s) = remaining s"
  by (simp_all add: errorf_def errorAtf_def setLit_def)

text \<open>
  \<open>for P(s.ch) { s.nextch() }\<close> for a \<open>P\<close> that does not hold at the end of the input.
\<close>

function skip_while :: "(rune \<Rightarrow> bool) \<Rightarrow> 'a source_scheme \<Rightarrow> 'a source_scheme" where
  "skip_while P s = (if 0 \<le> ch s \<and> P (ch s) then skip_while P (nextch s) else s)"
  by pat_completeness auto
termination
  by (relation "measure (\<lambda>(P, s). remaining s)") (auto simp: nextch_remaining_less)

declare skip_while.simps [simp del]

lemma skip_while_remaining_le: "remaining (skip_while P s) \<le> remaining s"
proof (induction P s rule: skip_while.induct)
  case (1 P s)
  then show ?case
    by (subst skip_while.simps) (auto intro: order_trans [OF _ nextch_remaining_le])
qed

subsection \<open>Identifiers and keywords\<close>

text \<open>\<open>atIdentChar\<close> may report an error; the flag is its result.\<close>

definition atIdentChar :: "bool \<Rightarrow> 'a scanner_scheme \<Rightarrow> bool \<times> 'a scanner_scheme" where
  "atIdentChar first_ch s =
     (if IsLetter (ch s) \<or> ch s = 95 then (True, s)
      else if IsDigit (ch s) then
        (True, if first_ch then errorf (''identifier cannot begin with digit '' @ fmtUnicode (ch s)) s
               else s)
      else if ch s = 0x2260 \<or> ch s = 0xAC then (True, s)
      else if ch s \<ge> RuneSelf then
        (True, errorf (''invalid character '' @ fmtUnicode (ch s) @ '' in identifier'') s)
      else (False, s))"

lemma IsLetter_IsDigit_neg: "\<not> IsLetter (-1)" "\<not> IsDigit (-1)"
  by code_simp+

lemma atIdentChar_remaining [simp]: "remaining (snd (atIdentChar f s)) = remaining s"
  by (simp add: atIdentChar_def)

lemma atIdentChar_end: "ch s = -1 \<Longrightarrow> \<not> fst (atIdentChar f s)"
  by (simp add: atIdentChar_def IsLetter_IsDigit_neg RuneSelf_def)

text \<open>
  The general-case loop of \<open>ident\<close>; at the end of the input \<open>atIdentChar\<close> fails, so the
  guard on \<open>ch\<close> never decides.
\<close>

function ident_loop :: "'a scanner_scheme \<Rightarrow> 'a scanner_scheme" where
  "ident_loop s =
     (let (go, s) = atIdentChar False s in if go \<and> 0 \<le> ch s then ident_loop (nextch s) else s)"
  by pat_completeness auto
termination
proof (relation "measure remaining")
  fix s x g and s1 :: "'a scanner_scheme"
  assume x: "x = atIdentChar False s" "(g, s1) = x" and c: "g \<and> 0 \<le> ch s1"
  have "remaining (nextch s1) < remaining s1" using c by (simp add: nextch_remaining_less)
  also have "remaining s1 = remaining s" using x atIdentChar_remaining by (metis snd_conv)
  finally show "(nextch s1, s) \<in> measure remaining" by simp
qed simp

declare ident_loop.simps [simp del]

definition utf8_oslash :: string where "utf8_oslash = [CHR 0xC3, CHR 0xB8]"
definition utf8_ne :: string where "utf8_ne = [CHR 0xE2, CHR 0x89, CHR 0xA0]"
definition utf8_not :: string where "utf8_not = [CHR 0xC2, CHR 0xAC]"

text \<open>What \<open>ident\<close> does with the text of the identifier.\<close>

definition classify_ident :: "string \<Rightarrow> 'a scanner_scheme \<Rightarrow> 'a scanner_scheme" where
  "classify_ident l s =
     (case keyword_lookup l of
        Some t \<Rightarrow> s\<lparr>nlsemi := contains (tokset_of [T_Break, T_Continue, T_Fallthrough, T_Return]) t,
                    tok := t\<rparr>
      | None \<Rightarrow>
          if l = ''not'' then s\<lparr>op := Op_Not, prec := 0, tok := T_Operator\<rparr>
          else if l = utf8_oslash then s\<lparr>nlsemi := True, lit := ''nil'', tok := T_Name\<rparr>
          else if l = utf8_ne then s\<lparr>op := Op_Neq, prec := precCmp, tok := T_Operator\<rparr>
          else if l = utf8_not then s\<lparr>op := Op_Not, prec := 0, tok := T_Operator\<rparr>
          else if l = ''and'' then s\<lparr>op := Op_AndAnd, prec := precAndAnd, tok := T_Operator\<rparr>
          else if l = ''or'' then s\<lparr>op := Op_OrOr, prec := precOrOr, tok := T_Operator\<rparr>
          else s\<lparr>nlsemi := True, lit := l, tok := T_Name\<rparr>)"

definition ident :: "'a scanner_scheme \<Rightarrow> 'a scanner_scheme" where
  "ident s =
     (let s = skip_while (\<lambda>c. isLetter c \<or> isDecimal c) s;
          s = (if ch s \<ge> RuneSelf then ident_loop s else s)
      in classify_ident (segment s) (check_segment s))"

subsection \<open>Numbers\<close>

text \<open>The digits loop; \<open>ds\<close> is the accumulated bit set, \<open>iv\<close> the index of an invalid digit.\<close>

function digits_loop :: "int \<Rightarrow> int \<Rightarrow> int \<Rightarrow> 'a scanner_scheme \<Rightarrow> int \<times> int \<times> 'a scanner_scheme" where
  "digits_loop base ds iv s =
     (if base \<le> 10 then
        if isDecimal (ch s) \<or> ch s = 95 then
          let iv2 = (if ch s \<noteq> 95 \<and> ch s \<ge> 48 + base \<and> iv < 0
                      then int (snd (src_pos s)) - int (col s) else iv);
              d = (if ch s = 95 then 2 else 1)
          in digits_loop base (ds OR d) iv2 (nextch s)
        else (ds, iv, s)
      else
        if isHex (ch s) \<or> ch s = 95 then
          let d = (if ch s = 95 then 2 else 1)
          in digits_loop base (ds OR d) iv (nextch s)
        else (ds, iv, s))"
  by pat_completeness auto
termination
  by (relation "measure (\<lambda>(base, ds, iv, s). remaining s)")
    (auto dest: class_nonneg intro!: nextch_remaining_less)

declare digits_loop.simps [simp del]

definition digits :: "int \<Rightarrow> int \<Rightarrow> 'a scanner_scheme \<Rightarrow> int \<times> int \<times> 'a scanner_scheme" where
  "digits base invalid s = digits_loop base 0 invalid s"

fun baseName :: "int \<Rightarrow> string option" where
  "baseName b = (if b = 2 then Some ''binary'' else if b = 8 then Some ''octal''
     else if b = 10 then Some ''decimal'' else if b = 16 then Some ''hexadecimal'' else None)"

text \<open>\<open>None\<close> is the panic \<open>invalid base\<close>: the calls of \<open>errorf\<close> with the name of a base in the message.\<close>

definition errorBase :: "string \<Rightarrow> int \<Rightarrow> string \<Rightarrow> 'a scanner_scheme \<Rightarrow> 'a scanner_scheme" where
  "errorBase pre b post s =
     (case baseName b of Some n \<Rightarrow> errorf (pre @ n @ post) s | None \<Rightarrow> go_panic ''invalid base'' s)"

lemma remaining_errorBase [simp]: "remaining (errorBase pre b post s) = remaining s"
  by (simp add: errorBase_def split: option.split)

fun invalidSep_loop :: "rune \<Rightarrow> rune \<Rightarrow> nat \<Rightarrow> string \<Rightarrow> int" where
  "invalidSep_loop x1 d i [] = (if d = 95 then int i - 1 else -1)"
| "invalidSep_loop x1 p i (c # cs) =
     (let d = rune_of c in
      if d = 95 then (if p \<noteq> 48 then int i else invalidSep_loop x1 d (Suc i) cs)
      else if isDecimal d \<or> x1 = 120 \<and> isHex d then invalidSep_loop x1 48 (Suc i) cs
      else if p = 95 then int i - 1
      else invalidSep_loop x1 46 (Suc i) cs)"

definition invalidSep :: "string \<Rightarrow> int" where
  "invalidSep x =
     (if length x \<ge> 2 \<and> x ! 0 = CHR ''0'' then
        let x1 = lower (rune_of (x ! 1)) in
        if x1 = 120 \<or> x1 = 111 \<or> x1 = 98 then invalidSep_loop x1 48 2 (drop 2 x)
        else invalidSep_loop x1 46 0 x
      else invalidSep_loop 32 46 0 x)"

text \<open>
  \<open>number\<close>, in the order of the code: the prefix, the integer and fractional digits, the
  exponent, the suffix, and the checks on the finished literal.
\<close>

definition number_prefix :: "'a scanner_scheme \<Rightarrow> int \<times> rune \<times> int \<times> 'a scanner_scheme" where
  "number_prefix s =
     (if ch s = 48 then
        let s = nextch s in
        if lower (ch s) = 120 then (16, 120, 0, nextch s)
        else if lower (ch s) = 111 then (8, 111, 0, nextch s)
        else if lower (ch s) = 98 then (2, 98, 0, nextch s)
        else (8, 48, 1, s)
      else (10, 0, 0, s))"

record num_state =
  n_ok :: bool
  n_kind :: LitKind
  n_base :: int
  n_prefix :: rune
  n_digsep :: int
  n_invalid :: int

definition number_mantissa :: "bool \<Rightarrow> 'a scanner_scheme \<Rightarrow> num_state \<times> 'a scanner_scheme" where
  "number_mantissa seenPoint s =
     (let (base, prefix, digsep, s) = (if \<not> seenPoint then number_prefix s else (10, 0, 0, s));
          (digsep, invalid, s) =
            (if \<not> seenPoint then let (d, iv, s) = digits base (-1) s in (digsep OR d, iv, s)
             else (digsep, -1, s));
          point = (\<not> seenPoint \<and> ch s = 46);
          badpt = (point \<and> (prefix = 111 \<or> prefix = 98));
          ok = (\<not> badpt);
          s = (if badpt then errorBase ''invalid radix point in '' base '' literal'' s
               else s);
          s = (if point then nextch s else s);
          frac = (seenPoint \<or> point);
          kd = (if frac then FloatLit else IntLit);
          (digsep, invalid, s) =
            (if frac then let (d, iv, s) = digits base invalid s in (digsep OR d, iv, s)
             else (digsep, invalid, s));
          none = (digsep AND 1 = 0 \<and> ok);
          s = (if none then errorBase [] base '' literal has no digits'' s else s)
      in (\<lparr>n_ok = ok \<and> \<not> none, n_kind = kd, n_base = base, n_prefix = prefix,
           n_digsep = digsep, n_invalid = invalid\<rparr>, s))"

definition number_exponent :: "num_state \<Rightarrow> 'a scanner_scheme \<Rightarrow> num_state \<times> 'a scanner_scheme" where
  "number_exponent n s =
     (let e = lower (ch s) in
      if e = 101 \<or> e = 112 then
        let baddec = (n_ok n \<and> e = 101 \<and> n_prefix n \<noteq> 0 \<and> n_prefix n \<noteq> 48);
            badhex = (n_ok n \<and> \<not> baddec \<and> e = 112 \<and> n_prefix n \<noteq> 120);
            s = (if baddec then errorf (fmtQc (ch s) @ '' exponent requires decimal mantissa'') s
                 else if badhex
                 then errorf (fmtQc (ch s) @ '' exponent requires hexadecimal mantissa'') s else s);
            ok = (n_ok n \<and> \<not> baddec \<and> \<not> badhex);
            s = nextch s;
            s = (if ch s = 43 \<or> ch s = 45 then nextch s else s);
            (d, iv, s) = digits 10 0 s;
            digsep = d OR (n_digsep n AND 2);
            none = (digsep AND 1 = 0 \<and> ok);
            s = (if none then errorf ''exponent has no digits'' s else s)
        in (n\<lparr>n_ok := ok \<and> \<not> none, n_kind := FloatLit, n_digsep := digsep\<rparr>, s)
      else if n_prefix n = 120 \<and> n_kind n = FloatLit \<and> n_ok n then
        (n\<lparr>n_ok := False\<rparr>,
         errorf (''hexadecimal mantissa requires a '' @ [byte_of 39, CHR ''p'', byte_of 39]
                 @ '' exponent'') s)
      else (n, s))"

text \<open>The report of an invalid digit, with the digit \<open>s.lit[invalid]\<close>.\<close>

definition invalid_digit :: "nat \<Rightarrow> int \<Rightarrow> 'a scanner_scheme \<Rightarrow> 'a scanner_scheme" where
  "invalid_digit i b s =
     (if i < length (lit s) then
        (case baseName b of
           Some n \<Rightarrow> errorAtf i (''invalid digit '' @ fmtQc (rune_of (lit s ! i)) @ '' in '' @ n @ '' literal'') s
         | None \<Rightarrow> go_panic ''invalid base'' s)
      else go_panic ''index out of range'' s)"

definition number :: "bool \<Rightarrow> 'a scanner_scheme \<Rightarrow> 'a scanner_scheme" where
  "number seenPoint s =
     (let (n, s) = number_mantissa seenPoint s;
          (n, s) = number_exponent n s;
          imag = (ch s = 105);
          kd = (if imag then ImagLit else n_kind n);
          s = (if imag then nextch s else s);
          ok = n_ok n;
          s = setLit kd ok s;
          badd = (kd = IntLit \<and> n_invalid n \<ge> 0 \<and> ok);
          s = (if badd then
                 invalid_digit (nat (n_invalid n)) (n_base n) s
               else s);
          ok = (ok \<and> \<not> badd);
          i = invalidSep (lit s);
          badsep = (n_digsep n AND 2 \<noteq> 0 \<and> ok \<and> i \<ge> 0);
          s = (if badsep then
                 errorAtf (nat i) ([byte_of 39, CHR ''_'', byte_of 39] @ '' must separate successive digits'') s
               else s);
          ok = (ok \<and> \<not> badsep)
      in s\<lparr>bad := \<not> ok\<rparr>)"

subsection \<open>Escapes\<close>

text \<open>The digit value, or \<open>base\<close> for a character that is no digit (unsigned 32-bit arithmetic).\<close>

definition escape_digit :: "rune \<Rightarrow> 32 word \<Rightarrow> 32 word" where
  "escape_digit c base =
     (if isDecimal c then of_int c - 48
      else if 97 \<le> lower c \<and> lower c \<le> 102 then of_int (lower c) - 97 + 10
      else base)"

datatype esc_result = EscValue "32 word" | EscEOF | EscBad

fun escape_loop :: "nat \<Rightarrow> 32 word \<Rightarrow> 32 word \<Rightarrow> 'a scanner_scheme \<Rightarrow> esc_result \<times> 'a scanner_scheme" where
  "escape_loop 0 base x s = (EscValue x, s)"
| "escape_loop (Suc i) base x s =
     (if ch s < 0 then (EscEOF, s)
      else
        let d = escape_digit (ch s) base in
        if d \<ge> base then
          (EscBad, errorBase (''invalid character '' @ fmtQc (ch s) @ '' in '') (uint base) '' escape'' s)
        else escape_loop i base (x * base + d) (nextch s))"

definition escape_number :: "nat \<Rightarrow> 32 word \<Rightarrow> 32 word \<Rightarrow> 'a scanner_scheme \<Rightarrow> bool \<times> 'a scanner_scheme" where
  "escape_number n base maxi s =
     (case escape_loop n base 0 s of
        (EscEOF, s) \<Rightarrow> (True, s)
      | (EscBad, s) \<Rightarrow> (False, s)
      | (EscValue x, s) \<Rightarrow>
          if x > maxi \<and> base = 8 then
            (False, errorf (''octal escape value '' @ itoa (unat x) @ '' > 255'') s)
          else if x > maxi \<or> 0xD800 \<le> x \<and> x < 0xE000 then
            (False, errorf (''escape is invalid Unicode code point '' @ fmtUnicode (uint x)) s)
          else (True, s))"

definition escape :: "rune \<Rightarrow> 'a scanner_scheme \<Rightarrow> bool \<times> 'a scanner_scheme" where
  "escape quote s =
     (if ch s \<in> {quote, 97, 98, 102, 110, 114, 116, 118, 92} then (True, nextch s)
      else if 48 \<le> ch s \<and> ch s \<le> 55 then escape_number 3 8 255 s
      else if ch s = 120 then escape_number 2 16 255 (nextch s)
      else if ch s = 117 then escape_number 4 16 0x10FFFF (nextch s)
      else if ch s = 85 then escape_number 8 16 0x10FFFF (nextch s)
      else if ch s < 0 then (True, s)
      else (False, errorf ''unknown escape'' s))"

lemma escape_loop_remaining: "remaining (snd (escape_loop n base x s)) \<le> remaining s"
proof (induction n arbitrary: x s)
  case (Suc n)
  then show ?case
    by (auto simp: Let_def intro: order_trans [OF _ nextch_remaining_le])
qed simp

lemma escape_number_remaining: "remaining (snd (escape_number n base maxi s)) \<le> remaining s"
  using escape_loop_remaining [of n base 0 s]
  by (auto simp: escape_number_def split: prod.split esc_result.split)

lemma escape_remaining: "remaining (snd (escape q s)) \<le> remaining s"
  using escape_number_remaining order_trans [OF escape_number_remaining nextch_remaining_le]
  by (auto simp: escape_def nextch_remaining_le)

subsection \<open>Rune and string literals\<close>

text \<open>The loop of \<open>scanner.rune\<close>; the result is \<open>ok\<close>, \<open>n\<close> counts the characters.\<close>

function rune_loop :: "nat \<Rightarrow> bool \<Rightarrow> 'a scanner_scheme \<Rightarrow> bool \<times> 'a scanner_scheme" where
  "rune_loop n ok s =
     (if ch s = 39 then
        if ok \<and> n = 0 then
          (False, nextch (errorf (''empty rune literal or unescaped '' @ [byte_of 39]) s))
        else if ok \<and> n \<noteq> 1 then
          (False, nextch (errorAtf 0 ''more than one character in rune literal'' s))
        else (ok, nextch s)
      else if ch s = 92 then
        let (e, s) = escape 39 (nextch s) in rune_loop (Suc n) (ok \<and> e) s
      else if ch s = 10 then
        if ok then (False, errorf ''newline in rune literal'' s) else (ok, s)
      else if ch s < 0 then
        if ok then (False, errorAtf 0 ''rune literal not terminated'' s) else (ok, s)
      else rune_loop (Suc n) ok (nextch s))"
  by pat_completeness auto
termination
proof (relation "measure (\<lambda>(n, ok, s). remaining s)", goal_cases)
  case (2 n ok s x xa y)
  have "remaining (snd (escape 39 (nextch s))) < remaining s"
    using escape_remaining [of 39 "nextch s"] nextch_remaining_less [of s] 2(2) by simp
  with 2(3,4) show ?case by (metis (no_types, lifting) case_prod_conv in_measure snd_conv)
qed (auto intro!: nextch_remaining_less)

declare rune_loop.simps [simp del]

definition rune_lit :: "'a scanner_scheme \<Rightarrow> 'a scanner_scheme" where
  "rune_lit s = (let (ok, s) = rune_loop 0 True (nextch s) in setLit RuneLit ok s)"

function stdString_loop :: "bool \<Rightarrow> 'a scanner_scheme \<Rightarrow> bool \<times> 'a scanner_scheme" where
  "stdString_loop ok s =
     (if ch s = 34 then (ok, nextch s)
      else if ch s = 92 then
        let (e, s) = escape 34 (nextch s) in stdString_loop (ok \<and> e) s
      else if ch s = 10 then (False, errorf ''newline in string'' s)
      else if ch s < 0 then (False, errorAtf 0 ''string not terminated'' s)
      else stdString_loop ok (nextch s))"
  by pat_completeness auto
termination
proof (relation "measure (\<lambda>(ok, s). remaining s)", goal_cases)
  case (2 ok s x xa y)
  have "remaining (snd (escape 34 (nextch s))) < remaining s"
    using escape_remaining [of 34 "nextch s"] nextch_remaining_less [of s] 2(2) by simp
  with 2(3,4) show ?case by (metis (no_types, lifting) case_prod_conv in_measure snd_conv)
qed (auto intro!: nextch_remaining_less)

declare stdString_loop.simps [simp del]

definition stdString :: "'a scanner_scheme \<Rightarrow> 'a scanner_scheme" where
  "stdString s = (let (ok, s) = stdString_loop True (nextch s) in setLit StringLit ok s)"

function rawString_loop :: "'a scanner_scheme \<Rightarrow> bool \<times> 'a scanner_scheme" where
  "rawString_loop s =
     (if ch s = 96 then (True, nextch s)
      else if ch s < 0 then (False, errorAtf 0 ''string not terminated'' s)
      else rawString_loop (nextch s))"
  by pat_completeness auto
termination
  by (relation "measure remaining") (auto intro!: nextch_remaining_less)

declare rawString_loop.simps [simp del]

definition rawString :: "'a scanner_scheme \<Rightarrow> 'a scanner_scheme" where
  "rawString s = (let (ok, s) = rawString_loop (nextch s) in setLit StringLit ok s)"

subsection \<open>Comments\<close>

definition comment :: "string \<Rightarrow> 'a scanner_scheme \<Rightarrow> 'a scanner_scheme" where
  "comment text s = errorAtf 0 text s"

definition skipLine :: "'a scanner_scheme \<Rightarrow> 'a scanner_scheme" where
  "skipLine s = skip_while (\<lambda>c. c \<noteq> 10) s"

text \<open>\<open>for _, m := range prefix\<close>: match the directive prefix; the flag is false on a mismatch.\<close>

fun match_prefix :: "string \<Rightarrow> 'a scanner_scheme \<Rightarrow> bool \<times> 'a scanner_scheme" where
  "match_prefix [] s = (True, s)"
| "match_prefix (m # ms) s = (if ch s \<noteq> rune_of m then (False, s) else match_prefix ms (nextch s))"

definition lineComment :: "'a scanner_scheme \<Rightarrow> 'a scanner_scheme" where
  "lineComment s =
     (if mode s AND comments \<noteq> 0 then
        let s = skipLine s in comment (segment s) (check_segment s)
      else if mode s AND directives = 0 \<or> (ch s \<noteq> 103 \<and> ch s \<noteq> 108) then skipLine (stop s)
      else
        let (m, s) = match_prefix (if ch s = 108 then ''line '' else ''go:'') s in
        if \<not> m then skipLine (stop s)
        else let s = skipLine s in comment (segment s) (check_segment s))"

text \<open>The inner loop of \<open>skipComment\<close>; the flag says that \<open>*/\<close> was consumed.\<close>

function skip_stars :: "'a scanner_scheme \<Rightarrow> bool \<times> 'a scanner_scheme" where
  "skip_stars s =
     (if ch s = 42 then
        let s = nextch s in
        if ch s = 47 then (True, nextch s) else skip_stars s
      else (False, s))"
  by pat_completeness auto
termination
  by (relation "measure remaining") (auto intro!: nextch_remaining_less)

declare skip_stars.simps [simp del]

lemma skip_stars_remaining:
  "remaining (snd (skip_stars s)) \<le> remaining s
     \<and> (ch s = 42 \<longrightarrow> remaining (snd (skip_stars s)) < remaining s)"
proof (induction s rule: skip_stars.induct)
  case (1 s)
  have n: "ch s = 42 \<Longrightarrow> remaining (nextch s) < remaining s" by (simp add: nextch_remaining_less)
  show ?case
    using 1 n nextch_remaining_le [of "nextch s"]
    by (subst skip_stars.simps, subst (2) skip_stars.simps) (fastforce simp: Let_def)
qed

lemma skip_stars_then_next:
  assumes "0 \<le> ch s"
  shows "remaining (nextch (snd (skip_stars s))) < remaining s"
proof (cases "ch s = 42")
  case True
  then have "remaining (snd (skip_stars s)) < remaining s" using skip_stars_remaining by blast
  then show ?thesis using nextch_remaining_le [of "snd (skip_stars s)"] by simp
next
  case False
  then have "snd (skip_stars s) = s" by (simp add: skip_stars.simps)
  then show ?thesis using assms by (simp add: nextch_remaining_less)
qed

function skipComment :: "'a scanner_scheme \<Rightarrow> bool \<times> 'a scanner_scheme" where
  "skipComment s =
     (if 0 \<le> ch s then
        let (closed, s') = skip_stars s in
        if closed then (True, s') else skipComment (nextch s')
      else (False, errorAtf 0 ''comment not terminated'' s))"
  by pat_completeness auto
termination
proof (relation "measure remaining", goal_cases)
  case (2 s x xa y)
  then show ?case using skip_stars_then_next [of s] by (metis in_measure snd_conv)
qed simp

declare skipComment.simps [simp del]

definition fullComment :: "'a scanner_scheme \<Rightarrow> 'a scanner_scheme" where
  "fullComment s =
     (if mode s AND comments \<noteq> 0 then
        let (closed, s) = skipComment s in if closed then comment (segment s) (check_segment s) else s
      else if mode s AND directives = 0 \<or> ch s \<noteq> 108 then snd (skipComment (stop s))
      else
        let (m, s) = match_prefix ''line '' s in
        if \<not> m then snd (skipComment (stop s))
        else let (closed, s) = skipComment s in if closed then comment (segment s) (check_segment s) else s)"

lemma skipComment_remaining: "remaining (snd (skipComment s)) \<le> remaining s"
proof (induction s rule: skipComment.induct)
  case (1 s)
  show ?case
  proof (cases "0 \<le> ch s")
    case True
    obtain c t where ct: "skip_stars s = (c, t)" by fastforce
    have "remaining t \<le> remaining s" using skip_stars_remaining [of s] ct by simp
    moreover have "\<not> c \<Longrightarrow> remaining (snd (skipComment (nextch t))) \<le> remaining (nextch t)"
      using "1.IH" [OF True ct [symmetric] refl] by simp
    ultimately show ?thesis using True ct nextch_remaining_le [of t]
      by (subst skipComment.simps) (auto intro: order_trans)
  qed (simp add: skipComment.simps)
qed

lemma match_prefix_remaining: "remaining (snd (match_prefix ms s)) \<le> remaining s"
proof (induction ms arbitrary: s)
  case (Cons m ms)
  then show ?case by (auto intro: order_trans [OF _ nextch_remaining_le])
qed simp

lemma skipLine_remaining: "remaining (skipLine s) \<le> remaining s"
  by (simp add: skipLine_def skip_while_remaining_le)

lemma comment_remaining [simp]: "remaining (comment t s) = remaining s"
  by (simp add: comment_def)

lemma lineComment_remaining: "remaining (lineComment s) \<le> remaining s"
proof -
  obtain m t where mt: "match_prefix (if ch s = 108 then ''line '' else ''go:'') s = (m, t)"
    by fastforce
  then have "remaining t \<le> remaining s" by (metis match_prefix_remaining snd_conv)
  then show ?thesis
    using skipLine_remaining [of s] skipLine_remaining [of "stop s"] skipLine_remaining [of "stop t"]
      skipLine_remaining [of t]
    by (auto simp: lineComment_def mt Let_def)
qed

lemma fullComment_remaining: "remaining (fullComment s) \<le> remaining s"
proof -
  obtain m t where mt: "match_prefix ''line '' s = (m, t)"
    by fastforce
  then have "remaining t \<le> remaining s" by (metis match_prefix_remaining snd_conv)
  then show ?thesis
    using skipComment_remaining [of s] skipComment_remaining [of "stop s"]
      skipComment_remaining [of "stop t"] skipComment_remaining [of t]
    by (simp add: fullComment_def mt Let_def case_prod_beta del: match_prefix.simps)
qed

definition canBeIndexOperator :: "'a scanner_scheme \<Rightarrow> bool" where
  "canBeIndexOperator s = (if col s = 1 then False else True)"

subsection \<open>Tokens\<close>

text \<open>The label \<open>assignop\<close>: an operator, or the operator with a following \<open>=\<close>.\<close>

definition assignop :: "'a scanner_scheme \<Rightarrow> 'a scanner_scheme" where
  "assignop s = (if ch s = 61 then (nextch s)\<lparr>tok := T_AssignOp\<rparr> else s\<lparr>tok := T_Operator\<rparr>)"

definition setop :: "Operator \<Rightarrow> nat \<Rightarrow> 'a scanner_scheme \<Rightarrow> 'a scanner_scheme" where
  "setop o1 p s = s\<lparr>op := o1, prec := p\<rparr>"

definition operator_tok :: "Operator \<Rightarrow> nat \<Rightarrow> 'a scanner_scheme \<Rightarrow> 'a scanner_scheme" where
  "operator_tok o1 p s = (setop o1 p s)\<lparr>tok := T_Operator\<rparr>"

text \<open>The cases \<open>'.'\<close>, \<open>'+'\<close> and \<open>'-'\<close>, \<open>'*'\<close>.\<close>

definition scan_dot :: "'a scanner_scheme \<Rightarrow> 'a scanner_scheme" where
  "scan_dot s =
     (let s = nextch s in
      if isDecimal (ch s) then number True s
      else if ch s = 46 then
        let s = nextch s in
        if ch s = 46 then (nextch s)\<lparr>tok := T_DotDotDot\<rparr>
        else (nextch (rewind s))\<lparr>tok := T_Dot\<rparr>
      else s\<lparr>tok := T_Dot\<rparr>)"

definition scan_incop :: "Operator \<Rightarrow> rune \<Rightarrow> 'a scanner_scheme \<Rightarrow> 'a scanner_scheme" where
  "scan_incop o1 c s =
     (let s = setop o1 precAdd (nextch s) in
      if ch s \<noteq> c then assignop s else (nextch s)\<lparr>nlsemi := True, tok := T_IncOp\<rparr>)"

definition scan_star :: "'a scanner_scheme \<Rightarrow> 'a scanner_scheme" where
  "scan_star s =
     (let s = setop Op_Mul precMul (nextch s) in
      if ch s = 61 then (nextch s)\<lparr>tok := T_AssignOp\<rparr> else s\<lparr>tok := T_Star\<rparr>)"

text \<open>The case \<open>'/'\<close>: a comment asks for a \<open>redo\<close>, except a multi-line one that ends a statement.\<close>

definition scan_slash :: "bool \<Rightarrow> 'a scanner_scheme \<Rightarrow> 'a scanner_scheme \<times> bool" where
  "scan_slash nl s =
     (let s = nextch s in
      if ch s = 47 then (lineComment (nextch s), True)
      else if ch s = 42 then
        let s = fullComment (nextch s) in
        if fst (src_pos s) > line s \<and> nl then (s\<lparr>lit := ''newline'', tok := T_Semi\<rparr>, False)
        else (s, True)
      else (assignop (setop Op_Div precMul s), False))"

definition scan_amp :: "'a scanner_scheme \<Rightarrow> 'a scanner_scheme" where
  "scan_amp s =
     (let s = nextch s in
      if ch s = 38 then operator_tok Op_AndAnd precAndAnd (nextch s)
      else
        let s = setop Op_And precMul s;
            s = (if ch s = 94 then (nextch s)\<lparr>op := Op_AndNot\<rparr> else s)
        in assignop s)"

definition scan_bar :: "'a scanner_scheme \<Rightarrow> 'a scanner_scheme" where
  "scan_bar s =
     (let s = nextch s in
      if ch s = 124 then operator_tok Op_OrOr precOrOr (nextch s)
      else assignop (setop Op_Or precAdd s))"

definition scan_less :: "'a scanner_scheme \<Rightarrow> 'a scanner_scheme" where
  "scan_less s =
     (let s = nextch s in
      if ch s = 61 then operator_tok Op_Leq precCmp (nextch s)
      else if ch s = 60 then assignop (setop Op_Shl precMul (nextch s))
      else if ch s = 45 then (nextch s)\<lparr>tok := T_Arrow\<rparr>
      else operator_tok Op_Lss precCmp s)"

definition scan_greater :: "'a scanner_scheme \<Rightarrow> 'a scanner_scheme" where
  "scan_greater s =
     (let s = nextch s in
      if ch s = 61 then operator_tok Op_Geq precCmp (nextch s)
      else if ch s = 62 then assignop (setop Op_Shr precMul (nextch s))
      else operator_tok Op_Gtr precCmp s)"

definition scan_equal :: "'a scanner_scheme \<Rightarrow> 'a scanner_scheme" where
  "scan_equal s =
     (let s = nextch s in
      if ch s = 61 then operator_tok Op_Eql precCmp (nextch s) else s\<lparr>tok := T_Assign\<rparr>)"

definition scan_bang :: "'a scanner_scheme \<Rightarrow> 'a scanner_scheme" where
  "scan_bang s =
     (let s = nextch s in
      if ch s = 61 then operator_tok Op_Neq precCmp (nextch s) else operator_tok Op_Not 0 s)"

definition scan_colon :: "'a scanner_scheme \<Rightarrow> 'a scanner_scheme" where
  "scan_colon s =
     (let s = nextch s in
      if ch s = 61 then (nextch s)\<lparr>tok := T_Define\<rparr> else s\<lparr>tok := T_Colon\<rparr>)"

text \<open>The case \<open>'#'\<close>: an index operator, or a comment at the start of a line.\<close>

definition scan_hash :: "'a scanner_scheme \<Rightarrow> 'a scanner_scheme \<times> bool" where
  "scan_hash s =
     (if canBeIndexOperator s then (nextch (s\<lparr>tok := T_Hash\<rparr>), False)
      else (lineComment (nextch s), True))"

text \<open>The \<open>switch\<close> of \<open>next\<close>.\<close>

definition scan_switch :: "bool \<Rightarrow> 'a scanner_scheme \<Rightarrow> 'a scanner_scheme \<times> bool" where
  "scan_switch nl s =
     (if ch s = -1 then
        (if nl then s\<lparr>lit := ''EOF'', tok := T_Semi\<rparr> else s\<lparr>tok := T_EOF\<rparr>, False)
      else if ch s = 10 then ((nextch s)\<lparr>lit := ''newline'', tok := T_Semi\<rparr>, False)
      else if isDecimal (ch s) then (number False s, False)
      else if ch s = 34 then (stdString s, False)
      else if ch s = 96 then (rawString s, False)
      else if ch s = 39 then (rune_lit s, False)
      else if ch s = 40 then ((nextch s)\<lparr>tok := T_Lparen\<rparr>, False)
      else if ch s = 91 then ((nextch s)\<lparr>tok := T_Lbrack\<rparr>, False)
      else if ch s = 123 then ((nextch s)\<lparr>tok := T_Lbrace\<rparr>, False)
      else if ch s = 44 then ((nextch s)\<lparr>tok := T_Comma\<rparr>, False)
      else if ch s = 59 then ((nextch s)\<lparr>lit := ''semicolon'', tok := T_Semi\<rparr>, False)
      else if ch s = 41 then ((nextch s)\<lparr>nlsemi := True, tok := T_Rparen\<rparr>, False)
      else if ch s = 93 then ((nextch s)\<lparr>nlsemi := True, tok := T_Rbrack\<rparr>, False)
      else if ch s = 125 then ((nextch s)\<lparr>nlsemi := True, tok := T_Rbrace\<rparr>, False)
      else if ch s = 58 then (scan_colon s, False)
      else if ch s = 46 then (scan_dot s, False)
      else if ch s = 43 then (scan_incop Op_Add 43 s, False)
      else if ch s = 45 then (scan_incop Op_Sub 45 s, False)
      else if ch s = 42 then (scan_star s, False)
      else if ch s = 47 then scan_slash nl s
      else if ch s = 37 then (assignop (setop Op_Rem precMul (nextch s)), False)
      else if ch s = 38 then (scan_amp s, False)
      else if ch s = 124 then (scan_bar s, False)
      else if ch s = 94 then (assignop (setop Op_Xor precAdd (nextch s)), False)
      else if ch s = 60 then (scan_less s, False)
      else if ch s = 62 then (scan_greater s, False)
      else if ch s = 61 then (scan_equal s, False)
      else if ch s = 33 then (scan_bang s, False)
      else if ch s = 126 then (operator_tok Op_Tilde 0 (nextch s), False)
      else if ch s = 35 then scan_hash s
      else (nextch (errorf (''invalid character '' @ fmtUnicode (ch s)) s), True))"

text \<open>White space, and the bookkeeping at the start of a token.\<close>

definition isSpace :: "bool \<Rightarrow> rune \<Rightarrow> bool" where
  "isSpace nl c \<longleftrightarrow> c = 32 \<or> c = 9 \<or> c = 10 \<and> \<not> nl \<or> c = 13"

definition token_start :: "bool \<Rightarrow> 'a scanner_scheme \<Rightarrow> 'a scanner_scheme" where
  "token_start nl s =
     (let s = stop s;
          (startLine, startCol) = src_pos s;
          s = skip_while (isSpace nl) s;
          (l, c) = src_pos s;
          s = s\<lparr>line := l, col := c\<rparr>;
          s = s\<lparr>blank := l > startLine \<or> startCol = colbase\<rparr>
      in start s)"

definition scan_token :: "bool \<Rightarrow> 'a scanner_scheme \<Rightarrow> 'a scanner_scheme \<times> bool" where
  "scan_token nl s =
     (let s = token_start nl s in
      if isLetter (ch s) then (ident (nextch s), False)
      else if ch s \<ge> RuneSelf then
        let (ok, s) = atIdentChar True s in
        if ok then (ident (nextch s), False) else scan_switch nl s
      else scan_switch nl s)"

lemma token_start_remaining: "remaining (token_start nl s) \<le> remaining s"
  using skip_while_remaining_le [of "isSpace nl" "stop s"]
  by (simp add: token_start_def Let_def case_prod_beta)

lemma if_then_False: "(if P then False else Q) \<longleftrightarrow> \<not> P \<and> Q"
  by simp

lemma scan_switch_redo:
  assumes "snd (scan_switch nl s)"
  shows "remaining (fst (scan_switch nl s)) < remaining s"
proof -
  have c: "ch s \<noteq> -1" using assms by (auto simp: scan_switch_def)
  have n: "remaining (nextch s) < remaining s" by (rule nextch_remaining_less' [OF c])
  have l: "remaining (lineComment (nextch s)) < remaining s"
    "remaining (lineComment (nextch (nextch s))) < remaining s"
    using n lineComment_remaining [of "nextch s"] lineComment_remaining [of "nextch (nextch s)"]
      nextch_remaining_le [of "nextch s"] by linarith+
  have f: "remaining (fullComment (nextch (nextch s))) < remaining s"
    using n fullComment_remaining [of "nextch (nextch s)"] nextch_remaining_le [of "nextch s"]
    by linarith
  have e: "remaining (nextch (errorf m s)) < remaining s" for m
    using nextch_remaining_less' [of "errorf m s"] c by (simp add: errorf_def)
  have d: "fst (scan_switch nl s) = nextch (errorf (''invalid character '' @ fmtUnicode (ch s)) s)"
    if "ch s \<noteq> 47" "ch s \<noteq> 35"
    using assms that unfolding scan_switch_def if_distrib [of snd] if_distrib [of fst]
    by (simp only: snd_conv fst_conv if_then_False if_False if_True not_False_eq_True simp_thms)
  consider "ch s = 47" | "ch s = 35" | "ch s \<noteq> 47" "ch s \<noteq> 35" by blast
  then show ?thesis
  proof cases
    case 1
    then have "scan_switch nl s = scan_slash nl s" by (simp add: scan_switch_def isDecimal_def)
    with assms l f show ?thesis by (auto simp: scan_slash_def Let_def split: if_splits)
  next
    case 2
    then have "scan_switch nl s = scan_hash s" by (simp add: scan_switch_def isDecimal_def)
    with assms l show ?thesis by (auto simp: scan_hash_def split: if_splits)
  qed (simp add: d e)
qed

lemma scan_token_redo:
  assumes "snd (scan_token nl s)"
  shows "remaining (fst (scan_token nl s)) < remaining s"
proof -
  define t where "t = token_start nl s"
  have t: "remaining t \<le> remaining s" by (simp add: t_def token_start_remaining)
  obtain u where u: "scan_token nl s = scan_switch nl u" "remaining u = remaining t"
    using assms atIdentChar_remaining [of True t]
    by (auto simp: scan_token_def t_def Let_def case_prod_beta split: if_splits)
  then show ?thesis using scan_switch_redo [of nl u] assms t by simp
qed

text \<open>\<open>next\<close>: the loop over \<open>redo\<close>.\<close>

function next_loop :: "bool \<Rightarrow> 'a scanner_scheme \<Rightarrow> 'a scanner_scheme" where
  "next_loop nl s =
     (let (s', redo) = scan_token nl s in if redo then next_loop nl s' else s')"
  by pat_completeness auto
termination
proof (relation "measure (\<lambda>(nl, s). remaining s)", goal_cases)
  case (2 nl s x xa y)
  then show ?case using scan_token_redo [of nl s] by (metis case_prod_conv fst_conv in_measure snd_conv)
qed simp

declare next_loop.simps [simp del]

definition next_tok :: "'a scanner_scheme \<Rightarrow> 'a scanner_scheme" where
  "next_tok s = next_loop (nlsemi s) (s\<lparr>nlsemi := False\<rparr>)"

end
