(* ===== verification/Source_Track.thy ===== *)
theory Source_Track
  imports Source
begin

text \<open>
  What the reader of \<open>Source\<close> keeps track of: the current character is what the bytes at its
  offset decode to, and the line and column are those of that offset, counted in newlines and
  bytes of the input.
\<close>

subsection \<open>The current character\<close>

definition ch_inv :: "'a source_scheme \<Rightarrow> bool" where
  "ch_inv s \<longleftrightarrow> (ch s = -1 \<and> chw s = 0 \<and> rd_r s = length (data s))
     \<or> (0 < chw s \<and> chw s \<le> rd_r s \<and> rd_r s \<le> length (data s)
        \<and> DecodeRune (drop (rd_r s - chw s) (data s)) = (ch s, chw s))"

lemma read_char_ch_inv:
  assumes "rd_r s \<le> length (data s)"
  shows "ch_inv (fst (read_char s))"
proof (cases "rd_r s < length (data s)")
  case True
  let ?p = "drop (rd_r s) (data s)"
  obtain x w where d: "DecodeRune ?p = (x, w)" by fastforce
  have w: "0 < w" "rd_r s + w \<le> length (data s)"
    using DecodeRune_width [of ?p] True by (auto simp: d)
  have p: "?p = data s ! rd_r s # drop (Suc (rd_r s)) (data s)"
    using True by (simp add: Cons_nth_drop_Suc)
  have "rune_of (data s ! rd_r s) < sentinel \<Longrightarrow> (x, w) = (rune_of (data s ! rd_r s), 1)"
    using d DecodeRune_1 [of "data s ! rd_r s"] unfolding p by (simp add: sentinel_def RuneSelf_def)
  with True d w show ?thesis by (auto simp: read_char_def ch_inv_def Let_def)
qed (use assms in \<open>simp add: read_char_def ch_inv_def\<close>)

lemma nextch_ch_inv: "rd_r s \<le> length (data s) \<Longrightarrow> ch_inv (nextch s)"
proof (induction s rule: nextch_induct)
  case (step s)
  have r: "rd_r (step_pos s) \<le> length (data (step_pos s))" using step.prems by simp
  from step.IH read_char_width [OF r] read_char_ch_inv [OF r] show ?case
    by (subst nextch_unfold) simp
qed

subsection \<open>Lines and columns\<close>

lemma newline_bytes:
  assumes "DecodeRune p = (r, n)" "p \<noteq> []"
  shows "r = 10 \<longleftrightarrow> take n p = [CHR 10]" "r \<noteq> 10 \<Longrightarrow> CHR 10 \<notin> set (take n p)"
proof -
  have nl: "rune_of (CHR 10) = 10" by (simp add: rune_of_def)
  have "(r = 10 \<longleftrightarrow> take n p = [CHR 10]) \<and> (r \<noteq> 10 \<longrightarrow> CHR 10 \<notin> set (take n p))"
    using assms(2)
  proof (cases rule: DecodeRune_cases)
    case invalid
    obtain a q where p: "p = a # q" using assms(2) by (cases p) auto
    have "128 \<le> rune_of a" using invalid(2) [of 1] by (simp add: p utf8_seq_1)
    with invalid(1) assms(1) nl show ?thesis by (auto simp: p RuneError_def)
  next
    case (valid r' n')
    then have e: "r' = r" "n' = n" using assms(1) by auto
    consider (ascii) a where "take n p = [a]" "rune_of a < 128" | (wide) "\<forall>c \<in> set (take n p). 128 \<le> rune_of c"
      using valid(7) unfolding e by (cases rule: utf8_seq.cases) auto
    then show ?thesis
    proof cases
      case (ascii a)
      then have "p = a # tl p" by (cases p) (auto simp: take_Cons' split: if_splits)
      then have "DecodeRune p = (rune_of a, 1)" using DecodeRune_1 [of a "tl p"] ascii by metis
      then have "r = rune_of a" using assms(1) by simp
      then show ?thesis unfolding ascii(1) using nl by (auto simp flip: rune_of_inject)
    next
      case wide
      have "r \<noteq> 10"
      proof
        assume "r = 10"
        then have "byte_of 10 \<in> set (take n p)" using valid(3) EncodeRune_1 [of 10] by (simp add: e)
        then have "128 \<le> rune_of (byte_of 10)" using wide by blast
        then show False by (simp add: rune_of_byte_of)
      qed
      moreover have "CHR 10 \<notin> set (take n p)"
      proof
        assume "CHR 10 \<in> set (take n p)"
        then have "128 \<le> rune_of (CHR 10)" using wide by blast
        then show False by (simp add: nl)
      qed
      ultimately show ?thesis by auto
    qed
  qed
  then show "r = 10 \<longleftrightarrow> take n p = [CHR 10]" "r \<noteq> 10 \<Longrightarrow> CHR 10 \<notin> set (take n p)" by blast+
qed

definition line_of :: "string \<Rightarrow> nat" where
  "line_of pre = count_list pre (CHR 10)"

definition col_of :: "string \<Rightarrow> nat" where
  "col_of pre = length (takeWhile (\<lambda>c. c \<noteq> CHR 10) (rev pre))"

lemma line_col_newline: "line_of (pre @ [CHR 10]) = line_of pre + 1" "col_of (pre @ [CHR 10]) = 0"
  by (simp_all add: line_of_def col_of_def)

lemma line_col_plain:
  assumes "CHR 10 \<notin> set w"
  shows "line_of (pre @ w) = line_of pre" "col_of (pre @ w) = col_of pre + length w"
proof -
  show "line_of (pre @ w) = line_of pre" using assms by (simp add: line_of_def)
  have "takeWhile (\<lambda>c. c \<noteq> CHR 10) (rev w @ rev pre) = rev w @ takeWhile (\<lambda>c. c \<noteq> CHR 10) (rev pre)"
    using assms by (intro takeWhile_append2) auto
  then show "col_of (pre @ w) = col_of pre + length w" by (simp add: col_of_def)
qed

text \<open>\<open>tracks s n\<close>: the position fields describe the offset \<open>n\<close>.\<close>

definition tracks :: "'a source_scheme \<Rightarrow> nat \<Rightarrow> bool" where
  "tracks s n \<longleftrightarrow> src_line s = line_of (take n (data s)) \<and> src_col s = int (col_of (take n (data s)))"

lemma step_pos_tracks:
  assumes "tracks s (rd_r s - chw s)" "ch_inv s \<or> chw s = 0 \<and> ch s \<noteq> 10"
  shows "tracks (step_pos s) (rd_r s)"
proof (cases "chw s = 0")
  case True
  then show ?thesis using assms by (auto simp: tracks_def step_pos_def ch_inv_def Let_def)
next
  case False
  let ?p = "drop (rd_r s - chw s) (data s)"
  have d: "DecodeRune ?p = (ch s, chw s)" "chw s \<le> rd_r s" "rd_r s \<le> length (data s)" "0 < chw s"
    using assms(2) False by (auto simp: ch_inv_def)
  then have ne: "?p \<noteq> []" by auto
  have s: "take (rd_r s) (data s) = take (rd_r s - chw s) (data s) @ take (chw s) ?p"
    using d(2) by (metis le_add_diff_inverse2 take_add)
  note n = newline_bytes [OF d(1) ne]
  show ?thesis
  proof (cases "ch s = 10")
    case True
    then show ?thesis using n(1) by (simp add: tracks_def step_pos_def s line_col_newline assms(1) [unfolded tracks_def])
  next
    case False
    then show ?thesis using line_col_plain [OF n(2) [OF False]] assms(1) d
      by (simp add: tracks_def step_pos_def s)
  qed
qed

lemma read_char_tracks:
  assumes "tracks s (rd_r s)" "rd_r s \<le> length (data s)"
  shows "tracks (fst (read_char s)) (rd_r (fst (read_char s)) - chw (fst (read_char s)))"
proof -
  have "src_line (fst (read_char s)) = src_line s \<and> src_col (fst (read_char s)) = src_col s"
    by (simp add: read_char_def Let_def case_prod_beta)
  then show ?thesis using assms(1) read_char_width [OF assms(2)] by (simp add: tracks_def)
qed

lemma nextch_tracks:
  "rd_r s \<le> length (data s) \<Longrightarrow> tracks s (rd_r s - chw s) \<Longrightarrow> ch_inv s \<or> chw s = 0 \<and> ch s \<noteq> 10 \<Longrightarrow>
     tracks (nextch s) (rd_r (nextch s) - chw (nextch s))"
proof (induction s rule: nextch_induct)
  case (step s)
  let ?t = "fst (read_char (step_pos s))"
  have r: "rd_r (step_pos s) \<le> length (data (step_pos s))" using step.prems by simp
  have t: "tracks ?t (rd_r ?t - chw ?t)"
    using read_char_tracks [OF _ r] step_pos_tracks [OF step.prems(2,3)] by simp
  from step.IH read_char_width [OF r] read_char_ch_inv [OF r] t show ?case
    by (subst (1 2 3) nextch_unfold) simp
qed

text \<open>Reading from the start of the input.\<close>

lemma nextch_iter:
  "rd_r ((nextch ^^ n) (source_init inp)) \<le> length inp \<and> data ((nextch ^^ n) (source_init inp)) = inp
   \<and> (ch_inv ((nextch ^^ n) (source_init inp)) \<or> chw ((nextch ^^ n) (source_init inp)) = 0
        \<and> ch ((nextch ^^ n) (source_init inp)) \<noteq> 10)
   \<and> tracks ((nextch ^^ n) (source_init inp))
       (rd_r ((nextch ^^ n) (source_init inp)) - chw ((nextch ^^ n) (source_init inp)))"
proof (induction n)
  case 0
  then show ?case by (simp add: source_init_def tracks_def line_of_def col_of_def)
next
  case (Suc n)
  let ?s = "(nextch ^^ n) (source_init inp)"
  have r: "rd_r ?s \<le> length (data ?s)" using Suc by simp
  have i: "ch_inv (nextch ?s)" by (rule nextch_ch_inv [OF r])
  then have "rd_r (nextch ?s) \<le> length inp" using Suc by (auto simp: ch_inv_def)
  with Suc i nextch_tracks [OF r] show ?case by simp
qed

subsection \<open>Properties\<close>

text \<open>C31: after any number of calls of \<open>nextch\<close> from the start (the reader only goes forward), the reported position of the current character is its
  line, counted in newlines of the input before it, and its column, counted in bytes since the last
  newline; both start at 1.\<close>

theorem position_tracking:
  "let s = (nextch ^^ n) (source_init inp); pre = take (rd_r s - chw s) inp
   in src_pos s = (1 + line_of pre, 1 + col_of pre)"
  using nextch_iter [of n inp] by (simp add: Let_def src_pos_def tracks_def linebase_def colbase_def)

text \<open>The reader's indices stay in bounds, and from the first call of \<open>nextch\<close> on the current character
  is the decoding of the bytes it covers, or \<open>-1\<close> at the end of the input.\<close>

lemma reader_invariant:
  "src_inv ((nextch ^^ n) (source_init inp)) \<and> ch_inv ((nextch ^^ Suc n) (source_init inp))"
proof
  show "src_inv ((nextch ^^ n) (source_init inp))"
    by (induction n) (simp_all add: src_inv_init nextch_src_inv)
  show "ch_inv ((nextch ^^ Suc n) (source_init inp))"
    using nextch_iter [of n inp] by (simp add: nextch_ch_inv)
qed

end
