(* ===== verification/Scanner_Props.thy ===== *)
theory Scanner_Props
  imports Scanner Source_Track
begin

text \<open>
  Correctness of the scanner: every operation only reads on (relation \<open>reads\<close>), \<open>next\<close> makes
  progress, keeps the reader's invariant and never panics, inserts semicolons by the rule of the
  language, and the text of a literal is the slice of the input it was read from.
\<close>

subsection \<open>Reading on\<close>

text \<open>\<open>reads s t\<close>: \<open>t\<close> comes from \<open>s\<close> by reading characters and calling the handler.\<close>

definition reads :: "'a source_scheme \<Rightarrow> 'a source_scheme \<Rightarrow> bool" where
  "reads s t \<longleftrightarrow> data t = data s \<and> source.more t = source.more s \<and> seg_b t = seg_b s
     \<and> panicked t = panicked s \<and> blank t = blank s \<and> (src_inv s \<longrightarrow> src_inv t)
     \<and> (src_inv s \<and> ch_inv s \<longrightarrow> ch_inv t) \<and> remaining t \<le> remaining s \<and> rd_r s \<le> rd_r t"

lemma reads_refl [simp]: "reads s s"
  by (simp add: reads_def)

lemma reads_trans [trans]: "reads s t \<Longrightarrow> reads t u \<Longrightarrow> reads s u"
  by (simp add: reads_def)

lemma read_char_rd_r: "rd_r s \<le> rd_r (fst (read_char s))"
  by (simp add: read_char_def Let_def case_prod_beta)

lemma nextch_rd_r: "rd_r s \<le> rd_r (nextch s)"
proof (induction s rule: nextch_induct)
  case (step s)
  then show ?case using read_char_rd_r [of "step_pos s"] by (subst nextch_unfold) auto
qed

lemma nextch_ch_inv_src: "src_inv s \<Longrightarrow> ch_inv (nextch s)"
  by (simp add: nextch_ch_inv src_inv_def)

lemma reads_nextch [simp]: "reads s (nextch s)"
  by (simp add: reads_def nextch_remaining_le nextch_src_inv nextch_rd_r nextch_ch_inv_src)

lemma reads_nextch_trans: "reads s t \<Longrightarrow> reads s (nextch t)"
  using reads_trans reads_nextch by blast

lemma errh_inv [simp]: "src_inv (errh l c m s) = src_inv s" "ch_inv (errh l c m s) = ch_inv s"
  by (simp_all add: errh_def src_inv_def ch_inv_def)

lemma errh_frame [simp]:
  "data (errh l c m s) = data s" "source.more (errh l c m s) = source.more s" "seg_b (errh l c m s) = seg_b s"
  "panicked (errh l c m s) = panicked s" "blank (errh l c m s) = blank s" "rd_r (errh l c m s) = rd_r s"
  by (simp_all add: errh_def)

lemma reads_errh [simp]: "reads s (errh l c m s)"
  by (simp add: reads_def)

lemma reads_errors [simp]: "reads s (errorf m s)" "reads s (errorAtf k m s)"
  by (simp_all add: errorf_def error_def errorAtf_def case_prod_beta)

lemma reads_errorBase: "baseName b \<noteq> None \<Longrightarrow> reads s (errorBase pre b post s)"
  by (auto simp: errorBase_def simp del: baseName.simps)

lemma go_panic_frame [simp]:
  "data (go_panic m s) = data s" "seg_b (go_panic m s) = seg_b s" "rd_r (go_panic m s) = rd_r s" "chw (go_panic m s) = chw s"
  "ch (go_panic m s) = ch s" "source.more (go_panic m s) = source.more s" "errs (go_panic m s) = errs s"
  "src_inv (go_panic m s) = src_inv s" "ch_inv (go_panic m s) = ch_inv s" "segment (go_panic m s) = segment s"
  by (simp_all add: go_panic_def src_inv_def ch_inv_def segment_def split: option.split)

lemma check_segment_frame [simp]:
  "data (check_segment s) = data s" "seg_b (check_segment s) = seg_b s" "rd_r (check_segment s) = rd_r s" "ch (check_segment s) = ch s"
  "source.more (check_segment s) = source.more s" "errs (check_segment s) = errs s"
  "src_inv (check_segment s) = src_inv s" "ch_inv (check_segment s) = ch_inv s" "segment (check_segment s) = segment s"
  by (simp_all add: check_segment_def)

lemma check_segment_in: "src_inv s \<Longrightarrow> 0 \<le> seg_b s \<Longrightarrow> check_segment s = s"
  by (simp add: check_segment_def src_inv_def)

lemma check_segment_reads: "reads s t \<Longrightarrow> src_inv s \<Longrightarrow> 0 \<le> seg_b s \<Longrightarrow> check_segment t = t"
  by (simp add: check_segment_in reads_def)

lemmas reads_intros [intro] = reads_nextch_trans reads_trans [OF _ reads_errors(1)]
  reads_trans [OF _ reads_errors(2)]

lemma reads_skip_while [simp]: "reads s (skip_while P s)"
proof (induction P s rule: skip_while.induct)
  case (1 P s)
  then show ?case by (subst skip_while.simps) (auto intro: reads_trans [OF reads_nextch])
qed

lemma reads_atIdentChar [simp]: "reads s (snd (atIdentChar f s))"
  by (simp add: atIdentChar_def)

lemma reads_ident_loop [simp]: "reads s (ident_loop s)"
proof (induction s rule: ident_loop.induct)
  case (1 s)
  obtain g t where a: "atIdentChar False s = (g, t)" by fastforce
  then have "reads s t" using reads_atIdentChar [of s False] by simp
  with 1 a show ?case by (subst ident_loop.simps) (auto intro: reads_trans reads_nextch_trans)
qed

lemma reads_digits_loop [simp]: "reads s (snd (snd (digits_loop base ds iv s)))"
proof (induction base ds iv s rule: digits_loop.induct)
  case (1 base ds iv s)
  consider (dec) "base \<le> 10" "isDecimal (ch s) \<or> ch s = 95"
    | (hex) "\<not> base \<le> 10" "isHex (ch s) \<or> ch s = 95"
    | (stop) "digits_loop base ds iv s = (ds, iv, s)"
    using digits_loop.simps [of base ds iv s] by argo
  then show ?case
  proof cases
    case dec
    with reads_trans [OF reads_nextch "1.IH"(1) [OF dec refl refl]] show ?thesis
      by (subst digits_loop.simps) (simp add: Let_def split del: if_split)
  next
    case hex
    with reads_trans [OF reads_nextch "1.IH"(2) [OF hex refl]] show ?thesis
      by (subst digits_loop.simps) (simp add: Let_def split del: if_split)
  qed simp
qed

lemma reads_digits [simp]: "reads s (snd (snd (digits base iv s)))"
  by (simp add: digits_def)

lemma reads_number_prefix [simp]: "reads s (snd (snd (snd (number_prefix s))))"
  by (auto simp: number_prefix_def Let_def)

lemma reads_if: "reads s t \<Longrightarrow> reads s u \<Longrightarrow> reads s (if c then t else u)"
  by simp

lemma number_prefix_base: "baseName (fst (number_prefix s)) \<noteq> None"
  by (simp add: number_prefix_def Let_def)

lemma number_base: "baseName (if sp then 10 else fst (number_prefix s)) \<noteq> None"
  using number_prefix_base [of s] by (cases sp) (simp_all del: baseName.simps, simp)

lemma mantissa_base: "n_base (fst (number_mantissa sp s)) = (if sp then 10 else fst (number_prefix s))"
  by (simp add: number_mantissa_def Let_def case_prod_beta)

lemma exponent_base: "n_base (fst (number_exponent n s)) = n_base n" "n_invalid (fst (number_exponent n s)) = n_invalid n"
  by (simp_all add: number_exponent_def Let_def case_prod_beta)

lemma reads_number_mantissa [simp]: "reads s (snd (number_mantissa sp s))"
proof -
  have b: "reads s t \<Longrightarrow> reads s (errorBase pre (if \<not> sp then fst (number_prefix s) else 10) post t)" for t pre post
    using reads_trans [OF _ reads_errorBase [OF number_base [of sp s]]] by (cases sp) simp_all
  show ?thesis
    unfolding number_mantissa_def Let_def case_prod_beta if_distrib [of snd] if_distrib [of fst] snd_conv fst_conv
    by (intro reads_if b reads_trans [OF _ reads_nextch]
        reads_trans [OF _ reads_digits] reads_number_prefix reads_refl)
qed

lemma reads_number_exponent [simp]: "reads s (snd (number_exponent n s))"
  unfolding number_exponent_def Let_def case_prod_beta if_distrib [of snd] snd_conv
  by (intro reads_if reads_trans [OF _ reads_errors(1)] reads_trans [OF _ reads_nextch]
      reads_trans [OF _ reads_digits] reads_refl)

lemma reads_escape_loop: "baseName (uint base) \<noteq> None \<Longrightarrow> reads s (snd (escape_loop n base x s))"
proof (induction n arbitrary: x s)
  case (Suc n)
  then show ?case by (auto simp: Let_def simp del: baseName.simps intro: reads_trans [OF reads_nextch] reads_errorBase)
qed simp

lemma reads_escape_number: "baseName (uint base) \<noteq> None \<Longrightarrow> reads s (snd (escape_number n base maxi s))"
proof -
  assume b: "baseName (uint base) \<noteq> None"
  obtain r t where r: "escape_loop n base 0 s = (r, t)" by fastforce
  then have "reads s t" using reads_escape_loop [OF b, of s n 0] by simp
  then show ?thesis by (auto simp: escape_number_def r split: esc_result.split)
qed

lemma reads_escape [simp]: "reads s (snd (escape q s))"
  by (auto simp: escape_def intro!: reads_escape_number reads_trans [OF reads_nextch reads_escape_number])

lemma reads_rune_loop [simp]: "reads s (snd (rune_loop n ok s))"
proof (induction n ok s rule: rune_loop.induct)
  case (1 n ok s)
  obtain e t where e: "escape 39 (nextch s) = (e, t)" by fastforce
  have "reads s t" using reads_trans [OF reads_nextch reads_escape [of "nextch s" 39]] by (simp add: e)
  then show ?case using "1.IH"(1) [OF _ _ e [symmetric] refl] "1.IH"(2)
    by (subst rune_loop.simps) (auto simp: e intro: reads_trans [OF reads_nextch] reads_trans)
qed

lemma reads_stdString_loop [simp]: "reads s (snd (stdString_loop ok s))"
proof (induction ok s rule: stdString_loop.induct)
  case (1 ok s)
  obtain e t where e: "escape 34 (nextch s) = (e, t)" by fastforce
  have "reads s t" using reads_trans [OF reads_nextch reads_escape [of "nextch s" 34]] by (simp add: e)
  then show ?case using "1.IH"(1) [OF _ _ e [symmetric] refl] "1.IH"(2)
    by (subst stdString_loop.simps) (auto simp: e intro: reads_trans [OF reads_nextch] reads_trans)
qed

lemma reads_rawString_loop [simp]: "reads s (snd (rawString_loop s))"
proof (induction s rule: rawString_loop.induct)
  case (1 s)
  then show ?case by (subst rawString_loop.simps) (auto intro: reads_trans [OF reads_nextch])
qed

lemma reads_skipLine [simp]: "reads s (skipLine s)"
  by (simp add: skipLine_def)

lemma reads_match_prefix [simp]: "reads s (snd (match_prefix ms s))"
proof (induction ms arbitrary: s)
  case (Cons m ms)
  then show ?case by (auto intro: reads_trans [OF reads_nextch])
qed simp

lemma reads_skip_stars [simp]: "reads s (snd (skip_stars s))"
proof (induction s rule: skip_stars.induct)
  case (1 s)
  then show ?case by (subst skip_stars.simps) (auto simp: Let_def intro: reads_trans [OF reads_nextch])
qed

lemma reads_skipComment [simp]: "reads s (snd (skipComment s))"
proof (induction s rule: skipComment.induct)
  case (1 s)
  obtain c t where c: "skip_stars s = (c, t)" by fastforce
  then have "reads s t" using reads_skip_stars [of s] by simp
  with 1 c show ?case by (subst skipComment.simps) (auto intro: reads_trans reads_nextch_trans)
qed

subsection \<open>Comments\<close>

text \<open>A comment may end the active segment.\<close>

definition skims :: "'a source_scheme \<Rightarrow> 'a source_scheme \<Rightarrow> bool" where
  "skims s t \<longleftrightarrow> reads s t \<or> (\<exists>u. reads s u \<and> reads (stop u) t)"

lemma skims_reads: "reads s t \<Longrightarrow> skims s t"
  by (simp add: skims_def)

lemma skims_stop: "reads s u \<Longrightarrow> reads (stop u) t \<Longrightarrow> skims s t"
  by (auto simp: skims_def)

lemma skims_lineComment:
  assumes "src_inv s" "0 \<le> seg_b s"
  shows "skims s (lineComment s)"
proof -
  obtain m t where m: "match_prefix (if ch s = 108 then ''line '' else ''go:'') s = (m, t)" by fastforce
  then have t: "reads s t" using reads_match_prefix by (metis snd_conv)
  have l: "reads s (errorAtf 0 (segment (skipLine t)) (skipLine t))"
    "reads s (errorAtf 0 (segment (skipLine s)) (skipLine s))"
    using t by (auto intro: reads_trans [OF _ reads_errors(2)] reads_trans [OF _ reads_skipLine])
  have k: "check_segment (skipLine t) = skipLine t" "check_segment (skipLine s) = skipLine s"
    using check_segment_reads [OF reads_trans [OF t reads_skipLine] assms] check_segment_reads [OF reads_skipLine assms] by simp_all
  show ?thesis
    unfolding lineComment_def m Let_def comment_def case_prod_conv k
    using skims_reads [OF l(1)] skims_reads [OF l(2)] skims_stop [OF t reads_skipLine]
      skims_stop [OF reads_refl reads_skipLine, of s] by simp
qed

lemma skims_fullComment:
  assumes "src_inv s" "0 \<le> seg_b s"
  shows "skims s (fullComment s)"
proof -
  obtain m t where m: "match_prefix ''line '' s = (m, t)" by fastforce
  then have t: "reads s t" using reads_match_prefix by (metis snd_conv)
  have l: "reads s (snd (skipComment t))" "reads s (snd (skipComment s))"
    using t by (auto intro: reads_trans [OF _ reads_skipComment])
  note l2 = l [THEN reads_trans, OF reads_errors(2)]
  have k: "check_segment (snd (skipComment t)) = snd (skipComment t)" "check_segment (snd (skipComment s)) = snd (skipComment s)"
    using l [THEN check_segment_reads, OF assms] by simp_all
  show ?thesis
    unfolding fullComment_def m Let_def comment_def case_prod_beta fst_conv snd_conv k
    using l [THEN skims_reads] l2 [THEN skims_reads] skims_stop [OF t reads_skipComment]
      skims_stop [OF reads_refl reads_skipComment, of s] by simp
qed

subsection \<open>Tokens\<close>

lemma reads_fields:
  fixes s t :: "'a scanner_scheme"
  assumes "reads s t"
  shows "nlsemi t = nlsemi s" "mode t = mode s" "line t = line s" "col t = col s" "tok t = tok s"
    "lit t = lit s" "seg_b t = seg_b s"
  using assms by (cases s; cases t; simp add: reads_def)+

text \<open>\<open>eats s t\<close>: \<open>t\<close> comes from \<open>s\<close> by reading at least one character.\<close>

definition eats :: "'a source_scheme \<Rightarrow> 'a source_scheme \<Rightarrow> bool" where
  "eats s t \<longleftrightarrow> data t = data s \<and> panicked t = panicked s \<and> (src_inv s \<longrightarrow> src_inv t \<and> ch_inv t)
     \<and> remaining t < remaining s"

lemma eats_nextch: "ch s \<noteq> -1 \<Longrightarrow> eats s (nextch s)"
  by (simp add: eats_def nextch_src_inv nextch_remaining_less' nextch_ch_inv_src)

lemma eats_reads: "eats s t \<Longrightarrow> reads t u \<Longrightarrow> eats s u"
  by (auto simp: eats_def reads_def)

lemma reads_eats: "reads s t \<Longrightarrow> eats t u \<Longrightarrow> eats s u"
  by (auto simp: eats_def reads_def)

lemma stop_frame [simp]:
  "data (stop s) = data s" "panicked (stop s) = panicked s" "ch (stop s) = ch s" "ch_inv (stop s) = ch_inv s"
  "source.more (stop s) = source.more s" "rd_r (stop s) = rd_r s"
  by (simp_all add: stop_def ch_inv_def)

lemma start_frame [simp]:
  "data (start s) = data s" "panicked (start s) = panicked s" "ch (start s) = ch s" "ch_inv (start s) = ch_inv s"
  "source.more (start s) = source.more s" "seg_b (start s) = int (rd_r s) - int (chw s)"
  "rd_r (start s) = rd_r s" "chw (start s) = chw s"
  by (simp_all add: start_def ch_inv_def)

lemma eats_skims: "eats s t \<Longrightarrow> skims t u \<Longrightarrow> eats s u"
proof -
  assume e: "eats s t" and "skims t u"
  then consider "reads t u" | v where "reads t v" "reads (stop v) u" by (auto simp: skims_def)
  then show "eats s u"
  proof cases
    case (2 v)
    have "eats s v" by (rule eats_reads [OF e 2(1)])
    then have "eats s (stop v)" by (simp add: eats_def stop_src_inv)
    then show ?thesis by (rule eats_reads [OF _ 2(2)])
  qed (rule eats_reads [OF e])
qed

lemma src_inv_update [simp]:
  "src_inv (s\<lparr>nlsemi := v2\<rparr>) = src_inv s" "src_inv (s\<lparr>line := v3\<rparr>) = src_inv s"
  "src_inv (s\<lparr>col := v4\<rparr>) = src_inv s" "src_inv (s\<lparr>tok := v5\<rparr>) = src_inv s"
  "src_inv (s\<lparr>lit := v6\<rparr>) = src_inv s" "src_inv (s\<lparr>bad := v7\<rparr>) = src_inv s"
  "src_inv (s\<lparr>kind := v8\<rparr>) = src_inv s" "src_inv (s\<lparr>op := v9\<rparr>) = src_inv s"
  "src_inv (s\<lparr>prec := v10\<rparr>) = src_inv s"
  for s :: "'a scanner_scheme"
  by (simp_all add: src_inv_def)

lemma ch_inv_update [simp]:
  "ch_inv (s\<lparr>nlsemi := v2\<rparr>) = ch_inv s" "ch_inv (s\<lparr>line := v3\<rparr>) = ch_inv s"
  "ch_inv (s\<lparr>col := v4\<rparr>) = ch_inv s" "ch_inv (s\<lparr>tok := v5\<rparr>) = ch_inv s"
  "ch_inv (s\<lparr>lit := v6\<rparr>) = ch_inv s" "ch_inv (s\<lparr>bad := v7\<rparr>) = ch_inv s"
  "ch_inv (s\<lparr>kind := v8\<rparr>) = ch_inv s" "ch_inv (s\<lparr>op := v9\<rparr>) = ch_inv s"
  "ch_inv (s\<lparr>prec := v10\<rparr>) = ch_inv s"
  for s :: "'a scanner_scheme"
  by (simp_all add: ch_inv_def)

lemma eats_update [simp]:
  "eats s (t\<lparr>nlsemi := v2\<rparr>) = eats s t" "eats s (t\<lparr>tok := v5\<rparr>) = eats s t"
  "eats s (t\<lparr>lit := v6\<rparr>) = eats s t" "eats s (t\<lparr>bad := v7\<rparr>) = eats s t"
  "eats s (t\<lparr>kind := v8\<rparr>) = eats s t" "eats s (t\<lparr>op := v9\<rparr>) = eats s t"
  "eats s (t\<lparr>prec := v10\<rparr>) = eats s t"
  for s t :: "'a scanner_scheme"
  by (simp_all add: eats_def)

lemma segment_update [simp]:
  "segment (s\<lparr>nlsemi := v2\<rparr>) = segment s" "segment (s\<lparr>tok := v5\<rparr>) = segment s"
  "segment (s\<lparr>lit := v6\<rparr>) = segment s" "segment (s\<lparr>bad := v7\<rparr>) = segment s"
  "segment (s\<lparr>kind := v8\<rparr>) = segment s" "segment (errorAtf k m s) = segment s"
  for s :: "'a scanner_scheme"
  by (simp_all add: segment_def errorAtf_def errh_def)

text \<open>The tokens after which a newline ends the statement.\<close>

definition semi_tokens :: "token list" where
  "semi_tokens = [T_Name, T_Literal, T_Break, T_Continue, T_Fallthrough, T_Return, T_IncOp,
     T_Rparen, T_Rbrack, T_Rbrace]"

definition good_tok :: "'a scanner_scheme \<Rightarrow> bool" where
  "good_tok s \<longleftrightarrow> (nlsemi s \<longleftrightarrow> tok s \<in> set semi_tokens)"

text \<open>What one pass through the \<open>switch\<close> of \<open>next\<close> does, from the start of a token.\<close>

definition pass_ok :: "bool \<Rightarrow> 'a scanner_scheme \<Rightarrow> 'a scanner_scheme \<times> bool \<Rightarrow> bool" where
  "pass_ok nl s r \<longleftrightarrow> (case r of (t, redo) \<Rightarrow>
     if redo then eats s t \<and> nlsemi t = nlsemi s
     else good_tok t \<and> (tok t = T_Literal \<longrightarrow> lit t = segment t \<and> seg_b t = seg_b s)
       \<and> (eats s t \<and> tok t \<noteq> T_EOF
          \<or> ch s = -1 \<and> ch t = -1 \<and> tok t = (if nl then T_Semi else T_EOF) \<and> data t = data s
             \<and> panicked t = panicked s \<and> (src_inv s \<longrightarrow> src_inv t) \<and> (ch_inv s \<longrightarrow> ch_inv t)
             \<and> remaining t = remaining s))"

definition token_begin :: "'a scanner_scheme \<Rightarrow> bool" where
  "token_begin s \<longleftrightarrow> \<not> nlsemi s \<and> ch_inv s \<and> seg_b s = int (rd_r s) - int (chw s) \<and> col s = snd (src_pos s)"

lemma pass_ok_if: "(c \<Longrightarrow> pass_ok nl s a) \<Longrightarrow> (\<not> c \<Longrightarrow> pass_ok nl s b) \<Longrightarrow> pass_ok nl s (if c then a else b)"
  by simp

lemma pass_ok_if_state: "(c \<Longrightarrow> pass_ok nl s (a, r)) \<Longrightarrow> (\<not> c \<Longrightarrow> pass_ok nl s (b, r)) \<Longrightarrow>
    pass_ok nl s (if c then a else b, r)"
  by simp

text \<open>An operation that reads on and then sets a token that is neither a literal nor the end.\<close>

lemma pass_ok_tok:
  assumes "eats s t" "nlsemi t \<longleftrightarrow> tok t \<in> set semi_tokens" "tok t \<noteq> T_Literal" "tok t \<noteq> T_EOF"
  shows "pass_ok nl s (t, False)"
  using assms by (simp add: pass_ok_def good_tok_def)

lemma pass_ok_lit:
  assumes "eats s t" "nlsemi t" "tok t = T_Literal" "lit t = segment t" "seg_b t = seg_b s"
  shows "pass_ok nl s (t, False)"
  using assms by (simp add: pass_ok_def good_tok_def semi_tokens_def)

lemma pass_ok_redo: "eats s t \<Longrightarrow> nlsemi t = nlsemi s \<Longrightarrow> pass_ok nl s (t, True)"
  by (simp add: pass_ok_def)

lemma setLit_fields [simp]:
  "nlsemi (setLit k ok s)" "tok (setLit k ok s) = T_Literal" "lit (setLit k ok s) = segment s"
  "segment (setLit k ok s) = segment s" "seg_b (setLit k ok s) = seg_b s"
  by (simp_all add: setLit_def)

lemma setLit_in: "src_inv s \<Longrightarrow> 0 \<le> seg_b s \<Longrightarrow> eats u (setLit k ok s) = eats u s"
  by (simp add: setLit_def check_segment_in)

lemma pass_ok_setLit:
  assumes "ch s \<noteq> -1" "src_inv s" "0 \<le> seg_b s" "reads (nextch s) t"
  shows "pass_ok nl s (setLit k ok t, False)"
proof -
  have r: "reads s t" using assms(4) reads_trans reads_nextch by blast
  have e: "eats s t" by (rule eats_reads [OF eats_nextch [OF assms(1)] assms(4)])
  have "src_inv t" "seg_b t = seg_b s" using r assms(2) by (simp_all add: reads_def)
  then show ?thesis using e assms(3) by (intro pass_ok_lit) (simp_all add: setLit_in)
qed

lemma pass_ok_strings:
  assumes "ch s \<noteq> -1" "src_inv s" "0 \<le> seg_b s"
  shows "pass_ok nl s (stdString s, False)" "pass_ok nl s (rawString s, False)" "pass_ok nl s (rune_lit s, False)"
  using pass_ok_setLit [OF assms reads_stdString_loop, where k = StringLit]
    pass_ok_setLit [OF assms reads_rawString_loop, where k = StringLit]
    pass_ok_setLit [OF assms reads_rune_loop, where k = RuneLit]
  by (simp_all add: stdString_def rawString_def rune_lit_def case_prod_beta)

text \<open>Numbers: the literal is set after the last character; the checks that follow only report.\<close>

definition lit_of :: "'a scanner_scheme \<Rightarrow> 'a scanner_scheme \<Rightarrow> bool" where
  "lit_of t r \<longleftrightarrow> data r = data t \<and> src_inv r = src_inv t
     \<and> ch_inv r = ch_inv t \<and> remaining r = remaining t \<and> seg_b r = seg_b t \<and> nlsemi r \<and> tok r = T_Literal \<and> lit r = segment r"

lemma errorAtf_fields [simp]:
  "data (errorAtf k m s) = data s" "panicked (errorAtf k m s) = panicked s"
  "src_inv (errorAtf k m s) = src_inv s" "ch_inv (errorAtf k m s) = ch_inv s" "seg_b (errorAtf k m s) = seg_b s"
  "nlsemi (errorAtf k m s) = nlsemi s" "tok (errorAtf k m s) = tok s" "lit (errorAtf k m s) = lit s"
  by (simp_all add: errorAtf_def errh_def src_inv_def ch_inv_def)

lemma go_panic_scanner [simp]:
  "nlsemi (go_panic m s) = nlsemi s" "tok (go_panic m s) = tok s" "lit (go_panic m s) = lit s"
  for s :: "'a scanner_scheme"
  by (simp_all add: go_panic_def split: option.split)

lemma lit_of_setLit: "lit_of t (setLit k ok t)"
  by (simp add: lit_of_def setLit_def)

lemma lit_of_errorAtf: "lit_of t r \<Longrightarrow> lit_of t (errorAtf k m r)"
  by (simp add: lit_of_def)

lemma lit_of_invalid_digit: "lit_of t r \<Longrightarrow> lit_of t (invalid_digit i b r)"
  by (auto simp: invalid_digit_def lit_of_errorAtf lit_of_def simp del: baseName.simps split: option.split)

lemma lit_of_bad: "lit_of t (r\<lparr>bad := b\<rparr>) = lit_of t r"
  by (simp add: lit_of_def)

lemma lit_of_eats: "lit_of t r \<Longrightarrow> panicked r = panicked s \<Longrightarrow> eats s t \<Longrightarrow> eats s r"
  by (simp add: lit_of_def eats_def)

lemma lit_of_seg: "lit_of t r \<Longrightarrow> seg_b r = seg_b t"
  by (simp add: lit_of_def)

lemma lit_of_if: "lit_of t a \<Longrightarrow> lit_of t b \<Longrightarrow> lit_of t (if c then a else b)"
  by simp

lemma number_lit:
  obtains t where "reads (snd (number_mantissa sp s)) t" "lit_of t (number sp s)"
proof -
  let ?e = "number_exponent (fst (number_mantissa sp s)) (snd (number_mantissa sp s))"
  let ?t = "if ch (snd ?e) = 105 then nextch (snd ?e) else snd ?e"
  have "lit_of ?t (number sp s)"
    unfolding number_def Let_def case_prod_beta
    by (intro lit_of_bad [THEN iffD2] lit_of_if lit_of_errorAtf lit_of_invalid_digit lit_of_setLit)
  moreover have "reads (snd (number_mantissa sp s)) ?t"
    by (intro reads_if reads_nextch_trans reads_number_exponent)
  ultimately show thesis using that by blast
qed

text \<open>
  The column of a character in a number, less that of the start of the token, is its offset in the literal: so
  the index of an invalid digit is in the literal.
\<close>

definition posn :: "'a source_scheme \<Rightarrow> int" where
  "posn s = int (rd_r s) - int (chw s)"

lemma read_char_posn:
  "posn (fst (read_char s)) = int (rd_r s)" "src_col (fst (read_char s)) = src_col s"
  "snd (read_char s) \<Longrightarrow> ch (fst (read_char s)) \<noteq> 10"
  by (auto simp: read_char_def posn_def Let_def RuneError_def BOM_def split: prod.splits if_splits)

lemma nextch_offset: "ch s \<noteq> 10 \<Longrightarrow> src_col (nextch s) - posn (nextch s) = src_col s - posn s"
proof (induction s rule: nextch_induct)
  case (step s)
  let ?t = "fst (read_char (step_pos s))"
  have e: "src_col ?t - posn ?t = src_col s - posn s"
    using step.prems by (simp add: read_char_posn) (simp add: step_pos_def Let_def posn_def)
  show ?case
  proof (cases "snd (read_char (step_pos s))")
    case True
    then show ?thesis using step.IH [OF True read_char_posn(3) [OF True]] e by (subst (1 2) nextch_unfold) simp
  next
    case False
    then show ?thesis using e by (subst (1 2) nextch_unfold) simp
  qed
qed

lemma nextch_posn: "int (rd_r s) \<le> posn (nextch s)"
proof (induction s rule: nextch_induct)
  case (step s)
  have "rd_r s \<le> rd_r (fst (read_char (step_pos s)))" using read_char_rd_r [of "step_pos s"] by simp
  then show ?case using step.IH read_char_posn(1) [of "step_pos s"] by (subst nextch_unfold) auto
qed

text \<open>\<open>marks k b iv s\<close>: the token starts in column \<open>k\<close> and at offset \<open>b\<close>, on the line of the current character, and
  \<open>iv\<close> is the index of a character before that or negative.\<close>

definition marks :: "int \<Rightarrow> int \<Rightarrow> int \<Rightarrow> 'a scanner_scheme \<Rightarrow> bool" where
  "marks k b iv s \<longleftrightarrow> src_inv s \<and> ch_inv s \<and> src_col s - posn s = k - b \<and> b \<le> posn s \<and> col s = nat (1 + k)
     \<and> (iv < 0 \<or> iv < posn s - b)"

lemma nextch_col [simp]: "col (nextch s) = col s" for s :: "'a scanner_scheme"
  using reads_fields(4) [OF reads_nextch [of s]] .

lemma marks_nextch:
  assumes "marks k b iv s" "ch s \<noteq> 10"
  shows "marks k b iv (nextch s)"
  using assms nextch_offset [OF assms(2)] nextch_posn [of s] nextch_src_inv [of s] nextch_ch_inv_src [of s]
  by (auto simp: marks_def posn_def [of s])

lemma marks_column:
  assumes "marks k b iv s" "ch s \<noteq> 10" "ch s \<noteq> -1"
  shows "marks k b (int (snd (src_pos s)) - int (col s)) (nextch s)"
proof -
  have "int (snd (src_pos s)) - int (col s) \<le> posn s - b"
    using assms(1) by (auto simp: marks_def src_pos_def colbase_def)
  moreover have "posn s < int (rd_r s)" using assms(1,3) by (auto simp: marks_def ch_inv_def posn_def)
  ultimately show ?thesis
    using marks_nextch [OF assms(1,2)] nextch_posn [of s] by (auto simp: marks_def)
qed

lemma marks_errors:
  "marks k b iv s \<Longrightarrow> marks k b iv (errorf m s)" "marks k b iv s \<Longrightarrow> marks k b iv (errorBase pre n post s)"
  by (auto simp: marks_def posn_def errorf_def errorBase_def error_def errh_def go_panic_def src_inv_def ch_inv_def case_prod_beta
      simp del: baseName.simps split: option.split)

lemma marks_iv: "marks k b iv s \<Longrightarrow> jv < 0 \<Longrightarrow> marks k b jv s"
  by (simp add: marks_def)

lemma class_no_newline: "isDecimal c \<or> c = 95 \<Longrightarrow> c \<noteq> 10 \<and> c \<noteq> -1" "isHex c \<or> c = 95 \<Longrightarrow> c \<noteq> 10 \<and> c \<noteq> -1"
  by (auto simp: isDecimal_def isHex_def lower_def)

lemma marks_digits_loop:
  "marks k b iv s \<Longrightarrow> marks k b (fst (snd (digits_loop base ds iv s))) (snd (snd (digits_loop base ds iv s)))"
proof (induction base ds iv s rule: digits_loop.induct)
  case (1 base ds iv s)
  consider (dec) "base \<le> 10" "isDecimal (ch s) \<or> ch s = 95"
    | (hex) "\<not> base \<le> 10" "isHex (ch s) \<or> ch s = 95"
    | (stop) "digits_loop base ds iv s = (ds, iv, s)"
    using digits_loop.simps [of base ds iv s] by argo
  then show ?case
  proof cases
    case dec
    note c = class_no_newline(1) [OF dec(2)]
    have "marks k b (if ch s \<noteq> 95 \<and> ch s \<ge> 48 + base \<and> iv < 0 then int (snd (src_pos s)) - int (col s) else iv) (nextch s)"
      using marks_column [OF "1.prems"] marks_nextch [OF "1.prems"] c by simp
    from "1.IH"(1) [OF dec refl refl this] dec show ?thesis
      by (subst (1 2) digits_loop.simps) (simp add: Let_def split del: if_split)
  next
    case hex
    note c = class_no_newline(2) [OF hex(2)]
    from "1.IH"(2) [OF hex refl marks_nextch [OF "1.prems"]] c hex show ?thesis
      by (subst (1 2) digits_loop.simps) (simp add: Let_def split del: if_split)
  qed (use "1.prems" in simp)
qed

lemma marks_digits: "marks k b iv s \<Longrightarrow> marks k b (fst (snd (digits base iv s))) (snd (snd (digits base iv s)))"
  by (simp add: digits_def marks_digits_loop)

lemma marks_prefix: "marks k b iv s \<Longrightarrow> marks k b iv (snd (snd (snd (number_prefix s))))"
  by (auto simp: number_prefix_def Let_def lower_def intro!: marks_nextch)

lemma marks_other_digits: "marks k b jv s \<Longrightarrow> marks k b jv (snd (snd (digits base iv s)))"
proof -
  have "marks k b jv s \<Longrightarrow> marks k b jv (snd (snd (digits_loop base ds iv s)))" for ds
  proof (induction base ds iv s rule: digits_loop.induct)
    case (1 base ds iv s)
    consider (dec) "base \<le> 10" "isDecimal (ch s) \<or> ch s = 95"
      | (hex) "\<not> base \<le> 10" "isHex (ch s) \<or> ch s = 95"
      | (stop) "digits_loop base ds iv s = (ds, iv, s)"
      using digits_loop.simps [of base ds iv s] by argo
    then show ?case
    proof cases
      case dec
      with "1.IH"(1) [OF dec refl refl marks_nextch [OF "1.prems"]] class_no_newline(1) [OF dec(2)] show ?thesis
        by (subst digits_loop.simps) (simp add: Let_def split del: if_split)
    next
      case hex
      with "1.IH"(2) [OF hex refl marks_nextch [OF "1.prems"]] class_no_newline(2) [OF hex(2)] show ?thesis
        by (subst digits_loop.simps) (simp add: Let_def split del: if_split)
    qed (use "1.prems" in simp)
  qed
  then show "marks k b jv s \<Longrightarrow> marks k b jv (snd (snd (digits base iv s)))" by (simp add: digits_def)
qed

lemma marks_if: "marks k b iv s \<Longrightarrow> marks k b iv t \<Longrightarrow> marks k b iv (if c then s else t)"
  by simp

text \<open>The stages of \<open>number_mantissa\<close> after the integer digits.\<close>

lemma marks_fraction:
  assumes "marks k b iv s" "ch s = 46 \<or> \<not> pt"
  shows "marks k b iv (if pt then nextch (if bp then errorBase pre n post s else s) else (if bp then errorBase pre n post s else s))"
proof -
  have "ch (if bp then errorBase pre n post s else s) = ch s"
    by (auto simp: errorBase_def errorf_def simp del: baseName.simps split: option.split)
  then show ?thesis using assms by (auto intro!: marks_nextch marks_errors(2))
qed

lemma marks_mantissa:
  assumes "marks k b (-1) s"
  shows "marks k b (n_invalid (fst (number_mantissa sp s))) (snd (number_mantissa sp s))"
proof (cases sp)
  case True
  then show ?thesis using marks_digits [OF assms] marks_errors(2) [OF marks_digits [OF assms]]
    by (simp add: number_mantissa_def Let_def case_prod_beta del: baseName.simps)
next
  case False
  then have sp: "sp = False" by simp
  obtain n p ds s1 where p: "number_prefix s = (n, p, ds, s1)" by (metis prod_cases4)
  obtain d1 iv s2 where d: "digits n (-1) s1 = (d1, iv, s2)" by (metis prod_cases3)
  define pt where "pt = (ch s2 = 46)"
  define bp where "bp = (pt \<and> (p = 111 \<or> p = 98))"
  define s3 where "s3 = (if pt then nextch (if bp then errorBase ''invalid radix point in '' n '' literal'' s2 else s2)
    else (if bp then errorBase ''invalid radix point in '' n '' literal'' s2 else s2))"
  have "marks k b iv s2" using marks_digits [OF marks_prefix [OF assms], of n] p d by simp
  then have m: "marks k b iv s3" unfolding s3_def by (rule marks_fraction) (simp add: pt_def)
  define r where "r = (if pt then snd (digits n iv s3) else (iv, s3))"
  have "marks k b (fst r) (snd r)" using m marks_digits [OF m, of n] by (simp add: r_def)
  moreover have "\<exists>c. n_invalid (fst (number_mantissa sp s)) = fst r
      \<and> snd (number_mantissa sp s) = (if c then errorBase [] n '' literal has no digits'' (snd r) else snd r)"
    unfolding number_mantissa_def Let_def case_prod_beta sp p d r_def s3_def bp_def pt_def
      fst_conv snd_conv not_False_eq_True if_True simp_thms if_distrib [of fst] if_distrib [of snd] num_state.simps
    by blast
  ultimately show ?thesis using marks_errors(2) by fastforce
qed

lemma marks_exponent:
  assumes "marks k b iv s"
  shows "marks k b iv (snd (number_exponent n s))"
proof -
  have l: "lower (ch s) = 101 \<or> lower (ch s) = 112 \<Longrightarrow> ch s \<noteq> 10" by (auto simp: lower_def)
  have e: "marks k b iv (if c1 then errorf m1 s else if c2 then errorf m2 s else s)"
    "ch (if c1 then errorf m1 s else if c2 then errorf m2 s else s) = ch s" for c1 c2 m1 m2
    using assms marks_errors(1) [OF assms] by (auto simp: errorf_def)
  have n: "marks k b iv (if ch u = 43 \<or> ch u = 45 then nextch u else u)" if "marks k b iv u" for u
    using that marks_nextch [OF that] by auto
  show ?thesis
  proof (cases "lower (ch s) = 101 \<or> lower (ch s) = 112")
    case True
    have x: "marks k b iv (nextch (if c1 then errorf m1 s else if c2 then errorf m2 s else s))" for c1 c2 m1 m2
      by (rule marks_nextch [OF e(1)]) (use e(2) l [OF True] in simp)
    show ?thesis
      unfolding number_exponent_def Let_def case_prod_beta if_P [OF True] snd_conv
      by (rule marks_if; intro marks_errors(1) marks_other_digits n x)
  next
    case False
    then show ?thesis using assms marks_errors(1) [OF assms]
      unfolding number_exponent_def Let_def if_not_P [OF False] by simp
  qed
qed

lemma eats_digits: "isDecimal (ch s) \<Longrightarrow> base \<le> 10 \<Longrightarrow> eats s (snd (snd (digits base iv s)))"
proof -
  assume d: "isDecimal (ch s)" and b: "base \<le> 10"
  then have c: "ch s \<noteq> -1" by (auto simp: isDecimal_def)
  have "\<exists>ds' iv'. digits base iv s = digits_loop base ds' iv' (nextch s)"
    using digits_loop.simps [of base 0 iv s] d b unfolding digits_def Let_def by auto
  then show ?thesis using eats_reads [OF eats_nextch [OF c] reads_digits_loop] by metis
qed

lemma reads_mantissa_digits:
  fixes s :: "'a scanner_scheme"
  defines "np \<equiv> number_prefix s"
  shows "reads (snd (snd (digits (fst np) (-1) (snd (snd (snd np)))))) (snd (number_mantissa False s))"
  unfolding number_mantissa_def Let_def case_prod_beta if_distrib [of snd] snd_conv np_def
  by (simp only: if_True not_False_eq_True fst_conv snd_conv if_False simp_thms,
      intro reads_if reads_trans [OF _ reads_errorBase [OF number_prefix_base]] reads_trans [OF _ reads_digits]
      reads_nextch_trans reads_refl)

lemma eats_number_mantissa: "isDecimal (ch s) \<Longrightarrow> eats s (snd (number_mantissa False s))"
proof (cases "ch s = 48")
  case True
  assume d: "isDecimal (ch s)"
  have "reads (nextch s) (snd (snd (snd (number_prefix s))))"
    using True by (auto simp: number_prefix_def Let_def)
  then have "eats s (snd (snd (snd (number_prefix s))))"
    using True by (intro eats_reads [OF eats_nextch]) auto
  then show ?thesis using reads_mantissa_digits [of s] eats_reads reads_digits by blast
next
  case False
  assume d: "isDecimal (ch s)"
  from False have "number_prefix s = (10, 0, 0, s)" by (simp add: number_prefix_def)
  then show ?thesis using reads_mantissa_digits [of s] eats_reads [OF eats_digits [OF d, of 10 "-1"]] by simp
qed

lemma segment_length: "src_inv s \<Longrightarrow> 0 \<le> seg_b s \<Longrightarrow> length (segment s) = nat (posn s - seg_b s)"
  by (auto simp: segment_def src_inv_def posn_def)

lemma setLit_panicked: "src_inv s \<Longrightarrow> 0 \<le> seg_b s \<Longrightarrow> panicked (setLit k ok s) = panicked s"
  by (simp add: setLit_def check_segment_in)

lemma invalid_digit_panicked: "i < length (lit s) \<Longrightarrow> baseName b \<noteq> None \<Longrightarrow> panicked (invalid_digit i b s) = panicked s"
  by (auto simp: invalid_digit_def simp del: baseName.simps)

lemma panicked_report: "panicked ((if c then errorAtf i m w else w)\<lparr>bad := x\<rparr>) = panicked w"
  by simp

lemma panicked_if: "(c \<Longrightarrow> panicked v = p) \<Longrightarrow> (\<not> c \<Longrightarrow> panicked w = p) \<Longrightarrow> panicked (if c then v else w) = p"
  by simp

lemma number_panicked:
  assumes m: "marks k b (-1) s" and seg: "seg_b s = b" "0 \<le> b"
  shows "panicked (number sp s) = panicked s"
proof -
  let ?m = "number_mantissa sp s"
  let ?e = "number_exponent (fst ?m) (snd ?m)"
  let ?t = "if ch (snd ?e) = 105 then nextch (snd ?e) else snd ?e"
  have e: "marks k b (n_invalid (fst ?m)) (snd ?e)" by (rule marks_exponent [OF marks_mantissa [OF m]])
  have t: "marks k b (n_invalid (fst ?m)) ?t" using e marks_nextch [OF e] by auto
  have "reads s ?t" by (intro reads_if reads_nextch_trans reads_trans [OF reads_number_mantissa reads_number_exponent])
  then have r: "panicked ?t = panicked s" "seg_b ?t = b" "src_inv ?t" using seg t by (auto simp: reads_def marks_def)
  have p: "panicked (setLit kd ok ?t) = panicked s" for kd ok
    using setLit_panicked [OF r(3)] r(1,2) seg(2) by simp
  have "n_invalid (fst ?m) \<ge> 0 \<Longrightarrow> nat (n_invalid (fst ?m)) < length (segment ?t)"
    using t r(2) seg(2) by (auto simp: segment_length [OF r(3)] marks_def nat_less_iff)
  then have l: "n_invalid (fst ?e) \<ge> 0 \<Longrightarrow> nat (n_invalid (fst ?e)) < length (lit (setLit kd ok ?t))" for kd ok
    by (simp only: exponent_base setLit_fields)
  have b: "baseName (n_base (fst ?e)) \<noteq> None"
    unfolding exponent_base mantissa_base by (rule number_base)
  have i: "n_invalid (fst ?e) \<ge> 0 \<Longrightarrow>
      panicked (invalid_digit (nat (n_invalid (fst ?e))) (n_base (fst ?e)) (setLit kd ok ?t)) = panicked s" for kd ok
    by (rule trans [OF invalid_digit_panicked [OF l b] p])
  show ?thesis
    unfolding number_def Let_def case_prod_beta
    by (rule trans [OF panicked_report], rule panicked_if, rule i, blast, rule p)
qed

lemma pass_ok_number:
  assumes "isDecimal (ch s)" "token_begin s" "src_inv s"
  shows "pass_ok nl s (number False s, False)"
proof -
  obtain t where t: "reads (snd (number_mantissa False s)) t" "lit_of t (number False s)"
    by (rule number_lit)
  have "marks (src_col s) (posn s) (-1) s" "seg_b s = posn s" "0 \<le> posn s"
    using assms(2,3) by (auto simp: token_begin_def marks_def src_inv_def posn_def src_pos_def colbase_def)
  then have p: "panicked (number False s) = panicked s" by (rule number_panicked)
  have "eats s (number False s)"
    by (rule lit_of_eats [OF t(2) p eats_reads [OF eats_number_mantissa [OF assms(1)] t(1)]])
  moreover have "seg_b (number False s) = seg_b s"
    using lit_of_seg [OF t(2)] t(1) reads_number_mantissa [of s False] by (simp add: reads_def)
  ultimately show ?thesis using t(2) by (intro pass_ok_lit) (auto simp: lit_of_def)
qed

text \<open>Operators and delimiters.\<close>

lemma nextch_fields [simp]:
  "nlsemi (nextch s) = nlsemi s" "tok (nextch s) = tok s" "lit (nextch s) = lit s"
  for s :: "'a scanner_scheme"
  using reads_fields [OF reads_nextch [of s]] by simp_all

lemma eats_step: "eats s t \<Longrightarrow> eats s (nextch t)"
  using eats_reads reads_nextch by blast

lemmas op_defs = assignop_def setop_def operator_tok_def scan_incop_def scan_star_def scan_amp_def
  scan_bar_def scan_less_def scan_greater_def scan_equal_def scan_bang_def scan_colon_def

lemma pass_ok_ops:
  assumes "\<not> nlsemi s" "ch s \<noteq> -1"
  shows "pass_ok nl s (scan_incop o1 c s, False)" "pass_ok nl s (scan_star s, False)"
    "pass_ok nl s (scan_amp s, False)" "pass_ok nl s (scan_bar s, False)" "pass_ok nl s (scan_less s, False)"
    "pass_ok nl s (scan_greater s, False)" "pass_ok nl s (scan_equal s, False)" "pass_ok nl s (scan_bang s, False)"
    "pass_ok nl s (scan_colon s, False)" "pass_ok nl s (assignop (setop o1 p (nextch s)), False)"
    "pass_ok nl s (operator_tok o1 p (nextch s), False)"
  using assms
  by (auto simp: op_defs Let_def semi_tokens_def intro!: pass_ok_tok eats_step eats_nextch)

lemma pass_ok_delim:
  assumes "\<not> nlsemi s" "ch s \<noteq> -1" "k \<notin> set semi_tokens" "k \<noteq> T_EOF"
  shows "pass_ok nl s ((nextch s)\<lparr>tok := k\<rparr>, False)" "pass_ok nl s ((nextch s)\<lparr>lit := l, tok := k\<rparr>, False)"
  using assms by (auto simp: semi_tokens_def intro!: pass_ok_tok eats_nextch)

lemma pass_ok_close:
  assumes "ch s \<noteq> -1" "k \<in> {T_Rparen, T_Rbrack, T_Rbrace}"
  shows "pass_ok nl s ((nextch s)\<lparr>nlsemi := True, tok := k\<rparr>, False)"
  using assms by (auto simp: semi_tokens_def intro!: pass_ok_tok eats_nextch)

lemma skims_nlsemi:
  fixes s :: "'a scanner_scheme"
  assumes "skims s t"
  shows "nlsemi t = nlsemi s"
proof -
  have "nlsemi (stop u) = nlsemi u" for u :: "'a scanner_scheme" by (simp add: stop_def)
  then show ?thesis using assms unfolding skims_def using reads_fields(1) by metis
qed

lemma pass_ok_comments:
  assumes "\<not> nlsemi s" "ch s \<noteq> -1" "src_inv s" "0 \<le> seg_b s"
  shows "pass_ok nl s (scan_slash nl s)" "pass_ok nl s (scan_hash s)"
proof -
  have i: "src_inv (nextch s)" "0 \<le> seg_b (nextch s)" "src_inv (nextch (nextch s))" "0 \<le> seg_b (nextch (nextch s))"
    using assms(3,4) by (simp_all add: nextch_src_inv)
  note k = skims_lineComment [OF i(1,2)] skims_lineComment [OF i(3,4)] skims_fullComment [OF i(3,4)]
  have l: "eats s (lineComment (nextch s))" "eats s (lineComment (nextch (nextch s)))"
    "eats s (fullComment (nextch (nextch s)))"
    using eats_skims [OF eats_nextch [OF assms(2)] k(1)] eats_skims [OF eats_step [OF eats_nextch [OF assms(2)]] k(2)]
      eats_skims [OF eats_step [OF eats_nextch [OF assms(2)]] k(3)] by simp_all
  have n: "nlsemi (lineComment (nextch s)) = nlsemi s" "nlsemi (lineComment (nextch (nextch s))) = nlsemi s"
    "nlsemi (fullComment (nextch (nextch s))) = nlsemi s"
    using k [THEN skims_nlsemi] by simp_all
  have f: "pass_ok nl s ((fullComment (nextch (nextch s)))\<lparr>lit := ''newline'', tok := T_Semi\<rparr>, False)"
    by (intro pass_ok_tok) (simp_all add: l n assms semi_tokens_def)
  show "pass_ok nl s (scan_slash nl s)"
    unfolding scan_slash_def Let_def
    by (intro pass_ok_if f pass_ok_redo l pass_ok_ops(10) assms) (simp_all add: n)
  have h: "eats s (nextch (s\<lparr>tok := T_Hash\<rparr>))"
    using eats_nextch [of "s\<lparr>tok := T_Hash\<rparr>"] assms by (simp add: eats_def)
  have "pass_ok nl s (nextch (s\<lparr>tok := T_Hash\<rparr>), False)"
    by (intro pass_ok_tok) (simp_all add: h assms semi_tokens_def)
  then show "pass_ok nl s (scan_hash s)"
    unfolding scan_hash_def by (intro pass_ok_if pass_ok_redo l) (simp_all add: n)
qed

text \<open>The case \<open>'.'\<close>, with its rewind.\<close>

lemma DecodeRune_ascii:
  assumes "DecodeRune p = (r, n)" "p \<noteq> []" "0 \<le> r" "r < 128"
  shows "n = 1" "p = byte_of r # tl p"
proof -
  have "n = 1 \<and> p = byte_of r # tl p"
    using assms(2)
  proof (cases rule: DecodeRune_cases)
    case invalid
    then show ?thesis using assms by (simp add: RuneError_def)
  next
    case (valid r' n')
    then have "take n p = [byte_of r]" "n \<le> length p" using assms EncodeRune_1 by auto
    then have "n = 1" by (metis One_nat_def length_Cons length_take list.size(3) min.absorb2)
    with \<open>take n p = [byte_of r]\<close> show ?thesis by (cases p) auto
  qed
  then show "n = 1" "p = byte_of r # tl p" by blast+
qed

lemma rewind_dot:
  fixes u s :: "'a scanner_scheme"
  assumes u: "ch u = 46" "ch_inv u" "seg_b u = int (rd_r u) - int (chw u)" "reads u s"
  shows "eats u (nextch (rewind s))" "nlsemi (rewind s) = nlsemi u"
proof -
  let ?p = "drop (rd_r u - chw u) (data u)"
  have d: "DecodeRune ?p = (46, chw u)" "chw u \<le> rd_r u" "rd_r u \<le> length (data u)" "0 < chw u"
    using u(1,2) by (auto simp: ch_inv_def)
  then have ne: "?p \<noteq> []" by auto
  have w: "chw u = 1" "?p = byte_of 46 # tl ?p" using DecodeRune_ascii [OF d(1) ne] by auto
  have at: "data u ! (rd_r u - 1) = byte_of 46" "0 < rd_r u"
    using w d by (auto simp: nth_via_drop)
  have f: "seg_b s = seg_b u" "data s = data u" "panicked s = panicked u"
    using u(4) by (auto simp: reads_def)
  define z where "z = s\<lparr>src_col := src_col s - (int (rd_r s) - seg_b s), rd_r := nat (seg_b s)\<rparr>"
  have b: "seg_b s = int (rd_r u) - 1" using f u(3) w(1) by simp
  then have rz: "rewind s = nextch z" and rd: "rd_r z = rd_r u - 1"
    using at by (auto simp: rewind_def z_def nat_diff_distrib')
  have "read_char (step_pos z) = ((step_pos z)\<lparr>ch := 46, rd_r := rd_r u, chw := 1\<rparr>, False)"
    using at d f rd by (simp add: read_char_def Let_def z_def rune_of_byte_of sentinel_def RuneSelf_def)
  then have n: "rewind s = (step_pos z)\<lparr>ch := 46, rd_r := rd_r u, chw := 1\<rparr>"
    unfolding rz by (subst nextch_unfold) simp
  then have r: "remaining (rewind s) = remaining u" "data (rewind s) = data u" "panicked (rewind s) = panicked u"
    "ch (rewind s) = 46" using u(1) f by (auto simp: remaining_def z_def)
  have "src_inv u \<Longrightarrow> src_inv (rewind s)" using u(4) rewind_src_inv [of s] by (auto simp: reads_def)
  then show "eats u (nextch (rewind s))"
    using eats_nextch [of "rewind s"] r by (auto simp: eats_def)
  have "nlsemi (rewind s) = nlsemi s" by (simp add: n z_def step_pos_def Let_def)
  then show "nlsemi (rewind s) = nlsemi u" using reads_fields(1) [OF u(4)] by simp
qed

lemma pass_ok_dot:
  assumes "token_begin s" "src_inv s" "ch s = 46"
  shows "pass_ok nl s (scan_dot s, False)"
proof -
  have s: "\<not> nlsemi s" "ch_inv s" "seg_b s = int (rd_r s) - int (chw s)" using assms(1) by (auto simp: token_begin_def)
  have c: "ch s \<noteq> -1" using assms by simp
  have m: "marks (src_col s) (posn s) (-1) s" "seg_b s = posn s" "0 \<le> posn s"
    using assms(1,2) by (auto simp: token_begin_def marks_def src_inv_def posn_def src_pos_def colbase_def)
  have "panicked (number True (nextch s)) = panicked (nextch s)"
    by (rule number_panicked [OF marks_nextch [OF m(1)]]) (use m assms(3) in simp_all)
  then have p: "panicked (number True (nextch s)) = panicked s" by simp
  obtain t where t: "reads (snd (number_mantissa True (nextch s))) t" "lit_of t (number True (nextch s))"
    by (rule number_lit)
  have r: "reads (nextch s) t" using t(1) reads_trans reads_number_mantissa by blast
  have "pass_ok nl s (number True (nextch s), False)"
    using t(2) lit_of_eats [OF t(2) p eats_reads [OF eats_nextch [OF c] r]] lit_of_seg [OF t(2)] r
    by (intro pass_ok_lit) (auto simp: lit_of_def reads_def)
  moreover note rewind_dot [OF assms(3) s(2,3) reads_nextch_trans [OF reads_nextch]]
  ultimately show ?thesis unfolding scan_dot_def Let_def using s(1) c
    by (auto simp: semi_tokens_def intro!: pass_ok_tok eats_step eats_nextch)
qed

lemma pass_ok_eof:
  assumes "\<not> nlsemi s" "ch s = -1"
  shows "pass_ok nl s (if nl then s\<lparr>lit := l, tok := T_Semi\<rparr> else s\<lparr>tok := T_EOF\<rparr>, False)"
  using assms by (simp add: pass_ok_def good_tok_def semi_tokens_def)

lemma pass_ok_switch:
  assumes "token_begin s" "src_inv s"
  shows "pass_ok nl s (scan_switch nl s)"
proof -
  have s: "\<not> nlsemi s" "ch_inv s" "seg_b s = int (rd_r s) - int (chw s)"
    using assms by (auto simp: token_begin_def)
  have b: "0 \<le> seg_b s" using s(3) assms(2) by (simp add: src_inv_def)
  have inv: "ch s \<noteq> -1 \<Longrightarrow> pass_ok nl s (nextch (errorf m s), True)" for m
    using eats_nextch [of "errorf m s"] reads_eats [OF reads_errors(1) [where s = s and m = m]]
      reads_fields(1) [OF reads_errors(1) [where s = s and m = m]]
    by (intro pass_ok_redo) (simp_all add: errorf_def)
  show ?thesis
    unfolding scan_switch_def
    by (intro pass_ok_if pass_ok_eof pass_ok_ops pass_ok_strings pass_ok_number pass_ok_delim
        pass_ok_close pass_ok_comments pass_ok_dot inv s b assms)
      (simp_all add: semi_tokens_def)
qed

text \<open>Identifiers and keywords.\<close>

lemma keyword_not_semi:
  assumes "keyword_lookup l = Some t"
  shows "contains (tokset_of [T_Break, T_Continue, T_Fallthrough, T_Return]) t \<longleftrightarrow> t \<in> set semi_tokens"
    "t \<noteq> T_Literal" "t \<noteq> T_EOF"
proof -
  have "t \<in> set keyword_tokens" using assms keyword_lookup_iff by blast
  then show "contains (tokset_of [T_Break, T_Continue, T_Fallthrough, T_Return]) t \<longleftrightarrow> t \<in> set semi_tokens"
    "t \<noteq> T_Literal" "t \<noteq> T_EOF"
    by (auto simp: keyword_tokens_def semi_tokens_def contains_tokset_of)
qed

lemma pass_ok_ident:
  assumes "\<not> nlsemi s" "src_inv s" "0 \<le> seg_b s" "reads s t" "ch t \<noteq> -1"
  shows "pass_ok nl s (ident (nextch t), False)"
proof -
  define u where "u = (let u = skip_while (\<lambda>c. isLetter c \<or> isDecimal c) (nextch t) in
     if ch u \<ge> RuneSelf then ident_loop u else u)"
  have r: "reads (nextch t) u"
    unfolding u_def Let_def by (intro reads_if reads_trans [OF reads_skip_while reads_ident_loop] reads_skip_while)
  have e: "eats s u" using assms(4,5) reads_eats [OF _ eats_reads [OF eats_nextch r]] by blast
  have n: "\<not> nlsemi u" using reads_fields(1) [OF r] reads_fields(1) [OF assms(4)] assms(1) by simp
  have k: "check_segment u = u"
    by (rule check_segment_reads [OF reads_trans [OF reads_trans [OF assms(4) reads_nextch] r] assms(2,3)])
  have "pass_ok nl s (classify_ident l u, False)" for l
  proof (cases "keyword_lookup l")
    case None
    then show ?thesis unfolding classify_ident_def option.case
      by (simp only: option.case) (intro pass_ok_if_state pass_ok_tok; simp add: e n semi_tokens_def)
  next
    case (Some k)
    then show ?thesis using keyword_not_semi [OF Some] e
      by (auto simp: classify_ident_def intro!: pass_ok_tok)
  qed
  then show ?thesis using k by (simp add: ident_def u_def Let_def)
qed

lemma pass_ok_reads:
  fixes s u :: "'a scanner_scheme"
  assumes "pass_ok nl u r" "reads s u" "ch u = ch s" "remaining u = remaining s" "ch_inv u"
  shows "pass_ok nl s r"
proof -
  obtain t redo where r: "r = (t, redo)" by fastforce
  have e: "eats u t \<Longrightarrow> eats s t" by (rule reads_eats [OF assms(2)])
  have f: "nlsemi u = nlsemi s" "seg_b u = seg_b s" "data u = data s" "panicked u = panicked s"
    "src_inv s \<longrightarrow> src_inv u"
    using reads_fields [OF assms(2)] assms(2) by (auto simp: reads_def)
  show ?thesis using assms(1,3-5) e f unfolding pass_ok_def r by auto
qed

subsection \<open>next\<close>

text \<open>The reader is at a character of the input, or has not read anything yet.\<close>

definition read_ok :: "'a source_scheme \<Rightarrow> bool" where
  "read_ok s \<longleftrightarrow> src_inv s \<and> (ch_inv s \<or> ch s = 32)"

lemma skip_while_ch_inv:
  "src_inv s \<Longrightarrow> ch_inv s \<or> 0 \<le> ch s \<and> P (ch s) \<Longrightarrow> ch_inv (skip_while P s)"
proof (induction P s rule: skip_while.induct)
  case (1 P s)
  then show ?case by (subst skip_while.simps) (auto simp: nextch_src_inv nextch_ch_inv_src)
qed

lemma token_start_ok:
  assumes "read_ok s" "\<not> nlsemi s"
  shows "token_begin (token_start nl s)" "src_inv (token_start nl s)" "data (token_start nl s) = data s"
    "panicked (token_start nl s) = panicked s" "remaining (token_start nl s) \<le> remaining s"
proof -
  define u where "u = skip_while (isSpace nl) (stop s)"
  define v where "v = u\<lparr>line := fst (src_pos u), col := snd (src_pos u),
     blank := fst (src_pos u) > fst (src_pos (stop s)) \<or> snd (src_pos (stop s)) = colbase\<rparr>"
  have t: "token_start nl s = start v"
    by (simp add: token_start_def Let_def case_prod_beta u_def v_def)
  have r: "reads (stop s) u" by (simp add: u_def)
  have i: "src_inv (stop s)" "ch_inv (stop s) \<or> 0 \<le> ch (stop s) \<and> isSpace nl (ch (stop s))"
    using assms by (auto simp: read_ok_def isSpace_def stop_src_inv)
  have u: "src_inv u" "ch_inv u" "data u = data s" "panicked u = panicked s" "remaining u \<le> remaining s"
    using r i skip_while_ch_inv [of "stop s" "isSpace nl"] by (auto simp: reads_def u_def)
  have n: "\<not> nlsemi u" using reads_fields(1) [OF r] assms(2) by (simp add: stop_def)
  have v: "src_inv v" "ch_inv v" "data v = data s" "panicked v = panicked s" "remaining v \<le> remaining s" "\<not> nlsemi v"
    using u n by (simp_all add: v_def) (simp_all add: src_inv_def ch_inv_def)
  then show "token_begin (token_start nl s)" "src_inv (token_start nl s)" "data (token_start nl s) = data s"
    "panicked (token_start nl s) = panicked s" "remaining (token_start nl s) \<le> remaining s"
    unfolding t by (auto simp: token_begin_def start_src_inv) (simp_all add: start_def v_def src_pos_def)
qed

lemma pass_ok_token:
  assumes "token_begin s" "src_inv s"
  shows "pass_ok nl s
     (if isLetter (ch s) then (ident (nextch s), False)
      else if ch s \<ge> RuneSelf then
        let (ok, s) = atIdentChar True s in
        if ok then (ident (nextch s), False) else scan_switch nl s
      else scan_switch nl s)"
proof -
  have n: "\<not> nlsemi s" "ch_inv s" using assms by (auto simp: token_begin_def)
  obtain ok u where u: "atIdentChar True s = (ok, u)" by fastforce
  have r: "reads s u" "remaining u = remaining s" using reads_atIdentChar [of s True] u
    by (auto simp: atIdentChar_def split: if_splits)
  have c: "ch u = ch s" "rd_r u = rd_r s" "chw u = chw s" "src_pos u = src_pos s"
    using u by (auto simp: atIdentChar_def errorf_def src_pos_def split: if_splits)
  have ci: "ch_inv u" and si: "src_inv u" using r assms n by (auto simp: reads_def)
  have b: "0 \<le> seg_b s" using assms by (auto simp: token_begin_def src_inv_def)
  have "token_begin u"
    using r c ci n assms reads_fields [OF r(1)] by (auto simp: token_begin_def)
  from pass_ok_reads [OF pass_ok_switch [OF this si] r(1) c(1) r(2) ci]
  have sw: "pass_ok nl s (scan_switch nl u)" .
  have i1: "isLetter (ch s) \<Longrightarrow> pass_ok nl s (ident (nextch s), False)"
    using class_nonneg(1) [of "ch s"] by (intro pass_ok_ident n assms(2) b) auto
  have i2: "ch s \<ge> RuneSelf \<Longrightarrow> pass_ok nl s (ident (nextch u), False)"
    using c by (intro pass_ok_ident n r assms(2) b) (auto simp: RuneSelf_def)
  show ?thesis using i1 i2 sw pass_ok_switch [OF assms(1,2)] by (simp add: u)
qed

text \<open>The whole of \<open>next\<close>: the facts the properties are taken from.\<close>

definition next_ok :: "bool \<Rightarrow> 'a scanner_scheme \<Rightarrow> 'a scanner_scheme \<Rightarrow> bool" where
  "next_ok nl s t \<longleftrightarrow> good_tok t \<and> (tok t = T_Literal \<longrightarrow> lit t = segment t \<and> 0 \<le> seg_b t)
     \<and> src_inv t \<and> ch_inv t \<and> data t = data s \<and> panicked t = panicked s
     \<and> (remaining t < remaining s \<and> tok t \<noteq> T_EOF
        \<or> ch t = -1 \<and> tok t = (if nl then T_Semi else T_EOF) \<and> remaining t \<le> remaining s)"

lemma next_loop_ok: "read_ok s \<Longrightarrow> \<not> nlsemi s \<Longrightarrow> next_ok nl s (next_loop nl s)"
proof (induction nl s rule: next_loop.induct)
  case (1 nl s)
  note b = token_start_ok [OF "1.prems", of nl]
  obtain t redo where t: "scan_token nl s = (t, redo)" by fastforce
  have p: "pass_ok nl (token_start nl s) (t, redo)"
    using pass_ok_token [OF b(1,2), of nl] t by (simp add: scan_token_def Let_def)
  show ?case
  proof (cases redo)
    case True
    then have e: "eats (token_start nl s) t" "\<not> nlsemi t"
      using p b(1) by (auto simp: pass_ok_def token_begin_def)
    then have "read_ok t" using b(2) by (auto simp: eats_def read_ok_def)
    from "1.IH" [OF t [symmetric] refl True this e(2)] e(1) b
    show ?thesis using t True by (subst next_loop.simps) (auto simp: next_ok_def eats_def)
  next
    case False
    have sb: "0 \<le> seg_b (token_start nl s)"
      using b(1,2) by (auto simp: token_begin_def src_inv_def)
    show ?thesis using p b sb t False
      by (subst next_loop.simps) (auto simp: next_ok_def pass_ok_def eats_def token_begin_def)
  qed
qed

lemma next_tok_ok: "read_ok s \<Longrightarrow> next_ok (nlsemi s) s (next_tok s)"
  using next_loop_ok [of "s\<lparr>nlsemi := False\<rparr>" "nlsemi s"]
  by (simp add: next_tok_def read_ok_def next_ok_def)

subsection \<open>Scanning a source file\<close>

definition scan_n :: "string \<Rightarrow> nat \<Rightarrow> nat \<Rightarrow> scanner" where
  "scan_n inp m n = (next_tok ^^ n) (scanner_init inp m)"

lemma scanner_init_fields [simp]:
  "data (scanner_init inp m) = inp" "panicked (scanner_init inp m) = None" "ch (scanner_init inp m) = 32"
  "rd_r (scanner_init inp m) = 0" "chw (scanner_init inp m) = 0" "seg_b (scanner_init inp m) = -1"
  "nlsemi (scanner_init inp m) = False"
  by (simp_all add: scanner_init_def source_init_def source.extend_def)

lemma scan_n_ok: "read_ok (scan_n inp m n) \<and> data (scan_n inp m n) = inp \<and> panicked (scan_n inp m n) = None"
proof (induction n)
  case 0
  then show ?case by (simp add: scan_n_def read_ok_def src_inv_def)
next
  case (Suc n)
  with next_tok_ok [of "scan_n inp m n"] show ?case by (simp add: scan_n_def next_ok_def read_ok_def)
qed

lemma scan_n_step: "next_ok (nlsemi (scan_n inp m n)) (scan_n inp m n) (scan_n inp m (Suc n))"
  using next_tok_ok [of "scan_n inp m n"] scan_n_ok [of inp m n] by (simp add: scan_n_def)

text \<open>Each token shortens what is left to read, or is the one semicolon that the end of the input
  stands for.\<close>

definition budget :: "'a scanner_scheme \<Rightarrow> nat" where
  "budget s = 2 * remaining s + (if nlsemi s then 1 else 0)"

lemma budget_step:
  assumes "tok (scan_n inp m (Suc n)) \<noteq> T_EOF"
  shows "budget (scan_n inp m (Suc n)) < budget (scan_n inp m n)"
proof -
  let ?s = "scan_n inp m n" and ?t = "scan_n inp m (Suc n)"
  have ok: "next_ok (nlsemi ?s) ?s ?t" by (rule scan_n_step)
  then consider "remaining ?t < remaining ?s"
    | "nlsemi ?s" "tok ?t = T_Semi" "remaining ?t \<le> remaining ?s"
    using assms by (auto simp: next_ok_def split: if_splits)
  then show ?thesis
  proof cases
    case 2
    then have "\<not> nlsemi ?t" using ok by (auto simp: next_ok_def good_tok_def semi_tokens_def)
    with 2 show ?thesis by (simp add: budget_def)
  qed (auto simp: budget_def)
qed

lemma eof_within_budget: "\<exists>k \<le> budget (scan_n inp m n). tok (scan_n inp m (Suc (n + k))) = T_EOF"
proof (induction "budget (scan_n inp m n)" arbitrary: n rule: less_induct)
  case less
  show ?case
  proof (cases "tok (scan_n inp m (Suc n)) = T_EOF")
    case True
    then show ?thesis by (intro exI [of _ 0]) simp
  next
    case False
    from budget_step [OF False] less [of "Suc n"] obtain k where
      "k \<le> budget (scan_n inp m (Suc n))" "tok (scan_n inp m (Suc (Suc n + k))) = T_EOF" by blast
    with budget_step [OF False] show ?thesis by (intro exI [of _ "Suc k"]) simp
  qed
qed

subsection \<open>Properties\<close>

text \<open>C12: scanning ends: on every input, in every mode, the end-of-file token is returned after at
  most twice as many calls of \<open>next\<close> as the input has bytes, plus three.\<close>

theorem scanning_terminates: "\<exists>n \<le> 2 * length inp + 3. tok (scan_n inp m n) = T_EOF"
proof -
  have "budget (scan_n inp m 0) = 2 * length inp + 2"
    by (simp add: scan_n_def budget_def remaining_def)
  then obtain k where "k \<le> 2 * length inp + 2" "tok (scan_n inp m (Suc k)) = T_EOF"
    using eof_within_budget [of inp m 0] by auto
  then show ?thesis by (intro exI [of _ "Suc k"]) simp
qed

text \<open>C3: semicolon insertion: after every token the scanner is ready to turn a newline into a
  semicolon exactly if the token is a name, a literal, one of the keywords break, continue, fallthrough and
  return, an increment or decrement operator, or a closing bracket.\<close>

theorem semicolon_rule:
  "nlsemi (scan_n inp m (Suc n)) \<longleftrightarrow> tok (scan_n inp m (Suc n)) \<in> set semi_tokens"
  using scan_n_step [of inp m n] by (simp add: next_ok_def good_tok_def)

text \<open>When the scanner is ready for it, a newline or the end of the input is returned as a
  semicolon that says which of the two it was.\<close>

lemma newline_becomes_semicolon:
  assumes "nlsemi s" "ch s = 10 \<or> ch s = -1"
  shows "tok (next_tok s) = T_Semi \<and> lit (next_tok s) = (if ch s = 10 then ''newline'' else ''EOF'')"
proof -
  let ?s = "s\<lparr>nlsemi := False\<rparr>"
  have "skip_while (isSpace True) (stop ?s) = stop ?s"
    using assms(2) by (subst skip_while.simps) (auto simp: isSpace_def)
  then have c: "ch (token_start True ?s) = ch s"
    by (simp add: token_start_def Let_def case_prod_beta)
  let ?t = "token_start True ?s"
  have nl: "\<not> isLetter (ch s)" "\<not> ch s \<ge> RuneSelf"
    using assms(2) by (auto simp: isLetter_def lower_def RuneSelf_def)
  have s: "scan_token True ?s = scan_switch True ?t"
    unfolding scan_token_def Let_def c using nl by simp
  show ?thesis
  proof (cases "ch s = 10")
    case True
    then have "scan_switch True ?t = ((nextch ?t)\<lparr>lit := ''newline'', tok := T_Semi\<rparr>, False)"
      unfolding scan_switch_def c by simp
    then show ?thesis
      unfolding next_tok_def assms(1) [THEN eqTrueI] by (subst (1 2) next_loop.simps) (simp add: s True)
  next
    case False
    then have e: "ch s = -1" using assms(2) by simp
    then have "scan_switch True ?t = (?t\<lparr>lit := ''EOF'', tok := T_Semi\<rparr>, False)"
      unfolding scan_switch_def c by simp
    then show ?thesis
      unfolding next_tok_def assms(1) [THEN eqTrueI] by (subst (1 2) next_loop.simps) (simp add: s e)
  qed
qed

lemma newline_becomes_semicolon_witness:
  "let s = next_tok (scanner_init (''x'' @ [CHR 10]) 0) in
   nlsemi s \<and> ch s = 10 \<and> tok (next_tok s) = T_Semi \<and> lit (next_tok s) = ''newline''"
proof -
  let ?s = "next_tok (scanner_init (''x'' @ [CHR 10]) 0)"
  have s: "nlsemi ?s" "ch ?s = 10" by code_simp+
  from newline_becomes_semicolon [of ?s] s show ?thesis by (simp add: Let_def)
qed

text \<open>The text of a literal token is the slice of the input from the start of the token to the
  current character, within the bounds of the input.\<close>

lemma literal_text:
  assumes "tok (scan_n inp m (Suc n)) = T_Literal"
  shows "let s = scan_n inp m (Suc n); b = nat (seg_b s); e = rd_r s - chw s in
    b \<le> e \<and> e \<le> length inp \<and> lit s = take (e - b) (drop b inp)"
proof -
  let ?s = "scan_n inp m (Suc n)"
  have o: "lit ?s = segment ?s" "0 \<le> seg_b ?s" "src_inv ?s" "data ?s = inp"
    using scan_n_step [of inp m n] scan_n_ok [of inp m n] assms by (auto simp: next_ok_def)
  then have "nat (int (rd_r ?s) - int (chw ?s) - seg_b ?s) = rd_r ?s - chw ?s - nat (seg_b ?s)"
    "nat (seg_b ?s) \<le> rd_r ?s - chw ?s" "rd_r ?s - chw ?s \<le> length inp"
    by (auto simp: src_inv_def)
  with o(1,4) show ?thesis by (simp add: Let_def segment_def)
qed

lemma literal_text_witness:
  "tok (scan_n ''12+3'' 0 (Suc 0)) = T_Literal \<and>
   (let s = scan_n ''12+3'' 0 (Suc 0); b = nat (seg_b s); e = rd_r s - chw s in
    b \<le> e \<and> e \<le> length ''12+3'' \<and> lit s = take (e - b) (drop b ''12+3''))"
proof -
  have t: "tok (scan_n ''12+3'' 0 (Suc 0)) = T_Literal" by code_simp
  from t literal_text [OF t] show ?thesis by blast
qed

text \<open>C27: no input makes the scanner panic, and the reader's indices are in bounds after every token.  The panics are those of
  the slice that \<open>segment\<close> takes, of the index of an invalid digit in the literal, of \<open>baseName\<close> for a base without a name and of
  \<open>rewind\<close> without a segment.\<close>

theorem scanner_safe: "panicked (scan_n inp m n) = None \<and> src_inv (scan_n inp m n)"
  using scan_n_ok [of inp m n] by (simp add: read_ok_def)

subsection \<open>Goo's additions to the tokens\<close>

text \<open>The tokens of an input with their texts and lines, for evaluation.\<close>

fun scan_list :: "nat \<Rightarrow> scanner \<Rightarrow> (token \<times> string \<times> nat) list" where
  "scan_list 0 s = []"
| "scan_list (Suc k) s =
     (let s = next_tok s in if tok s = T_EOF then [] else (tok s, lit s, line s) # scan_list k s)"

text \<open>The words \<open>and\<close>, \<open>or\<close>, \<open>not\<close> and the characters for not-equal and logical not are operators with the
  precedence of the operators they stand for, and the empty-set letter is the name \<open>nil\<close>; no keyword
  is affected.\<close>

theorem word_operators:
  "tok (classify_ident ''and'' s) = T_Operator \<and> op (classify_ident ''and'' s) = Op_AndAnd
     \<and> prec (classify_ident ''and'' s) = precAndAnd
   \<and> tok (classify_ident ''or'' s) = T_Operator \<and> op (classify_ident ''or'' s) = Op_OrOr
     \<and> prec (classify_ident ''or'' s) = precOrOr
   \<and> tok (classify_ident ''not'' s) = T_Operator \<and> op (classify_ident ''not'' s) = Op_Not
   \<and> tok (classify_ident utf8_ne s) = T_Operator \<and> op (classify_ident utf8_ne s) = Op_Neq
     \<and> prec (classify_ident utf8_ne s) = precCmp
   \<and> tok (classify_ident utf8_not s) = T_Operator \<and> op (classify_ident utf8_not s) = Op_Not
   \<and> tok (classify_ident utf8_oslash s) = T_Name \<and> lit (classify_ident utf8_oslash s) = ''nil''"
proof -
  have k: "keyword_lookup ''and'' = None" "keyword_lookup ''or'' = None" "keyword_lookup ''not'' = None"
    "keyword_lookup utf8_ne = None" "keyword_lookup utf8_not = None" "keyword_lookup utf8_oslash = None"
    by code_simp+
  note k = k [unfolded utf8_ne_def utf8_not_def utf8_oslash_def]
  show ?thesis unfolding utf8_ne_def utf8_not_def utf8_oslash_def
    by (simp add: classify_ident_def k utf8_ne_def utf8_not_def utf8_oslash_def)
qed

text \<open>A number sign is a comment to the end of the line only in the first column; after white space
  it is the token \<open>_Hash\<close>.\<close>

lemma hash_comment_only_in_first_column:
  "scan_list 9 (scanner_init (''x'' @ [CHR 10] @ ''# c'' @ [CHR 10] @ ''y'') 0)
     = [(T_Name, ''x'', 1), (T_Semi, ''newline'', 1), (T_Name, ''y'', 3), (T_Semi, ''EOF'', 3)]
   \<and> scan_list 9 (scanner_init (''x'' @ [CHR 10] @ '' # c'') 0)
     = [(T_Name, ''x'', 1), (T_Semi, ''newline'', 1), (T_Hash, ''newline'', 2), (T_Name, ''c'', 2),
        (T_Semi, ''EOF'', 2)]"
  by code_simp

text \<open>Without white space around them, the operator characters for not-equal and logical not are
  part of the identifier they touch.\<close>

lemma operator_characters_in_identifiers:
  "scan_list 9 (scanner_init (''a'' @ utf8_ne @ ''b'') 0)
     = [(T_Name, ''a'' @ utf8_ne @ ''b'', 1), (T_Semi, ''EOF'', 1)]
   \<and> scan_list 9 (scanner_init (utf8_not @ ''b'') 0) = [(T_Name, utf8_not @ ''b'', 1), (T_Semi, ''EOF'', 1)]"
  by code_simp

text \<open>A directive comment that starts with a number sign is handed to the handler with a text that
  does not start with a slash.\<close>

lemma hash_directive_text:
  "map (\<lambda>(l, c, m, b). m) (errs (next_tok (scanner_init (''#go:noinline'' @ [CHR 10]) directives)))
     = [''#go:noinline'']"
  by code_simp

text \<open>Two dots before a newline: the rewind counts the newline although it is read again, and the
  next line is numbered 3 instead of 2.\<close>

lemma rewind_counts_newline_twice:
  "scan_list 9 (scanner_init (''..'' @ [CHR 10] @ ''x'') 0)
     = [(T_Dot, [], 1), (T_Dot, [], 2), (T_Name, ''x'', 3), (T_Semi, ''EOF'', 3)]"
  by code_simp

end
