(* ===== verification/Parser_State.thy ===== *)
theory Parser_State
  imports Branches Scanner_Props
begin

text \<open>
  The parser's state and the methods that every production uses: errors, directives, the current
  token, and lists (\<open>parser.go\<close> up to \<open>Package files\<close>, and \<open>list\<close>).

  The record \<open>parser\<close> has the fields of the Go struct (without the tracing support), and after them
  what the Go program keeps outside of it: the position bases, the calls of the error
  handler and of the pragma handler, counters for the addresses of statements and groups, the branch
  targets, and the two outcomes a Go program cannot look at: a panic, and not returning.  After a
  panic the model goes on, and \<open>Parse\<close> discards what it computes then.  The code of other
  packages is in \<open>externs\<close>: the printer, and the version of a build constraint.
\<close>

subsection \<open>State\<close>

type_synonym syntax_error = "Pos \<times> string"
type_synonym pragma_call = "Pos \<times> bool \<times> string \<times> nat option"

record externs =
  x_String :: "Expr \<Rightarrow> string"
  x_StmtString :: "Stmt \<Rightarrow> string"
  x_GoVersion :: "string \<Rightarrow> string option"

datatype panic = PanicError syntax_error | PanicNil

record parser =
  ps_file :: base_ref
  ps_errh :: bool
  ps_mode :: uint64
  ps_pragh :: "(pragma_call list \<Rightarrow> nat option) option"
  ps_scan :: scanner
  ps_base :: base_ref
  ps_first :: "syntax_error option"
  ps_errcnt :: nat
  ps_pragma :: "nat option"
  ps_goVersion :: string
  ps_top :: bool
  ps_fnest :: int
  ps_xnest :: int
  ps_bases :: bases
  ps_errs :: "syntax_error list"
  ps_pragcalls :: "pragma_call list"
  ps_addr :: addr
  ps_group :: nat
  ps_targets :: "(addr \<times> addr) list"
  ps_panic :: "panic option"
  ps_stuck :: bool
  ps_ext :: externs

definition CheckBranches :: uint64 where "CheckBranches = 1"

definition cur_tok :: "parser \<Rightarrow> token" where "cur_tok p = tok (ps_scan p)"
definition cur_op :: "parser \<Rightarrow> Operator" where "cur_op p = op (ps_scan p)"

definition HasPrefix :: "string \<Rightarrow> string \<Rightarrow> bool" where
  "HasPrefix s t \<longleftrightarrow> take (length t) s = t"

subsection \<open>Errors\<close>

definition posAt :: "nat \<Rightarrow> nat \<Rightarrow> parser \<Rightarrow> Pos" where
  "posAt l c p = MakePos (ps_base p) (of_nat l) (of_nat c)"

definition cur_pos :: "parser \<Rightarrow> Pos" where
  "cur_pos p = posAt (line (ps_scan p)) (col (ps_scan p)) p"

definition raise_panic :: "panic \<Rightarrow> parser \<Rightarrow> parser" where
  "raise_panic e p = (case ps_panic p of None \<Rightarrow> p\<lparr>ps_panic := Some e\<rparr> | Some _ \<Rightarrow> p)"

definition errorAt :: "Pos \<Rightarrow> string \<Rightarrow> parser \<Rightarrow> parser" where
  "errorAt pos msg p =
     (let err = (pos, msg);
          p = (case ps_first p of None \<Rightarrow> p\<lparr>ps_first := Some err\<rparr> | Some _ \<Rightarrow> p);
          p = p\<lparr>ps_errcnt := ps_errcnt p + 1\<rparr>
      in if \<not> ps_errh p then raise_panic (PanicError (the (ps_first p))) p
         else p\<lparr>ps_errs := ps_errs p @ [err]\<rparr>)"

definition tokstring :: "token \<Rightarrow> string" where
  "tokstring t =
     (if t = T_Comma then ''comma''
      else if t = T_Semi then ''semicolon or newline''
      else let s = token_String t in
        if token_num T_Break \<le> token_num t \<and> token_num t \<le> token_num T_Var then ''keyword '' @ s else s)"

text \<open>The text of the current token in a message.\<close>

definition unexpected_tok :: "parser \<Rightarrow> string" where
  "unexpected_tok p =
     (let s = ps_scan p in
      if tok s = T_Name then ''name '' @ lit s
      else if tok s = T_Semi then lit s
      else if tok s = T_Literal then ''literal '' @ lit s
      else if tok s = T_Operator then Operator_String (op s)
      else if tok s = T_AssignOp then Operator_String (op s) @ ''=''
      else if tok s = T_IncOp then Operator_String (op s) @ Operator_String (op s)
      else tokstring (tok s))"

definition syntaxErrorAt :: "Pos \<Rightarrow> string \<Rightarrow> parser \<Rightarrow> parser" where
  "syntaxErrorAt pos msg p =
     (if cur_tok p = T_EOF \<and> ps_first p \<noteq> None then p
      else if msg = [] then errorAt pos (''syntax error: unexpected '' @ unexpected_tok p) p
      else if HasPrefix msg ''in '' \<or> HasPrefix msg ''at '' \<or> HasPrefix msg ''after '' then
        errorAt pos (''syntax error: unexpected '' @ unexpected_tok p @ '' '' @ msg) p
      else if HasPrefix msg ''expected '' then
        errorAt pos (''syntax error: unexpected '' @ unexpected_tok p @ '', '' @ msg) p
      else errorAt pos (''syntax error: '' @ msg) p)"

definition syntaxError :: "string \<Rightarrow> parser \<Rightarrow> parser" where
  "syntaxError msg p = syntaxErrorAt (cur_pos p) msg p"

definition error_p :: "string \<Rightarrow> parser \<Rightarrow> parser" where
  "error_p msg p = errorAt (cur_pos p) msg p"

subsection \<open>Directives\<close>

text \<open>\<open>strconv.ParseUint(s, 10, 0)\<close> on a 64-bit machine: the value, and whether there was no error.\<close>

definition parse_cutoff :: uint64 where "parse_cutoff = (-1) div 10 + 1"

fun parse_digits :: "string \<Rightarrow> uint64 \<Rightarrow> uint64 \<times> bool" where
  "parse_digits [] n = (n, True)"
| "parse_digits (c # cs) n =
     (if \<not> (48 \<le> rune_of c \<and> rune_of c \<le> 57) then (0, False)
      else if n \<ge> parse_cutoff then (-1, False)
      else let m = n * 10; n1 = m + of_int (rune_of c - 48) in
        if n1 < m then (-1, False) else parse_digits cs n1)"

definition ParseUint :: "string \<Rightarrow> uint64 \<times> bool" where
  "ParseUint s = (if s = [] then (0, False) else parse_digits s 0)"

fun last_index_from :: "nat \<Rightarrow> char \<Rightarrow> string \<Rightarrow> nat option" where
  "last_index_from i c [] = None"
| "last_index_from i c (x # xs) =
     (case last_index_from (Suc i) c xs of Some j \<Rightarrow> Some j | None \<Rightarrow> if x = c then Some i else None)"

definition LastIndexByte :: "string \<Rightarrow> char \<Rightarrow> nat option" where
  "LastIndexByte s c = last_index_from 0 c s"

definition trailingDigits :: "string \<Rightarrow> nat \<times> uint64 \<times> bool" where
  "trailingDigits text =
     (case LastIndexByte text (CHR '':'') of
        None \<Rightarrow> (0, 0, False)
      | Some i \<Rightarrow> let (n, ok) = ParseUint (drop (i + 1) text) in (i + 1, n, ok))"

definition commentText :: "string \<Rightarrow> string" where
  "commentText s =
     (if take 2 s = ''/*'' then drop 2 (take (length s - 2) s)
      else drop 2 (if last s = CHR 13 then butlast s else s))"

text \<open>The end of \<open>updateBase\<close>, once the line and the column have been separated.\<close>

definition set_line_base ::
    "Pos \<Rightarrow> nat \<Rightarrow> nat \<Rightarrow> string \<Rightarrow> nat \<Rightarrow> uint64 \<Rightarrow> uint64 \<Rightarrow> bool \<Rightarrow> parser \<Rightarrow> parser" where
  "set_line_base pos tline tcol text i l c ok2 p =
     (if l = 0 \<or> l > PosMax then
        errorAt (posAt tline (tcol + i) p) (''invalid line number: '' @ drop i text) p
      else
        let filename = take (i - 1) text;
            (filename, trimmed) =
              (if filename = [] \<and> ok2
               then (base_Filename (ps_bases p) (ps_base p), base_Trimmed (ps_bases p) (ps_base p))
               else (filename, False));
            (B, b) = NewLineBase pos filename trimmed l c (ps_bases p)
        in p\<lparr>ps_bases := B, ps_base := b\<rparr>)"

definition updateBase :: "Pos \<Rightarrow> nat \<Rightarrow> nat \<Rightarrow> string \<Rightarrow> parser \<Rightarrow> parser" where
  "updateBase pos tline tcol text p =
     (let (i, n, ok) = trailingDigits text in
      if i = 0 then p
      else if \<not> ok then
        errorAt (posAt tline (tcol + i) p) (''invalid line number: '' @ drop i text) p
      else
        let (i2, n2, ok2) = trailingDigits (take (i - 1) text) in
        if ok2 then
          if n = 0 \<or> n > PosMax then
            errorAt (posAt tline (tcol + i) p) (''invalid column number: '' @ drop i text) p
          else set_line_base pos tline tcol (take (i - 1) text) i2 n2 n True p
        else set_line_base pos tline tcol text i n 0 False p)"

text \<open>A call of the pragma handler; its result may depend on all calls so far.\<close>

definition call_pragh :: "(pragma_call list \<Rightarrow> nat option) \<Rightarrow> pragma_call \<Rightarrow> parser \<Rightarrow> nat option \<times> parser" where
  "call_pragh h c p = (h (ps_pragcalls p @ [c]), p\<lparr>ps_pragcalls := ps_pragcalls p @ [c]\<rparr>)"

text \<open>The handler that \<open>init\<close> gives to the scanner.\<close>

definition handle_call :: "errh_call \<Rightarrow> parser \<Rightarrow> parser" where
  "handle_call ev p =
     (case ev of (l, c, msg, bl) \<Rightarrow>
      if take 1 msg \<noteq> ''/'' then errorAt (posAt l c p) msg p
      else
        let text = commentText msg in
        if (c = colbase \<or> msg ! 1 = CHR ''*'') \<and> HasPrefix text ''line '' then
          updateBase
            (if msg ! 1 = CHR ''/'' then MakePos (ps_file p) (of_nat l + 1) (of_nat colbase)
             else MakePos (ps_file p) (of_nat l) (of_nat c + of_nat (length msg)))
            l (c + 2 + 5) (drop 5 text) p
        else if HasPrefix text ''go:'' then
          let p = (if ps_top p \<and> HasPrefix msg ''//go:build'' then
                     (case x_GoVersion (ps_ext p) msg of
                        Some v \<Rightarrow> p\<lparr>ps_goVersion := v\<rparr> | None \<Rightarrow> p)
                   else p)
          in (case ps_pragh p of
                None \<Rightarrow> p
              | Some h \<Rightarrow>
                  let (r, p) = call_pragh h (posAt l (c + 2) p, bl, text, ps_pragma p) p
                  in p\<lparr>ps_pragma := r\<rparr>)
        else p)"

definition clear_pragma :: "parser \<Rightarrow> parser" where
  "clear_pragma p =
     (case ps_pragma p of
        None \<Rightarrow> p
      | Some g \<Rightarrow>
          (case ps_pragh p of
             None \<Rightarrow> raise_panic PanicNil p
           | Some h \<Rightarrow>
               (snd (call_pragh h (cur_pos p, blank (ps_scan p), [], Some g) p))\<lparr>ps_pragma := None\<rparr>))"

definition init_parser ::
    "externs \<Rightarrow> base_ref \<Rightarrow> bases \<Rightarrow> string \<Rightarrow> bool \<Rightarrow> (pragma_call list \<Rightarrow> nat option) option \<Rightarrow> uint64
       \<Rightarrow> parser" where
  "init_parser X file B src has_errh pragh m =
     \<lparr>ps_file = file, ps_errh = has_errh, ps_mode = m, ps_pragh = pragh,
      ps_scan = scanner_init src directives, ps_base = file, ps_first = None, ps_errcnt = 0,
      ps_pragma = None, ps_goVersion = [], ps_top = True, ps_fnest = 0, ps_xnest = 0, ps_bases = B,
      ps_errs = [], ps_pragcalls = [], ps_addr = 0, ps_group = 0, ps_targets = [], ps_panic = None,
      ps_stuck = False, ps_ext = X\<rparr>"

subsection \<open>Tokens\<close>

text \<open>
  The scanner calls the handler while it looks for the token; nothing it does depends on the
  handler, so the calls are made when it returns.
\<close>

definition next_p :: "parser \<Rightarrow> parser" where
  "next_p p =
     (let s = next_tok (ps_scan p) in
      fold handle_call (errs s) (p\<lparr>ps_scan := s\<lparr>errs := []\<rparr>\<rparr>))"

definition stopset :: "64 word" where
  "stopset = tokset_of [T_Break, T_Const, T_Continue, T_Defer, T_Fallthrough, T_For, T_Go, T_Goto,
     T_If, T_Return, T_Select, T_Switch, T_Type, T_Var]"

text \<open>More than the tokens that are left, see \<open>left_less_fuel\<close> below.\<close>

definition loop_fuel :: "parser \<Rightarrow> nat" where
  "loop_fuel p = budget (ps_scan p) + 2"

primrec skip_until :: "nat \<Rightarrow> 64 word \<Rightarrow> parser \<Rightarrow> parser" where
  "skip_until 0 followset p = p\<lparr>ps_stuck := True\<rparr>"
| "skip_until (Suc n) followset p =
     (if contains followset (cur_tok p) then p else skip_until n followset (next_p p))"

definition advance :: "token list \<Rightarrow> parser \<Rightarrow> parser" where
  "advance followlist p =
     (if followlist = [] then if contains (tokbit T_EOF) (cur_tok p) then p else next_p p
      else skip_until (loop_fuel p)
             (tokbit T_EOF OR (if ps_fnest p > 0 then stopset else 0) OR tokset_of followlist) p)"

subsection \<open>Productions\<close>

text \<open>A production returns its result and the new state.\<close>

type_synonym 'a P = "parser \<Rightarrow> 'a \<times> parser"

definition got :: "token \<Rightarrow> bool P" where
  "got t p = (if cur_tok p = t then (True, next_p p) else (False, p))"

definition want :: "token \<Rightarrow> parser \<Rightarrow> parser" where
  "want t p =
     (let (g, p) = got t p in
      if g then p
      else let p = syntaxError (''expected '' @ tokstring t) p in advance [] p)"

definition gotAssign :: "bool P" where
  "gotAssign p =
     (if cur_tok p = T_Define then let p = syntaxError ''expected ='' p in (True, next_p p)
      else if cur_tok p = T_Assign then (True, next_p p)
      else (False, p))"

definition takePragma :: "nat option P" where
  "takePragma p = (ps_pragma p, p\<lparr>ps_pragma := None\<rparr>)"

text \<open>\<open>p.xnest++\<close>, \<open>m\<close>, \<open>p.xnest--\<close>; and \<open>new\<close> for a statement or a group whose identity is observed.\<close>

definition nest :: "'a P \<Rightarrow> 'a P" where
  "nest m p =
     (let (x, p) = m (p\<lparr>ps_xnest := ps_xnest p + 1\<rparr>) in (x, p\<lparr>ps_xnest := ps_xnest p - 1\<rparr>))"

definition new_addr :: "addr P" where
  "new_addr p = (ps_addr p, p\<lparr>ps_addr := ps_addr p + 1\<rparr>)"

definition new_group :: "nat P" where
  "new_group p = (ps_group p, p\<lparr>ps_group := ps_group p + 1\<rparr>)"

text \<open>
  A loop \<open>for cond { body }\<close>: the body returns the new values of the variables, and whether the loop
  goes on (false for \<open>break\<close> and \<open>return\<close>).
\<close>

primrec while_n :: "nat \<Rightarrow> ('a \<Rightarrow> token \<Rightarrow> bool) \<Rightarrow> ('a \<Rightarrow> ('a \<times> bool) P) \<Rightarrow> 'a \<Rightarrow> 'a P" where
  "while_n 0 c b a p = (a, p\<lparr>ps_stuck := True\<rparr>)"
| "while_n (Suc n) c b a p =
     (if c a (cur_tok p) then
        let (r, p) = b a p in
        if snd r then while_n n c b (fst r) p else (fst r, p)
      else (a, p))"

definition while_p :: "('a \<Rightarrow> token \<Rightarrow> bool) \<Rightarrow> ('a \<Rightarrow> ('a \<times> bool) P) \<Rightarrow> 'a \<Rightarrow> 'a P" where
  "while_p c b a p = while_n (loop_fuel p) c b a p"

text \<open>\<open>list\<close>: the variables that the function argument assigns to are passed on as \<open>a\<close>.\<close>

definition list_body :: "string \<Rightarrow> token \<Rightarrow> token \<Rightarrow> ('a \<Rightarrow> ('a \<times> bool) P)
    \<Rightarrow> 'a \<times> bool \<times> Pos option \<Rightarrow> (('a \<times> bool \<times> Pos option) \<times> bool) P" where
  "list_body context sep close f v p =
     (let (w, p) = f (fst v) p;
          (g, p) = got sep p in
      if \<not> g \<and> cur_tok p \<noteq> close then
        let p = syntaxError (''in '' @ context @ ''; possibly missing '' @ tokstring sep
                  @ '' or '' @ tokstring close) p;
            p = advance [T_Rparen, T_Rbrack, T_Rbrace] p in
        if cur_tok p \<noteq> close then ((((fst w, snd w, Some (cur_pos p)), False)), p)
        else (((fst w, snd w, None), True), p)
      else (((fst w, snd w, None), True), p))"

definition list_p :: "string \<Rightarrow> token \<Rightarrow> token \<Rightarrow> ('a \<Rightarrow> ('a \<times> bool) P) \<Rightarrow> 'a \<Rightarrow> ('a \<times> Pos) P" where
  "list_p context sep close f a p =
     (let (r, p) = while_p (\<lambda>v t. t \<noteq> T_EOF \<and> t \<noteq> close \<and> \<not> fst (snd v))
                     (list_body context sep close f) (a, False, None) p in
      case snd (snd r) of
        Some ps \<Rightarrow> ((fst r, ps), p)
      | None \<Rightarrow>
          let ps = cur_pos p;
              p = want close p in ((fst r, ps), p))"

end
