(* ===== verification/Parser_Types.thy ===== *)
theory Parser_Types
  imports Parser_State
begin

text \<open>
  Names, types and parameters (\<open>parser.go\<close>, the sections on types and on common productions), with the
  functions on expressions they need.  The productions of the parser call each other in cycles;
  every cycle goes through one of the six productions of the record \<open>procs\<close>, which is the first
  argument of the productions that reach one.  \<open>Parser\<close> closes the cycles.
\<close>

record procs =
  r_binaryExpr :: "Expr option \<Rightarrow> nat \<Rightarrow> Expr P"
  r_unaryExpr :: "Expr P"
  r_typeOrNil :: "Expr option P"
  r_complitexpr :: "(Pos \<times> Expr list \<times> nat \<times> Pos) P"
  r_stmtOrNil :: "Stmt option P"
  r_ifStmt :: "Stmt P"

subsection \<open>Expressions\<close>

fun expr_pos :: "Expr \<Rightarrow> Pos" where
  "expr_pos (BadExpr p) = p"
| "expr_pos (NameE n) = n_pos n"
| "expr_pos (LitE b) = l_pos b"
| "expr_pos (CompositeLit p _ _ _ _) = p"
| "expr_pos (KeyValueExpr p _ _) = p"
| "expr_pos (FuncLit p _ _) = p"
| "expr_pos (ParenExpr p _) = p"
| "expr_pos (SelectorExpr p _ _) = p"
| "expr_pos (IndexExpr p _ _) = p"
| "expr_pos (SliceExpr p _ _ _ _ _) = p"
| "expr_pos (AssertExpr p _ _) = p"
| "expr_pos (TypeSwitchGuard p _ _) = p"
| "expr_pos (Operation p _ _ _) = p"
| "expr_pos (CallExpr p _ _ _) = p"
| "expr_pos (ListExpr p _) = p"
| "expr_pos (ArrayType p _ _) = p"
| "expr_pos (SliceType p _) = p"
| "expr_pos (DotsType p _) = p"
| "expr_pos (StructType p _ _) = p"
| "expr_pos (InterfaceType p _) = p"
| "expr_pos (FuncTypeE (FuncType p _ _)) = p"
| "expr_pos (MapType p _ _) = p"
| "expr_pos (ChanType p _ _) = p"

text \<open>\<open>StartPos\<close> of \<open>positions.go\<close>, on expressions.\<close>

fun StartPos :: "Expr \<Rightarrow> Pos" where
  "StartPos (CompositeLit p (Some t) _ _ _) = StartPos t"
| "StartPos (KeyValueExpr _ k _) = StartPos k"
| "StartPos (SelectorExpr _ x _) = StartPos x"
| "StartPos (IndexExpr _ x _) = StartPos x"
| "StartPos (AssertExpr _ x _) = StartPos x"
| "StartPos (TypeSwitchGuard _ (Some n) _) = n_pos n"
| "StartPos (TypeSwitchGuard _ None x) = StartPos x"
| "StartPos (Operation _ _ x (Some _)) = StartPos x"
| "StartPos (CallExpr _ f _ _) = StartPos f"
| "StartPos (ListExpr _ (e # _)) = StartPos e"
| "StartPos e = expr_pos e"

fun Unparen :: "Expr \<Rightarrow> Expr" where
  "Unparen (ParenExpr _ x) = Unparen x"
| "Unparen x = x"

fun is_ParenExpr :: "Expr \<Rightarrow> bool" where
  "is_ParenExpr (ParenExpr _ _) = True"
| "is_ParenExpr _ = False"

fun is_ListExpr :: "Expr \<Rightarrow> bool" where
  "is_ListExpr (ListExpr _ _) = True"
| "is_ListExpr _ = False"

fun is_ChanType :: "Expr \<Rightarrow> bool" where
  "is_ChanType (ChanType _ _ _) = True"
| "is_ChanType _ = False"

fun name_of :: "Expr \<Rightarrow> Name option" where
  "name_of (NameE n) = Some n"
| "name_of _ = None"

fun UnpackListExpr :: "Expr option \<Rightarrow> Expr list" where
  "UnpackListExpr None = []"
| "UnpackListExpr (Some (ListExpr _ es)) = es"
| "UnpackListExpr (Some e) = [e]"

fun isTypeElem :: "Expr \<Rightarrow> bool" where
  "isTypeElem (ArrayType _ _ _) = True"
| "isTypeElem (StructType _ _ _) = True"
| "isTypeElem (FuncTypeE _) = True"
| "isTypeElem (InterfaceType _ _) = True"
| "isTypeElem (SliceType _ _) = True"
| "isTypeElem (MapType _ _ _) = True"
| "isTypeElem (ChanType _ _ _) = True"
| "isTypeElem (Operation _ o1 x y) \<longleftrightarrow>
     isTypeElem x \<or> (case y of None \<Rightarrow> False | Some y \<Rightarrow> isTypeElem y) \<or> o1 = Op_Tilde"
| "isTypeElem (ParenExpr _ x) = isTypeElem x"
| "isTypeElem _ = False"

fun extractName :: "Expr \<Rightarrow> bool \<Rightarrow> Name option \<times> Expr option" where
  "extractName (NameE n) force = (Some n, None)"
| "extractName (Operation p o1 x (Some y)) force =
     (if o1 = Op_Mul then
        (case name_of x of
           Some n \<Rightarrow> if force \<or> isTypeElem y then (Some n, Some (Operation p o1 y None))
                     else (None, Some (Operation p o1 x (Some y)))
         | None \<Rightarrow> (None, Some (Operation p o1 x (Some y))))
      else if o1 = Op_Or then
        (case extractName x (force \<or> isTypeElem y) of
           (Some n, Some lhs) \<Rightarrow> (Some n, Some (Operation p o1 lhs (Some y)))
         | _ \<Rightarrow> (None, Some (Operation p o1 x (Some y))))
      else (None, Some (Operation p o1 x (Some y))))"
| "extractName (CallExpr p f [a] False) force =
     (case name_of f of
        Some n \<Rightarrow> if force \<or> isTypeElem a then (Some n, Some (Unparen a))
                  else (None, Some (CallExpr p f [a] False))
      | None \<Rightarrow> (None, Some (CallExpr p f [a] False)))"
| "extractName x force = (None, Some x)"

fun isValue :: "Expr \<Rightarrow> bool" where
  "isValue (LitE _) = True"
| "isValue (CompositeLit _ _ _ _ _) = True"
| "isValue (FuncLit _ _ _) = True"
| "isValue (SliceExpr _ _ _ _ _ _) = True"
| "isValue (AssertExpr _ _ _) = True"
| "isValue (TypeSwitchGuard _ _ _) = True"
| "isValue (CallExpr _ _ _ _) = True"
| "isValue (Operation _ o1 _ y) \<longleftrightarrow> o1 \<noteq> Op_Mul \<or> \<not> Option.is_none y"
| "isValue (ParenExpr _ x) = isValue x"
| "isValue (IndexExpr _ x i) \<longleftrightarrow> isValue x \<or> isValue i"
| "isValue _ = False"

definition newIndirect :: "Pos \<Rightarrow> Expr \<Rightarrow> Expr" where
  "newIndirect pos typ = Operation pos Op_Mul typ None"

subsection \<open>Common productions\<close>

definition badExpr :: "parser \<Rightarrow> Expr" where
  "badExpr p = BadExpr (cur_pos p)"

definition name_p :: "Name P" where
  "name_p p =
     (if cur_tok p = T_Name then
        let n = NewName (cur_pos p) (lit (ps_scan p));
            p = next_p p in (n, p)
      else
        let n = NewName (cur_pos p) ''_'';
            p = syntaxError ''expected name'' p;
            p = advance [] p in (n, p))"

definition nameList_body :: "Name list \<Rightarrow> (Name list \<times> bool) P" where
  "nameList_body l p =
     (let p = next_p p;
          (n, p) = name_p p in ((l @ [n], True), p))"

definition nameList :: "Name \<Rightarrow> Name list P" where
  "nameList fst_name p = while_p (\<lambda>l t. t = T_Comma) nameList_body [fst_name] p"

definition oliteral :: "BasicLit option P" where
  "oliteral p =
     (if cur_tok p = T_Literal then
        let b = \<lparr>l_pos = cur_pos p, l_value = lit (ps_scan p), l_kind = kind (ps_scan p),
                 l_bad = bad (ps_scan p)\<rparr>;
            p = next_p p in (Some b, p)
      else (None, p))"

definition expr :: "procs \<Rightarrow> Expr P" where
  "expr R p = r_binaryExpr R None 0 p"

definition exprList_body :: "procs \<Rightarrow> Expr list \<Rightarrow> (Expr list \<times> bool) P" where
  "exprList_body R l p =
     (let p = next_p p;
          (e, p) = expr R p in ((l @ [e], True), p))"

definition exprList :: "procs \<Rightarrow> Expr P" where
  "exprList R p =
     (let (x, p) = expr R p;
          (g, p) = got T_Comma p in
      if g then
        let (y, p) = expr R p;
            (l, p) = while_p (\<lambda>l t. t = T_Comma) (exprList_body R) [x, y] p in
        (ListExpr (expr_pos x) l, p)
      else (x, p))"

definition type_p :: "procs \<Rightarrow> Expr P" where
  "type_p R p =
     (let (t, p) = r_typeOrNil R p in
      case t of
        Some t \<Rightarrow> (t, p)
      | None \<Rightarrow>
          let t = badExpr p;
              p = syntaxError ''expected type'' p;
              p = advance [T_Comma, T_Colon, T_Semi, T_Rparen, T_Rbrack, T_Rbrace] p in (t, p))"

definition typeList_body :: "procs \<Rightarrow> Expr list \<Rightarrow> (Expr list \<times> bool) P" where
  "typeList_body R l p =
     (let p = next_p p;
          (t, p) = r_typeOrNil R p in
      case t of None \<Rightarrow> ((l, False), p) | Some t \<Rightarrow> ((l @ [t], True), p))"

definition typeList_rest :: "procs \<Rightarrow> Expr \<Rightarrow> (Expr \<times> bool) P" where
  "typeList_rest R x p =
     (let (g, p) = got T_Comma p in
      if g then
        let (t, p) = r_typeOrNil R p in
        case t of
          None \<Rightarrow> ((x, True), p)
        | Some t \<Rightarrow>
            let (l, p) = while_p (\<lambda>l t. t = T_Comma) (typeList_body R) [x, t] p in
            ((ListExpr (expr_pos x) l, True), p)
      else ((x, False), p))"

definition typeList :: "procs \<Rightarrow> bool \<Rightarrow> (Expr \<times> bool) P" where
  "typeList R strict p =
     nest (\<lambda>p. let (x, p) = (if strict then type_p R p else expr R p) in typeList_rest R x p) p"

definition typeInstance :: "procs \<Rightarrow> Expr \<Rightarrow> Expr P" where
  "typeInstance R typ p =
     (let pos = cur_pos p;
          p = want T_Lbrack p in
      if cur_tok p = T_Rbrack then
        let p = syntaxError ''expected type argument list'' p;
            i = badExpr p;
            p = want T_Rbrack p in (IndexExpr pos typ i, p)
      else
        let (i, p) = typeList R True p;
            p = want T_Rbrack p in (IndexExpr pos typ (fst i), p))"

definition qualified_rest :: "procs \<Rightarrow> Expr \<Rightarrow> Expr P" where
  "qualified_rest R x p =
     (let (x, p) =
        (if cur_tok p = T_Dot then
           let pos = cur_pos p;
               p = next_p p;
               (n, p) = name_p p in (SelectorExpr pos x n, p)
         else (x, p)) in
      if cur_tok p = T_Lbrack then typeInstance R x p else (x, p))"

definition qualifiedName :: "procs \<Rightarrow> Name option \<Rightarrow> Expr P" where
  "qualifiedName R name p =
     (case name of
        Some n \<Rightarrow> qualified_rest R (NameE n) p
      | None \<Rightarrow>
          if cur_tok p = T_Name then
            let (n, p) = name_p p in qualified_rest R (NameE n) p
          else
            let n = NewName (cur_pos p) ''_'';
                p = syntaxError ''expected name'' p;
                p = advance [T_Dot, T_Semi, T_Rbrace] p in qualified_rest R (NameE n) p)"

subsection \<open>Array, slice and channel types\<close>

definition arrayType :: "procs \<Rightarrow> Pos \<Rightarrow> Expr option \<Rightarrow> Expr P" where
  "arrayType R pos len p =
     (let (len, p) =
        (if Option.is_none len then
           let (g, p) = got T_DotDotDot p in
           if g then (None, p) else let (e, p) = nest (expr R) p in (Some e, p)
         else (len, p));
          p = (if cur_tok p = T_Comma then
                 let p = syntaxError ''unexpected comma; expected ]'' p in next_p p
               else p);
          p = want T_Rbrack p;
          (elem, p) = type_p R p in
      (ArrayType pos len elem, p))"

definition sliceType :: "procs \<Rightarrow> Pos \<Rightarrow> Expr P" where
  "sliceType R pos p = (let (elem, p) = type_p R p in (SliceType pos elem, p))"

definition chanElem :: "procs \<Rightarrow> Expr P" where
  "chanElem R p =
     (let (t, p) = r_typeOrNil R p in
      case t of
        Some t \<Rightarrow> (t, p)
      | None \<Rightarrow>
          let t = badExpr p;
              p = syntaxError ''missing channel element type'' p in (t, p))"

text \<open>\<open>arrayOrTArgs\<close>: an array or slice type, or the position and the arguments of an instance whose
  generic type the caller fills in.\<close>

definition arrayOrTArgs :: "procs \<Rightarrow> (Expr + Pos \<times> Expr) P" where
  "arrayOrTArgs R p =
     (let pos = cur_pos p;
          p = want T_Lbrack p;
          (g, p) = got T_Rbrack p in
      if g then let (t, p) = sliceType R pos p in (Inl t, p)
      else
        let (nc, p) = typeList R False p;
            p = want T_Rbrack p in
        if snd nc then (Inr (pos, fst nc), p)
        else
          let (elem, p) = r_typeOrNil R p in
          case elem of
            Some e \<Rightarrow> (Inl (ArrayType pos (Some (fst nc)) e), p)
          | None \<Rightarrow> (Inr (pos, fst nc), p))"

subsection \<open>Parameters\<close>

fun f_name :: "Field \<Rightarrow> Name option" where "f_name (Field _ n _) = n"
fun f_type :: "Field \<Rightarrow> Expr option" where "f_type (Field _ _ t) = t"
fun f_pos :: "Field \<Rightarrow> Pos" where "f_pos (Field p _ _) = p"
fun set_f_type :: "Expr option \<Rightarrow> Field \<Rightarrow> Field" where "set_f_type t (Field p n _) = Field p n t"

definition at_op :: "Operator \<Rightarrow> parser \<Rightarrow> bool" where
  "at_op o1 p \<longleftrightarrow> cur_tok p = T_Operator \<and> cur_op p = o1"

definition embeddedTerm :: "procs \<Rightarrow> Expr P" where
  "embeddedTerm R p =
     (if at_op Op_Tilde p then
        let pos = cur_pos p;
            p = next_p p;
            (t, p) = type_p R p in (Operation pos Op_Tilde t None, p)
      else
        let (t, p) = r_typeOrNil R p in
        case t of
          Some t \<Rightarrow> (t, p)
        | None \<Rightarrow>
            let t = badExpr p;
                p = syntaxError ''expected ~ term or type'' p;
                p = advance [T_Operator, T_Semi, T_Rparen, T_Rbrack, T_Rbrace] p in (t, p))"

definition embedded_body :: "procs \<Rightarrow> Expr \<Rightarrow> (Expr \<times> bool) P" where
  "embedded_body R x p =
     (if cur_op p = Op_Or then
        let pos = cur_pos p;
            p = next_p p;
            (y, p) = embeddedTerm R p in ((Operation pos Op_Or x (Some y), True), p)
      else ((x, False), p))"

text \<open>\<open>embeddedElem\<close> for a field with the given position, name and type.\<close>

definition embedded_more :: "procs \<Rightarrow> Pos \<Rightarrow> Name option \<Rightarrow> Expr \<Rightarrow> Field P" where
  "embedded_more R pos n t p =
     (let (t, p) = while_p (\<lambda>x t. t = T_Operator) (embedded_body R) t p in (Field pos n (Some t), p))"

definition embeddedElem :: "procs \<Rightarrow> Field option \<Rightarrow> Field P" where
  "embeddedElem R f p =
     (case f of
        Some (Field pos n (Some t)) \<Rightarrow> embedded_more R pos n t p
      | _ \<Rightarrow>
          let pos = cur_pos p;
              (t, p) = embeddedTerm R p in embedded_more R pos None t p)"

text \<open>The parts of \<open>paramDeclOrNil\<close>: after \<open>name [\<close>, after \<open>name .\<close>, and after an optional name.\<close>

definition embed_if_or :: "procs \<Rightarrow> bool \<Rightarrow> Field \<Rightarrow> Field P" where
  "embed_if_or R typeSetsOk f p =
     (if typeSetsOk \<and> at_op Op_Or p \<and> \<not> Option.is_none (f_type f) then embeddedElem R (Some f) p else (f, p))"

definition param_instance :: "procs \<Rightarrow> bool \<Rightarrow> Pos \<Rightarrow> Name \<Rightarrow> Field P" where
  "param_instance R typeSetsOk pos n p =
     (let (a, p) = arrayOrTArgs R p in
      case a of
        Inl t \<Rightarrow> embed_if_or R typeSetsOk (Field pos (Some n) (Some t)) p
      | Inr (q, i) \<Rightarrow> embed_if_or R typeSetsOk (Field pos None (Some (IndexExpr q (NameE n) i))) p)"

definition param_type :: "procs \<Rightarrow> bool \<Rightarrow> token \<Rightarrow> Pos \<Rightarrow> Name option \<Rightarrow> Field option P" where
  "param_type R typeSetsOk follow pos n p =
     (if cur_tok p = T_DotDotDot then
        let dpos = cur_pos p;
            p = next_p p;
            (t, p) = r_typeOrNil R p in
        case t of
          None \<Rightarrow>
            let b = badExpr p;
                p = syntaxError ''... is missing type'' p in (Some (Field pos n (Some b)), p)
        | Some t \<Rightarrow> (Some (Field pos n (Some (DotsType dpos t))), p)
      else if typeSetsOk \<and> at_op Op_Tilde p then
        let (e, p) = embeddedElem R None p in (Some (Field pos n (f_type e)), p)
      else
        let (t, p) = r_typeOrNil R p;
            (f, p) = embed_if_or R typeSetsOk (Field pos n t) p in
        if \<not> Option.is_none (f_name f) \<or> \<not> Option.is_none (f_type f) then (Some f, p)
        else
          let p = syntaxError (''expected '' @ tokstring follow) p;
              p = advance [T_Comma, follow] p in (None, p))"

definition param_named :: "procs \<Rightarrow> bool \<Rightarrow> token \<Rightarrow> Pos \<Rightarrow> Name \<Rightarrow> Field option P" where
  "param_named R typeSetsOk follow pos n p =
     (if cur_tok p = T_Lbrack then
        let (f, p) = param_instance R typeSetsOk pos n p in (Some f, p)
      else if cur_tok p = T_Dot then
        let (t, p) = qualifiedName R (Some n) p;
            (f, p) = embed_if_or R typeSetsOk (Field pos None (Some t)) p in (Some f, p)
      else if typeSetsOk \<and> at_op Op_Or p then
        let (f, p) = embeddedElem R (Some (Field pos None (Some (NameE n)))) p in (Some f, p)
      else param_type R typeSetsOk follow pos (Some n) p)"

definition paramDeclOrNil :: "procs \<Rightarrow> Name option \<Rightarrow> token \<Rightarrow> Field option P" where
  "paramDeclOrNil R name follow p =
     (let typeSetsOk = (follow = T_Rbrack) in
      case name of
        Some n \<Rightarrow> param_named R typeSetsOk follow (n_pos n) n p
      | None \<Rightarrow>
          if typeSetsOk \<and> at_op Op_Tilde p then
            let (f, p) = embeddedElem R None p in (Some f, p)
          else
            let pos = cur_pos p in
            if cur_tok p = T_Name then
              let (n, p) = name_p p in param_named R typeSetsOk follow pos n p
            else param_type R typeSetsOk follow pos None p)"

text \<open>
  The second half of \<open>paramList\<close>: distribute the parameter types.  \<open>sweep_types\<close> is the loop from right
  to left, on the reversed list, with the current type and the left-most error position.
\<close>

fun sweep_types :: "Field list \<Rightarrow> Expr option \<Rightarrow> Pos \<Rightarrow> Field list \<times> Pos" where
  "sweep_types [] typ errPos = ([], errPos)"
| "sweep_types (Field p n (Some t) # fs) typ errPos =
     (let errPos = (case n of None \<Rightarrow> StartPos t | Some _ \<Rightarrow> errPos);
          n = (case n of None \<Rightarrow> Some (NewName (StartPos t) ''_'') | Some _ \<Rightarrow> n);
          (fs, errPos) = sweep_types fs (Some t) errPos
      in (Field p n (Some t) # fs, errPos))"
| "sweep_types (Field p n None # fs) (Some t) errPos =
     (let (fs, errPos) = sweep_types fs (Some t) errPos in (Field p n (Some t) # fs, errPos))"
| "sweep_types (Field p n None # fs) None errPos =
     (let errPos = (case n of Some n \<Rightarrow> n_pos n | None \<Rightarrow> zero_Pos);
          (fs, errPos') = sweep_types fs None errPos
      in (Field p n (Some (BadExpr errPos)) # fs, errPos'))"

fun name_to_type :: "Field \<Rightarrow> Field" where
  "name_to_type (Field p (Some n) t) = Field p None (Some (NameE n))"
| "name_to_type f = f"

definition missing_msg :: "bool \<Rightarrow> nat \<Rightarrow> nat \<Rightarrow> nat \<Rightarrow> string" where
  "missing_msg requireNames named typed len =
     (if named = typed then
        if requireNames then ''missing type constraint'' else ''missing parameter type''
      else if requireNames then
        ''missing type parameter name'' @ (if len = 1 then '' or invalid array length'' else [])
      else ''missing parameter name'')"

definition distribute :: "bool \<Rightarrow> nat \<Rightarrow> nat \<Rightarrow> Pos \<Rightarrow> Field list \<Rightarrow> Field list P" where
  "distribute requireNames named typed end_pos fs p =
     (if named = 0 \<and> \<not> requireNames then (map name_to_type fs, p)
      else if named \<noteq> length fs then
        let (gs, errPos) = sweep_types (rev fs) None zero_Pos;
            p = (if IsKnown errPos then
                   syntaxErrorAt (if named = typed then end_pos else errPos)
                     (missing_msg requireNames named typed (length fs)) p
                 else p)
        in (rev gs, p)
      else (fs, p))"

text \<open>The check of \<open>...\<close>: the fields after it, and the position of the first misuse.\<close>

fun fix_dots :: "bool \<Rightarrow> Field list \<Rightarrow> Field list \<times> Pos option" where
  "fix_dots dddok [] = ([], None)"
| "fix_dots dddok (Field p n (Some (DotsType q t)) # fs) =
     (let (gs, e) = fix_dots dddok fs in
      if \<not> dddok \<or> fs \<noteq> [] then (Field p n (Some t) # gs, Some q)
      else (Field p n (Some (DotsType q t)) # gs, e))"
| "fix_dots dddok (f # fs) = (let (gs, e) = fix_dots dddok fs in (f # gs, e))"

definition check_dots :: "bool \<Rightarrow> Field list \<Rightarrow> Field list P" where
  "check_dots dddok fs p =
     (case fix_dots dddok fs of
        (gs, None) \<Rightarrow> (gs, p)
      | (gs, Some q) \<Rightarrow>
          (gs, errorAt q (if dddok then ''can only use ... with final parameter''
                          else ''invalid use of ...'') p))"

text \<open>The variables of the function argument: the first name and type, the list, and the two counters.\<close>

type_synonym param_vars = "(Name option \<times> Expr option) \<times> Field list \<times> nat \<times> nat"

fun add_param :: "Field option \<Rightarrow> param_vars \<Rightarrow> param_vars" where
  "add_param None (nt, l, named, typed) = ((None, None), l, named, typed)"
| "add_param (Some f) (nt, l, named, typed) =
     ((None, None), l @ [f],
      (if \<not> Option.is_none (f_name f) \<and> \<not> Option.is_none (f_type f) then named + 1 else named),
      (if \<not> Option.is_none (f_type f) then typed + 1 else typed))"

definition param_body :: "procs \<Rightarrow> token \<Rightarrow> param_vars \<Rightarrow> (param_vars \<times> bool) P" where
  "param_body R close v p =
     (case fst v of
        (Some n, Some t) \<Rightarrow> ((add_param (Some (Field (n_pos n) (Some n) (Some t))) v, False), p)
      | (nm, _) \<Rightarrow>
          let (par, p) = paramDeclOrNil R nm close p in ((add_param par v, False), p))"

definition paramList :: "procs \<Rightarrow> Name option \<Rightarrow> Expr option \<Rightarrow> token \<Rightarrow> bool \<Rightarrow> bool \<Rightarrow> Field list P" where
  "paramList R name typ close requireNames dddok p =
     (if \<not> Option.is_none name \<and> \<not> Option.is_none typ \<and> cur_tok p = close then
        let p = next_p p in ([Field (n_pos (the name)) name typ], p)
      else
        let (r, p) = list_p ''parameter list'' T_Comma close (param_body R close)
                       ((name, typ), [], 0, 0) p;
            fs = fst (snd (fst r)) in
        if fs = [] then ([], p)
        else
          let (fs, p) = distribute requireNames (fst (snd (snd (fst r)))) (snd (snd (snd (fst r))))
                          (snd r) fs p
          in check_dots dddok fs p)"

subsection \<open>Function types\<close>

definition funcResult :: "procs \<Rightarrow> Field list P" where
  "funcResult R p =
     (let (g, p) = got T_Lparen p in
      if g then paramList R None None T_Rparen False False p
      else
        let pos = cur_pos p;
            (t, p) = r_typeOrNil R p in
        case t of Some t \<Rightarrow> ([Field pos None (Some t)], p) | None \<Rightarrow> ([], p))"

definition tparams :: "procs \<Rightarrow> string \<Rightarrow> Pos \<Rightarrow> Field list P" where
  "tparams R context pos p =
     (let (g, p) = got T_Lbrack p in
      if g then
        let p = (if context \<noteq> [] then syntaxErrorAt pos (context @ '' must have no type parameters'') p
                 else p) in
        if cur_tok p = T_Rbrack then
          let p = syntaxError ''empty type parameter list'' p;
              p = next_p p in ([], p)
        else paramList R None None T_Rbrack True False p
      else ([], p))"

definition funcType :: "procs \<Rightarrow> string \<Rightarrow> (Field list \<times> FuncType) P" where
  "funcType R context p =
     (let pos = cur_pos p;
          (tps, p) = tparams R context pos p;
          p = want T_Lparen p;
          (ps, p) = paramList R None None T_Rparen False True p;
          (rs, p) = funcResult R p
      in ((tps, FuncType pos ps rs), p))"

subsection \<open>Struct and interface types\<close>

type_synonym struct_vars = "Field list \<times> BasicLit option list"

definition addField :: "Pos \<Rightarrow> Name option \<Rightarrow> Expr \<Rightarrow> BasicLit option \<Rightarrow> struct_vars \<Rightarrow> struct_vars" where
  "addField pos name typ tag v =
     (case v of (fs, tags) \<Rightarrow>
        (fs @ [Field pos name (Some typ)],
         (case tag of
            None \<Rightarrow> tags
          | Some _ \<Rightarrow> tags @ replicate (length fs - length tags) None @ [tag])))"

definition embed_field :: "Pos \<Rightarrow> Expr \<Rightarrow> struct_vars \<Rightarrow> struct_vars P" where
  "embed_field pos typ v p = (let (tag, p) = oliteral p in (addField pos None typ tag v, p))"

definition named_fields :: "Name list \<Rightarrow> Expr \<Rightarrow> struct_vars \<Rightarrow> struct_vars P" where
  "named_fields ns typ v p =
     (let (tag, p) = oliteral p in
      (fold (\<lambda>n. addField (n_pos n) (Some n) typ tag) ns v, p))"

text \<open>The case \<open>_Name\<close> of \<open>fieldDecl\<close>.\<close>

definition field_named :: "procs \<Rightarrow> Pos \<Rightarrow> struct_vars \<Rightarrow> struct_vars P" where
  "field_named R pos v p =
     (let (n, p) = name_p p in
      if cur_tok p = T_Dot \<or> cur_tok p = T_Literal \<or> cur_tok p = T_Semi \<or> cur_tok p = T_Rbrace then
        let (t, p) = qualifiedName R (Some n) p in embed_field pos t v p
      else
        let (ns, p) = nameList n p in
        if length ns = 1 \<and> cur_tok p = T_Lbrack then
          let (a, p) = arrayOrTArgs R p in
          case a of
            Inr (q, i) \<Rightarrow> embed_field pos (IndexExpr q (NameE n) i) v p
          | Inl t \<Rightarrow> named_fields ns t v p
        else
          let (t, p) = type_p R p in named_fields ns t v p)"

definition field_star :: "procs \<Rightarrow> Pos \<Rightarrow> struct_vars \<Rightarrow> struct_vars P" where
  "field_star R pos v p =
     (let p = next_p p in
      if cur_tok p = T_Lparen then
        let p = syntaxError ''cannot parenthesize embedded type'' p;
            p = next_p p;
            (t, p) = qualifiedName R None p;
            (g, p) = got T_Rparen p in embed_field pos (newIndirect pos t) v p
      else
        let (t, p) = qualifiedName R None p in embed_field pos (newIndirect pos t) v p)"

definition field_paren :: "procs \<Rightarrow> Pos \<Rightarrow> struct_vars \<Rightarrow> struct_vars P" where
  "field_paren R pos v p =
     (let p = syntaxError ''cannot parenthesize embedded type'' p;
          p = next_p p;
          (t, p) =
            (if cur_tok p = T_Star then
               let spos = cur_pos p;
                   p = next_p p;
                   (t, p) = qualifiedName R None p in (newIndirect spos t, p)
             else qualifiedName R None p);
          (g, p) = got T_Rparen p in embed_field pos t v p)"

definition fieldDecl :: "procs \<Rightarrow> struct_vars \<Rightarrow> (struct_vars \<times> bool) P" where
  "fieldDecl R v p =
     (let pos = cur_pos p in
      if cur_tok p = T_Name then let (v, p) = field_named R pos v p in ((v, False), p)
      else if cur_tok p = T_Star then let (v, p) = field_star R pos v p in ((v, False), p)
      else if cur_tok p = T_Lparen then let (v, p) = field_paren R pos v p in ((v, False), p)
      else
        let p = syntaxError ''expected field name or embedded type'' p;
            p = advance [T_Semi, T_Rbrace] p in ((v, False), p))"

definition structType :: "procs \<Rightarrow> Expr P" where
  "structType R p =
     (let pos = cur_pos p;
          p = want T_Struct p;
          p = want T_Lbrace p;
          (r, p) = list_p ''struct type'' T_Semi T_Rbrace (fieldDecl R) ([], []) p
      in (StructType pos (fst (fst r)) (snd (fst r)), p))"

definition method_sig :: "procs \<Rightarrow> Pos \<Rightarrow> Name \<Rightarrow> Field P" where
  "method_sig R pos n p =
     (let (ft, p) = funcType R ''interface method'' p in (Field pos (Some n) (Some (FuncTypeE (snd ft))), p))"

text \<open>The case \<open>_Lbrack\<close> of \<open>methodDecl\<close>: without arguments, and with a non-empty list of them.\<close>

definition method_empty :: "procs \<Rightarrow> Pos \<Rightarrow> Name \<Rightarrow> Field P" where
  "method_empty R pos n p =
     (let epos = cur_pos p;
          p = next_p p in
      if cur_tok p = T_Lparen then
        let p = errorAt epos ''empty type parameter list'' p in method_sig R pos n p
      else
        let p = errorAt epos ''empty type argument list'' p in (Field pos None (Some (NameE n)), p))"

definition instance_index :: "Field list \<Rightarrow> Expr" where
  "instance_index l =
     (if length l = 1 then the (f_type (hd l)) else ListExpr (f_pos (hd l)) (map (\<lambda>f. the (f_type f)) l))"

definition method_instance :: "procs \<Rightarrow> Pos \<Rightarrow> Name \<Rightarrow> Pos \<Rightarrow> Field P" where
  "method_instance R pos n bpos p =
     (let (l, p) = paramList R None None T_Rbrack False False p in
      if l = [] then
        if cur_tok p = T_Lparen then method_sig R pos n p else (Field pos None (Some (NameE n)), p)
      else if \<not> Option.is_none (f_name (hd l)) then
        let (f, p) = method_sig R pos n p;
            p = errorAt bpos ''interface method must have no type parameters'' p in (f, p)
      else (Field pos None (Some (IndexExpr bpos (NameE n) (instance_index l))), p))"

definition methodDecl :: "procs \<Rightarrow> Field P" where
  "methodDecl R p =
     (let pos = cur_pos p;
          (n, p) = name_p p in
      if cur_tok p = T_Lparen then method_sig R pos n p
      else if cur_tok p = T_Lbrack then
        let bpos = cur_pos p;
            p = next_p p in
        if cur_tok p = T_Rbrack then method_empty R pos n p else method_instance R pos n bpos p
      else let (t, p) = qualifiedName R (Some n) p in (Field pos None (Some t), p))"

definition interface_body :: "procs \<Rightarrow> Field list \<Rightarrow> (Field list \<times> bool) P" where
  "interface_body R l p =
     (if cur_tok p = T_Name then
        let (f, p) = methodDecl R p in
        if Option.is_none (f_name f) then
          let (f, p) = embeddedElem R (Some f) p in ((l @ [f], False), p)
        else ((l @ [f], False), p)
      else let (f, p) = embeddedElem R None p in ((l @ [f], False), p))"

definition interfaceType :: "procs \<Rightarrow> Expr P" where
  "interfaceType R p =
     (let pos = cur_pos p;
          p = want T_Interface p;
          p = want T_Lbrace p;
          (r, p) = list_p ''interface type'' T_Semi T_Rbrace (interface_body R) [] p
      in (InterfaceType pos (fst r), p))"

subsection \<open>Types\<close>

definition recvChanType :: "procs \<Rightarrow> Pos \<Rightarrow> Expr P" where
  "recvChanType R pos p =
     (let p = next_p p;
          p = want T_Chan p;
          (t, p) = chanElem R p in (ChanType pos RecvOnly t, p))"

definition chanType :: "procs \<Rightarrow> Pos \<Rightarrow> Expr P" where
  "chanType R pos p =
     (let p = next_p p;
          (g, p) = got T_Arrow p;
          (t, p) = chanElem R p in (ChanType pos (if g then SendOnly else NoDir) t, p))"

definition mapType :: "procs \<Rightarrow> Pos \<Rightarrow> Expr P" where
  "mapType R pos p =
     (let p = next_p p;
          p = want T_Lbrack p;
          (k, p) = type_p R p;
          p = want T_Rbrack p;
          (v, p) = type_p R p in (MapType pos k v, p))"

definition bracketType :: "procs \<Rightarrow> Pos \<Rightarrow> Expr P" where
  "bracketType R pos p =
     (let p = next_p p;
          (g, p) = got T_Rbrack p in
      if g then sliceType R pos p else arrayType R pos None p)"

definition typeOrNil :: "procs \<Rightarrow> Expr option P" where
  "typeOrNil R p =
     (let pos = cur_pos p in
      if cur_tok p = T_Star then
        let p = next_p p;
            (t, p) = type_p R p in (Some (newIndirect pos t), p)
      else if cur_tok p = T_Arrow then let (t, p) = recvChanType R pos p in (Some t, p)
      else if cur_tok p = T_Func then
        let p = next_p p;
            (ft, p) = funcType R ''function type'' p in (Some (FuncTypeE (snd ft)), p)
      else if cur_tok p = T_Lbrack then let (t, p) = bracketType R pos p in (Some t, p)
      else if cur_tok p = T_Chan then let (t, p) = chanType R pos p in (Some t, p)
      else if cur_tok p = T_Map then let (t, p) = mapType R pos p in (Some t, p)
      else if cur_tok p = T_Struct then let (t, p) = structType R p in (Some t, p)
      else if cur_tok p = T_Interface then let (t, p) = interfaceType R p in (Some t, p)
      else if cur_tok p = T_Name then let (t, p) = qualifiedName R None p in (Some t, p)
      else if cur_tok p = T_Lparen then
        let p = next_p p;
            (t, p) = type_p R p;
            p = want T_Rparen p in (Some t, p)
      else (None, p))"

end
