(* ===== verification/Parser_Expr.thy ===== *)
theory Parser_Expr
  imports Parser_Types
begin

text \<open>
  Expressions and literals (\<open>parser.go\<close>, the section on expressions, and Goo's literals), with the blocks
  that function literals contain.
\<close>

subsection \<open>Blocks\<close>

definition stmtList_body :: "procs \<Rightarrow> Stmt list \<Rightarrow> (Stmt list \<times> bool) P" where
  "stmtList_body R l p =
     (let (s, p) = r_stmtOrNil R p;
          p = clear_pragma p in
      case s of
        None \<Rightarrow> ((l, False), p)
      | Some s \<Rightarrow>
          let (g, p) = got T_Semi p in
          if \<not> g \<and> cur_tok p \<noteq> T_Rbrace then
            let p = syntaxError ''at end of statement'' p;
                p = advance [T_Semi, T_Rbrace, T_Case, T_Default] p;
                (g, p) = got T_Semi p in ((l @ [s], True), p)
          else ((l @ [s], True), p))"

definition stmtList :: "procs \<Rightarrow> Stmt list P" where
  "stmtList R p =
     while_p (\<lambda>l t. t \<noteq> T_EOF \<and> t \<noteq> T_Rbrace \<and> t \<noteq> T_Case \<and> t \<noteq> T_Default) (stmtList_body R) [] p"

definition block_rest :: "procs \<Rightarrow> Pos \<Rightarrow> BlockStmt P" where
  "block_rest R pos p =
     (let (l, p) = stmtList R p;
          rb = cur_pos p;
          p = want T_Rbrace p in (Block pos l rb, p))"

definition blockStmt :: "procs \<Rightarrow> string \<Rightarrow> BlockStmt P" where
  "blockStmt R context p =
     (let pos = cur_pos p;
          (g, p) = got T_Lbrace p in
      if g then block_rest R pos p
      else
        let p = syntaxError (''expected { after '' @ context) p;
            p = advance [T_Name, T_Rbrace] p;
            rb = cur_pos p;
            (g, p) = got T_Rbrace p in
        if g then (Block pos [] rb, p) else block_rest R pos p)"

text \<open>The call of \<open>checkBranches\<close>: its reports go to the error handler and are not counted.\<close>

definition check_body :: "BlockStmt \<Rightarrow> parser \<Rightarrow> parser" where
  "check_body body p =
     (let ls = checkBranches (ps_bases p) (x_String (ps_ext p)) (Some body);
          p = p\<lparr>ps_targets := ps_targets p @ ls_targets ls\<rparr>;
          p = (if ls_errs ls \<noteq> [] \<and> \<not> ps_errh p then raise_panic PanicNil p
               else p\<lparr>ps_errs := ps_errs p @ ls_errs ls\<rparr>)
      in if ls_panic ls then raise_panic PanicNil p else p)"

definition funcBody :: "procs \<Rightarrow> BlockStmt P" where
  "funcBody R p =
     (let p = p\<lparr>ps_fnest := ps_fnest p + 1\<rparr>;
          errcnt = ps_errcnt p;
          (body, p) = blockStmt R [] p;
          p = p\<lparr>ps_fnest := ps_fnest p - 1\<rparr>;
          p = (if ps_mode p AND CheckBranches \<noteq> 0 \<and> errcnt = ps_errcnt p then check_body body p else p)
      in (body, p))"

subsection \<open>Map and slice literals\<close>

definition any_name :: "Pos \<Rightarrow> Expr" where
  "any_name pos = NameE (NewName pos ''any'')"

definition any_map :: "Pos \<Rightarrow> Expr" where
  "any_map pos = MapType pos (any_name pos) (any_name pos)"

fun convertSymbolKeyToString :: "Expr \<Rightarrow> Expr" where
  "convertSymbolKeyToString (NameE n) =
     LitE \<lparr>l_pos = n_pos n, l_value = [CHR 34] @ n_value n @ [CHR 34], l_kind = StringLit, l_bad = False\<rparr>"
| "convertSymbolKeyToString e = e"

definition slice_body :: "procs \<Rightarrow> Expr list \<Rightarrow> (Expr list \<times> bool) P" where
  "slice_body R es p =
     (let p = next_p p in
      if cur_tok p = T_Rbrack then ((es, False), p)
      else let (e, p) = expr R p in ((es @ [e], True), p))"

definition sliceLiteral :: "procs \<Rightarrow> Pos \<Rightarrow> Expr \<Rightarrow> Expr P" where
  "sliceLiteral R pos e p =
     (let (es, p) = while_p (\<lambda>es t. t = T_Comma) (slice_body R) [e] p;
          rb = cur_pos p;
          p = want T_Rbrack p
      in (CompositeLit pos (Some (SliceType pos (any_name pos))) es 0 rb, p))"

definition key_value :: "procs \<Rightarrow> Expr \<Rightarrow> Expr P" where
  "key_value R k p =
     (let k = convertSymbolKeyToString k;
          p = want T_Colon p;
          (v, p) = expr R p in (KeyValueExpr (expr_pos k) k v, p))"

definition bracket_body :: "procs \<Rightarrow> bool \<Rightarrow> Expr list \<Rightarrow> (Expr list \<times> bool) P" where
  "bracket_body R has_first es p =
     (let p = (if has_first \<or> es \<noteq> [] then snd (got T_Comma p) else p) in
      if cur_tok p = T_Rbrack then ((es, False), p)
      else
        let (k, p) = expr R p;
            (kv, p) = key_value R k p in ((es @ [kv], True), p))"

definition mapLiteralFromBracket :: "procs \<Rightarrow> Pos \<Rightarrow> Expr option \<Rightarrow> Expr P" where
  "mapLiteralFromBracket R pos firstKey p =
     (let (es, p) =
        (case firstKey of
           None \<Rightarrow> ([], p)
         | Some k \<Rightarrow> let (kv, p) = key_value R k p in ([kv], p));
          (es, p) = while_p (\<lambda>es t. t \<noteq> T_Rbrack \<and> t \<noteq> T_EOF)
                      (bracket_body R (\<not> Option.is_none firstKey)) es p;
          rb = cur_pos p;
          p = want T_Rbrack p
      in (CompositeLit pos (Some (any_map pos)) es (length es) rb, p))"

definition brace_body :: "procs \<Rightarrow> Expr list \<Rightarrow> (Expr list \<times> bool) P" where
  "brace_body R es p =
     (let (k, p) = expr R p;
          (kv, p) = key_value R k p;
          (g, p) = got T_Comma p in ((es @ [kv], g), p))"

definition mapLiteralFromBrace :: "procs \<Rightarrow> Expr P" where
  "mapLiteralFromBrace R p =
     (let pos = cur_pos p;
          p = want T_Lbrace p;
          (es, p) = while_p (\<lambda>es t. t \<noteq> T_Rbrace \<and> t \<noteq> T_EOF) (brace_body R) [] p;
          rb = cur_pos p;
          p = want T_Rbrace p
      in (CompositeLit pos (Some (any_map pos)) es (length es) rb, p))"

definition mapTypeOrLiteral :: "procs \<Rightarrow> Expr P" where
  "mapTypeOrLiteral R p =
     (let pos = cur_pos p;
          p = next_p p in
      if cur_tok p = T_Lbrack then
        let p = want T_Lbrack p in
        if cur_tok p = T_Rbrack then mapLiteralFromBracket R pos None p
        else
          let (k, p) = expr R p in
          if cur_tok p = T_Colon then mapLiteralFromBracket R pos (Some k) p
          else
            let p = want T_Rbrack p;
                (v, p) = type_p R p in (MapType pos k v, p)
      else if cur_tok p = T_Lbrace then (any_map pos, p)
      else
        let p = syntaxError (''expected '' @ [CHR 39] @ ''['' @ [CHR 39] @ '' or '' @ [CHR 39] @ ''{'' @ [CHR 39]) p in (badExpr p, p))"

subsection \<open>Operands\<close>

definition paren_operand :: "procs \<Rightarrow> bool \<Rightarrow> Expr P" where
  "paren_operand R keep_parens p =
     (let pos = cur_pos p;
          p = next_p p;
          (x, p) = nest (expr R) p;
          p = want T_Rparen p
      in (if cur_tok p = T_Lbrace \<or> keep_parens then ParenExpr pos x else x, p))"

definition func_operand :: "procs \<Rightarrow> Expr P" where
  "func_operand R p =
     (let pos = cur_pos p;
          p = next_p p;
          (ft, p) = funcType R ''function type'' p in
      if cur_tok p = T_Lbrace then
        let (body, p) = nest (funcBody R) p in (FuncLit pos (snd ft) body, p)
      else (FuncTypeE (snd ft), p))"

definition bracket_operand :: "procs \<Rightarrow> Expr P" where
  "bracket_operand R p =
     (let pos = cur_pos p;
          p = want T_Lbrack p in
      if cur_tok p = T_Rbrack then
        let p = next_p p;
            (t, p) = type_p R p in (SliceType pos t, p)
      else
        let (g, p) = got T_DotDotDot p in
        if g then
          let p = want T_Rbrack p;
              (t, p) = type_p R p in (ArrayType pos None t, p)
        else
          let (e, p) = expr R p in
          if cur_tok p = T_Comma then sliceLiteral R pos e p
          else
            let p = want T_Rbrack p;
                (t, p) = type_p R p in (ArrayType pos (Some e) t, p))"

definition operand :: "procs \<Rightarrow> bool \<Rightarrow> Expr P" where
  "operand R keep_parens p =
     (if cur_tok p = T_Name then let (n, p) = name_p p in (NameE n, p)
      else if cur_tok p = T_Literal then let (b, p) = oliteral p in (LitE (the b), p)
      else if cur_tok p = T_Lparen then paren_operand R keep_parens p
      else if cur_tok p = T_Func then func_operand R p
      else if cur_tok p = T_Map then mapTypeOrLiteral R p
      else if cur_tok p = T_Lbrack then bracket_operand R p
      else if cur_tok p = T_Lbrace then mapLiteralFromBrace R p
      else if cur_tok p = T_Chan \<or> cur_tok p = T_Struct \<or> cur_tok p = T_Interface then type_p R p
      else
        let x = badExpr p;
            p = syntaxError ''expected expression'' p;
            p = advance [T_Rparen, T_Rbrack, T_Rbrace] p in (x, p))"

subsection \<open>Primary expressions\<close>

definition arg_body :: "procs \<Rightarrow> Expr list \<times> bool \<Rightarrow> ((Expr list \<times> bool) \<times> bool) P" where
  "arg_body R v p =
     (let (e, p) = expr R p;
          (g, p) = got T_DotDotDot p in (((fst v @ [e], g), g), p))"

definition argList :: "procs \<Rightarrow> (Expr list \<times> bool) P" where
  "argList R p =
     (let (r, p) = nest (list_p ''argument list'' T_Comma T_Rparen (arg_body R) ([], False)) p
      in (fst r, p))"

definition bare_complitexpr :: "procs \<Rightarrow> Expr P" where
  "bare_complitexpr R p =
     (if cur_tok p = T_Lbrace then
        let (c, p) = r_complitexpr R p in
        (case c of (pos, es, n, rb) \<Rightarrow> CompositeLit pos None es n rb, p)
      else expr R p)"

definition complit_body :: "procs \<Rightarrow> Expr list \<times> nat \<Rightarrow> ((Expr list \<times> nat) \<times> bool) P" where
  "complit_body R v p =
     (let (e, p) = bare_complitexpr R p in
      if cur_tok p = T_Colon then
        let pos = cur_pos p;
            p = next_p p;
            (x, p) = bare_complitexpr R p
        in (((fst v @ [KeyValueExpr pos e x], snd v + 1), False), p)
      else (((fst v @ [e], snd v), False), p))"

definition complitexpr :: "procs \<Rightarrow> (Pos \<times> Expr list \<times> nat \<times> Pos) P" where
  "complitexpr R p =
     (let pos = cur_pos p;
          (r, p) = nest (\<lambda>p. let p = want T_Lbrace p in
                     list_p ''composite literal'' T_Comma T_Rbrace (complit_body R) ([], 0) p) p
      in ((pos, fst (fst r), snd (fst r), snd r), p))"

definition pexpr_dot :: "Expr \<Rightarrow> procs \<Rightarrow> (Expr \<times> bool) P" where
  "pexpr_dot x R p =
     (let pos = cur_pos p;
          p = next_p p in
      if cur_tok p = T_Name then
        let (n, p) = name_p p in ((SelectorExpr pos x n, True), p)
      else if cur_tok p = T_Lparen then
        let p = next_p p;
            (g, p) = got T_Type p in
        if g then let p = want T_Rparen p in ((TypeSwitchGuard pos None x, True), p)
        else
          let (t, p) = type_p R p;
              p = want T_Rparen p in ((AssertExpr pos x t, True), p)
      else
        let p = syntaxError ''expected name or ('' p;
            p = advance [T_Semi, T_Rparen] p in ((x, True), p))"

text \<open>A slice expression after its first index: the second index, and the third one if there is one.\<close>

definition slice_final :: "procs \<Rightarrow> Expr option \<Rightarrow> (Expr option \<times> Expr option \<times> bool) P" where
  "slice_final R j p =
     (if cur_tok p = T_Colon then
        let (j, p) =
          (case j of
             Some j \<Rightarrow> (j, p)
           | None \<Rightarrow> let p = error_p ''middle index required in 3-index slice'' p in (badExpr p, p));
            p = next_p p in
        if cur_tok p \<noteq> T_Rbrack then
          let (k, p) = expr R p in ((Some j, Some k, True), p)
        else
          let p = error_p ''final index required in 3-index slice'' p
          in ((Some j, Some (badExpr p), True), p)
      else ((j, None, False), p))"

definition slice_indices :: "procs \<Rightarrow> (Expr option \<times> Expr option \<times> bool) P" where
  "slice_indices R p =
     (if cur_tok p \<noteq> T_Colon \<and> cur_tok p \<noteq> T_Rbrack then
        let (j, p) = expr R p in slice_final R (Some j) p
      else slice_final R None p)"

definition slice_rest :: "procs \<Rightarrow> Pos \<Rightarrow> Expr \<Rightarrow> Expr option \<Rightarrow> (Expr \<times> bool) P" where
  "slice_rest R pos x i p =
     (let (g, p) = got T_Colon p;
          p = (if g then p
               else let p = syntaxError ''expected comma, : or ]'' p
                    in advance [T_Comma, T_Colon, T_Rbrack] p);
          (jk, p) = nest (slice_indices R) p;
          p = want T_Rbrack p
      in ((SliceExpr pos x i (fst jk) (fst (snd jk)) (snd (snd jk)), True), p))"

definition pexpr_index :: "Expr \<Rightarrow> procs \<Rightarrow> (Expr \<times> bool) P" where
  "pexpr_index x R p =
     (let pos = cur_pos p;
          p = next_p p in
      if cur_tok p = T_Colon then slice_rest R pos x None p
      else
        let (ic, p) =
          (if cur_tok p = T_Rbrack then
             let p = syntaxError ''expected operand'' p in ((badExpr p, False), p)
           else typeList R False p) in
        if snd ic \<or> cur_tok p = T_Rbrack then
          let p = want T_Rbrack p in ((IndexExpr pos x (fst ic), True), p)
        else slice_rest R pos x (Some (fst ic)) p)"

definition hash_index :: "Pos \<Rightarrow> Expr \<Rightarrow> Expr \<Rightarrow> Expr" where
  "hash_index pos x i =
     IndexExpr pos x (Operation pos Op_Sub i
       (Some (LitE \<lparr>l_pos = pos, l_value = ''1'', l_kind = IntLit, l_bad = False\<rparr>)))"

definition pexpr_hash :: "Expr \<Rightarrow> procs \<Rightarrow> (Expr \<times> bool) P" where
  "pexpr_hash x R p =
     (let pos = cur_pos p;
          p = next_p p;
          (i, p) = r_unaryExpr R p in ((hash_index pos x i, True), p))"

definition pexpr_call :: "Expr \<Rightarrow> procs \<Rightarrow> (Expr \<times> bool) P" where
  "pexpr_call x R p =
     (let pos = cur_pos p;
          p = next_p p;
          (a, p) = argList R p in ((CallExpr pos x (fst a) (snd a), True), p))"

fun complit_ok :: "Expr \<Rightarrow> int \<Rightarrow> bool" where
  "complit_ok (NameE _) xnest \<longleftrightarrow> xnest \<ge> 0"
| "complit_ok (SelectorExpr _ _ _) xnest \<longleftrightarrow> xnest \<ge> 0"
| "complit_ok (IndexExpr p x i) xnest \<longleftrightarrow> xnest \<ge> 0 \<and> \<not> isValue (IndexExpr p x i)"
| "complit_ok (ArrayType _ _ _) xnest \<longleftrightarrow> True"
| "complit_ok (SliceType _ _) xnest \<longleftrightarrow> True"
| "complit_ok (StructType _ _ _) xnest \<longleftrightarrow> True"
| "complit_ok (MapType _ _ _) xnest \<longleftrightarrow> True"
| "complit_ok _ xnest \<longleftrightarrow> False"

definition pexpr_brace :: "Expr \<Rightarrow> procs \<Rightarrow> (Expr \<times> bool) P" where
  "pexpr_brace x R p =
     (if \<not> complit_ok (Unparen x) (ps_xnest p) then ((x, False), p)
      else
        let p = (if is_ParenExpr x
                 then syntaxError ''cannot parenthesize type in composite literal'' p else p);
            (c, p) = r_complitexpr R p
        in ((case c of (pos, es, n, rb) \<Rightarrow> CompositeLit pos (Some x) es n rb, True), p))"

definition pexpr_body :: "procs \<Rightarrow> Expr \<Rightarrow> (Expr \<times> bool) P" where
  "pexpr_body R x p =
     (if cur_tok p = T_Dot then pexpr_dot x R p
      else if cur_tok p = T_Lbrack then pexpr_index x R p
      else if cur_tok p = T_Hash then pexpr_hash x R p
      else if cur_tok p = T_Lparen then pexpr_call x R p
      else pexpr_brace x R p)"

definition pexpr :: "procs \<Rightarrow> Expr option \<Rightarrow> bool \<Rightarrow> Expr P" where
  "pexpr R x keep_parens p =
     (let (x, p) = (case x of Some x \<Rightarrow> (x, p) | None \<Rightarrow> operand R keep_parens p) in
      while_p (\<lambda>x t. t = T_Dot \<or> t = T_Lbrack \<or> t = T_Hash \<or> t = T_Lparen \<or> t = T_Lbrace)
        (pexpr_body R) x p)"

subsection \<open>Unary and binary expressions\<close>

text \<open>The re-association of \<open><-\<close> with a channel type: the new type, the last direction, the last element.\<close>

fun reassoc :: "Expr \<Rightarrow> Expr \<times> ChanDir \<times> Expr" where
  "reassoc (ChanType p d e) =
     (if d = SendOnly then let (e', d', t) = reassoc e in (ChanType p RecvOnly e', d', t)
      else (ChanType p RecvOnly e, d, e))"
| "reassoc t = (t, SendOnly, t)"

definition recv_expr :: "Pos \<Rightarrow> Expr \<Rightarrow> Expr P" where
  "recv_expr pos x p =
     (if is_ChanType x then
        (case reassoc x of (x', dir, t) \<Rightarrow>
           let p = (if dir = RecvOnly then syntaxError ''unexpected <-, expected chan'' p else p);
               p = (if dir = SendOnly
                    then syntaxError (''unexpected '' @ x_String (ps_ext p) t @ '', expected chan'') p else p)
           in (x', p))
      else (Operation pos Op_Recv x None, p))"

definition unary_ops :: "Operator list" where
  "unary_ops = [Op_Mul, Op_Add, Op_Sub, Op_Not, Op_Xor, Op_Tilde]"

definition unaryExpr :: "procs \<Rightarrow> Expr P" where
  "unaryExpr R p =
     (if (cur_tok p = T_Operator \<or> cur_tok p = T_Star) \<and> cur_op p \<in> set unary_ops then
        let pos = cur_pos p;
            o1 = cur_op p;
            p = next_p p;
            (x, p) = r_unaryExpr R p in (Operation pos o1 x None, p)
      else if (cur_tok p = T_Operator \<or> cur_tok p = T_Star) \<and> cur_op p = Op_And then
        let pos = cur_pos p;
            p = next_p p;
            (x, p) = r_unaryExpr R p in (Operation pos Op_And (Unparen x) None, p)
      else if cur_tok p = T_Arrow then
        let pos = cur_pos p;
            p = next_p p;
            (x, p) = r_unaryExpr R p in recv_expr pos x p
      else pexpr R None True p)"

definition binary_body :: "procs \<Rightarrow> nat \<Rightarrow> Expr \<Rightarrow> (Expr \<times> bool) P" where
  "binary_body R prec0 x p =
     (if prec (ps_scan p) > prec0 then
        let pos = cur_pos p;
            o1 = cur_op p;
            tprec = prec (ps_scan p);
            p = next_p p;
            (y, p) = r_binaryExpr R None tprec p in ((Operation pos o1 x (Some y), True), p)
      else ((x, False), p))"

definition binaryExpr :: "procs \<Rightarrow> Expr option \<Rightarrow> nat \<Rightarrow> Expr P" where
  "binaryExpr R x prec0 p =
     (let (x, p) = (case x of Some x \<Rightarrow> (x, p) | None \<Rightarrow> unaryExpr R p) in
      while_p (\<lambda>x t. t = T_Operator \<or> t = T_Star) (binary_body R prec0) x p)"

definition callStmt :: "procs \<Rightarrow> Stmt P" where
  "callStmt R p =
     (let pos = cur_pos p;
          t = cur_tok p;
          p = next_p p;
          (x, p) = pexpr R None (cur_tok p = T_Lparen) p in
      if is_ParenExpr x then
        let p = errorAt (expr_pos x) (''expression in '' @ token_String t @ '' must not be parenthesized'') p
        in (CallStmt pos t (Unparen x), p)
      else (CallStmt pos t x, p))"

end
