(* ===== verification/Parser_Stmt.thy ===== *)
theory Parser_Stmt
  imports Parser_Expr
begin

text \<open>
  Declarations and statements (\<open>parser.go\<close>), the knot that closes the cycles of the productions, the source
  file, and \<open>Parse\<close> of \<open>syntax.go\<close>.
\<close>

subsection \<open>Simple statements\<close>

definition newRangeClause :: "procs \<Rightarrow> Expr option \<Rightarrow> bool \<Rightarrow> Stmt P" where
  "newRangeClause R lhs def p =
     (let pos = cur_pos p;
          p = next_p p;
          (x, p) = expr R p in (RangeClause pos lhs def x, p))"

text \<open>A single expression, not followed by \<open>=\<close> or \<open>:=\<close>.\<close>

definition simple_single :: "procs \<Rightarrow> Expr \<Rightarrow> Stmt P" where
  "simple_single R lhs p =
     (let pos = cur_pos p in
      if cur_tok p = T_AssignOp then
        let o1 = cur_op p;
            p = next_p p;
            (rhs, p) = expr R p in (AssignStmt pos o1 lhs (Some rhs), p)
      else if cur_tok p = T_IncOp then
        let o1 = cur_op p;
            p = next_p p in (AssignStmt pos o1 lhs None, p)
      else if cur_tok p = T_Arrow then
        let p = next_p p;
            (v, p) = expr R p in (SendStmt pos lhs v, p)
      else (ExprStmt (expr_pos lhs) lhs, p))"

text \<open>The type switch guard of \<open>lhs := x.(type)\<close>.\<close>

fun switch_guard :: "Expr \<Rightarrow> Expr \<Rightarrow> Stmt option" where
  "switch_guard (NameE n) (TypeSwitchGuard p _ x) = Some (ExprStmt p (TypeSwitchGuard p (Some n) x))"
| "switch_guard _ _ = None"

definition simple_assign :: "procs \<Rightarrow> Expr \<Rightarrow> token \<Rightarrow> Stmt P" where
  "simple_assign R lhs keyword p =
     (let pos = cur_pos p;
          o1 = (if cur_tok p = T_Define then Op_Def else Op_None);
          p = next_p p in
      if keyword = T_For \<and> cur_tok p = T_Range then newRangeClause R (Some lhs) (o1 = Op_Def) p
      else
        let (rhs, p) = exprList R p in
        case (if keyword = T_Switch \<and> o1 = Op_Def then switch_guard lhs rhs else None) of
          Some s \<Rightarrow> (s, p)
        | None \<Rightarrow> (AssignStmt pos o1 lhs (Some rhs), p))"

fun first_elem :: "Expr \<Rightarrow> Expr" where
  "first_elem (ListExpr _ (e # _)) = e"
| "first_elem e = e"

definition simple_rest :: "procs \<Rightarrow> Expr \<Rightarrow> token \<Rightarrow> Stmt P" where
  "simple_rest R lhs keyword p =
     (if \<not> is_ListExpr lhs \<and> cur_tok p \<noteq> T_Assign \<and> cur_tok p \<noteq> T_Define then simple_single R lhs p
      else if cur_tok p = T_Assign \<or> cur_tok p = T_Define then simple_assign R lhs keyword p
      else
        let p = syntaxError ''expected := or = or comma'' p;
            p = advance [T_Semi, T_Rbrace] p;
            x = first_elem lhs in (ExprStmt (expr_pos x) x, p))"

definition simpleStmt :: "procs \<Rightarrow> Expr option \<Rightarrow> token \<Rightarrow> Stmt P" where
  "simpleStmt R lhs keyword p =
     (if keyword = T_For \<and> cur_tok p = T_Range then newRangeClause R None False p
      else
        case lhs of
          Some lhs \<Rightarrow> simple_rest R lhs keyword p
        | None \<Rightarrow> let (lhs, p) = exprList R p in simple_rest R lhs keyword p)"

subsection \<open>Statement headers\<close>

fun is_binary :: "Expr \<Rightarrow> bool" where
  "is_binary (Operation _ _ _ (Some _)) = True"
| "is_binary _ = False"

definition emphasize :: "(Expr \<Rightarrow> string) \<Rightarrow> Expr \<Rightarrow> string" where
  "emphasize str x = (if is_binary x then ''('' @ str x @ '')'' else str x)"

fun cond_value :: "Stmt \<Rightarrow> Expr option" where
  "cond_value (ExprStmt _ x) = Some x"
| "cond_value _ = None"

fun cond_string :: "externs \<Rightarrow> Stmt \<Rightarrow> string" where
  "cond_string X (AssignStmt p Op_None l (Some r)) =
     ''assignment '' @ emphasize (x_String X) l @ '' = '' @ emphasize (x_String X) r"
| "cond_string X s = x_StmtString X s"

definition unpack_cond :: "token \<Rightarrow> Stmt option \<Rightarrow> Pos \<times> string \<Rightarrow> Expr option P" where
  "unpack_cond keyword condStmt semi p =
     (case condStmt of
        None \<Rightarrow>
          if keyword = T_If \<and> IsKnown (fst semi) then
            let p = (if snd semi \<noteq> ''semicolon''
                     then syntaxErrorAt (fst semi)
                            (''unexpected '' @ snd semi @ '', expected { after if clause'') p
                     else syntaxErrorAt (fst semi) ''missing condition in if statement'' p)
            in (Some (BadExpr (fst semi)), p)
          else (None, p)
      | Some s \<Rightarrow>
          (case cond_value s of
             Some x \<Rightarrow> (Some x, p)
           | None \<Rightarrow>
               let p = syntaxErrorAt (stmt_pos s) (''cannot use '' @ cond_string (ps_ext p) s @ '' as value'') p
               in (None, p)))"

fun is_define :: "Stmt \<Rightarrow> bool" where
  "is_define (AssignStmt _ o1 _ _) \<longleftrightarrow> o1 = Op_Def"
| "is_define _ \<longleftrightarrow> False"

fun is_range :: "Stmt option \<Rightarrow> bool" where
  "is_range (Some (RangeClause _ _ _ _)) = True"
| "is_range _ = False"

text \<open>The clauses of a header: initial statement, condition as a statement, post statement, and the
  position and text of the first semicolon.\<close>

type_synonym clauses = "Stmt option \<times> Stmt option \<times> Stmt option \<times> Pos \<times> string"

definition post_clause :: "procs \<Rightarrow> Stmt option P" where
  "post_clause R p =
     (if cur_tok p \<noteq> T_Lbrace then
        let (s, p) = simpleStmt R None T_None p;
            p = (if is_define s
                 then syntaxErrorAt (stmt_pos s) ''cannot declare in post statement of for loop'' p else p)
        in (Some s, p)
      else (None, p))"

definition for_clauses :: "procs \<Rightarrow> Stmt option \<Rightarrow> Pos \<times> string \<Rightarrow> clauses P" where
  "for_clauses R ini semi p =
     (if cur_tok p = T_Lbrace then
        let p = syntaxError ''expected for loop condition'' p in ((ini, None, None, semi), p)
      else
        let (c, p) =
          (if cur_tok p \<noteq> T_Semi then let (s, p) = simpleStmt R None T_None p in (Some s, p)
           else (None, p));
            p = want T_Semi p;
            (post, p) = post_clause R p in ((ini, c, post, semi), p))"

definition header_semi :: "(Pos \<times> string) P" where
  "header_semi p =
     (if cur_tok p = T_Semi then
        let ps = cur_pos p;
            l = lit (ps_scan p);
            p = next_p p in ((ps, l), p)
      else
        let p = want T_Lbrace p;
            p = (if cur_tok p \<noteq> T_Lbrace then advance [T_Lbrace, T_Rbrace] p else p)
        in ((zero_Pos, []), p))"

definition header_clauses :: "procs \<Rightarrow> token \<Rightarrow> Stmt option \<Rightarrow> clauses P" where
  "header_clauses R keyword ini p =
     (if cur_tok p \<noteq> T_Lbrace then
        let (semi, p) = header_semi p in
        if keyword = T_For then for_clauses R ini semi p
        else if cur_tok p \<noteq> T_Lbrace then
          let (s, p) = simpleStmt R None keyword p in ((ini, Some s, None, semi), p)
        else ((ini, None, None, semi), p)
      else ((None, ini, None, (zero_Pos, [])), p))"

definition header_init :: "procs \<Rightarrow> token \<Rightarrow> Stmt option P" where
  "header_init R keyword p =
     (if cur_tok p \<noteq> T_Semi then
        let (g, p) = got T_Var p;
            p = (if g then syntaxError (''var declaration not allowed in '' @ token_String keyword
                             @ '' initializer'') p else p);
            (s, p) = simpleStmt R None keyword p in (Some s, p)
      else (None, p))"

definition header_inner :: "procs \<Rightarrow> token \<Rightarrow> (Stmt option \<times> Expr option \<times> Stmt option) P" where
  "header_inner R keyword p =
     (let (ini, p) = header_init R keyword p in
      if is_range ini then ((ini, None, None), p)
      else
        let (c, p) = header_clauses R keyword ini p in
        case c of (ini, condStmt, post, semi) \<Rightarrow>
          let (cnd, p) = unpack_cond keyword condStmt semi p in ((ini, cnd, post), p))"

text \<open>\<open>outer := p.xnest; p.xnest = -1\<close>, and \<open>p.xnest = outer\<close> on every way out.\<close>

definition outside :: "'a P \<Rightarrow> 'a P" where
  "outside m p =
     (let outer = ps_xnest p;
          (x, p) = m (p\<lparr>ps_xnest := -1\<rparr>) in (x, p\<lparr>ps_xnest := outer\<rparr>))"

definition header :: "procs \<Rightarrow> token \<Rightarrow> (Stmt option \<times> Expr option \<times> Stmt option) P" where
  "header R keyword p =
     (let p = want keyword p in
      if cur_tok p = T_Lbrace then
        if keyword = T_If then
          let p = syntaxError ''missing condition in if statement'' p in ((None, Some (badExpr p), None), p)
        else ((None, None, None), p)
      else outside (header_inner R keyword) p)"

subsection \<open>Compound statements\<close>

definition forStmt :: "procs \<Rightarrow> Stmt P" where
  "forStmt R p =
     (let (a, p) = new_addr p;
          pos = cur_pos p;
          (h, p) = header R T_For p;
          (body, p) = blockStmt R ''for clause'' p
      in (ForStmt a pos (fst h) (fst (snd h)) (snd (snd h)) body, p))"

definition ifStmt :: "procs \<Rightarrow> Stmt P" where
  "ifStmt R p =
     (let pos = cur_pos p;
          (h, p) = header R T_If p;
          (thn, p) = blockStmt R ''if clause'' p;
          (g, p) = got T_Else p in
      if g then
        if cur_tok p = T_If then
          let (e, p) = r_ifStmt R p in (IfStmt pos (fst h) (fst (snd h)) thn (Some e), p)
        else if cur_tok p = T_Lbrace then
          let (b, p) = blockStmt R [] p in (IfStmt pos (fst h) (fst (snd h)) thn (Some (BlockS b)), p)
        else
          let p = syntaxError ''else must be followed by if or statement block'' p;
              p = advance [T_Name, T_Rbrace] p in (IfStmt pos (fst h) (fst (snd h)) thn None, p)
      else (IfStmt pos (fst h) (fst (snd h)) thn None, p))"

definition clause_skip :: "parser \<Rightarrow> parser" where
  "clause_skip p =
     (let p = syntaxError ''expected case or default or }'' p
      in advance [T_Colon, T_Case, T_Default, T_Rbrace] p)"

definition caseClause :: "procs \<Rightarrow> CaseClause P" where
  "caseClause R p =
     (let pos = cur_pos p;
          (cs, p) =
            (if cur_tok p = T_Case then
               let p = next_p p;
                   (e, p) = exprList R p in (Some e, p)
             else if cur_tok p = T_Default then let p = next_p p in (None, p)
             else let p = clause_skip p in (None, p));
          colon = cur_pos p;
          p = want T_Colon p;
          (body, p) = stmtList R p
      in (CaseClause pos cs body colon, p))"

definition commClause :: "procs \<Rightarrow> CommClause P" where
  "commClause R p =
     (let pos = cur_pos p;
          (cm, p) =
            (if cur_tok p = T_Case then
               let p = next_p p;
                   (s, p) = simpleStmt R None T_None p in (Some s, p)
             else if cur_tok p = T_Default then let p = next_p p in (None, p)
             else let p = clause_skip p in (None, p));
          colon = cur_pos p;
          p = want T_Colon p;
          (body, p) = stmtList R p
      in (CommClause pos cm body colon, p))"

definition clauses_open :: "string \<Rightarrow> parser \<Rightarrow> parser" where
  "clauses_open msg p =
     (let (g, p) = got T_Lbrace p in
      if g then p else let p = syntaxError msg p in advance [T_Case, T_Default, T_Rbrace] p)"

definition switch_body :: "procs \<Rightarrow> CaseClause list \<Rightarrow> (CaseClause list \<times> bool) P" where
  "switch_body R l p = (let (c, p) = caseClause R p in ((l @ [c], True), p))"

definition select_body :: "procs \<Rightarrow> CommClause list \<Rightarrow> (CommClause list \<times> bool) P" where
  "select_body R l p = (let (c, p) = commClause R p in ((l @ [c], True), p))"

definition switchStmt :: "procs \<Rightarrow> Stmt P" where
  "switchStmt R p =
     (let (a, p) = new_addr p;
          pos = cur_pos p;
          (h, p) = header R T_Switch p;
          p = clauses_open ''missing { after switch clause'' p;
          (cs, p) = while_p (\<lambda>l t. t \<noteq> T_EOF \<and> t \<noteq> T_Rbrace) (switch_body R) [] p;
          rb = cur_pos p;
          p = want T_Rbrace p
      in (SwitchStmt a pos (fst h) (fst (snd h)) cs rb, p))"

definition selectStmt :: "procs \<Rightarrow> Stmt P" where
  "selectStmt R p =
     (let (a, p) = new_addr p;
          pos = cur_pos p;
          p = want T_Select p;
          p = clauses_open ''missing { after select clause'' p;
          (cs, p) = while_p (\<lambda>l t. t \<noteq> T_EOF \<and> t \<noteq> T_Rbrace) (select_body R) [] p;
          rb = cur_pos p;
          p = want T_Rbrace p
      in (SelectStmt a pos cs rb, p))"

definition labeledStmtOrNil :: "procs \<Rightarrow> Name \<Rightarrow> Stmt option P" where
  "labeledStmtOrNil R label p =
     (let (a, p) = new_addr p;
          pos = cur_pos p;
          p = want T_Colon p in
      if cur_tok p = T_Rbrace then (Some (LabeledStmt a pos label (EmptyStmt (cur_pos p))), p)
      else
        let (s, p) = r_stmtOrNil R p in
        case s of
          Some s \<Rightarrow> (Some (LabeledStmt a pos label s), p)
        | None \<Rightarrow> let p = syntaxErrorAt pos ''missing statement after label'' p in (None, p))"

end
