(* ===== verification/Parser.thy ===== *)
theory Parser
  imports Parser_Stmt
begin

text \<open>
  Declarations, the choice of a statement, the knot that closes the cycles of the productions, the
  source file (\<open>parser.go\<close>), and \<open>Parse\<close> (\<open>syntax.go\<close>).
\<close>

subsection \<open>Enumerations\<close>

text \<open>\<open>createEnumStringMethod\<close>: the method that returns the name of a value.\<close>

definition quoted_lit :: "Name \<Rightarrow> Expr" where
  "quoted_lit v = LitE \<lparr>l_pos = n_pos v, l_value = [CHR 34] @ n_value v @ [CHR 34],
     l_kind = StringLit, l_bad = False\<rparr>"

definition createEnumStringMethod :: "Pos \<Rightarrow> Name \<Rightarrow> Name list \<Rightarrow> Decl" where
  "createEnumStringMethod pos enumName values =
     (let receiver = Field pos (Some (NewName pos ''s'')) (Some (NameE enumName));
          str = NameE (NewName pos ''string'');
          arrayLit = CompositeLit pos (Some (ArrayType pos None str)) (map quoted_lit values) 0 zero_Pos;
          index = IndexExpr pos arrayLit (NameE (NewName pos ''s''));
          body = Block pos [ReturnStmt pos (Some index)] zero_Pos
      in FuncDecl pos None (Some receiver) (NewName pos ''String'') []
           (FuncType pos [] [Field pos None (Some str)]) (Some body))"

definition enum_const :: "Name \<Rightarrow> nat \<times> Name \<Rightarrow> Decl" where
  "enum_const enumName iv =
     (case iv of (i, v) \<Rightarrow>
        ConstDecl (n_pos v) None None [v] (Some (NameE enumName))
          (Some (LitE \<lparr>l_pos = zero_Pos, l_value = itoa i, l_kind = IntLit, l_bad = False\<rparr>)))"

definition enum_decls :: "Pos \<Rightarrow> Name \<Rightarrow> Name list \<Rightarrow> Decl list" where
  "enum_decls pos enumName values =
     TypeDecl pos None None enumName [] False (NameE (NewName zero_Pos ''int''))
     # map (enum_const enumName) (enumerate 0 values)
     @ [createEnumStringMethod pos enumName values]"

definition enumDeclGroup :: "Decl list \<Rightarrow> Decl list P" where
  "enumDeclGroup l p =
     (let pos = cur_pos p;
          (enumName, p) = name_p p;
          p = want T_Lbrace p in
      if cur_tok p \<noteq> T_Name then
        let p = syntaxError ''expected enum value name'' p in (l, p)
      else
        let (n, p) = name_p p;
            (values, p) = nameList n p;
            p = want T_Rbrace p in (l @ enum_decls pos enumName values, p))"

definition enumStmt :: "Stmt P" where
  "enumStmt p =
     (let pos = cur_pos p;
          p = next_p p;
          (ds, p) = enumDeclGroup [] p in (DeclStmt pos ds, p))"

subsection \<open>Declarations\<close>

definition group_body :: "(nat option \<Rightarrow> Decl P) \<Rightarrow> nat \<Rightarrow> Decl list \<Rightarrow> (Decl list \<times> bool) P" where
  "group_body f g l p = (let (d, p) = f (Some g) p in ((l @ [d], False), p))"

definition appendGroup :: "Decl list \<Rightarrow> (nat option \<Rightarrow> Decl P) \<Rightarrow> Decl list P" where
  "appendGroup l f p =
     (if cur_tok p = T_Lparen then
        let (g, p) = new_group p;
            p = clear_pragma p;
            p = next_p p;
            (r, p) = list_p ''grouped declaration'' T_Semi T_Rparen (group_body f g) l p in (fst r, p)
      else let (d, p) = f None p in (l @ [d], p))"

definition import_path :: "Pos \<Rightarrow> nat option \<Rightarrow> nat option \<Rightarrow> Name option \<Rightarrow> Decl P" where
  "import_path pos grp pragma n p =
     (let (b, p) = oliteral p in
      case b of
        None \<Rightarrow>
          let p = syntaxError ''missing import path'' p;
              p = advance [T_Semi, T_Rparen] p in (ImportDecl pos grp pragma n None, p)
      | Some b \<Rightarrow>
          if \<not> l_bad b \<and> l_kind b \<noteq> StringLit then
            let p = syntaxErrorAt (l_pos b) ''import path must be a string'' p
            in (ImportDecl pos grp pragma n (Some (b\<lparr>l_bad := True\<rparr>)), p)
          else (ImportDecl pos grp pragma n (Some b), p))"

definition importDecl :: "nat option \<Rightarrow> Decl P" where
  "importDecl grp p =
     (let pos = cur_pos p;
          (pragma, p) = takePragma p in
      if cur_tok p = T_Name then
        let (n, p) = name_p p in import_path pos grp pragma (Some n) p
      else if cur_tok p = T_Dot then
        let n = NewName (cur_pos p) ''.'';
            p = next_p p in import_path pos grp pragma (Some n) p
      else import_path pos grp pragma None p)"

text \<open>\<open>[ "=" ExpressionList ]\<close>\<close>

definition opt_values :: "procs \<Rightarrow> Expr option P" where
  "opt_values R p =
     (let (g, p) = gotAssign p in
      if g then let (e, p) = exprList R p in (Some e, p) else (None, p))"

definition constDecl :: "procs \<Rightarrow> nat option \<Rightarrow> Decl P" where
  "constDecl R grp p =
     (let pos = cur_pos p;
          (pragma, p) = takePragma p;
          (n, p) = name_p p;
          (ns, p) = nameList n p in
      if cur_tok p \<noteq> T_EOF \<and> cur_tok p \<noteq> T_Semi \<and> cur_tok p \<noteq> T_Rparen then
        let (t, p) = r_typeOrNil R p;
            (vs, p) = opt_values R p in (ConstDecl pos grp pragma ns t vs, p)
      else (ConstDecl pos grp pragma ns None None, p))"

definition varDecl :: "procs \<Rightarrow> nat option \<Rightarrow> Decl P" where
  "varDecl R grp p =
     (let pos = cur_pos p;
          (pragma, p) = takePragma p;
          (n, p) = name_p p;
          (ns, p) = nameList n p;
          (vs, p) = opt_values R p in
      case vs of
        Some v \<Rightarrow> (VarDecl pos grp pragma ns None (Some v), p)
      | None \<Rightarrow>
          let (t, p) = type_p R p;
              (vs, p) = opt_values R p in (VarDecl pos grp pragma ns (Some t) vs, p))"

text \<open>The parts of \<open>typeDecl\<close>: the type parameters, whether it is an alias, and the type, if there is one.\<close>

type_synonym type_spec = "Field list \<times> bool \<times> Expr option"

definition alias_type :: "procs \<Rightarrow> Field list \<Rightarrow> type_spec P" where
  "alias_type R tps p =
     (let (al, p) = gotAssign p;
          (t, p) = r_typeOrNil R p in ((tps, al, t), p))"

definition split_params :: "procs \<Rightarrow> Pos \<Rightarrow> Expr \<Rightarrow> bool \<Rightarrow> type_spec P" where
  "split_params R pos x force p =
     (case extractName x force of
        (Some pname, ptype) \<Rightarrow>
          if \<not> Option.is_none ptype \<or> cur_tok p \<noteq> T_Rbrack then
            let (tps, p) = paramList R (Some pname) ptype T_Rbrack True False p in alias_type R tps p
          else let (t, p) = arrayType R pos (Some x) p in (([], False, Some t), p)
      | (None, _) \<Rightarrow> let (t, p) = arrayType R pos (Some x) p in (([], False, Some t), p))"

definition type_params_or_array :: "procs \<Rightarrow> Pos \<Rightarrow> type_spec P" where
  "type_params_or_array R pos p =
     (let (n, p) = name_p p;
          (x, p) =
            (if cur_tok p \<noteq> T_Lbrack then
               nest (\<lambda>p. let (x, p) = pexpr R (Some (NameE n)) False p in binaryExpr R (Some x) 0 p) p
             else (NameE n, p))
      in split_params R pos x (cur_tok p = T_Comma) p)"

definition bracket_spec :: "procs \<Rightarrow> type_spec P" where
  "bracket_spec R p =
     (let pos = cur_pos p;
          p = next_p p in
      if cur_tok p = T_Name then type_params_or_array R pos p
      else if cur_tok p = T_Rbrack then
        let p = next_p p;
            (t, p) = sliceType R pos p in (([], False, Some t), p)
      else let (t, p) = arrayType R pos None p in (([], False, Some t), p))"

definition typeDecl :: "procs \<Rightarrow> nat option \<Rightarrow> Decl P" where
  "typeDecl R grp p =
     (let pos = cur_pos p;
          (pragma, p) = takePragma p;
          (n, p) = name_p p;
          (sp, p) = (if cur_tok p = T_Lbrack then bracket_spec R p else alias_type R [] p) in
      case sp of (tps, al, t) \<Rightarrow>
        case t of
          Some t \<Rightarrow> (TypeDecl pos grp pragma n tps al t, p)
        | None \<Rightarrow>
            let t = badExpr p;
                p = syntaxError ''in type declaration'' p;
                p = advance [T_Semi, T_Rparen] p in (TypeDecl pos grp pragma n tps al t, p))"

text \<open>The receiver of \<open>funcDeclOrNil\<close>, and the context it sets.\<close>

definition receiver :: "procs \<Rightarrow> (Field option \<times> string) P" where
  "receiver R p =
     (let (g, p) = got T_Lparen p in
      if g then
        let (rcvr, p) = paramList R None None T_Rparen False False p in
        case rcvr of
          [] \<Rightarrow> let p = error_p ''method has no receiver'' p in ((None, ''method''), p)
        | [f] \<Rightarrow> ((Some f, ''method''), p)
        | f # _ \<Rightarrow> let p = error_p ''method has multiple receivers'' p in ((Some f, ''method''), p)
      else ((None, []), p))"

definition opt_body :: "procs \<Rightarrow> BlockStmt option P" where
  "opt_body R p =
     (if cur_tok p = T_Lbrace then let (b, p) = funcBody R p in (Some b, p) else (None, p))"

definition funcDeclOrNil :: "procs \<Rightarrow> Decl P" where
  "funcDeclOrNil R p =
     (let pos = cur_pos p;
          (pragma, p) = takePragma p;
          (rc, p) = receiver R p in
      if cur_tok p = T_Name then
        let (n, p) = name_p p;
            (ft, p) = funcType R (snd rc) p;
            (body, p) = opt_body R p
        in (FuncDecl pos pragma (fst rc) n (fst ft) (snd ft) body, p)
      else
        let n = NewName (cur_pos p) ''_'';
            ft = FuncType (cur_pos p) [] [];
            p = syntaxError (if snd rc \<noteq> [] then ''expected name'' else ''expected name or ('') p;
            p = advance [T_Lbrace, T_Semi] p;
            (body, p) = opt_body R p
        in (FuncDecl pos pragma (fst rc) n [] ft body, p))"

definition declStmt :: "(nat option \<Rightarrow> Decl P) \<Rightarrow> Stmt P" where
  "declStmt f p =
     (let pos = cur_pos p;
          p = next_p p;
          (ds, p) = appendGroup [] f p in (DeclStmt pos ds, p))"

subsection \<open>Statements\<close>

definition name_stmt :: "procs \<Rightarrow> Stmt option P" where
  "name_stmt R p =
     (let p = clear_pragma p;
          (lhs, p) = exprList R p in
      case name_of lhs of
        Some label \<Rightarrow>
          if cur_tok p = T_Colon then labeledStmtOrNil R label p
          else let (s, p) = simpleStmt R (Some lhs) T_None p in (Some s, p)
      | None \<Rightarrow> let (s, p) = simpleStmt R (Some lhs) T_None p in (Some s, p))"

definition branchStmt :: "Stmt P" where
  "branchStmt p =
     (let (a, p) = new_addr p;
          pos = cur_pos p;
          t = cur_tok p;
          p = next_p p in
      if (t = T_Break \<or> t = T_Continue) \<and> cur_tok p = T_Name \<or> t = T_Goto then
        let (n, p) = name_p p in (BranchStmt a pos t (Some n), p)
      else (BranchStmt a pos t None, p))"

definition checkStmt :: "procs \<Rightarrow> Stmt P" where
  "checkStmt R p =
     (let pos = cur_pos p;
          p = next_p p;
          (e, p) = expr R p in (CheckStmt pos e, p))"

definition returnStmt :: "procs \<Rightarrow> Stmt P" where
  "returnStmt R p =
     (let pos = cur_pos p;
          p = next_p p in
      if cur_tok p \<noteq> T_Semi \<and> cur_tok p \<noteq> T_Rbrace then
        let (e, p) = exprList R p in (ReturnStmt pos (Some e), p)
      else (ReturnStmt pos None, p))"

definition operand_tokens :: "token list" where
  "operand_tokens = [T_Literal, T_Func, T_Lparen, T_Lbrack, T_Struct, T_Map, T_Chan, T_Interface, T_Arrow]"

definition stmt_ops :: "Operator list" where
  "stmt_ops = [Op_Add, Op_Sub, Op_Mul, Op_And, Op_Xor, Op_Not]"

definition some_stmt :: "Stmt P \<Rightarrow> Stmt option P" where
  "some_stmt m p = (let (s, p) = m p in (Some s, p))"

text \<open>The second \<open>switch\<close> of \<open>stmtOrNil\<close>, after the pragma has been cleared.\<close>

definition stmt_choice :: "procs \<Rightarrow> Stmt option P" where
  "stmt_choice R p =
     (if cur_tok p = T_Lbrace then let (b, p) = blockStmt R [] p in (Some (BlockS b), p)
      else if cur_tok p = T_Operator \<or> cur_tok p = T_Star then
        if cur_op p \<in> set stmt_ops then some_stmt (simpleStmt R None T_None) p else (None, p)
      else if cur_tok p \<in> set operand_tokens then some_stmt (simpleStmt R None T_None) p
      else if cur_tok p = T_For then some_stmt (forStmt R) p
      else if cur_tok p = T_Switch then some_stmt (switchStmt R) p
      else if cur_tok p = T_Select then some_stmt (selectStmt R) p
      else if cur_tok p = T_If then some_stmt (r_ifStmt R) p
      else if cur_tok p = T_Fallthrough \<or> cur_tok p = T_Break \<or> cur_tok p = T_Continue
        \<or> cur_tok p = T_Goto then some_stmt branchStmt p
      else if cur_tok p = T_Check then some_stmt (checkStmt R) p
      else if cur_tok p = T_Go \<or> cur_tok p = T_Defer then some_stmt (callStmt R) p
      else if cur_tok p = T_Return then some_stmt (returnStmt R) p
      else if cur_tok p = T_Semi then (Some (EmptyStmt (cur_pos p)), p)
      else (None, p))"

definition stmtOrNil :: "procs \<Rightarrow> Stmt option P" where
  "stmtOrNil R p =
     (if cur_tok p = T_Name then name_stmt R p
      else if cur_tok p = T_Var then some_stmt (declStmt (varDecl R)) p
      else if cur_tok p = T_Const then some_stmt (declStmt (constDecl R)) p
      else if cur_tok p = T_Type then some_stmt (declStmt (typeDecl R)) p
      else if cur_tok p = T_Enum then some_stmt enumStmt p
      else let p = clear_pragma p in stmt_choice R p)"

subsection \<open>Closing the cycles\<close>

text \<open>
  A call through \<open>procs\<close> costs one unit of fuel.  \<open>knot_fuel\<close> below is enough for every input
  (\<open>Parser_Props\<close>).
\<close>

definition stuck :: "parser \<Rightarrow> parser" where "stuck p = p\<lparr>ps_stuck := True\<rparr>"

fun
  binary_n :: "nat \<Rightarrow> Expr option \<Rightarrow> nat \<Rightarrow> Expr P" and
  unary_n :: "nat \<Rightarrow> Expr P" and
  type_n :: "nat \<Rightarrow> Expr option P" and
  complit_n :: "nat \<Rightarrow> (Pos \<times> Expr list \<times> nat \<times> Pos) P" and
  stmt_n :: "nat \<Rightarrow> Stmt option P" and
  if_n :: "nat \<Rightarrow> Stmt P" where
  "binary_n 0 x pr p = (badExpr p, stuck p)"
| "binary_n (Suc n) x pr p =
     binaryExpr \<lparr>r_binaryExpr = binary_n n, r_unaryExpr = unary_n n, r_typeOrNil = type_n n,
       r_complitexpr = complit_n n, r_stmtOrNil = stmt_n n, r_ifStmt = if_n n\<rparr> x pr p"
| "unary_n 0 p = (badExpr p, stuck p)"
| "unary_n (Suc n) p =
     unaryExpr \<lparr>r_binaryExpr = binary_n n, r_unaryExpr = unary_n n, r_typeOrNil = type_n n,
       r_complitexpr = complit_n n, r_stmtOrNil = stmt_n n, r_ifStmt = if_n n\<rparr> p"
| "type_n 0 p = (None, stuck p)"
| "type_n (Suc n) p =
     typeOrNil \<lparr>r_binaryExpr = binary_n n, r_unaryExpr = unary_n n, r_typeOrNil = type_n n,
       r_complitexpr = complit_n n, r_stmtOrNil = stmt_n n, r_ifStmt = if_n n\<rparr> p"
| "complit_n 0 p = ((cur_pos p, [], 0, cur_pos p), stuck p)"
| "complit_n (Suc n) p =
     complitexpr \<lparr>r_binaryExpr = binary_n n, r_unaryExpr = unary_n n, r_typeOrNil = type_n n,
       r_complitexpr = complit_n n, r_stmtOrNil = stmt_n n, r_ifStmt = if_n n\<rparr> p"
| "stmt_n 0 p = (None, stuck p)"
| "stmt_n (Suc n) p =
     stmtOrNil \<lparr>r_binaryExpr = binary_n n, r_unaryExpr = unary_n n, r_typeOrNil = type_n n,
       r_complitexpr = complit_n n, r_stmtOrNil = stmt_n n, r_ifStmt = if_n n\<rparr> p"
| "if_n 0 p = (EmptyStmt (cur_pos p), stuck p)"
| "if_n (Suc n) p =
     ifStmt \<lparr>r_binaryExpr = binary_n n, r_unaryExpr = unary_n n, r_typeOrNil = type_n n,
       r_complitexpr = complit_n n, r_stmtOrNil = stmt_n n, r_ifStmt = if_n n\<rparr> p"

definition knot :: "nat \<Rightarrow> procs" where
  "knot n = \<lparr>r_binaryExpr = binary_n n, r_unaryExpr = unary_n n, r_typeOrNil = type_n n,
     r_complitexpr = complit_n n, r_stmtOrNil = stmt_n n, r_ifStmt = if_n n\<rparr>"

declare binary_n.simps [simp del] unary_n.simps [simp del] type_n.simps [simp del]
  complit_n.simps [simp del] stmt_n.simps [simp del] if_n.simps [simp del]

subsection \<open>Source files\<close>

record File =
  file_Pragma :: "nat option"
  file_PkgName :: Name
  file_DeclList :: "Decl list"
  file_TopLevelStmts :: "Stmt list"
  file_EOF :: Pos
  file_GoVersion :: string
  file_pos :: Pos

fun isEmptyFuncDecl :: "Decl \<Rightarrow> bool" where
  "isEmptyFuncDecl (FuncDecl _ _ _ _ _ _ None) = True"
| "isEmptyFuncDecl _ = False"

definition decl_tokens :: "token list" where
  "decl_tokens = [T_Import, T_Const, T_Type, T_Var, T_Func]"

text \<open>The variables of the loop in \<open>fileOrNil\<close>: declarations, top-level statements, the previous token.\<close>

type_synonym file_vars = "Decl list \<times> Stmt list \<times> token"

text \<open>The end of an iteration.\<close>

definition file_sep :: "parser \<Rightarrow> parser" where
  "file_sep p =
     (let p = clear_pragma p in
      if cur_tok p \<noteq> T_EOF then
        let (g, p) = got T_Semi p in
        if g then p
        else let p = syntaxError ''after top level declaration'' p in advance decl_tokens p
      else p)"

definition top_decl :: "procs \<Rightarrow> Decl list \<Rightarrow> Decl list P" where
  "top_decl R ds p =
     (if cur_tok p = T_Import then let p = next_p p in appendGroup ds importDecl p
      else if cur_tok p = T_Const then let p = next_p p in appendGroup ds (constDecl R) p
      else if cur_tok p = T_Type then let p = next_p p in appendGroup ds (typeDecl R) p
      else if cur_tok p = T_Enum then let p = next_p p in enumDeclGroup ds p
      else if cur_tok p = T_Var then let p = next_p p in appendGroup ds (varDecl R) p
      else let p = next_p p; (d, p) = funcDeclOrNil R p in (ds @ [d], p))"

definition is_top_decl :: "parser \<Rightarrow> bool" where
  "is_top_decl p \<longleftrightarrow> cur_tok p \<in> {T_Import, T_Const, T_Type, T_Enum, T_Var, T_Func}
     \<or> cur_tok p = T_Name \<and> lit (ps_scan p) = ''def''"

definition file_body :: "procs \<Rightarrow> file_vars \<Rightarrow> (file_vars \<times> bool) P" where
  "file_body R v p =
     (case v of (ds, ss, prev) \<Rightarrow>
      let p = (if cur_tok p = T_Import \<and> prev \<noteq> T_Import
               then syntaxError ''imports must appear before other declarations'' p else p);
          prev = cur_tok p in
      if is_top_decl p then
        let (ds, p) = top_decl R ds p;
            p = file_sep p in (((ds, ss, prev), True), p)
      else if cur_tok p = T_Lbrace \<and> ds \<noteq> [] \<and> isEmptyFuncDecl (last ds) then
        let p = syntaxError ''unexpected semicolon or newline before {'' p;
            p = advance decl_tokens p in (((ds, ss, prev), True), p)
      else
        let (s, p) = r_stmtOrNil R p;
            p = file_sep p
        in (((ds, case s of Some s \<Rightarrow> ss @ [s] | None \<Rightarrow> ss, prev), True), p))"

fun is_main :: "Decl \<Rightarrow> bool" where
  "is_main (FuncDecl _ _ None n _ _ _) \<longleftrightarrow> n_value n = ''main''"
| "is_main _ \<longleftrightarrow> False"

text \<open>The implicit main function.\<close>

definition add_main :: "File \<Rightarrow> File" where
  "add_main f =
     (if n_value (file_PkgName f) = ''main'' \<and> file_TopLevelStmts f \<noteq> []
         \<and> \<not> list_ex is_main (file_DeclList f)
      then f\<lparr>file_DeclList := file_DeclList f @
               [FuncDecl (file_pos f) None None (NewName (file_pos f) ''main'') []
                  (FuncType zero_Pos [] []) (Some (Block zero_Pos (file_TopLevelStmts f) zero_Pos))],
             file_TopLevelStmts := []\<rparr>
      else f)"

text \<open>The package clause: pragma and name.\<close>

definition package_clause :: "(nat option \<times> Name) P" where
  "package_clause p =
     (if cur_tok p \<noteq> T_Package then ((None, NewName (cur_pos p) ''main''), p)
      else
        let p = next_p p;
            (g, p) = takePragma p;
            (n, p) = name_p p;
            p = want T_Semi p in ((g, n), p))"

definition fileOrNil :: "procs \<Rightarrow> File option P" where
  "fileOrNil R p =
     (let pos = cur_pos p;
          gv = ps_goVersion p;
          p = p\<lparr>ps_top := False\<rparr>;
          (pk, p) = package_clause p in
      if \<not> Option.is_none (ps_first p) then (None, p)
      else
        let (v, p) = while_p (\<lambda>v t. t \<noteq> T_EOF) (file_body R) ([], [], T_Import) p;
            p = clear_pragma p
        in (Some (add_main \<lparr>file_Pragma = fst pk, file_PkgName = snd pk, file_DeclList = fst v,
               file_TopLevelStmts = fst (snd v), file_EOF = cur_pos p, file_GoVersion = gv,
               file_pos = pos\<rparr>), p))"

subsection \<open>Parse\<close>

definition knot_fuel :: "string \<Rightarrow> nat" where
  "knot_fuel src = 8 * length src + 20"

definition parse_state ::
    "externs \<Rightarrow> base_ref \<Rightarrow> bases \<Rightarrow> string \<Rightarrow> bool \<Rightarrow> (pragma_call list \<Rightarrow> nat option) option \<Rightarrow> uint64
       \<Rightarrow> File option \<times> parser" where
  "parse_state X base B src has_errh pragh m =
     fileOrNil (knot (knot_fuel src)) (next_p (init_parser X base B src has_errh pragh m))"

text \<open>
  What \<open>Parse\<close> returns: \<open>Some (file, first)\<close>, or \<open>None\<close> for a panic that is not an \<open>Error\<close>, which it does not
  stop.
\<close>

definition Parse ::
    "externs \<Rightarrow> base_ref \<Rightarrow> bases \<Rightarrow> string \<Rightarrow> bool \<Rightarrow> (pragma_call list \<Rightarrow> nat option) option \<Rightarrow> uint64
       \<Rightarrow> (File option \<times> syntax_error option) option" where
  "Parse X base B src has_errh pragh m =
     (let (f, p) = parse_state X base B src has_errh pragh m in
      case ps_panic p of
        None \<Rightarrow> Some (f, ps_first p)
      | Some (PanicError e) \<Rightarrow> Some (None, Some e)
      | Some PanicNil \<Rightarrow> None)"

end
