(* ===== verification/Scanner_Prec.thy ===== *)
theory Scanner_Prec
  imports Scanner_Props
begin

text \<open>
  The scanner gives every operator token the precedence of its operator (\<open>scanner.go\<close>: the cases of \<open>next\<close>,
  and the word operators of \<open>ident\<close>).  \<open>op_prec\<close> is the table of the language.
\<close>

subsection \<open>The precedence of an operator token\<close>

fun op_prec :: "Operator \<Rightarrow> nat" where
  "op_prec Op_OrOr = precOrOr"
| "op_prec Op_AndAnd = precAndAnd"
| "op_prec Op_Eql = precCmp"
| "op_prec Op_Neq = precCmp"
| "op_prec Op_Lss = precCmp"
| "op_prec Op_Leq = precCmp"
| "op_prec Op_Gtr = precCmp"
| "op_prec Op_Geq = precCmp"
| "op_prec Op_Add = precAdd"
| "op_prec Op_Sub = precAdd"
| "op_prec Op_Or = precAdd"
| "op_prec Op_Xor = precAdd"
| "op_prec Op_Mul = precMul"
| "op_prec Op_Div = precMul"
| "op_prec Op_Rem = precMul"
| "op_prec Op_And = precMul"
| "op_prec Op_AndNot = precMul"
| "op_prec Op_Shl = precMul"
| "op_prec Op_Shr = precMul"
| "op_prec _ = 0"

definition op_ok :: "'a scanner_scheme \<Rightarrow> bool" where
  "op_ok s \<longleftrightarrow> (tok s = T_Operator \<or> tok s = T_Star \<longrightarrow> prec s = op_prec (op s))"

definition pass_op :: "'a scanner_scheme \<times> bool \<Rightarrow> bool" where
  "pass_op r \<longleftrightarrow> snd r \<or> op_ok (fst r)"

lemma nextch_prec [simp]: "prec (nextch s) = prec s" for s :: "'a scanner_scheme"
  using nextch_frame(4) [of s] by (cases s; cases "nextch s") (simp del: nextch_frame add: source.defs)

lemma op_ok_assignop: "prec s = op_prec (op s) \<Longrightarrow> op_ok (assignop s)"
  by (simp add: op_ok_def assignop_def)

lemma op_ok_other: "tok s \<noteq> T_Operator \<Longrightarrow> tok s \<noteq> T_Star \<Longrightarrow> op_ok s"
  by (simp add: op_ok_def)

lemma op_ok_number: "op_ok (number sp s)"
  using number_lit [of sp s] by (metis lit_of_def op_ok_other token.distinct(1) token.simps)

lemma op_ok_strings: "op_ok (stdString s)" "op_ok (rawString s)" "op_ok (rune_lit s)"
  by (simp_all add: stdString_def rawString_def rune_lit_def case_prod_beta op_ok_def)

lemma op_ok_ident: "op_ok (ident s)" for s :: "'a scanner_scheme"
proof -
  have "op_ok (classify_ident l u)" for l and u :: "'a scanner_scheme"
  proof (cases "keyword_lookup l")
    case (Some t)
    then have "t \<in> set keyword_tokens" using keyword_lookup_iff by blast
    then have "t \<noteq> T_Operator" "t \<noteq> T_Star" by (auto simp: keyword_tokens_def)
    then show ?thesis using Some by (simp add: classify_ident_def op_ok_def)
  qed (simp add: classify_ident_def op_ok_def)
  then show ?thesis by (simp add: ident_def Let_def)
qed

lemma pass_op_if: "pass_op a \<Longrightarrow> pass_op b \<Longrightarrow> pass_op (if c then a else b)"
  by simp

lemma pass_op_ret: "op_ok s \<Longrightarrow> pass_op (s, False)"
  by (simp add: pass_op_def)

lemma op_ok_cases:
  "op_ok (scan_colon s)" "op_ok (scan_dot s)" "op_ok (scan_star s)" "op_ok (scan_amp s)" "op_ok (scan_bar s)"
  "op_ok (scan_less s)" "op_ok (scan_greater s)" "op_ok (scan_equal s)" "op_ok (scan_bang s)"
  "op_prec o1 = precAdd \<Longrightarrow> op_ok (scan_incop o1 c s)" "pass_op (scan_slash nl s)" "pass_op (scan_hash s)"
  using op_ok_number [of True "nextch s"]
  by (simp_all add: scan_colon_def scan_dot_def scan_star_def scan_amp_def scan_bar_def scan_less_def
      scan_greater_def scan_equal_def scan_bang_def scan_incop_def scan_slash_def scan_hash_def
      Let_def operator_tok_def setop_def op_ok_def assignop_def pass_op_def)

lemma pass_op_switch: "pass_op (scan_switch nl s)"
  unfolding scan_switch_def
  by (intro pass_op_if pass_op_ret op_ok_cases op_ok_number op_ok_strings)
     (simp_all add: op_ok_def setop_def assignop_def operator_tok_def pass_op_def)

lemma pass_op_token: "pass_op (scan_token nl s)"
  unfolding scan_token_def Let_def
  by (auto intro!: pass_op_if pass_op_ret op_ok_ident pass_op_switch split: prod.split)

lemma next_loop_op: "op_ok (next_loop nl s)"
proof (induction nl s rule: next_loop.induct)
  case (1 nl s)
  obtain t redo where t: "scan_token nl s = (t, redo)" by fastforce
  then show ?case using "1.IH" [OF t [symmetric] refl] pass_op_token [of nl s]
    by (subst next_loop.simps) (auto simp: pass_op_def)
qed

lemma next_tok_op: "op_ok (next_tok s)"
  by (simp add: next_tok_def next_loop_op)

text \<open>C28: whenever the scanner returns an operator token, in whatever spelling, its precedence is the one that the
  language gives to the operator.\<close>

theorem operator_precedence:
  "tok (scan_n inp m (Suc n)) = T_Operator \<or> tok (scan_n inp m (Suc n)) = T_Star \<Longrightarrow>
   prec (scan_n inp m (Suc n)) = op_prec (op (scan_n inp m (Suc n)))"
  using next_tok_op [of "scan_n inp m n"] by (simp add: scan_n_def op_ok_def)

theorem operator_precedence_witness:
  "tok (scan_n ''and'' 0 (Suc 0)) = T_Operator \<and> prec (scan_n ''and'' 0 (Suc 0)) = op_prec (op (scan_n ''and'' 0 (Suc 0)))"
proof -
  have "tok (scan_n ''and'' 0 (Suc 0)) = T_Operator" by code_simp
  then show ?thesis using operator_precedence [of "''and''" 0 0] by simp
qed

end
