(* ===== verification/Parser_Runs.thy ===== *)
theory Parser_Runs
  imports Parser Scanner_Prec
begin

text \<open>
  A calculus for the productions of the parser, in the style of a Hoare logic for total correctness:
  \<open>runs K N st m\<close> says that the production \<open>m\<close>, started in a state with the invariant, with \<open>K\<close>, and
  with at most \<open>N\<close> tokens left, returns with the invariant, without having run out of fuel, with the
  nesting levels it started with, without dropping an error, and, where \<open>st\<close> asks for it, with fewer
  tokens left.
\<close>

subsection \<open>Invariant and progress\<close>

definition left :: "parser \<Rightarrow> nat" where
  "left p = (if cur_tok p = T_EOF then 0 else Suc (budget (ps_scan p)))"

definition plain_mode :: "parser \<Rightarrow> bool" where
  "plain_mode p \<longleftrightarrow> ps_mode p AND CheckBranches = 0"

definition hd_option :: "'a list \<Rightarrow> 'a option" where
  "hd_option xs = (case xs of [] \<Rightarrow> None | x # _ \<Rightarrow> Some x)"

text \<open>Errors are counted, the first one is kept, and without a handler it is the value of the panic.\<close>

definition errs_inv :: "parser \<Rightarrow> bool" where
  "errs_inv p \<longleftrightarrow> (ps_first p = None \<longleftrightarrow> ps_errcnt p = 0)
     \<and> (ps_pragh p = None \<longrightarrow> ps_pragma p = None)
     \<and> (plain_mode p \<and> ps_errh p \<longrightarrow> ps_panic p = None \<and> ps_errcnt p = length (ps_errs p)
          \<and> ps_first p = hd_option (ps_errs p))
     \<and> (\<not> ps_errh p \<longrightarrow> ps_errs p = [])
     \<and> (plain_mode p \<and> \<not> ps_errh p \<longrightarrow> ps_panic p = map_option PanicError (ps_first p))"

definition pinv :: "parser \<Rightarrow> bool" where
  "pinv p \<longleftrightarrow> read_ok (ps_scan p) \<and> panicked (ps_scan p) = None
     \<and> (cur_tok p = T_EOF \<longrightarrow> remaining (ps_scan p) = 0 \<and> \<not> nlsemi (ps_scan p)) \<and> op_ok (ps_scan p) \<and> errs_inv p"

definition adv :: "parser \<Rightarrow> parser \<Rightarrow> bool" where
  "adv p q \<longleftrightarrow> left q \<le> left p \<and> ps_stuck q = ps_stuck p \<and> ps_xnest q = ps_xnest p
     \<and> ps_fnest q = ps_fnest p \<and> ps_mode q = ps_mode p \<and> ps_errh q = ps_errh p
     \<and> (ps_first p \<noteq> None \<longrightarrow> ps_first q = ps_first p) \<and> ps_errcnt p \<le> ps_errcnt q
     \<and> take (length (ps_errs p)) (ps_errs q) = ps_errs p"

lemma adv_refl [simp]: "adv p p"
  by (simp add: adv_def)

lemma take_append_prefix: "take (length xs) ys = xs \<longleftrightarrow> (\<exists>zs. ys = xs @ zs)"
  by (metis append_eq_conv_conj append_take_drop_id)

lemma adv_trans: "adv p q \<Longrightarrow> adv q r \<Longrightarrow> adv p r"
  unfolding adv_def take_append_prefix by (auto intro: le_trans)

lemma left_zero: "left p = 0 \<longleftrightarrow> cur_tok p = T_EOF"
  by (simp add: left_def)

subsection \<open>Silent steps\<close>

text \<open>Steps that do not touch the scanner.\<close>

definition silent :: "(parser \<Rightarrow> parser) \<Rightarrow> bool" where
  "silent h \<longleftrightarrow> (\<forall>p. pinv p \<longrightarrow> pinv (h p) \<and> adv p (h p) \<and> ps_scan (h p) = ps_scan p)"

lemma silent_id: "silent (\<lambda>p. p)"
  by (simp add: silent_def)

lemma silentD: "silent h \<Longrightarrow> pinv p \<Longrightarrow> pinv (h p) \<and> adv p (h p) \<and> ps_scan (h p) = ps_scan p"
  by (simp add: silent_def)

lemma silent_comp: "silent h \<Longrightarrow> silent g \<Longrightarrow> silent (\<lambda>p. g (h p))"
  unfolding silent_def by (metis adv_trans)

lemma silent_let: "silent h \<Longrightarrow> silent g \<Longrightarrow> silent (\<lambda>p. Let (h p) g)"
  unfolding Let_def by (rule silent_comp)

lemma silent_if: "silent g \<Longrightarrow> silent h \<Longrightarrow> silent (\<lambda>p. if c p then g p else h p)"
  by (simp add: silent_def)

lemma silent_arg: "(\<And>v. silent (g v)) \<Longrightarrow> silent (\<lambda>p. g (a p) p)"
  by (simp add: silent_def)

lemma cur_tok_scan: "ps_scan q = ps_scan p \<Longrightarrow> cur_tok q = cur_tok p"
  by (simp add: cur_tok_def)

lemma left_scan: "ps_scan q = ps_scan p \<Longrightarrow> left q = left p"
  by (simp add: left_def cur_tok_def)

lemma silentI:
  assumes "\<And>p. pinv p \<Longrightarrow> ps_scan (h p) = ps_scan p \<and> errs_inv (h p) \<and> adv p (h p)"
  shows "silent h"
  unfolding silent_def pinv_def
  using assms by (auto simp: pinv_def cur_tok_def)

lemma raise_panic_fields [simp]:
  "ps_scan (raise_panic e p) = ps_scan p" "ps_errh (raise_panic e p) = ps_errh p"
  "ps_mode (raise_panic e p) = ps_mode p" "ps_first (raise_panic e p) = ps_first p"
  "ps_errcnt (raise_panic e p) = ps_errcnt p" "ps_errs (raise_panic e p) = ps_errs p"
  "ps_stuck (raise_panic e p) = ps_stuck p" "ps_xnest (raise_panic e p) = ps_xnest p"
  "ps_fnest (raise_panic e p) = ps_fnest p" "ps_pragh (raise_panic e p) = ps_pragh p"
  "ps_pragma (raise_panic e p) = ps_pragma p"
  "ps_panic (raise_panic e p) = (case ps_panic p of None \<Rightarrow> Some e | Some x \<Rightarrow> Some x)"
  by (simp_all add: raise_panic_def split: option.split)

lemma silent_errorAt: "silent (errorAt pos msg)"
proof (rule silentI)
  fix p
  assume "pinv p"
  then have i: "errs_inv p" by (simp add: pinv_def)
  have s: "ps_scan (errorAt pos msg p) = ps_scan p"
    by (simp add: errorAt_def Let_def split: option.split)
  have "errs_inv (errorAt pos msg p)"
    using i by (cases "ps_first p"; cases "ps_errs p")
      (auto simp: errorAt_def Let_def errs_inv_def plain_mode_def hd_option_def)
  moreover have "adv p (errorAt pos msg p)"
    unfolding adv_def left_scan [OF s]
    by (cases "ps_first p") (auto simp: errorAt_def Let_def)
  ultimately show "ps_scan (errorAt pos msg p) = ps_scan p \<and> errs_inv (errorAt pos msg p)
      \<and> adv p (errorAt pos msg p)"
    using s by blast
qed

lemma silent_errorAt_fun: "silent (\<lambda>p. errorAt (pos p) (msg p) p)"
  using silent_errorAt by (simp add: silent_def)

lemma silent_syntaxErrorAt: "silent (\<lambda>p. syntaxErrorAt (pos p) (msg p) p)"
  unfolding syntaxErrorAt_def by (intro silent_if silent_id silent_errorAt_fun)

lemma silent_syntaxError: "silent (\<lambda>p. syntaxError (msg p) p)"
  unfolding syntaxError_def by (rule silent_syntaxErrorAt)

lemma silent_error_p: "silent (\<lambda>p. error_p (msg p) p)"
  unfolding error_p_def by (rule silent_errorAt_fun)

lemma call_pragh_fields [simp]:
  "ps_scan (snd (call_pragh h c p)) = ps_scan p" "ps_errh (snd (call_pragh h c p)) = ps_errh p"
  "ps_mode (snd (call_pragh h c p)) = ps_mode p" "ps_first (snd (call_pragh h c p)) = ps_first p"
  "ps_errcnt (snd (call_pragh h c p)) = ps_errcnt p" "ps_errs (snd (call_pragh h c p)) = ps_errs p"
  "ps_stuck (snd (call_pragh h c p)) = ps_stuck p" "ps_xnest (snd (call_pragh h c p)) = ps_xnest p"
  "ps_fnest (snd (call_pragh h c p)) = ps_fnest p" "ps_pragh (snd (call_pragh h c p)) = ps_pragh p"
  "ps_panic (snd (call_pragh h c p)) = ps_panic p"
  by (simp_all add: call_pragh_def)

lemma silent_pragma:
  assumes "\<And>p. ps_scan (h p) = ps_scan p \<and> ps_errh (h p) = ps_errh p \<and> ps_mode (h p) = ps_mode p
      \<and> ps_first (h p) = ps_first p \<and> ps_errcnt (h p) = ps_errcnt p \<and> ps_errs (h p) = ps_errs p
      \<and> ps_stuck (h p) = ps_stuck p \<and> ps_xnest (h p) = ps_xnest p \<and> ps_fnest (h p) = ps_fnest p
      \<and> ps_panic (h p) = ps_panic p \<and> ps_pragh (h p) = ps_pragh p"
    and "\<And>p. ps_pragh p = None \<Longrightarrow> ps_pragma p = None \<Longrightarrow> ps_pragma (h p) = None"
  shows "silent h"
proof (rule silentI)
  fix p
  assume "pinv p"
  then show "ps_scan (h p) = ps_scan p \<and> errs_inv (h p) \<and> adv p (h p)"
    using assms(1) [of p] assms(2) [of p]
    by (simp add: pinv_def errs_inv_def plain_mode_def adv_def left_def cur_tok_def)
qed

lemma silent_set_line_base: "silent (set_line_base pos l c t i n m ok)"
  unfolding set_line_base_def
  by (intro silent_if silent_errorAt_fun silent_pragma) (auto simp: Let_def NewLineBase_def case_prod_beta)

lemma silent_updateBase: "silent (updateBase pos l c t)"
  using silent_errorAt silent_set_line_base
  by (auto simp: updateBase_def silent_def Let_def split: prod.split)

lemma silent_clear_pragma: "silent clear_pragma"
proof (rule silentI)
  fix p
  assume p: "pinv p"
  then have "ps_pragma p = None \<or> ps_pragh p \<noteq> None" by (auto simp: pinv_def errs_inv_def)
  then show "ps_scan (clear_pragma p) = ps_scan p \<and> errs_inv (clear_pragma p) \<and> adv p (clear_pragma p)"
    using p by (auto simp: clear_pragma_def pinv_def errs_inv_def plain_mode_def adv_def left_def
        cur_tok_def split: option.split)
qed

lemma silent_handle_call: "silent (handle_call ev)"
proof -
  obtain l c msg bl where ev: "ev = (l, c, msg, bl)" by (cases ev)
  have v: "silent (\<lambda>p. if ps_top p \<and> HasPrefix msg ''//go:build'' then
      (case x_GoVersion (ps_ext p) msg of Some v \<Rightarrow> p\<lparr>ps_goVersion := v\<rparr> | None \<Rightarrow> p) else p)"
    by (rule silent_pragma) (auto split: option.split)
  have g: "silent (\<lambda>p. case ps_pragh p of None \<Rightarrow> p | Some h \<Rightarrow>
      let (r, p) = call_pragh h (posAt l (c + 2) p, bl, commentText msg, ps_pragma p) p in p\<lparr>ps_pragma := r\<rparr>)"
    by (rule silent_pragma) (auto simp: case_prod_beta split: option.split)
  have u: "silent (\<lambda>p. updateBase (f p) l (c + 2 + 5) t p)" for f t
    using silent_updateBase by (simp add: silent_def)
  show ?thesis
    unfolding handle_call_def ev prod.case Let_def [of "commentText msg"]
    by (intro silent_if silent_let silent_id v g u silent_errorAt_fun)
qed

lemma silent_fold: "(\<And>x. silent (f x)) \<Longrightarrow> silent (fold f xs)"
proof (induction xs)
  case Nil
  then show ?case by (simp add: id_def silent_id)
next
  case (Cons x xs)
  then show ?case using silent_comp [of "f x" "fold f xs"] by (simp add: comp_def)
qed

subsection \<open>Reading tokens\<close>

lemma next_scan:
  assumes "read_ok s"
  shows "read_ok (next_tok s)" "panicked (next_tok s) = panicked s"
    "tok (next_tok s) = T_EOF \<Longrightarrow> remaining (next_tok s) = 0 \<and> \<not> nlsemi (next_tok s)"
    "tok (next_tok s) \<noteq> T_EOF \<Longrightarrow> budget (next_tok s) < budget s"
    "remaining s = 0 \<Longrightarrow> \<not> nlsemi s \<Longrightarrow> tok (next_tok s) = T_EOF"
proof -
  have o: "next_ok (nlsemi s) s (next_tok s)" by (rule next_tok_ok [OF assms])
  then show "read_ok (next_tok s)" "panicked (next_tok s) = panicked s"
    by (auto simp: next_ok_def read_ok_def)
  have semi: "tok (next_tok s) = T_EOF \<or> tok (next_tok s) = T_Semi \<Longrightarrow> \<not> nlsemi (next_tok s)"
    using o by (auto simp: next_ok_def good_tok_def semi_tokens_def)
  show "tok (next_tok s) = T_EOF \<Longrightarrow> remaining (next_tok s) = 0 \<and> \<not> nlsemi (next_tok s)"
    using o semi by (auto simp: next_ok_def remaining_def src_inv_def)
  show "tok (next_tok s) \<noteq> T_EOF \<Longrightarrow> budget (next_tok s) < budget s"
    using o semi by (auto simp: next_ok_def budget_def split: if_splits)
  show "remaining s = 0 \<Longrightarrow> \<not> nlsemi s \<Longrightarrow> tok (next_tok s) = T_EOF"
    using o by (auto simp: next_ok_def)
qed

lemma remaining_errs [simp]: "remaining (s\<lparr>errs := e\<rparr>) = remaining s"
  by (simp add: remaining_def)

lemma read_ok_errs [simp]: "read_ok (s\<lparr>errs := e\<rparr>) = read_ok s"
  by (simp add: read_ok_def src_inv_def ch_inv_def)

lemma next_p_step:
  assumes "pinv p"
  shows "pinv (next_p p)" "adv p (next_p p)" "cur_tok p \<noteq> T_EOF \<Longrightarrow> left (next_p p) < left p"
proof -
  let ?s = "next_tok (ps_scan p)"
  let ?q = "p\<lparr>ps_scan := ?s\<lparr>errs := []\<rparr>\<rparr>"
  note n = next_scan [of "ps_scan p"]
  have r: "read_ok (ps_scan p)" "panicked (ps_scan p) = None" using assms by (simp_all add: pinv_def)
  have q: "pinv ?q"
    using assms n [OF r(1)] next_tok_op [of "ps_scan p"]
    by (auto simp: pinv_def cur_tok_def errs_inv_def plain_mode_def op_ok_def)
  have strict: "cur_tok p \<noteq> T_EOF \<Longrightarrow> left ?q < left p"
    using n(4) [OF r(1)] by (auto simp: left_def cur_tok_def budget_def)
  have "cur_tok p = T_EOF \<Longrightarrow> left ?q = 0"
    using assms n(5) [OF r(1)] by (auto simp: pinv_def left_def cur_tok_def)
  then have l: "left ?q \<le> left p" using strict by fastforce
  then have a: "adv p ?q" by (simp add: adv_def)
  have f: "pinv (next_p p) \<and> adv ?q (next_p p) \<and> ps_scan (next_p p) = ps_scan ?q"
    unfolding next_p_def Let_def
    by (rule silentD [OF silent_fold [OF silent_handle_call] q])
  then show "pinv (next_p p)" "adv p (next_p p)" using adv_trans [OF a] by simp_all
  show "cur_tok p \<noteq> T_EOF \<Longrightarrow> left (next_p p) < left p"
    using strict f left_scan [of "next_p p" ?q] by simp
qed

text \<open>A state transformer that keeps the invariant and does not lose ground.\<close>

definition stepper :: "(parser \<Rightarrow> parser) \<Rightarrow> bool" where
  "stepper h \<longleftrightarrow> (\<forall>p. pinv p \<longrightarrow> pinv (h p) \<and> adv p (h p))"

lemma stepper_id: "stepper (\<lambda>p. p)"
  by (simp add: stepper_def)

lemma stepper_silent: "silent h \<Longrightarrow> stepper h"
  by (simp add: stepper_def silent_def)

lemma stepper_next: "stepper next_p"
  by (simp add: stepper_def next_p_step)

lemma stepper_let: "stepper h \<Longrightarrow> stepper g \<Longrightarrow> stepper (\<lambda>p. Let (h p) g)"
  unfolding stepper_def Let_def by (metis adv_trans)

lemma stepper_if: "stepper g \<Longrightarrow> stepper h \<Longrightarrow> stepper (\<lambda>p. if c p then g p else h p)"
  by (simp add: stepper_def)

lemma contains_EOF: "contains (tokbit T_EOF OR w) T_EOF"
  by (simp add: contains_or contains_tokbit)

lemma skip_until_step:
  assumes "pinv p" "left p < n" "contains w T_EOF"
  shows "pinv (skip_until n w p) \<and> adv p (skip_until n w p)
    \<and> (\<not> contains w (cur_tok p) \<longrightarrow> left (skip_until n w p) < left p)"
  using assms
proof (induction n arbitrary: p)
  case (Suc n)
  show ?case
  proof (cases "contains w (cur_tok p)")
    case True
    then show ?thesis using Suc.prems by simp
  next
    case False
    then have "cur_tok p \<noteq> T_EOF" using Suc.prems(3) by metis
    then have s: "left (next_p p) < left p" "pinv (next_p p)" "adv p (next_p p)"
      using next_p_step [OF Suc.prems(1)] by auto
    then have "left (next_p p) < n" using Suc.prems(2) by simp
    from Suc.IH [OF s(2) this Suc.prems(3)] show ?thesis
      using s False adv_trans [OF s(3)] by (auto simp: adv_def)
  qed
qed simp

lemma left_less_fuel: "left p < loop_fuel p"
  by (simp add: left_def loop_fuel_def)

definition follow :: "token list \<Rightarrow> parser \<Rightarrow> 64 word" where
  "follow ts p = tokbit T_EOF OR (if ps_fnest p > 0 then stopset else 0) OR tokset_of ts"

lemma advance_step:
  assumes "pinv p"
  shows "pinv (advance ts p) \<and> adv p (advance ts p)
    \<and> (cur_tok p \<noteq> T_EOF \<and> (ts = [] \<or> \<not> contains (follow ts p) (cur_tok p)) \<longrightarrow> left (advance ts p) < left p)"
proof (cases "ts = []")
  case True
  then show ?thesis
    using assms next_p_step [OF assms] by (auto simp: advance_def contains_tokbit)
next
  case False
  have "contains (follow ts p) T_EOF"
    unfolding follow_def using contains_EOF [of "(if ps_fnest p > 0 then stopset else 0) OR tokset_of ts"]
    by (simp add: or.assoc)
  from skip_until_step [OF assms left_less_fuel this] False show ?thesis
    by (simp add: advance_def follow_def)
qed

lemma stepper_advance: "stepper (advance ts)"
  using advance_step by (simp add: stepper_def)

definition stop_tokens :: "token list" where
  "stop_tokens = [T_Break, T_Const, T_Continue, T_Defer, T_Fallthrough, T_For, T_Go, T_Goto,
     T_If, T_Return, T_Select, T_Switch, T_Type, T_Var]"

lemma advance_strict:
  assumes "pinv p" "cur_tok p \<noteq> T_EOF" "cur_tok p \<notin> set ts" "cur_tok p \<notin> set stop_tokens"
  shows "left (advance ts p) < left p"
  using advance_step [OF assms(1), of ts] assms
  by (auto simp: follow_def contains_or contains_tokbit contains_tokset_of stopset_def stop_tokens_def)

lemma want_step:
  assumes "pinv p" "t \<noteq> T_EOF"
  shows "pinv (want t p) \<and> adv p (want t p) \<and> (cur_tok p \<noteq> T_EOF \<longrightarrow> left (want t p) < left p)"
proof (cases "cur_tok p = t")
  case True
  then show ?thesis using next_p_step [OF assms(1)] assms(2) by (auto simp: want_def got_def)
next
  case False
  let ?q = "syntaxError (''expected '' @ tokstring t) p"
  have q: "pinv ?q" "adv p ?q" "ps_scan ?q = ps_scan p"
    using silentD [OF silent_syntaxError [of "\<lambda>_. ''expected '' @ tokstring t"] assms(1)] by blast+
  have e: "left ?q = left p" "cur_tok ?q = cur_tok p"
    by (rule left_scan [OF q(3)], rule cur_tok_scan [OF q(3)])
  have w: "want t p = advance [] ?q" using False by (simp add: want_def got_def Let_def)
  show ?thesis
    using advance_step [OF q(1), of "[]"] adv_trans [OF q(2), of "want t p"] unfolding w e by simp
qed

lemma stepper_want: "t \<noteq> T_EOF \<Longrightarrow> stepper (want t)"
  using want_step by (simp add: stepper_def)

subsection \<open>The calculus\<close>

definition runs :: "(parser \<Rightarrow> bool) \<Rightarrow> nat \<Rightarrow> ('a \<Rightarrow> parser \<Rightarrow> bool) \<Rightarrow> 'a P \<Rightarrow> bool" where
  "runs K N st m \<longleftrightarrow> (\<forall>p. pinv p \<and> left p \<le> N \<and> K p \<longrightarrow>
     pinv (snd (m p)) \<and> adv p (snd (m p)) \<and> (st (fst (m p)) (snd (m p)) \<longrightarrow> left (snd (m p)) < left p))"

abbreviation weak :: "'a \<Rightarrow> parser \<Rightarrow> bool" where "weak \<equiv> \<lambda>x p. False"
abbreviation anyp :: "parser \<Rightarrow> bool" where "anyp \<equiv> \<lambda>p. True"

lemma runsI:
  assumes "\<And>p. pinv p \<Longrightarrow> left p \<le> N \<Longrightarrow> K p \<Longrightarrow>
    pinv (snd (m p)) \<and> adv p (snd (m p)) \<and> (st (fst (m p)) (snd (m p)) \<longrightarrow> left (snd (m p)) < left p)"
  shows "runs K N st m"
  using assms by (simp add: runs_def)

lemma runsD:
  assumes "runs K N st m" "pinv p" "left p \<le> N" "K p" "m p = (x, q)"
  shows "pinv q" "adv p q" "st x q \<Longrightarrow> left q < left p" "left q \<le> left p"
proof -
  have r: "pinv q \<and> adv p q \<and> (st x q \<longrightarrow> left q < left p)"
    using assms unfolding runs_def by (metis fst_conv snd_conv)
  then show "pinv q" "adv p q" "st x q \<Longrightarrow> left q < left p" by blast+
  from r show "left q \<le> left p" by (simp add: adv_def)
qed

lemma runs_mono:
  assumes "runs K N st m" "M \<le> N" "\<And>p. L p \<Longrightarrow> K p" "\<And>x p. st' x p \<Longrightarrow> st x p"
  shows "runs L M st' m"
  using assms unfolding runs_def by (meson le_trans)

lemma runs_anyp: "runs anyp N st m \<Longrightarrow> runs K N st m"
  by (erule runs_mono) simp_all

lemma runs_weak: "runs K N st m \<Longrightarrow> runs K N weak m"
  by (erule runs_mono) simp_all

lemma runs_ret: "(\<And>p. K p \<Longrightarrow> \<not> st (v p) p) \<Longrightarrow> runs K N st (\<lambda>p. (v p, p))"
  by (rule runsI) simp

lemma runs_let:
  assumes "\<And>v. runs (\<lambda>p. K p \<and> g p = v) N st (k v)"
  shows "runs K N st (\<lambda>p. Let (g p) (\<lambda>v. k v p))"
  using assms unfolding runs_def Let_def by blast

lemma runs_if:
  assumes "runs (\<lambda>p. K p \<and> c p) N st m" "runs (\<lambda>p. K p \<and> \<not> c p) N st n"
  shows "runs K N st (\<lambda>p. if c p then m p else n p)"
  using assms unfolding runs_def by auto

lemma runs_option:
  assumes "x = None \<Longrightarrow> runs K N st m" "\<And>y. x = Some y \<Longrightarrow> runs K N st (n y)"
  shows "runs K N st (\<lambda>p. case x of None \<Rightarrow> m p | Some y \<Rightarrow> n y p)"
  using assms by (cases x) simp_all

lemma runs_sum:
  assumes "\<And>y. x = Inl y \<Longrightarrow> runs K N st (m y)" "\<And>y. x = Inr y \<Longrightarrow> runs K N st (n y)"
  shows "runs K N st (\<lambda>p. case x of Inl y \<Rightarrow> m y p | Inr y \<Rightarrow> n y p)"
  using assms by (cases x) simp_all

lemma runs_prod:
  assumes "\<And>a b. x = (a, b) \<Longrightarrow> runs K N st (m a b)"
  shows "runs K N st (\<lambda>p. case x of (a, b) \<Rightarrow> m a b p)"
  using assms by (cases x) simp_all

lemma runs_list_case:
  assumes "x = [] \<Longrightarrow> runs K N st m" "\<And>y ys. x = y # ys \<Longrightarrow> runs K N st (n y ys)"
  shows "runs K N st (\<lambda>p. case x of [] \<Rightarrow> m p | y # ys \<Rightarrow> n y ys p)"
  using assms by (cases x) simp_all

lemma runs_bool:
  assumes "runs K N st (f True)" "runs K N st (f False)"
  shows "runs K N st (\<lambda>p. f (c p) p)"
proof (rule runsI)
  fix p
  assume p: "pinv p" "left p \<le> N" "K p"
  show "pinv (snd (f (c p) p)) \<and> adv p (snd (f (c p) p))
      \<and> (st (fst (f (c p) p)) (snd (f (c p) p)) \<longrightarrow> left (snd (f (c p) p)) < left p)"
    using assms p by (cases "c p") (simp_all add: runs_def)
qed

text \<open>Sequential composition: with a step, with the next token, with a production.\<close>

lemma runs_silent:
  assumes "silent h" "runs (\<lambda>q. \<exists>p. K p \<and> ps_scan q = ps_scan p) N st k"
  shows "runs K N st (\<lambda>p. Let (h p) k)"
proof (rule runsI)
  fix p
  assume p: "pinv p" "left p \<le> N" "K p"
  then have h: "pinv (h p)" "adv p (h p)" "ps_scan (h p) = ps_scan p"
    using silentD [OF assms(1)] by blast+
  obtain x q where q: "k (h p) = (x, q)" by fastforce
  have "left (h p) = left p" by (rule left_scan [OF h(3)])
  then show "pinv (snd (Let (h p) k)) \<and> adv p (snd (Let (h p) k))
      \<and> (st (fst (Let (h p) k)) (snd (Let (h p) k)) \<longrightarrow> left (snd (Let (h p) k)) < left p)"
    using runsD [OF assms(2) h(1) _ _ q] p h(3) adv_trans [OF h(2)] q by (auto simp: Let_def)
qed

lemma runs_stepper:
  assumes "stepper h" "runs anyp N st k"
  shows "runs K N st (\<lambda>p. Let (h p) k)"
proof (rule runsI)
  fix p
  assume p: "pinv p" "left p \<le> N" "K p"
  then have h: "pinv (h p)" "adv p (h p)" using assms(1) by (auto simp: stepper_def)
  then have l: "left (h p) \<le> left p" by (simp add: adv_def)
  obtain x q where q: "k (h p) = (x, q)" by fastforce
  show "pinv (snd (Let (h p) k)) \<and> adv p (snd (Let (h p) k))
      \<and> (st (fst (Let (h p) k)) (snd (Let (h p) k)) \<longrightarrow> left (snd (Let (h p) k)) < left p)"
    using runsD [OF assms(2) h(1) _ _ q] p l adv_trans [OF h(2)] q by (auto simp: Let_def)
qed

lemma runs_strict_step:
  assumes h: "\<And>p. pinv p \<Longrightarrow> K p \<Longrightarrow> pinv (h p) \<and> adv p (h p) \<and> left (h p) < left p"
    and k: "\<And>M. M < N \<Longrightarrow> runs anyp M weak k"
  shows "runs K N st (\<lambda>p. Let (h p) k)"
proof (rule runsI)
  fix p
  assume p: "pinv p" "left p \<le> N" "K p"
  then have h: "pinv (h p)" "adv p (h p)" "left (h p) < left p" using h by auto
  obtain x q where q: "k (h p) = (x, q)" by fastforce
  have "left (h p) < N" using h(3) p(2) by simp
  from runsD [OF k [OF this] h(1) _ _ q] show "pinv (snd (Let (h p) k)) \<and> adv p (snd (Let (h p) k))
      \<and> (st (fst (Let (h p) k)) (snd (Let (h p) k)) \<longrightarrow> left (snd (Let (h p) k)) < left p)"
    using h(3) adv_trans [OF h(2)] q by (auto simp: Let_def)
qed

lemma runs_next:
  assumes "\<And>p. K p \<Longrightarrow> cur_tok p \<noteq> T_EOF" "\<And>M. M < N \<Longrightarrow> runs anyp M weak k"
  shows "runs K N st (\<lambda>p. Let (next_p p) k)"
  using assms by (intro runs_strict_step) (auto simp: next_p_step)

lemma runs_want_strict:
  assumes "\<And>p. K p \<Longrightarrow> cur_tok p \<noteq> T_EOF" "t \<noteq> T_EOF" "\<And>M. M < N \<Longrightarrow> runs anyp M weak k"
  shows "runs K N st (\<lambda>p. Let (want t p) k)"
  using assms by (intro runs_strict_step) (auto simp: want_step)

text \<open>A step that makes progress unless the input is at its end, where every loop stops.\<close>

lemma runs_step_or_end:
  assumes h: "\<And>p. pinv p \<Longrightarrow> K p \<Longrightarrow> pinv (h p) \<and> adv p (h p) \<and> (cur_tok p \<noteq> T_EOF \<longrightarrow> left (h p) < left p)"
    and st: "\<And>x q. st x q \<Longrightarrow> cur_tok q \<noteq> T_EOF" and k: "runs anyp N weak k"
  shows "runs K N st (\<lambda>p. Let (h p) k)"
proof (rule runsI)
  fix p
  assume p: "pinv p" "left p \<le> N" "K p"
  then have h: "pinv (h p)" "adv p (h p)" "cur_tok p \<noteq> T_EOF \<Longrightarrow> left (h p) < left p"
    using h by auto
  then have l: "left (h p) \<le> left p" by (simp add: adv_def)
  obtain x q where q: "k (h p) = (x, q)" by fastforce
  note r = runsD [OF k h(1) _ _ q]
  have "left q < left p" if "st x q"
  proof (cases "cur_tok p = T_EOF")
    case True
    then have "left q = 0" using r(4) l p(2) left_zero [of p] by simp
    then show ?thesis using st [OF that] by (simp add: left_zero)
  next
    case False
    then show ?thesis using h(3) r(4) l p(2) by simp
  qed
  then show "pinv (snd (Let (h p) k)) \<and> adv p (snd (Let (h p) k))
      \<and> (st (fst (Let (h p) k)) (snd (Let (h p) k)) \<longrightarrow> left (snd (Let (h p) k)) < left p)"
    using r p(2) l adv_trans [OF h(2)] q by (auto simp: Let_def)
qed

lemma runs_want:
  assumes "\<And>x q. st x q \<Longrightarrow> cur_tok q \<noteq> T_EOF" "t \<noteq> T_EOF" "runs anyp N weak k"
  shows "runs K N st (\<lambda>p. Let (want t p) k)"
  using want_step [OF _ assms(2)] assms(1,3) by (rule runs_step_or_end)

lemma runs_bind:
  assumes f: "runs K N s f"
    and k: "\<And>x. runs (\<lambda>q. \<not> s x q) N st (k x)" "\<And>x M. M < N \<Longrightarrow> runs (s x) M weak (k x)"
  shows "runs K N st (\<lambda>p. Let (f p) (\<lambda>(x, p). k x p))"
proof (rule runsI)
  fix p
  assume p: "pinv p" "left p \<le> N" "K p"
  obtain x q where q: "f p = (x, q)" by fastforce
  note r = runsD [OF f p q]
  obtain y u where u: "k x q = (y, u)" by fastforce
  have "pinv u \<and> adv q u \<and> (st y u \<longrightarrow> left u < left p)"
  proof (cases "s x q")
    case False
    then show ?thesis using runsD [OF k(1) r(1) _ _ u] r(4) p(2) by auto
  next
    case True
    then have l: "left q < N" using r(3) p(2) by simp
    then show ?thesis using runsD [OF k(2) [OF l] r(1) _ _ u] True r(3) by auto
  qed
  then show "pinv (snd (Let (f p) (\<lambda>(x, p). k x p))) \<and> adv p (snd (Let (f p) (\<lambda>(x, p). k x p)))
      \<and> (st (fst (Let (f p) (\<lambda>(x, p). k x p))) (snd (Let (f p) (\<lambda>(x, p). k x p))) \<longrightarrow>
         left (snd (Let (f p) (\<lambda>(x, p). k x p))) < left p)"
    using q u adv_trans [OF r(2)] by simp
qed

lemma runs_call:
  assumes "runs K N weak f" "\<And>x. runs anyp N st (k x)"
  shows "runs K N st (\<lambda>p. Let (f p) (\<lambda>(x, p). k x p))"
  by (rule runs_bind [OF assms(1)]) (auto intro: runs_anyp assms(2) runsI)

lemma runs_call_strict:
  assumes "runs K N (\<lambda>x p. True) f" "\<And>x M. M < N \<Longrightarrow> runs anyp M weak (k x)"
  shows "runs K N st (\<lambda>p. Let (f p) (\<lambda>(x, p). k x p))"
  by (rule runs_bind [OF assms(1)]) (auto intro: assms(2) runsI)

lemma runs_got:
  assumes "t \<noteq> T_EOF" "\<And>M. M < N \<Longrightarrow> runs anyp M weak (k True)"
    "runs (\<lambda>p. K p \<and> cur_tok p \<noteq> t) N st (k False)"
  shows "runs K N st (\<lambda>p. Let (got t p) (\<lambda>(x, p). k x p))"
proof -
  have "runs K N st (\<lambda>p. if cur_tok p = t then Let (next_p p) (k True) else k False p)"
    using assms by (intro runs_if runs_next) auto
  moreover have "(\<lambda>p. Let (got t p) (\<lambda>(x, p). k x p))
      = (\<lambda>p. if cur_tok p = t then Let (next_p p) (k True) else k False p)"
    by (rule ext) (simp add: got_def)
  ultimately show ?thesis by simp
qed

text \<open>Productions that only look at the state, or change the nesting level.\<close>

lemma runs_pair: "silent h \<Longrightarrow> runs K N weak (\<lambda>p. (v p, h p))"
  by (rule runsI) (simp add: silentD)

lemma left_xnest [simp]: "left (p\<lparr>ps_xnest := i\<rparr>) = left p" "cur_tok (p\<lparr>ps_xnest := i\<rparr>) = cur_tok p"
  by (simp_all add: left_def cur_tok_def)

lemma pinv_xnest [simp]: "pinv (p\<lparr>ps_xnest := i\<rparr>) = pinv p"
  by (simp add: pinv_def errs_inv_def plain_mode_def)

lemma adv_xnest: "adv (p\<lparr>ps_xnest := i\<rparr>) q \<Longrightarrow> adv p (q\<lparr>ps_xnest := ps_xnest p\<rparr>)"
  by (simp add: adv_def)

lemma runs_nest:
  assumes "runs (\<lambda>q. K (q\<lparr>ps_xnest := ps_xnest q - 1\<rparr>)) N (\<lambda>x q. st x (q\<lparr>ps_xnest := ps_xnest q - 1\<rparr>)) m"
  shows "runs K N st (nest m)"
proof (rule runsI)
  fix p
  assume p: "pinv p" "left p \<le> N" "K p"
  let ?p = "p\<lparr>ps_xnest := ps_xnest p + 1\<rparr>"
  obtain x q where q: "m ?p = (x, q)" by fastforce
  have r: "pinv q" "adv ?p q" "st x (q\<lparr>ps_xnest := ps_xnest q - 1\<rparr>) \<Longrightarrow> left q < left ?p"
    using runsD [OF assms _ _ _ q] p by auto
  then have "ps_xnest q - 1 = ps_xnest p" by (simp add: adv_def)
  then show "pinv (snd (nest m p)) \<and> adv p (snd (nest m p))
      \<and> (st (fst (nest m p)) (snd (nest m p)) \<longrightarrow> left (snd (nest m p)) < left p)"
    using r adv_xnest [OF r(2)] q by (simp add: nest_def)
qed

lemma runs_outside:
  assumes "runs anyp N weak m"
  shows "runs K N weak (outside m)"
proof (rule runsI)
  fix p
  assume p: "pinv p" "left p \<le> N" "K p"
  let ?p = "p\<lparr>ps_xnest := -1\<rparr>"
  obtain x q where q: "m ?p = (x, q)" by fastforce
  have r: "pinv q" "adv ?p q" using runsD [OF assms _ _ _ q] p by auto
  show "pinv (snd (outside m p)) \<and> adv p (snd (outside m p)) \<and> (False \<longrightarrow> left (snd (outside m p)) < left p)"
    using r(1) adv_xnest [OF r(2)] q by (simp add: outside_def)
qed

subsection \<open>Loops and lists\<close>

lemma runs_while_n:
  assumes b: "\<And>a. runs (\<lambda>p. c a (cur_tok p)) N (\<lambda>r q. snd r \<and> c (fst r) (cur_tok q)) (b a)"
    and c: "\<And>a. \<not> c a T_EOF"
    and p: "pinv p" "left p \<le> N" "left p < n"
  shows "pinv (snd (while_n n c b a p)) \<and> adv p (snd (while_n n c b a p))"
  using p
proof (induction n arbitrary: a p)
  case (Suc n)
  show ?case
  proof (cases "c a (cur_tok p)")
    case True
    obtain r q where q: "b a p = (r, q)" by fastforce
    note d = runsD [OF b Suc.prems(1,2) True q]
    have "cur_tok p \<noteq> T_EOF" using True c by metis
    then have n: "n \<noteq> 0" using Suc.prems(3) left_zero [of p] by auto
    show ?thesis
    proof (cases "snd r \<and> c (fst r) (cur_tok q)")
      case go: True
      then have "left q < n" using d(3) Suc.prems(3) by simp
      from Suc.IH [OF d(1) _ this, of "fst r"] show ?thesis
        using True q d(4) Suc.prems(2) go adv_trans [OF d(2)] by auto
    next
      case False
      then have "while_n (Suc n) c b a p = (fst r, q)" using True q n by (cases n) auto
      then show ?thesis using d by simp
    qed
  qed (use Suc.prems in simp)
qed simp

lemma runs_while:
  assumes "\<And>a. runs (\<lambda>p. c a (cur_tok p)) N (\<lambda>r q. snd r \<and> c (fst r) (cur_tok q)) (b a)"
    "\<And>a. \<not> c a T_EOF"
  shows "runs K N weak (while_p c b a)"
  using runs_while_n [OF assms _ _ left_less_fuel] by (intro runsI) (simp add: while_p_def)

lemma runs_list_body:
  assumes "\<And>a. runs anyp N weak (f a)" "sep \<noteq> T_EOF"
  shows "runs K N (\<lambda>r q. snd r \<and> cur_tok q \<noteq> close) (list_body ctxt sep close f v)"
  unfolding list_body_def
  by (rule runs_call [OF runs_anyp [OF assms(1)]], rule runs_got [OF assms(2)])
     (auto intro!: runs_if runs_silent [OF silent_syntaxError] runs_stepper [OF stepper_advance] runs_ret)

lemma runs_list:
  assumes "\<And>a. runs anyp N weak (f a)" "sep \<noteq> T_EOF" "close \<noteq> T_EOF"
  shows "runs K N weak (list_p ctxt sep close f a)"
  unfolding list_p_def
proof (rule runs_call)
  show "runs K N weak (while_p (\<lambda>v t. t \<noteq> T_EOF \<and> t \<noteq> close \<and> \<not> fst (snd v))
      (list_body ctxt sep close f) (a, False, None))"
    by (rule runs_while) (auto intro: runs_mono [OF runs_list_body [OF assms(1,2)]])
qed (intro runs_option runs_let runs_stepper [OF stepper_want [OF assms(3)]] runs_ret; simp)

end
