(* ===== verification/Parser_Progress.thy ===== *)
theory Parser_Progress
  imports Parser_Runs
begin

text \<open>
  Every production of the parser returns, whatever the input.  The contracts of the productions that are
  called through \<open>procs\<close> are locales, in the order in which one may call the other on the same
  token: types and composite literals, then expressions, then statements.  The productions are shown to
  run under the contract they need; in the end the contracts are discharged for \<open>knot\<close>, by
  induction on the fuel.
\<close>

abbreviation strict :: "'a \<Rightarrow> parser \<Rightarrow> bool" where "strict \<equiv> \<lambda>x p. True"

subsection \<open>Contracts\<close>

text \<open>The tokens that start a type, and those that start an expression.\<close>

definition tstart :: "parser \<Rightarrow> bool" where
  "tstart p \<longleftrightarrow> cur_tok p \<in> {T_Star, T_Arrow, T_Func, T_Lbrack, T_Chan, T_Map, T_Struct, T_Interface,
     T_Name, T_Lparen}"

definition ostart :: "parser \<Rightarrow> bool" where
  "ostart p \<longleftrightarrow> cur_tok p \<in> {T_Name, T_Literal, T_Lparen, T_Func, T_Map, T_Lbrack, T_Lbrace, T_Chan,
     T_Struct, T_Interface}"

definition estart :: "parser \<Rightarrow> bool" where
  "estart p \<longleftrightarrow> ostart p \<or> cur_tok p = T_Arrow
     \<or> (cur_tok p = T_Operator \<or> cur_tok p = T_Star) \<and> (cur_op p \<in> set unary_ops \<or> cur_op p = Op_And)"

text \<open>A statement that has been parsed without progress is the empty one; and if there is none, the
  token is not one at which the top level resumes.\<close>

definition stmt_made :: "Stmt option \<Rightarrow> parser \<Rightarrow> bool" where
  "stmt_made s p \<longleftrightarrow> s \<noteq> None \<and> cur_tok p \<noteq> T_Semi"

definition stmt_none :: "Stmt option \<Rightarrow> parser \<Rightarrow> bool" where
  "stmt_none s p \<longleftrightarrow> s = None \<and> cur_tok p \<in> set decl_tokens \<union> set stop_tokens"

locale type_calls =
  fixes R :: procs and N :: nat
  assumes type_runs: "runs anyp N weak (r_typeOrNil R)"
    and type_strict: "runs tstart N strict (r_typeOrNil R)"
    and complit_strict: "runs (\<lambda>p. cur_tok p = T_Lbrace) N strict (r_complitexpr R)"
    and if_strict: "runs (\<lambda>p. cur_tok p = T_If) N strict (r_ifStmt R)"

locale expr_calls = type_calls +
  assumes binary_runs: "runs anyp N weak (r_binaryExpr R x pr)"
    and binary_strict: "runs estart N strict (r_binaryExpr R None pr)"
    and unary_runs: "runs anyp N weak (r_unaryExpr R)"
    and unary_strict: "runs estart N strict (r_unaryExpr R)"

locale stmt_calls = expr_calls +
  assumes stmt_runs: "runs anyp N stmt_made (r_stmtOrNil R)"
    and stmt_top: "runs (\<lambda>p. cur_tok p \<noteq> T_Import) N (\<lambda>s q. stmt_made s q \<or> stmt_none s q) (r_stmtOrNil R)"

lemma runs_le: "runs K N st m \<Longrightarrow> M \<le> N \<Longrightarrow> runs K M st m"
  by (erule runs_mono) simp_all

lemma stmt_calls_le:
  assumes "stmt_calls R N" "M \<le> N"
  shows "stmt_calls R M"
  using assms unfolding stmt_calls_def expr_calls_def type_calls_def stmt_calls_axioms_def
    expr_calls_axioms_def by (blast intro: runs_le)

subsection \<open>Rules for productions without obligations\<close>

lemmas stepper_rules = stepper_if stepper_let stepper_next stepper_advance stepper_id
  stepper_silent [OF silent_syntaxError] stepper_silent [OF silent_syntaxErrorAt]
  stepper_silent [OF silent_errorAt_fun] stepper_silent [OF silent_error_p]
  stepper_silent [OF silent_clear_pragma] stepper_want

lemma runs_pair_step: "stepper h \<Longrightarrow> runs K N weak (\<lambda>p. (v p, h p))"
  by (rule runsI) (simp add: stepper_def)

lemmas runs_rules = runs_call runs_stepper runs_if runs_option runs_sum runs_prod
  runs_list_case runs_let runs_ret
  runs_pair_step stepper_rules

lemma runs_got_any: "runs K N weak (got t)"
  unfolding got_def by (rule runs_rules | simp)+

lemma runs_gotAssign: "runs K N weak gotAssign"
  unfolding gotAssign_def by (rule runs_rules | simp)+

lemma runs_takePragma: "runs K N weak takePragma"
  unfolding takePragma_def by (intro runs_pair silent_pragma) simp_all

lemma runs_new: "runs K N weak new_addr" "runs K N weak new_group"
  unfolding new_addr_def new_group_def by (intro runs_pair silent_pragma; simp)+

lemma runs_name: "runs K N weak name_p"
  unfolding name_p_def by (rule runs_rules | simp)+

lemma runs_advance_next:
  assumes "\<And>p. K p \<Longrightarrow> cur_tok p \<noteq> T_EOF" "\<And>M. M < N \<Longrightarrow> runs anyp M weak k"
  shows "runs K N st (\<lambda>p. Let (advance [] p) k)"
  using assms by (intro runs_strict_step) (auto simp: advance_step)

lemma runs_name_strict:
  assumes K: "\<And>p. K p \<Longrightarrow> cur_tok p \<noteq> T_EOF"
  shows "runs K N st name_p"
  unfolding name_p_def
  by (intro runs_if runs_let runs_next runs_silent [OF silent_syntaxError] runs_advance_next runs_ret)
     (auto dest!: K cur_tok_scan)

lemmas runs_basic = runs_got_any runs_gotAssign runs_takePragma runs_new runs_name

lemma runs_oliteral: "runs K N weak oliteral"
  unfolding oliteral_def by (rule runs_rules | simp)+

lemma runs_nameList: "runs K N weak (nameList n)"
  unfolding nameList_def
proof (rule runs_while)
  show "runs (\<lambda>p. cur_tok p = T_Comma) N (\<lambda>r q. snd r \<and> cur_tok q = T_Comma) (nameList_body l)" for l
    unfolding nameList_body_def by (rule runs_next, simp) (rule runs_rules runs_basic | simp)+
qed simp

lemmas runs_free = runs_basic runs_oliteral runs_nameList

subsection \<open>Types\<close>

context expr_calls
begin

lemma expr_runs: "runs K N weak (expr R)"
  unfolding expr_def by (rule runs_anyp [OF binary_runs])

lemma expr_strict: "(\<And>p. K p \<Longrightarrow> estart p) \<Longrightarrow> runs K N st (expr R)"
  unfolding expr_def by (rule runs_mono [OF binary_strict]) simp_all

lemma typeOrNil_runs: "runs K N weak (r_typeOrNil R)"
  by (rule runs_anyp [OF type_runs])

lemma type_p_runs: "runs K N weak (type_p R)"
  unfolding type_p_def by (rule runs_rules typeOrNil_runs | simp)+

lemma exprs_while: "runs K N weak (while_p (\<lambda>l t. t = T_Comma) (exprList_body R) l)"
proof (rule runs_while)
  show "runs (\<lambda>p. cur_tok p = T_Comma) N (\<lambda>r q. snd r \<and> cur_tok q = T_Comma) (exprList_body R l)" for l
    unfolding exprList_body_def
    by (rule runs_next, simp, rule runs_le, rule runs_call, rule expr_runs, rule runs_ret) simp_all
qed simp

lemma exprList_runs: "runs K N weak (exprList R)"
  unfolding exprList_def by (rule runs_rules expr_runs runs_free exprs_while | simp)+

lemma types_while: "runs K N weak (while_p (\<lambda>l t. t = T_Comma) (typeList_body R) l)"
proof (rule runs_while)
  show "runs (\<lambda>p. cur_tok p = T_Comma) N (\<lambda>r q. snd r \<and> cur_tok q = T_Comma) (typeList_body R l)" for l
    unfolding typeList_body_def
    by (rule runs_next, simp, rule runs_le) (rule runs_rules typeOrNil_runs | simp)+
qed simp

lemma typeList_runs: "runs K N weak (typeList R s)"
  unfolding typeList_def typeList_rest_def
  by (rule runs_nest) (rule runs_rules expr_runs type_p_runs runs_free types_while typeOrNil_runs | simp)+

lemma typeInstance_runs: "runs K N weak (typeInstance R t)"
  unfolding typeInstance_def by (rule runs_rules typeList_runs | simp)+

lemma qualifiedName_runs: "runs K N weak (qualifiedName R n)"
  unfolding qualifiedName_def qualified_rest_def by (rule runs_rules typeInstance_runs runs_free | simp)+

lemma arrayType_runs: "runs K N weak (arrayType R pos l)"
  unfolding arrayType_def by (rule runs_rules runs_free runs_nest expr_runs type_p_runs | simp)+

lemma sliceType_runs: "runs K N weak (sliceType R pos)"
  unfolding sliceType_def by (rule runs_rules type_p_runs | simp)+

lemma chanElem_runs: "runs K N weak (chanElem R)"
  unfolding chanElem_def by (rule runs_rules typeOrNil_runs | simp)+

lemma arrayOrTArgs_runs: "runs K N weak (arrayOrTArgs R)"
  unfolding arrayOrTArgs_def by (rule runs_rules runs_free sliceType_runs typeList_runs typeOrNil_runs | simp)+

lemmas type_runs1 = runs_free expr_runs typeOrNil_runs type_p_runs exprList_runs typeList_runs
  typeInstance_runs qualifiedName_runs arrayType_runs sliceType_runs chanElem_runs arrayOrTArgs_runs

lemma embeddedTerm_runs: "runs K N weak (embeddedTerm R)"
  unfolding embeddedTerm_def by (rule runs_rules type_runs1 | simp)+

lemma embedded_while: "runs K N weak (while_p (\<lambda>x t. t = T_Operator) (embedded_body R) x)"
proof (rule runs_while)
  show "runs (\<lambda>p. cur_tok p = T_Operator) N (\<lambda>r q. snd r \<and> cur_tok q = T_Operator) (embedded_body R x)" for x
    unfolding embedded_body_def
    by (intro runs_if runs_let runs_next runs_le [OF runs_call [OF embeddedTerm_runs]] runs_ret) auto
qed simp

lemma embeddedElem_runs: "runs K N weak (embeddedElem R f)"
proof -
  have m: "runs K N weak (embedded_more R pos n t)" for K pos n t
    unfolding embedded_more_def by (rule runs_rules embedded_while | simp)+
  have n: "runs K N weak (\<lambda>p. let pos = cur_pos p; (t, p) = embeddedTerm R p in embedded_more R pos None t p)"
    by (rule runs_rules m embeddedTerm_runs)+
  show ?thesis
  proof (cases "\<exists>pos n t. f = Some (Field pos n (Some t))")
    case True
    then show ?thesis using m by (auto simp: embeddedElem_def [abs_def])
  next
    case False
    then have "embeddedElem R f = (\<lambda>p. let pos = cur_pos p; (t, p) = embeddedTerm R p in embedded_more R pos None t p)"
      by (auto simp: embeddedElem_def fun_eq_iff split: option.split Field.split)
    then show ?thesis using n by simp
  qed
qed

lemma embed_if_or_runs: "runs K N weak (embed_if_or R ok f)"
  unfolding embed_if_or_def by (rule runs_rules embeddedElem_runs | simp)+

lemma param_instance_runs: "runs K N weak (param_instance R ok pos n)"
  unfolding param_instance_def by (rule runs_rules type_runs1 embed_if_or_runs | simp)+

lemma param_type_runs: "runs K N weak (param_type R ok fl pos n)"
  unfolding param_type_def by (rule runs_rules type_runs1 embeddedElem_runs embed_if_or_runs | simp)+

lemma param_named_runs: "runs K N weak (param_named R ok fl pos n)"
  unfolding param_named_def
  by (rule runs_rules type_runs1 embeddedElem_runs embed_if_or_runs param_instance_runs param_type_runs | simp)+

lemma paramDeclOrNil_runs: "runs K N weak (paramDeclOrNil R n fl)"
  unfolding paramDeclOrNil_def Let_def [of "fl = T_Rbrack"]
  by (rule runs_rules type_runs1 embeddedElem_runs param_named_runs param_type_runs | simp)+

lemma param_body_runs: "runs K N weak (param_body R close v)"
  unfolding param_body_def by (rule runs_rules paramDeclOrNil_runs | simp)+

lemma distribute_runs: "runs K N weak (distribute rn a b e fs)"
  unfolding distribute_def by (rule runs_rules | simp)+

lemma check_dots_runs: "runs K N weak (check_dots ok fs)"
  unfolding check_dots_def by (rule runs_rules | simp)+

lemma paramList_runs: "close \<noteq> T_EOF \<Longrightarrow> runs K N weak (paramList R n t close rn ok)"
  unfolding paramList_def
  by (rule runs_rules runs_list param_body_runs distribute_runs check_dots_runs | simp)+

lemma funcResult_runs: "runs K N weak (funcResult R)"
  unfolding funcResult_def by (rule runs_rules type_runs1 paramList_runs | simp)+

lemma tparams_runs: "runs K N weak (tparams R ctxt pos)"
  unfolding tparams_def by (rule runs_rules type_runs1 paramList_runs | simp)+

lemma funcType_runs: "runs K N weak (funcType R ctxt)"
  unfolding funcType_def by (rule runs_rules tparams_runs paramList_runs funcResult_runs | simp)+

lemma embed_field_runs: "runs K N weak (embed_field pos t v)"
  unfolding embed_field_def by (rule runs_rules type_runs1 | simp)+

lemma named_fields_runs: "runs K N weak (named_fields ns t v)"
  unfolding named_fields_def by (rule runs_rules type_runs1 | simp)+

lemmas type_runs2 = type_runs1 embeddedElem_runs paramList_runs funcType_runs embed_field_runs named_fields_runs

lemma field_named_runs: "runs K N weak (field_named R pos v)"
  unfolding field_named_def by (rule runs_rules type_runs2 | simp)+

lemma field_star_runs: "runs K N weak (field_star R pos v)"
  unfolding field_star_def by (rule runs_rules type_runs2 | simp)+

lemma field_paren_runs: "runs K N weak (field_paren R pos v)"
  unfolding field_paren_def by (rule runs_rules type_runs2 | simp)+

lemma fieldDecl_runs: "runs K N weak (fieldDecl R v)"
  unfolding fieldDecl_def by (rule runs_rules field_named_runs field_star_runs field_paren_runs | simp)+

lemma method_sig_runs: "runs K N weak (method_sig R pos n)"
  unfolding method_sig_def by (rule runs_rules type_runs2 | simp)+

lemma method_empty_runs: "runs K N weak (method_empty R pos n)"
  unfolding method_empty_def by (rule runs_rules method_sig_runs | simp)+

lemma method_instance_runs: "runs K N weak (method_instance R pos n b)"
  unfolding method_instance_def by (rule runs_rules method_sig_runs type_runs2 | simp)+

lemma methodDecl_runs: "runs K N weak (methodDecl R)"
  unfolding methodDecl_def
  by (rule runs_rules method_sig_runs method_empty_runs method_instance_runs type_runs2 | simp)+

lemma interface_body_runs: "runs K N weak (interface_body R l)"
  unfolding interface_body_def by (rule runs_rules methodDecl_runs type_runs2 | simp)+

end

text \<open>Below a token that has been consumed, all calls are available.\<close>

lemma calls_below:
  assumes "\<And>M. M < N \<Longrightarrow> stmt_calls R M" "M < N"
  shows "expr_calls R M" "stmt_calls R M"
  using assms by (simp_all add: stmt_calls_def)

text \<open>The production \<open>typeOrNil\<close> needs the contract only after it has consumed a token.\<close>

lemma runs_false: "(\<And>p. \<not> K p) \<Longrightarrow> runs K N st m"
  by (simp add: runs_def)

lemma typeOrNil_body:
  assumes R: "\<And>M. M < N \<Longrightarrow> stmt_calls R M" and K: "\<And>p. K p \<Longrightarrow> tstart p \<or> \<not> st None p"
  shows "runs K N st (typeOrNil R)"
proof -
  note c = calls_below(1) [OF R]
  note e = c [THEN expr_calls.type_p_runs] c [THEN expr_calls.funcType_runs] c [THEN expr_calls.chanElem_runs]
    c [THEN expr_calls.sliceType_runs] c [THEN expr_calls.arrayType_runs] runs_free
  have st: "runs (\<lambda>p. L p \<and> cur_tok p = T_Struct) N st (structType R)" for st L
    unfolding structType_def
    by (rule runs_let, rule runs_want_strict, simp, simp)
       (rule runs_rules runs_list c [THEN expr_calls.fieldDecl_runs] | simp)+
  have it: "runs (\<lambda>p. L p \<and> cur_tok p = T_Interface) N st (interfaceType R)" for st L
    unfolding interfaceType_def
    by (rule runs_let, rule runs_want_strict, simp, simp)
       (rule runs_rules runs_list c [THEN expr_calls.interface_body_runs] | simp)+
  have ar: "runs (\<lambda>p. L p \<and> cur_tok p = T_Arrow) N st (recvChanType R pos)" for st L pos
    unfolding recvChanType_def by (rule runs_next, simp) (rule runs_rules e | simp)+
  have ch: "runs (\<lambda>p. L p \<and> cur_tok p = T_Chan) N st (chanType R pos)" for st L pos
    unfolding chanType_def by (rule runs_next, simp) (rule runs_rules e | simp)+
  have mp: "runs (\<lambda>p. L p \<and> cur_tok p = T_Map) N st (mapType R pos)" for st L pos
    unfolding mapType_def by (rule runs_next, simp) (rule runs_rules e | simp)+
  have br: "runs (\<lambda>p. L p \<and> cur_tok p = T_Lbrack) N st (bracketType R pos)" for st L pos
    unfolding bracketType_def by (rule runs_next, simp) (rule runs_rules e | simp)+
  have nm: "runs (\<lambda>p. L p \<and> cur_tok p = T_Name) N st (qualifiedName R None)" for st L
    unfolding qualifiedName_def qualified_rest_def option.case
    by (rule runs_if, rule runs_call_strict, rule runs_name_strict, simp)
       (rule runs_rules e c [THEN expr_calls.typeInstance_runs] runs_false | simp)+
  note strict = runs_call_strict [OF st] runs_call_strict [OF it] runs_call_strict [OF ar]
    runs_call_strict [OF ch] runs_call_strict [OF mp] runs_call_strict [OF br] runs_call_strict [OF nm]
  show ?thesis
    unfolding typeOrNil_def
    by (rule runs_let, (rule runs_if strict runs_next runs_call runs_stepper runs_ret stepper_want e
          | (simp; fail) | (auto simp: tstart_def dest!: K; fail))+)
qed

subsection \<open>Blocks and literals\<close>

context stmt_calls
begin

lemma stmt_while: "runs K N weak (stmtList R)"
  unfolding stmtList_def
proof (rule runs_while)
  show "runs (\<lambda>p. cur_tok p \<noteq> T_EOF \<and> cur_tok p \<noteq> T_Rbrace \<and> cur_tok p \<noteq> T_Case \<and> cur_tok p \<noteq> T_Default) N
      (\<lambda>r q. snd r \<and> cur_tok q \<noteq> T_EOF \<and> cur_tok q \<noteq> T_Rbrace \<and> cur_tok q \<noteq> T_Case \<and> cur_tok q \<noteq> T_Default)
      (stmtList_body R l)" for l
    unfolding stmtList_body_def
  proof (rule runs_bind [OF runs_anyp [OF stmt_runs]])
    fix s
    show "runs (\<lambda>q. \<not> stmt_made s q) N
      (\<lambda>r q. snd r \<and> cur_tok q \<noteq> T_EOF \<and> cur_tok q \<noteq> T_Rbrace \<and> cur_tok q \<noteq> T_Case \<and> cur_tok q \<noteq> T_Default)
      (\<lambda>p. let p = clear_pragma p in case s of None \<Rightarrow> ((l, False), p)
        | Some s \<Rightarrow> let (g, p) = got T_Semi p in
          if \<not> g \<and> cur_tok p \<noteq> T_Rbrace then
            let p = syntaxError ''at end of statement'' p;
                p = advance [T_Semi, T_Rbrace, T_Case, T_Default] p;
                (g, p) = got T_Semi p in ((l @ [s], True), p)
          else ((l @ [s], True), p))"
      by (rule runs_silent [OF silent_clear_pragma] runs_option runs_got runs_rules runs_free
          | (simp; fail) | (rule runs_false, auto simp: stmt_made_def dest!: cur_tok_scan; fail))+
  qed (rule runs_rules runs_free | simp)+
qed simp

lemma block_rest_runs: "runs K N weak (block_rest R pos)"
  unfolding block_rest_def by (rule runs_rules stmt_while | simp)+

lemma blockStmt_runs: "runs K N weak (blockStmt R ctxt)"
  unfolding blockStmt_def by (rule runs_rules runs_free block_rest_runs | simp)+

end

lemma check_body_fields:
  "ps_scan (check_body b p) = ps_scan p" "ps_errh (check_body b p) = ps_errh p"
  "ps_mode (check_body b p) = ps_mode p" "ps_first (check_body b p) = ps_first p"
  "ps_errcnt (check_body b p) = ps_errcnt p" "ps_stuck (check_body b p) = ps_stuck p"
  "ps_xnest (check_body b p) = ps_xnest p" "ps_fnest (check_body b p) = ps_fnest p"
  "ps_pragh (check_body b p) = ps_pragh p" "ps_pragma (check_body b p) = ps_pragma p"
  "\<exists>es. ps_errs (check_body b p) = ps_errs p @ es \<and> (\<not> ps_errh p \<longrightarrow> es = [])"
  by (auto simp: check_body_def Let_def)

lemma silent_check_body:
  "silent (\<lambda>p. if ps_mode p AND CheckBranches \<noteq> 0 \<and> c p then check_body b p else p)"
proof (rule silentI)
  fix p
  assume p: "pinv p"
  obtain es where es: "ps_errs (check_body b p) = ps_errs p @ es" "\<not> ps_errh p \<longrightarrow> es = []"
    using check_body_fields(11) by blast
  have "errs_inv (check_body b p)" if "ps_mode p AND CheckBranches \<noteq> 0"
    using p that es by (auto simp: pinv_def errs_inv_def plain_mode_def check_body_fields)
  moreover have "adv p (check_body b p)"
    unfolding adv_def left_scan [OF check_body_fields(1)] using es by (simp add: check_body_fields)
  moreover have "errs_inv p" using p by (simp add: pinv_def)
  ultimately show "ps_scan (if ps_mode p AND CheckBranches \<noteq> 0 \<and> c p then check_body b p else p) = ps_scan p
      \<and> errs_inv (if ps_mode p AND CheckBranches \<noteq> 0 \<and> c p then check_body b p else p)
      \<and> adv p (if ps_mode p AND CheckBranches \<noteq> 0 \<and> c p then check_body b p else p)"
    by (simp add: check_body_fields)
qed

lemma fnest_update [simp]:
  "left (p\<lparr>ps_fnest := i\<rparr>) = left p" "pinv (p\<lparr>ps_fnest := i\<rparr>) = pinv p"
  by (simp_all add: left_def cur_tok_def pinv_def errs_inv_def plain_mode_def)

lemma adv_fnest: "adv (p\<lparr>ps_fnest := i\<rparr>) q \<Longrightarrow> adv p (q\<lparr>ps_fnest := ps_fnest p\<rparr>)"
  by (simp add: adv_def)

lemma runs_fnest:
  assumes "runs anyp N weak m" "\<And>e x. silent (h e x)"
  shows "runs K N weak (\<lambda>p. let p = p\<lparr>ps_fnest := ps_fnest p + 1\<rparr>; e = ps_errcnt p; (x, p) = m p;
    p = p\<lparr>ps_fnest := ps_fnest p - 1\<rparr>; p = h e x p in (x, p))"
proof (rule runsI)
  fix p
  assume p: "pinv p" "left p \<le> N" "K p"
  let ?p = "p\<lparr>ps_fnest := ps_fnest p + 1\<rparr>"
  obtain x q where q: "m ?p = (x, q)" by fastforce
  have r: "pinv q" "adv ?p q" using runsD [OF assms(1) _ _ _ q] p by auto
  let ?q = "q\<lparr>ps_fnest := ps_fnest q - 1\<rparr>"
  have a: "adv p ?q" using adv_fnest [OF r(2)] r(2) by (simp add: adv_def)
  have "pinv (h e x ?q) \<and> adv p (h e x ?q)" for e
    using silentD [OF assms(2), of ?q] r(1) adv_trans [OF a] by auto
  then show "pinv (snd (let p = p\<lparr>ps_fnest := ps_fnest p + 1\<rparr>; e = ps_errcnt p; (x, p) = m p;
      p = p\<lparr>ps_fnest := ps_fnest p - 1\<rparr>; p = h e x p in (x, p)))
    \<and> adv p (snd (let p = p\<lparr>ps_fnest := ps_fnest p + 1\<rparr>; e = ps_errcnt p; (x, p) = m p;
      p = p\<lparr>ps_fnest := ps_fnest p - 1\<rparr>; p = h e x p in (x, p)))
    \<and> (False \<longrightarrow> left (snd (let p = p\<lparr>ps_fnest := ps_fnest p + 1\<rparr>; e = ps_errcnt p; (x, p) = m p;
      p = p\<lparr>ps_fnest := ps_fnest p - 1\<rparr>; p = h e x p in (x, p))) < left p)"
    by (simp add: q Let_def)
qed

context stmt_calls
begin

lemma funcBody_runs: "runs K N weak (funcBody R)"
  unfolding funcBody_def by (rule runs_fnest [OF blockStmt_runs silent_check_body])

lemma key_value_runs: "runs K N weak (key_value R k)"
  unfolding key_value_def Let_def [of "convertSymbolKeyToString k"]
  by (rule runs_rules expr_runs | simp)+

lemma key_value_progress:
  assumes "\<And>x q. st x q \<Longrightarrow> cur_tok q \<noteq> T_EOF"
  shows "runs K N st (key_value R k)"
  unfolding key_value_def Let_def [of "convertSymbolKeyToString k"]
  using assms by (rule runs_want) (rule runs_rules expr_runs | simp)+

lemma sliceLiteral_runs: "runs K N weak (sliceLiteral R pos e)"
proof -
  have w: "runs K N weak (while_p (\<lambda>es t. t = T_Comma) (slice_body R) es)" for K es
  proof (rule runs_while)
    show "runs (\<lambda>p. cur_tok p = T_Comma) N (\<lambda>r q. snd r \<and> cur_tok q = T_Comma) (slice_body R l)" for l
      unfolding slice_body_def
      by (rule runs_next, simp, rule runs_le) (rule runs_rules expr_runs | simp)+
  qed simp
  show ?thesis unfolding sliceLiteral_def by (rule runs_rules w | simp)+
qed

lemma mapLiteralFromBracket_runs: "runs K N weak (mapLiteralFromBracket R pos k)"
proof -
  have b: "runs K N (\<lambda>r q. snd r \<and> cur_tok q \<noteq> T_Rbrack \<and> cur_tok q \<noteq> T_EOF) (bracket_body R f es)" for K f es
    unfolding bracket_body_def
  proof (rule runs_stepper)
    show "stepper (\<lambda>p. if f \<or> es \<noteq> [] then snd (got T_Comma p) else p)"
      using stepper_next by (auto simp: stepper_def got_def)
    show "runs anyp N (\<lambda>r q. snd r \<and> cur_tok q \<noteq> T_Rbrack \<and> cur_tok q \<noteq> T_EOF)
      (\<lambda>p. if cur_tok p = T_Rbrack then ((es, False), p)
        else let (k, p) = expr R p; (kv, p) = key_value R k p in ((es @ [kv], True), p))"
      by (rule runs_if runs_ret runs_call [OF expr_runs]
           runs_bind [OF key_value_progress [where st = "\<lambda>x q. cur_tok q \<noteq> T_EOF"]] | simp)+
  qed
  have w: "runs K N weak (while_p (\<lambda>es t. t \<noteq> T_Rbrack \<and> t \<noteq> T_EOF) (bracket_body R f) es)" for K f es
    by (rule runs_while [OF b]) simp
  show ?thesis
    unfolding mapLiteralFromBracket_def by (rule runs_rules w key_value_runs | simp)+
qed

lemma brace_while: "runs K N weak (while_p (\<lambda>es t. t \<noteq> T_Rbrace \<and> t \<noteq> T_EOF) (brace_body R) es)"
proof (rule runs_while)
  show "runs (\<lambda>p. cur_tok p \<noteq> T_Rbrace \<and> cur_tok p \<noteq> T_EOF) N
      (\<lambda>r q. snd r \<and> cur_tok q \<noteq> T_Rbrace \<and> cur_tok q \<noteq> T_EOF) (brace_body R es)" for es
    unfolding brace_body_def
    by (rule runs_call [OF expr_runs], rule runs_call [OF key_value_runs], rule runs_got)
       (rule runs_ret | simp)+
qed simp

lemma complit_weak: "(\<And>p. K p \<Longrightarrow> cur_tok p = T_Lbrace) \<Longrightarrow> runs K N st (r_complitexpr R)"
  by (rule runs_mono [OF complit_strict]) simp_all

lemma bare_complitexpr_runs: "runs K N weak (bare_complitexpr R)"
  unfolding bare_complitexpr_def by (rule runs_rules complit_weak expr_runs | simp)+

lemma complit_body_runs: "runs K N weak (complit_body R v)"
  unfolding complit_body_def by (rule runs_rules bare_complitexpr_runs | simp)+

lemma argList_runs: "runs K N weak (argList R)"
proof -
  have a: "runs K N weak (arg_body R v)" for K v
    unfolding arg_body_def by (rule runs_rules expr_runs runs_free | simp)+
  show ?thesis
    unfolding argList_def by (rule runs_rules runs_nest runs_list a | simp)+
qed

lemma slice_rest_runs: "runs K N weak (slice_rest R pos x i)"
proof -
  have f: "runs K N weak (slice_final R j)" for K j
    unfolding slice_final_def by (rule runs_rules expr_runs | simp)+
  have i: "runs K N weak (slice_indices R)" for K
    unfolding slice_indices_def by (rule runs_rules f expr_runs | simp)+
  show ?thesis
    unfolding slice_rest_def by (rule runs_rules runs_free runs_nest i | simp)+
qed

lemmas expr_runs1 = type_runs2 funcBody_runs key_value_runs sliceLiteral_runs mapLiteralFromBracket_runs
  argList_runs slice_rest_runs

end

subsection \<open>Operands and primary expressions\<close>

context type_calls
begin

lemma type_p_strict: "(\<And>p. K p \<Longrightarrow> tstart p) \<Longrightarrow> runs K N st (type_p R)"
  unfolding type_p_def
  by (rule runs_call_strict, rule runs_mono [OF type_strict]) (rule runs_rules | simp)+

end

lemma oliteral_strict: "(\<And>p. K p \<Longrightarrow> cur_tok p = T_Literal) \<Longrightarrow> runs K N st oliteral"
  unfolding oliteral_def
  by (intro runs_if runs_let runs_next runs_ret) auto

lemma operand_body:
  assumes N: "type_calls R N" and R: "\<And>M. M < N \<Longrightarrow> stmt_calls R M"
    and K: "st = weak \<or> (\<forall>p. K p \<longrightarrow> ostart p)"
  shows "runs K N st (operand R keep)"
proof -
  note c = calls_below(2) [OF R]
  note e = calls_below(1) [OF R, THEN expr_calls.funcType_runs] calls_below(1) [OF R, THEN expr_calls.expr_runs]
    calls_below(1) [OF R, THEN expr_calls.type_p_runs] c [THEN stmt_calls.funcBody_runs]
    c [THEN stmt_calls.sliceLiteral_runs] c [THEN stmt_calls.mapLiteralFromBracket_runs]
    c [THEN stmt_calls.brace_while] runs_free runs_nest
  have pa: "runs (\<lambda>p. L p \<and> cur_tok p = T_Lparen) N st (paren_operand R keep)" for st L
    unfolding paren_operand_def by (rule runs_let, rule runs_next, simp) (rule runs_rules e | simp)+
  have fu: "runs (\<lambda>p. L p \<and> cur_tok p = T_Func) N st (func_operand R)" for st L
    unfolding func_operand_def by (rule runs_let, rule runs_next, simp) (rule runs_rules e | simp)+
  have mp: "runs (\<lambda>p. L p \<and> cur_tok p = T_Map) N st (mapTypeOrLiteral R)" for st L
    unfolding mapTypeOrLiteral_def by (rule runs_let, rule runs_next, simp) (rule runs_rules e | simp)+
  have bk: "runs (\<lambda>p. L p \<and> cur_tok p = T_Lbrack) N st (bracket_operand R)" for st L
    unfolding bracket_operand_def by (rule runs_let, rule runs_want_strict, simp, simp) (rule runs_rules e | simp)+
  have bc: "runs (\<lambda>p. L p \<and> cur_tok p = T_Lbrace) N st (mapLiteralFromBrace R)" for st L
    unfolding mapLiteralFromBrace_def by (rule runs_let, rule runs_want_strict, simp, simp) (rule runs_rules e | simp)+
  have df: "runs L N st (\<lambda>p. let x = badExpr p; p = syntaxError ''expected expression'' p;
      p = advance [T_Rparen, T_Rbrack, T_Rbrace] p in (x, p))" if "\<And>p. L p \<Longrightarrow> K p \<and> \<not> ostart p" for L
    using K
  proof
    assume w: "st = weak"
    show ?thesis unfolding w by (rule runs_rules | simp)+
  qed (use that in \<open>blast intro: runs_false\<close>)
  show ?thesis
    unfolding operand_def
    by (rule runs_if runs_call_strict [OF runs_name_strict] runs_call_strict [OF oliteral_strict]
          pa fu mp bk bc type_calls.type_p_strict [OF N] runs_ret df
        | (simp add: tstart_def; fail) | (auto simp: tstart_def ostart_def; fail))+
qed

lemma calls_at:
  assumes "stmt_calls R N"
  shows "type_calls R N" "expr_calls R N" "M < N \<Longrightarrow> stmt_calls R M"
  using assms stmt_calls_le [OF assms, of M] by (auto simp: stmt_calls_def expr_calls_def)

abbreviation pexpr_tok :: "token \<Rightarrow> bool" where
  "pexpr_tok t \<equiv> t = T_Dot \<or> t = T_Lbrack \<or> t = T_Hash \<or> t = T_Lparen \<or> t = T_Lbrace"

lemma pexpr_while:
  assumes N: "type_calls R N" and R: "\<And>M. M < N \<Longrightarrow> stmt_calls R M"
  shows "runs K N weak (while_p (\<lambda>x t. pexpr_tok t) (pexpr_body R) x)"
proof (rule runs_while)
  note c = calls_below(2) [OF R]
  note e = calls_below(1) [OF R, THEN expr_calls.type_p_runs] calls_below(1) [OF R, THEN expr_calls.typeList_runs]
    runs_anyp [OF calls_below(1) [OF R, THEN expr_calls.unary_runs]]
    c [THEN stmt_calls.argList_runs] c [THEN stmt_calls.slice_rest_runs] runs_free
  have dt: "runs (\<lambda>p. L p \<and> cur_tok p = T_Dot) N st (pexpr_dot x R)" for st L x
    unfolding pexpr_dot_def by (rule runs_let, rule runs_next, simp) (rule runs_rules e | simp)+
  have ix: "runs (\<lambda>p. L p \<and> cur_tok p = T_Lbrack) N st (pexpr_index x R)" for st L x
    unfolding pexpr_index_def by (rule runs_let, rule runs_next, simp) (rule runs_rules e | simp)+
  have hs: "runs (\<lambda>p. L p \<and> cur_tok p = T_Hash) N st (pexpr_hash x R)" for st L x
    unfolding pexpr_hash_def by (rule runs_let, rule runs_next, simp) (rule runs_rules e | simp)+
  have cl: "runs (\<lambda>p. L p \<and> cur_tok p = T_Lparen) N st (pexpr_call x R)" for st L x
    unfolding pexpr_call_def by (rule runs_let, rule runs_next, simp) (rule runs_rules e | simp)+
  have cs: "(\<And>p. K p \<Longrightarrow> cur_tok p = T_Lbrace) \<Longrightarrow> runs K N st (r_complitexpr R)" for K st
    by (rule runs_mono [OF type_calls.complit_strict [OF N]]) simp_all
  have bc: "runs (\<lambda>p. L p \<and> cur_tok p = T_Lbrace) N (\<lambda>r q. snd r \<and> c q) (pexpr_brace x R)" for L x c
    unfolding pexpr_brace_def
    by (rule runs_if runs_ret runs_silent silent_if silent_syntaxError silent_id runs_call_strict cs
        | (simp; fail) | (auto dest!: cur_tok_scan; fail))+
  show "runs (\<lambda>p. pexpr_tok (cur_tok p)) N (\<lambda>r q. snd r \<and> pexpr_tok (cur_tok q)) (pexpr_body R x)" for x
    unfolding pexpr_body_def
    by (rule runs_if dt ix hs cl)+ (rule runs_mono [OF bc], auto)
qed simp

lemma pexpr_runs:
  assumes "type_calls R N" "\<And>M. M < N \<Longrightarrow> stmt_calls R M"
  shows "runs K N weak (pexpr R x keep)"
  unfolding pexpr_def
  by (rule runs_call, rule runs_option, rule operand_body [OF assms]) (rule pexpr_while [OF assms] runs_ret | simp)+

lemma pexpr_strict:
  assumes "type_calls R N" "\<And>M. M < N \<Longrightarrow> stmt_calls R M" "\<And>p. K p \<Longrightarrow> ostart p"
  shows "runs K N st (pexpr R None keep)"
  unfolding pexpr_def option.case
proof (rule runs_call_strict [OF operand_body [OF assms(1,2)]])
  fix x M
  assume "M < N"
  then have c: "stmt_calls R M" by (rule assms(2))
  show "runs anyp M weak (while_p (\<lambda>x t. pexpr_tok t) (pexpr_body R) x)"
    by (rule pexpr_while [OF calls_at(1,3) [OF c]])
qed (use assms(3) in auto)

subsection \<open>Unary and binary expressions\<close>

lemma recv_expr_silent: "runs K N weak (recv_expr pos x)"
  unfolding recv_expr_def by (rule runs_rules | simp)+

lemma unaryExpr_body:
  assumes N: "type_calls R N" and R: "\<And>M. M < N \<Longrightarrow> stmt_calls R M"
    and K: "st = weak \<or> (\<forall>p. K p \<longrightarrow> estart p)"
  shows "runs K N st (unaryExpr R)"
proof -
  have u: "M < N \<Longrightarrow> runs L M weak (r_unaryExpr R)" for L M
    using R calls_at(2) by (blast intro: runs_anyp expr_calls.unary_runs)
  have px: "runs L N st (pexpr R None True)" if "\<And>p. L p \<Longrightarrow> K p \<and> (estart p \<longrightarrow> ostart p)" for L
    using K that pexpr_runs [OF N R] pexpr_strict [OF N R, of L] by blast
  show ?thesis
    unfolding unaryExpr_def
    by (rule runs_if runs_let runs_next px runs_call u recv_expr_silent runs_ret
        | (simp; fail) | (auto simp: estart_def; fail))+
qed

lemma binary_while:
  assumes R: "\<And>M. M < N \<Longrightarrow> stmt_calls R M"
  shows "runs K N weak (while_p (\<lambda>x t. t = T_Operator \<or> t = T_Star) (binary_body R pr) x)"
proof (rule runs_while)
  have b: "M < N \<Longrightarrow> runs L M weak (r_binaryExpr R x pr)" for L M x pr
    using R calls_at(2) by (blast intro: runs_anyp expr_calls.binary_runs)
  show "runs (\<lambda>p. cur_tok p = T_Operator \<or> cur_tok p = T_Star) N
      (\<lambda>r q. snd r \<and> (cur_tok q = T_Operator \<or> cur_tok q = T_Star)) (binary_body R pr x)" for x
    unfolding binary_body_def
    by (rule runs_if runs_let runs_next runs_call b runs_ret | (simp; fail) | (auto; fail))+
qed simp

lemma binaryExpr_runs:
  assumes "type_calls R N" "\<And>M. M < N \<Longrightarrow> stmt_calls R M"
  shows "runs K N weak (binaryExpr R x pr)"
  unfolding binaryExpr_def
  by (rule runs_call, rule runs_option, rule unaryExpr_body [OF assms])
     (rule binary_while [OF assms(2)] runs_ret | simp)+

lemma binaryExpr_strict:
  assumes "type_calls R N" "\<And>M. M < N \<Longrightarrow> stmt_calls R M" "\<And>p. K p \<Longrightarrow> estart p"
  shows "runs K N st (binaryExpr R None pr)"
  unfolding binaryExpr_def option.case
proof (rule runs_call_strict [OF unaryExpr_body [OF assms(1,2)]])
  show "M < N \<Longrightarrow> runs anyp M weak (while_p (\<lambda>x t. t = T_Operator \<or> t = T_Star) (binary_body R pr) x)" for x M
    by (rule binary_while) (simp add: assms(2))
qed (use assms(3) in auto)

lemma complitexpr_body:
  assumes R: "\<And>M. M < N \<Longrightarrow> stmt_calls R M"
  shows "runs (\<lambda>p. cur_tok p = T_Lbrace) N st (complitexpr R)"
proof -
  have c: "M < N \<Longrightarrow> runs L M weak (complit_body R v)" for L M v
    using R by (blast intro: stmt_calls.complit_body_runs)
  have n: "runs (\<lambda>p. cur_tok p = T_Lbrace) N st (nest (\<lambda>p. let p = want T_Lbrace p in
      list_p ''composite literal'' T_Comma T_Rbrace (complit_body R) ([], 0) p))" for st
    by (rule runs_nest, rule runs_want_strict) (rule runs_list c | simp)+
  show ?thesis
    unfolding complitexpr_def
    by (rule runs_let, rule runs_call_strict [OF runs_mono [OF n]]) (auto intro: runs_ret)
qed

subsection \<open>Simple statements and headers\<close>

context expr_calls
begin

lemma exprList_strict: "(\<And>p. K p \<Longrightarrow> estart p) \<Longrightarrow> (\<And>M. M < N \<Longrightarrow> expr_calls R M) \<Longrightarrow> runs K N st (exprList R)"
proof -
  assume K: "\<And>p. K p \<Longrightarrow> estart p" and c: "\<And>M. M < N \<Longrightarrow> expr_calls R M"
  note e = c [THEN expr_calls.expr_runs] c [THEN expr_calls.exprs_while] runs_free
  show ?thesis
    unfolding exprList_def
    by (rule runs_call_strict, rule expr_strict, erule K) (rule runs_rules e | simp)+
qed

lemma newRangeClause_runs: "runs K N weak (newRangeClause R l d)"
  unfolding newRangeClause_def by (rule runs_rules type_runs1 | simp)+

lemma simple_rest_runs: "runs K N weak (simple_rest R lhs kw)"
proof -
  have s: "runs K N weak (simple_single R lhs)" for K
    unfolding simple_single_def by (rule runs_rules type_runs1 | simp)+
  have a: "runs K N weak (simple_assign R lhs kw)" for K
    unfolding simple_assign_def by (rule runs_rules type_runs1 newRangeClause_runs | simp)+
  show ?thesis
    unfolding simple_rest_def Let_def [of "first_elem lhs"] by (rule runs_rules s a | simp)+
qed

lemma simpleStmt_runs: "runs K N weak (simpleStmt R lhs kw)"
  unfolding simpleStmt_def by (rule runs_rules type_runs1 newRangeClause_runs simple_rest_runs | simp)+

lemma simpleStmt_strict:
  assumes K: "\<And>p. K p \<Longrightarrow> estart p" and c: "\<And>M. M < N \<Longrightarrow> expr_calls R M"
  shows "runs K N st (simpleStmt R None T_None)"
  unfolding simpleStmt_def option.case
  by (rule runs_if runs_call_strict [OF exprList_strict [OF _ c]] c [THEN expr_calls.simple_rest_runs]
      runs_false | (simp; fail) | (simp add: K; fail))+

lemma header_semi_runs: "runs K N weak header_semi"
  unfolding header_semi_def by (rule runs_rules | simp)+

lemma unpack_cond_runs: "runs K N weak (unpack_cond kw c semi)"
  unfolding unpack_cond_def by (rule runs_rules | simp)+

lemma header_inner_runs: "runs K N weak (header_inner R kw)"
proof -
  have p: "runs K N weak (post_clause R)" for K
    unfolding post_clause_def by (rule runs_rules simpleStmt_runs | simp)+
  have f: "runs K N weak (for_clauses R ini semi)" for K ini semi
    unfolding for_clauses_def by (rule runs_rules simpleStmt_runs p | simp)+
  have c: "runs K N weak (header_clauses R kw ini)" for K ini
    unfolding header_clauses_def by (rule runs_rules simpleStmt_runs header_semi_runs f | simp)+
  have i: "runs K N weak (header_init R kw)" for K
    unfolding header_init_def by (rule runs_rules simpleStmt_runs runs_free | simp)+
  show ?thesis
    unfolding header_inner_def by (rule runs_rules i c unpack_cond_runs | simp)+
qed

end

lemma header_strict:
  assumes "\<And>M. M < N \<Longrightarrow> expr_calls R M" "kw \<noteq> T_EOF" "\<And>p. K p \<Longrightarrow> cur_tok p \<noteq> T_EOF"
  shows "runs K N st (header R kw)"
  unfolding header_def
  by (rule runs_want_strict, erule assms(3), rule assms(2))
     (rule runs_rules runs_outside assms(1) [THEN expr_calls.header_inner_runs] | simp)+

subsection \<open>Compound statements\<close>

lemma runs_new_addr:
  assumes "\<And>x. runs (\<lambda>q. \<exists>p. K p \<and> ps_scan q = ps_scan p) N st (k x)"
  shows "runs K N st (\<lambda>p. Let (new_addr p) (\<lambda>(x, p). k x p))"
proof -
  have "silent (\<lambda>p. p\<lparr>ps_addr := ps_addr p + 1\<rparr>)" by (rule silent_pragma) simp_all
  then have "runs K N st (\<lambda>p. Let (ps_addr p) (\<lambda>a. Let (p\<lparr>ps_addr := ps_addr p + 1\<rparr>) (k a)))"
    by (intro runs_let runs_silent runs_mono [OF assms]) auto
  then show ?thesis by (simp add: new_addr_def)
qed

lemma stepper_clause_skip: "stepper clause_skip"
  unfolding clause_skip_def by (rule stepper_rules)+

lemma stepper_clauses_open: "stepper (clauses_open msg)"
proof -
  have "stepper (\<lambda>p. if cur_tok p = T_Lbrace then next_p p
      else let p = syntaxError msg p in advance [T_Case, T_Default, T_Rbrace] p)"
    by (rule stepper_rules)+
  moreover have "clauses_open msg = (\<lambda>p. if cur_tok p = T_Lbrace then next_p p
      else let p = syntaxError msg p in advance [T_Case, T_Default, T_Rbrace] p)"
    by (rule ext) (simp add: clauses_open_def got_def)
  ultimately show ?thesis by simp
qed

context stmt_calls
begin

lemma caseClause_progress:
  assumes "\<And>x q. st x q \<Longrightarrow> cur_tok q \<noteq> T_EOF"
  shows "runs K N st (caseClause R)"
proof -
  have h: "runs K N weak (\<lambda>p. if cur_tok p = T_Case then let p = next_p p; (e, p) = exprList R p in (Some e, p)
      else if cur_tok p = T_Default then let p = next_p p in (None, p)
      else let p = clause_skip p in (None, p))" for K
    by (rule runs_rules type_runs1 stepper_clause_skip | simp)+
  show ?thesis
    unfolding caseClause_def
    by (rule runs_let, rule runs_call [OF h], rule runs_let, rule runs_want [OF assms], assumption)
       (rule runs_rules stmt_while | simp)+
qed

lemma commClause_progress:
  assumes "\<And>x q. st x q \<Longrightarrow> cur_tok q \<noteq> T_EOF"
  shows "runs K N st (commClause R)"
proof -
  have h: "runs K N weak (\<lambda>p. if cur_tok p = T_Case then
      let p = next_p p; (s, p) = simpleStmt R None T_None p in (Some s, p)
      else if cur_tok p = T_Default then let p = next_p p in (None, p)
      else let p = clause_skip p in (None, p))" for K
    by (rule runs_rules simpleStmt_runs stepper_clause_skip | simp)+
  show ?thesis
    unfolding commClause_def
    by (rule runs_let, rule runs_call [OF h], rule runs_let, rule runs_want [OF assms], assumption)
       (rule runs_rules stmt_while | simp)+
qed

lemma switch_while: "runs K N weak (while_p (\<lambda>l t. t \<noteq> T_EOF \<and> t \<noteq> T_Rbrace) (switch_body R) l)"
proof (rule runs_while)
  show "runs (\<lambda>p. cur_tok p \<noteq> T_EOF \<and> cur_tok p \<noteq> T_Rbrace) N
      (\<lambda>r q. snd r \<and> cur_tok q \<noteq> T_EOF \<and> cur_tok q \<noteq> T_Rbrace) (switch_body R l)" for l
    unfolding switch_body_def
    by (rule runs_bind [OF caseClause_progress [where st = "\<lambda>x q. cur_tok q \<noteq> T_EOF"]]) (auto intro: runs_ret)
qed simp

lemma select_while: "runs K N weak (while_p (\<lambda>l t. t \<noteq> T_EOF \<and> t \<noteq> T_Rbrace) (select_body R) l)"
proof (rule runs_while)
  show "runs (\<lambda>p. cur_tok p \<noteq> T_EOF \<and> cur_tok p \<noteq> T_Rbrace) N
      (\<lambda>r q. snd r \<and> cur_tok q \<noteq> T_EOF \<and> cur_tok q \<noteq> T_Rbrace) (select_body R l)" for l
    unfolding select_body_def
    by (rule runs_bind [OF commClause_progress [where st = "\<lambda>x q. cur_tok q \<noteq> T_EOF"]]) (auto intro: runs_ret)
qed simp

lemma labeledStmtOrNil_runs: "runs K N weak (labeledStmtOrNil R l)"
  unfolding labeledStmtOrNil_def
  by (rule runs_rules runs_free runs_weak [OF runs_anyp [OF stmt_runs]] | simp)+

end

lemma ifStmt_body:
  assumes R: "\<And>M. M < N \<Longrightarrow> stmt_calls R M"
  shows "runs (\<lambda>p. cur_tok p = T_If) N st (ifStmt R)"
proof -
  have i: "M < N \<Longrightarrow> (\<And>p. K p \<Longrightarrow> cur_tok p = T_If) \<Longrightarrow> runs K M st (r_ifStmt R)" for M K st
    by (rule runs_mono [OF type_calls.if_strict [OF calls_at(1) [OF R]]]) auto
  show ?thesis
    unfolding ifStmt_def
    by (rule runs_let, rule runs_call_strict, rule header_strict [OF calls_at(2) [OF R]])
       (rule runs_rules runs_free R [THEN stmt_calls.blockStmt_runs] i | simp)+
qed

text \<open>Statements that start with a keyword consume it.\<close>

lemma keyword_stmts:
  assumes R: "\<And>M. M < N \<Longrightarrow> stmt_calls R M" and K: "\<And>p. K p \<Longrightarrow> cur_tok p \<noteq> T_EOF"
  shows "runs K N st (forStmt R)" "runs K N st (switchStmt R)" "runs K N st (selectStmt R)"
    "runs K N st branchStmt" "runs K N st (checkStmt R)" "runs K N st (callStmt R)" "runs K N st (returnStmt R)"
proof -
  have K': "\<And>q. \<exists>p. K p \<and> ps_scan q = ps_scan p \<Longrightarrow> cur_tok q \<noteq> T_EOF" using K by (metis cur_tok_scan)
  note e = R [THEN stmt_calls.blockStmt_runs] R [THEN stmt_calls.switch_while] R [THEN stmt_calls.select_while]
    R [THEN calls_at(2), THEN expr_calls.expr_runs] R [THEN calls_at(2), THEN expr_calls.exprList_runs]
    stepper_clauses_open runs_free
  have px: "M < N \<Longrightarrow> runs L M weak (pexpr R x keep)" for M L x keep
    using R calls_at(1,3) by (blast intro: pexpr_runs)
  have px': "M < N \<Longrightarrow> runs L M weak (\<lambda>p. pexpr R x (c p) p)" for M L x c
    by (rule runs_bool [where f = "pexpr R x"]) (erule px)+
  have h: "runs L N st (header R kw)" if "kw \<noteq> T_EOF" "\<And>q. L q \<Longrightarrow> cur_tok q \<noteq> T_EOF" for L kw st
    using that by (intro header_strict calls_at(2) [OF R])
  show "runs K N st (forStmt R)"
    unfolding forStmt_def
    by (rule runs_new_addr, rule runs_let, rule runs_call_strict, rule h) (rule runs_rules e | simp add: K')+
  show "runs K N st (switchStmt R)"
    unfolding switchStmt_def
    by (rule runs_new_addr, rule runs_let, rule runs_call_strict, rule h) (rule runs_rules e | simp add: K')+
  show "runs K N st (selectStmt R)"
    unfolding selectStmt_def
    by (rule runs_new_addr, rule runs_let, rule runs_want_strict) (rule runs_rules e | simp add: K')+
  show "runs K N st branchStmt"
    unfolding branchStmt_def
    by (rule runs_new_addr, rule runs_let, rule runs_let, rule runs_next) (rule runs_rules e | simp add: K')+
  show "runs K N st (checkStmt R)"
    unfolding checkStmt_def by (rule runs_let, rule runs_next) (rule runs_rules e | simp add: K)+
  show "runs K N st (callStmt R)"
    unfolding callStmt_def
    by (rule runs_let, rule runs_let, rule runs_next) (rule runs_rules px' | simp add: K)+
  show "runs K N st (returnStmt R)"
    unfolding returnStmt_def by (rule runs_let, rule runs_next) (rule runs_rules e | simp add: K)+
qed

subsection \<open>Declarations\<close>

lemma enumDeclGroup_runs: "runs K N weak (enumDeclGroup l)"
  unfolding enumDeclGroup_def by (rule runs_rules runs_free | simp)+

lemma appendGroup_runs:
  assumes "\<And>K g. runs K N weak (f g)"
  shows "runs K N weak (appendGroup l f)"
proof -
  have b: "runs K N weak (group_body f g l)" for K g l
    unfolding group_body_def by (rule runs_rules assms | simp)+
  show ?thesis
    unfolding appendGroup_def by (rule runs_rules runs_free runs_list b assms | simp)+
qed

lemma importDecl_runs: "runs K N weak (importDecl g)"
proof -
  have i: "runs K N weak (import_path pos g pr n)" for K pos pr n
    unfolding import_path_def by (rule runs_rules runs_free runs_oliteral | simp)+
  show ?thesis unfolding importDecl_def by (rule runs_rules runs_free i | simp)+
qed

context stmt_calls
begin

lemma opt_values_runs: "runs K N weak (opt_values R)"
  unfolding opt_values_def by (rule runs_rules type_runs1 | simp)+

lemma constDecl_runs: "runs K N weak (constDecl R g)"
  unfolding constDecl_def by (rule runs_rules type_runs1 opt_values_runs | simp)+

lemma varDecl_runs: "runs K N weak (varDecl R g)"
  unfolding varDecl_def by (rule runs_rules type_runs1 opt_values_runs | simp)+

lemma pexpr_any: "runs K N weak (pexpr R x keep)"
  by (rule pexpr_runs [OF calls_at(1,3) [OF stmt_calls_axioms]])

lemma binaryExpr_any: "runs K N weak (binaryExpr R x pr)"
  by (rule binaryExpr_runs [OF calls_at(1,3) [OF stmt_calls_axioms]])

lemma alias_type_runs: "runs K N weak (alias_type R tps)"
  unfolding alias_type_def by (rule runs_rules type_runs1 | simp)+

lemma type_params_or_array_runs: "runs K N weak (type_params_or_array R pos)"
proof -
  have s: "runs K N weak (split_params R pos x f)" for K x f
    unfolding split_params_def by (rule runs_rules type_runs2 alias_type_runs | simp)+
  have b: "runs K N weak (\<lambda>p. split_params R pos x (c p) p)" for K x c
    by (rule runs_bool [where f = "split_params R pos x", OF s s])
  show ?thesis
    unfolding type_params_or_array_def
    by (rule b runs_rules runs_name runs_nest pexpr_any binaryExpr_any | simp)+
qed

lemma typeDecl_runs: "runs K N weak (typeDecl R g)"
proof -
  have b: "runs K N weak (bracket_spec R)" for K
    unfolding bracket_spec_def by (rule runs_rules type_runs2 type_params_or_array_runs | simp)+
  show ?thesis
    unfolding typeDecl_def by (rule runs_rules type_runs2 alias_type_runs b | simp)+
qed

lemma funcDeclOrNil_runs: "runs K N weak (funcDeclOrNil R)"
proof -
  have r: "runs K N weak (receiver R)" for K
    unfolding receiver_def by (rule runs_rules type_runs2 | simp)+
  have b: "runs K N weak (opt_body R)" for K
    unfolding opt_body_def by (rule runs_rules funcBody_runs | simp)+
  show ?thesis
    unfolding funcDeclOrNil_def by (rule runs_rules type_runs2 r b | simp)+
qed

end

subsection \<open>Statements\<close>

lemma some_stmt_strict: "runs K N strict m \<Longrightarrow> runs K N st (some_stmt m)"
  unfolding some_stmt_def by (rule runs_call_strict) (auto intro: runs_ret)

lemma blockStmt_strict:
  assumes R: "\<And>M. M < N \<Longrightarrow> stmt_calls R M" and K: "\<And>p. K p \<Longrightarrow> cur_tok p = T_Lbrace"
  shows "runs K N st (blockStmt R ctxt)"
  unfolding blockStmt_def
  by (rule runs_let, rule runs_got, simp)
     (rule runs_rules R [THEN stmt_calls.block_rest_runs] runs_false | (auto dest: K; fail))+

lemma declStmt_strict:
  assumes "\<And>M K g. M < N \<Longrightarrow> runs K M weak (f g)" "\<And>p. K p \<Longrightarrow> cur_tok p \<noteq> T_EOF"
  shows "runs K N st (declStmt f)"
  unfolding declStmt_def
  by (rule runs_let, rule runs_next) (rule runs_rules appendGroup_runs assms(1) | simp add: assms(2))+

lemma enumStmt_strict:
  assumes "\<And>p. K p \<Longrightarrow> cur_tok p \<noteq> T_EOF"
  shows "runs K N st enumStmt"
  unfolding enumStmt_def
  by (rule runs_let, rule runs_next) (rule runs_rules enumDeclGroup_runs | simp add: assms)+

abbreviation stmt_post :: "bool \<Rightarrow> Stmt option \<Rightarrow> parser \<Rightarrow> bool" where
  "stmt_post b \<equiv> \<lambda>s q. stmt_made s q \<or> b \<and> stmt_none s q"

lemma stmt_choice_body:
  assumes N: "expr_calls R N" and R: "\<And>M. M < N \<Longrightarrow> stmt_calls R M"
    and K: "\<And>p. K p \<Longrightarrow> cur_tok p \<notin> {T_Const, T_Type, T_Var} \<and> (b \<longrightarrow> cur_tok p \<noteq> T_Import)"
  shows "runs K N (stmt_post b) (stmt_choice R)"
proof -
  have t: "type_calls R N" using N by (simp add: expr_calls_def)
  have i: "runs L N st (r_ifStmt R)" if "\<And>p. L p \<Longrightarrow> cur_tok p = T_If" for L st
    by (rule runs_mono [OF type_calls.if_strict [OF t]]) (use that in auto)
  note s = expr_calls.simpleStmt_strict [OF N _ calls_at(2) [OF R]] keyword_stmts [OF R] i
  show ?thesis
    unfolding stmt_choice_def
    by (rule runs_if some_stmt_strict s runs_call_strict [OF blockStmt_strict [OF R]] runs_ret
        | (simp; fail)
        | (auto simp: stmt_made_def estart_def ostart_def operand_tokens_def stmt_ops_def unary_ops_def; fail)
        | (auto simp: stmt_made_def stmt_none_def decl_tokens_def stop_tokens_def operand_tokens_def dest!: K; fail))+
qed

lemma name_stmt_strict:
  assumes N: "expr_calls R N" and R: "\<And>M. M < N \<Longrightarrow> stmt_calls R M" and K: "\<And>p. K p \<Longrightarrow> cur_tok p = T_Name"
  shows "runs K N st (name_stmt R)"
proof -
  have x: "runs (\<lambda>q. \<exists>p. K p \<and> ps_scan q = ps_scan p) N st (exprList R)" for st
  proof (rule expr_calls.exprList_strict [OF N _ calls_at(2) [OF R]])
    fix q :: parser
    assume "\<exists>p. K p \<and> ps_scan q = ps_scan p"
    then have "cur_tok q = T_Name" using K by (metis cur_tok_scan)
    then show "estart q" by (simp add: estart_def ostart_def)
  qed
  show ?thesis
    unfolding name_stmt_def
    by (rule runs_silent [OF silent_clear_pragma], rule runs_call_strict [OF x])
       (rule runs_rules R [THEN stmt_calls.labeledStmtOrNil_runs]
          calls_at(2) [OF R, THEN expr_calls.simpleStmt_runs] | simp)+
qed

lemma stmtOrNil_body:
  assumes N: "expr_calls R N" and R: "\<And>M. M < N \<Longrightarrow> stmt_calls R M"
    and K: "\<And>p. K p \<Longrightarrow> b \<longrightarrow> cur_tok p \<noteq> T_Import"
  shows "runs K N (stmt_post b) (stmtOrNil R)"
  unfolding stmtOrNil_def
proof (intro runs_if some_stmt_strict name_stmt_strict [OF N R] declStmt_strict enumStmt_strict
    runs_silent [OF silent_clear_pragma] stmt_choice_body [OF N R])
  fix q :: parser
  assume "\<exists>p. (((((K p \<and> cur_tok p \<noteq> T_Name) \<and> cur_tok p \<noteq> T_Var) \<and> cur_tok p \<noteq> T_Const)
      \<and> cur_tok p \<noteq> T_Type) \<and> cur_tok p \<noteq> T_Enum) \<and> ps_scan q = ps_scan p"
  then obtain p where p: "K p" "cur_tok p \<noteq> T_Var" "cur_tok p \<noteq> T_Const" "cur_tok p \<noteq> T_Type"
    "ps_scan q = ps_scan p" by blast
  then show "cur_tok q \<notin> {T_Const, T_Type, T_Var} \<and> (b \<longrightarrow> cur_tok q \<noteq> T_Import)"
    using K [OF p(1)] unfolding cur_tok_scan [OF p(5)] by simp
qed (auto intro: R stmt_calls.varDecl_runs stmt_calls.constDecl_runs stmt_calls.typeDecl_runs)

subsection \<open>Closing the knot\<close>

lemma knot_fields [simp]:
  "r_binaryExpr (knot n) = binary_n n" "r_unaryExpr (knot n) = unary_n n"
  "r_typeOrNil (knot n) = type_n n" "r_complitexpr (knot n) = complit_n n"
  "r_stmtOrNil (knot n) = stmt_n n" "r_ifStmt (knot n) = if_n n"
  by (simp_all add: knot_def)

lemma knot_Suc:
  "binary_n (Suc n) = binaryExpr (knot n)" "unary_n (Suc n) = unaryExpr (knot n)"
  "type_n (Suc n) = typeOrNil (knot n)" "complit_n (Suc n) = complitexpr (knot n)"
  "stmt_n (Suc n) = stmtOrNil (knot n)" "if_n (Suc n) = ifStmt (knot n)"
  by (intro ext; simp add: binary_n.simps unary_n.simps type_n.simps complit_n.simps stmt_n.simps
      if_n.simps knot_def)+

text \<open>Three units of fuel for each token that is left are enough.\<close>

lemma knot_calls:
  "(3 * N + 1 \<le> n \<longrightarrow> type_calls (knot n) N) \<and> (3 * N + 2 \<le> n \<longrightarrow> expr_calls (knot n) N)
   \<and> (3 * N + 3 \<le> n \<longrightarrow> stmt_calls (knot n) N)"
proof (induction n arbitrary: N)
  case (Suc n)
  have below: "stmt_calls (knot n) M" if "3 * N + 1 \<le> Suc n" "M < N" for M N
    using Suc.IH [of M] that by simp
  have t: "type_calls (knot (Suc n)) N" if "3 * N + 1 \<le> Suc n" for N
    by unfold_locales
      (use below [OF that] in \<open>auto simp: knot_Suc intro!: typeOrNil_body complitexpr_body ifStmt_body\<close>)
  have e: "expr_calls (knot (Suc n)) N" if "3 * N + 2 \<le> Suc n" for N
  proof -
    have T: "type_calls (knot n) N" using Suc.IH [of N] that by simp
    have R: "M < N \<Longrightarrow> stmt_calls (knot n) M" for M using below [of N] that by simp
    show ?thesis
      unfolding expr_calls_def expr_calls_axioms_def
      using t [of N] that binaryExpr_runs [OF T R] binaryExpr_strict [OF T R] unaryExpr_body [OF T R]
      by (simp add: knot_Suc)
  qed
  have "stmt_calls (knot (Suc n)) N" if "3 * N + 3 \<le> Suc n" for N
  proof -
    have E: "expr_calls (knot n) N" using Suc.IH [of N] that by simp
    have R: "M < N \<Longrightarrow> stmt_calls (knot n) M" for M using below [of N] that by simp
    have "runs anyp N stmt_made (stmt_n (Suc n))" 
      using stmtOrNil_body [OF E R, of anyp False] by (simp add: knot_Suc)
    moreover have "runs (\<lambda>p. cur_tok p \<noteq> T_Import) N (\<lambda>s q. stmt_made s q \<or> stmt_none s q) (stmt_n (Suc n))"
      using stmtOrNil_body [OF E R, of "\<lambda>p. cur_tok p \<noteq> T_Import" True] by (simp add: knot_Suc)
    ultimately show ?thesis
      unfolding stmt_calls_def stmt_calls_axioms_def using e [of N] that by simp
  qed
  with t e show ?case by blast
qed simp

subsection \<open>Source files\<close>

lemma file_sep_step:
  assumes p: "pinv p"
  shows "pinv (file_sep p) \<and> adv p (file_sep p)
    \<and> (cur_tok p \<noteq> T_EOF \<and> (cur_tok p = T_Semi \<or> cur_tok p \<notin> set decl_tokens \<union> set stop_tokens)
        \<longrightarrow> left (file_sep p) < left p)"
proof -
  let ?q = "clear_pragma p" and ?m = "syntaxError ''after top level declaration''"
  have q: "pinv ?q" "adv p ?q" "ps_scan ?q = ps_scan p" using silentD [OF silent_clear_pragma p] by auto
  have e: "left ?q = left p" "cur_tok ?q = cur_tok p" by (rule left_scan [OF q(3)], rule cur_tok_scan [OF q(3)])
  have m: "pinv (?m ?q)" "adv ?q (?m ?q)" "ps_scan (?m ?q) = ps_scan ?q"
    using silentD [OF silent_syntaxError [of "\<lambda>_. ''after top level declaration''"] q(1)] by auto
  have em: "left (?m ?q) = left p" "cur_tok (?m ?q) = cur_tok p"
    using left_scan [OF m(3)] cur_tok_scan [OF m(3)] e by auto
  have f: "file_sep p = (if cur_tok p = T_EOF then ?q else if cur_tok p = T_Semi then next_p ?q
      else advance decl_tokens (?m ?q))"
    using e by (simp add: file_sep_def got_def Let_def)
  note n = next_p_step [OF q(1)] and a = advance_step [OF m(1), of decl_tokens]
  have s: "left (advance decl_tokens (?m ?q)) < left p"
    if "cur_tok p \<noteq> T_EOF" "cur_tok p \<notin> set decl_tokens \<union> set stop_tokens"
    using advance_strict [OF m(1), of decl_tokens] that unfolding em by simp
  show ?thesis
    unfolding f using q n a s e adv_trans [OF q(2)] adv_trans [OF adv_trans [OF q(2) m(2)]] by simp
qed

lemma stepper_file_sep: "stepper file_sep"
  using file_sep_step by (simp add: stepper_def)

context stmt_calls
begin

lemma top_decl_strict:
  assumes K: "\<And>p. K p \<Longrightarrow> is_top_decl p"
  shows "runs K N st (top_decl R ds)"
proof -
  have c: "M < N \<Longrightarrow> stmt_calls R M" for M by (rule calls_at(3) [OF stmt_calls_axioms])
  have t: "K p \<Longrightarrow> cur_tok p \<noteq> T_EOF" for p using K [of p] by (auto simp: is_top_decl_def)
  show ?thesis
    unfolding top_decl_def
    by (rule runs_if runs_next appendGroup_runs importDecl_runs enumDeclGroup_runs
          c [THEN stmt_calls.constDecl_runs] c [THEN stmt_calls.typeDecl_runs]
          c [THEN stmt_calls.varDecl_runs] runs_call [OF c [THEN stmt_calls.funcDeclOrNil_runs]] runs_ret
        | (simp; fail) | (auto dest: t; fail))+
qed

lemma file_body_progress:
  "runs (\<lambda>p. cur_tok p \<noteq> T_EOF) N (\<lambda>r q. snd r \<and> cur_tok q \<noteq> T_EOF) (file_body R v)"
proof -
  obtain ds ss prev where v: "v = (ds, ss, prev)" by (cases v)
  have a: "runs K N st (\<lambda>p. let p = advance decl_tokens p in (((ds, ss, prev'), True), p))"
    if "\<And>p. K p \<Longrightarrow> cur_tok p = T_Lbrace" for K st prev'
    by (rule runs_strict_step)
       (use advance_step advance_strict that in \<open>auto simp: decl_tokens_def stop_tokens_def intro: runs_ret\<close>)
  have f: "runs (\<lambda>q. \<not> (stmt_made s q \<or> stmt_none s q)) N (\<lambda>r q. snd r \<and> cur_tok q \<noteq> T_EOF)
      (\<lambda>p. let p = file_sep p in (((ds, case s of Some s \<Rightarrow> ss @ [s] | None \<Rightarrow> ss, prev'), True), p))" for s prev'
    by (rule runs_step_or_end)
       (use file_sep_step in \<open>auto simp: stmt_made_def stmt_none_def intro: runs_ret\<close>)
  have g: "runs K M weak (\<lambda>p. let p = file_sep p in (((ds, x, prev'), True), p))" for K M x prev' ds
    by (rule runs_stepper [OF stepper_file_sep], rule runs_ret) simp
  have s: "runs K N (\<lambda>s q. stmt_made s q \<or> stmt_none s q) (r_stmtOrNil R)"
    if "\<And>p. K p \<Longrightarrow> \<not> is_top_decl p" for K
    by (rule runs_mono [OF stmt_top]) (use that in \<open>auto simp: is_top_decl_def\<close>)
  show ?thesis
    unfolding file_body_def v prod.case
    by (rule runs_silent [OF silent_if [OF silent_syntaxError silent_id]], rule runs_let)
       (rule runs_if runs_call_strict [OF top_decl_strict] g runs_silent [OF silent_syntaxError] a
          runs_bind [OF s f g] | (simp; fail) | (auto dest!: cur_tok_scan; fail))+
qed

lemma fileOrNil_runs: "runs K N weak (fileOrNil R)"
proof -
  have w: "runs K N weak (while_p (\<lambda>v t. t \<noteq> T_EOF) (file_body R) v)" for K v
    by (rule runs_while [OF file_body_progress]) simp
  have pk: "runs K N weak package_clause" for K
    unfolding package_clause_def by (rule runs_rules runs_free | simp)+
  have t: "silent (\<lambda>p. p\<lparr>ps_top := False\<rparr>)" by (rule silent_pragma) simp_all
  show ?thesis
    unfolding fileOrNil_def by (rule runs_rules stepper_silent [OF t] pk w | simp)+
qed

end

text \<open>The contracts hold for the fuel that \<open>Parse\<close> uses, from the first token on.\<close>

lemma knot_fuel_calls: "stmt_calls (knot (knot_fuel src)) (2 * length src + 2)"
  using knot_calls [of "2 * length src + 2" "knot_fuel src"] by (simp add: knot_fuel_def)

interpretation parse: stmt_calls "knot (knot_fuel src)" "2 * length src + 2" for src :: string
  by (rule knot_fuel_calls)

lemma init_parser_inv: "pinv (init_parser X base B src e h m)" "left (init_parser X base B src e h m) = 2 * length src + 3"
  by (simp_all add: pinv_def init_parser_def errs_inv_def plain_mode_def hd_option_def cur_tok_def left_def
      budget_def remaining_def read_ok_def src_inv_def op_ok_def scanner_init_def source_init_def source.extend_def)

lemma start_parser_inv:
  "pinv (next_p (init_parser X base B src e h m))"
  "left (next_p (init_parser X base B src e h m)) \<le> 2 * length src + 2"
  "adv (init_parser X base B src e h m) (next_p (init_parser X base B src e h m))"
proof -
  let ?i = "init_parser X base B src e h m"
  have t: "cur_tok ?i \<noteq> T_EOF" by (simp add: init_parser_def cur_tok_def scanner_init_def source.extend_def)
  note n = next_p_step [OF init_parser_inv(1) [of X base B src e h m]]
  show "pinv (next_p ?i)" "adv ?i (next_p ?i)" by (fact n)+
  show "left (next_p ?i) \<le> 2 * length src + 2" using n(3) [OF t] init_parser_inv(2) [of X base B src e h m] by simp
qed

lemma parse_state_adv:
  assumes "parse_state X base B src e h m = (f, p)"
  shows "pinv p" "adv (init_parser X base B src e h m) p"
  using runsD [OF parse.fileOrNil_runs [where K = anyp] start_parser_inv(1,2) _ assms [unfolded parse_state_def]]
    adv_trans [OF start_parser_inv(3)] by auto

end
