(* ===== verification/Parser_Prec.thy ===== *)
theory Parser_Prec
  imports Parser_Progress
begin

text \<open>
  Operator precedence: the loop of \<open>binaryExpr\<close> builds the tree in which operators of higher precedence bind
  tighter and operators of the same precedence associate to the left.
\<close>

subsection \<open>Operator trees\<close>

text \<open>The precedence of the operator at the root of a binary operation; anything else is an operand.\<close>

fun bin_prec :: "Expr \<Rightarrow> nat option" where
  "bin_prec (Operation _ o1 _ (Some _)) = Some (op_prec o1)"
| "bin_prec _ = None"

fun operands :: "Expr \<Rightarrow> Expr list" where
  "operands (Operation _ _ x (Some y)) = operands x @ operands y"
| "operands x = [x]"

fun operators :: "Expr \<Rightarrow> (Pos \<times> Operator) list" where
  "operators (Operation pos o1 x (Some y)) = operators x @ (pos, o1) # operators y"
| "operators _ = []"

definition above :: "nat \<Rightarrow> Expr \<Rightarrow> bool" where
  "above k x \<longleftrightarrow> (case bin_prec x of None \<Rightarrow> True | Some j \<Rightarrow> k < j)"

definition at_least :: "nat \<Rightarrow> Expr \<Rightarrow> bool" where
  "at_least k x \<longleftrightarrow> (case bin_prec x of None \<Rightarrow> True | Some j \<Rightarrow> k \<le> j)"

text \<open>Higher precedence binds tighter; equal precedence associates to the left.\<close>

fun prec_tree :: "Expr \<Rightarrow> bool" where
  "prec_tree (Operation _ o1 x (Some y)) \<longleftrightarrow>
     prec_tree x \<and> prec_tree y \<and> at_least (op_prec o1) x \<and> above (op_prec o1) y"
| "prec_tree _ = True"

subsection \<open>Operands\<close>

lemma while_n_value:
  assumes "\<And>a p. I a \<Longrightarrow> I (fst (fst (b a p)))" "I a"
  shows "I (fst (while_n n c b a p))"
  using assms(2)
proof (induction n arbitrary: a p)
  case (Suc n)
  show ?case using Suc.IH assms(1) Suc.prems by (simp add: Let_def case_prod_beta)
qed simp

lemma while_value: "(\<And>a p. I a \<Longrightarrow> I (fst (fst (b a p)))) \<Longrightarrow> I a \<Longrightarrow> I (fst (while_p c b a p))"
  unfolding while_p_def by (rule while_n_value)

abbreviation operand_expr :: "Expr \<Rightarrow> bool" where "operand_expr x \<equiv> bin_prec x = None"

text \<open>No type is a binary operation.\<close>

definition types_ok :: "procs \<Rightarrow> bool" where
  "types_ok R \<longleftrightarrow> (\<forall>p t. fst (r_typeOrNil R p) = Some t \<longrightarrow> operand_expr t)"

lemma qualifiedName_operand: "operand_expr (fst (qualifiedName R n p))"
  by (simp add: qualifiedName_def qualified_rest_def typeInstance_def Let_def case_prod_beta split: option.split)

lemma type_p_operand: "types_ok R \<Longrightarrow> operand_expr (fst (type_p R p))"
  by (simp add: type_p_def types_ok_def Let_def case_prod_beta badExpr_def split: option.split)

lemma typeOrNil_operand: "types_ok R \<Longrightarrow> fst (typeOrNil R p) = Some t \<Longrightarrow> operand_expr t"
  by (auto simp: typeOrNil_def newIndirect_def recvChanType_def chanType_def mapType_def bracketType_def
      sliceType_def arrayType_def structType_def interfaceType_def qualifiedName_operand type_p_operand
      Let_def case_prod_beta split: if_splits)

lemma operand_operand: "types_ok R \<Longrightarrow> operand_expr (fst (operand R True p))"
  by (simp add: operand_def paren_operand_def func_operand_def mapTypeOrLiteral_def
      mapLiteralFromBracket_def mapLiteralFromBrace_def bracket_operand_def sliceLiteral_def any_map_def badExpr_def
      type_p_operand Let_def case_prod_beta)

lemma pexpr_body_operand: "operand_expr x \<Longrightarrow> operand_expr (fst (fst (pexpr_body R x p)))"
  by (simp add: pexpr_body_def pexpr_dot_def pexpr_index_def slice_rest_def pexpr_hash_def hash_index_def
      pexpr_call_def pexpr_brace_def Let_def case_prod_beta)

lemma unaryExpr_operand:
  assumes "types_ok R"
  shows "operand_expr (fst (unaryExpr R p))"
proof -
  have "operand_expr (fst (pexpr R None True q))" for q
    using while_value [of operand_expr "pexpr_body R", OF pexpr_body_operand operand_operand [OF assms]]
    by (simp add: pexpr_def case_prod_beta)
  moreover have "operand_expr (fst (reassoc x))" if "is_ChanType x" for x
    using that by (cases x) (auto simp: Let_def case_prod_beta)
  ultimately show ?thesis
    by (simp add: unaryExpr_def recv_expr_def Let_def case_prod_beta)
qed

lemma types_ok_knot: "types_ok (knot n)"
proof (induction n)
  case (Suc n)
  then show ?case using typeOrNil_operand [OF Suc] by (simp add: types_ok_def knot_Suc)
qed (simp add: types_ok_def type_n.simps)

subsection \<open>The loop\<close>

text \<open>A loop whose body, where it goes on, leaves fewer tokens.\<close>

lemma while_n_rule:
  assumes step: "\<And>a p r q. I a p \<Longrightarrow> c a (cur_tok p) \<Longrightarrow> b a p = (r, q) \<Longrightarrow>
      (if snd r then I (fst r) q \<and> left q < left p else Q (fst r) q)"
    and fin: "\<And>a p. I a p \<Longrightarrow> \<not> c a (cur_tok p) \<Longrightarrow> Q a p"
    and "I a p" "left p < n" "while_n n c b a p = (v, q)"
  shows "Q v q"
  using assms(3-5)
proof (induction n arbitrary: a p)
  case (Suc n)
  obtain r p' where r: "b a p = (r, p')" by fastforce
  show ?case
  proof (cases "c a (cur_tok p)")
    case True
    note st = step [OF Suc.prems(1) True r]
    show ?thesis
      using st Suc.IH [of "fst r" p'] Suc.prems(2,3) True r by (cases "snd r") auto
  qed (use Suc.prems fin in auto)
qed simp

definition at_binop :: "parser \<Rightarrow> bool" where
  "at_binop p \<longleftrightarrow> cur_tok p = T_Operator \<or> cur_tok p = T_Star"

definition binds_above :: "nat \<Rightarrow> parser \<Rightarrow> bool" where
  "binds_above k p \<longleftrightarrow> at_binop p \<and> k < prec (ps_scan p)"

text \<open>\<open>op_seq p xs os q\<close>: from \<open>p\<close> to \<open>q\<close> the source has the operands \<open>xs\<close> (results of \<open>unaryExpr\<close>) with the
  operators \<open>os\<close> between them.\<close>

inductive op_seq :: "parser \<Rightarrow> Expr list \<Rightarrow> (Pos \<times> Operator) list \<Rightarrow> parser \<Rightarrow> bool" where
  one: "unaryExpr (knot n) p = (x, q) \<Longrightarrow> op_seq p [x] [] q"
| more: "op_seq p xs os q1 \<Longrightarrow> at_binop q1 \<Longrightarrow> op_seq (next_p q1) ys os' q \<Longrightarrow>
    op_seq p (xs @ ys) (os @ (cur_pos q1, cur_op q1) # os') q"

definition binary_ok :: "nat \<Rightarrow> parser \<Rightarrow> Expr \<Rightarrow> parser \<Rightarrow> bool" where
  "binary_ok k p x q \<longleftrightarrow> prec_tree x \<and> above k x \<and> op_seq p (operands x) (operators x) q \<and> \<not> binds_above k q"

text \<open>The invariant of the loop.\<close>

definition climb_inv :: "nat \<Rightarrow> nat \<Rightarrow> parser \<Rightarrow> Expr \<Rightarrow> parser \<Rightarrow> bool" where
  "climb_inv k N p x q \<longleftrightarrow> pinv q \<and> left q \<le> N \<and> prec_tree x \<and> above k x
     \<and> op_seq p (operands x) (operators x) q \<and> (\<forall>j. bin_prec x = Some j \<longrightarrow> \<not> binds_above j q)"

lemma climb_done: "climb_inv k N p x q \<Longrightarrow> \<not> binds_above k q \<Longrightarrow> binary_ok k p x q"
  by (simp add: climb_inv_def binary_ok_def)

lemma climb_step:
  assumes i: "climb_inv k N p x q" and b: "binds_above k q"
    and y: "binary_ok (prec (ps_scan q)) (next_p q) y r" "pinv r" "left r \<le> N"
  shows "climb_inv k N p (Operation (cur_pos q) (cur_op q) x (Some y)) r"
proof -
  have o: "op_prec (cur_op q) = prec (ps_scan q)" and a: "at_binop q"
    using i b by (auto simp: climb_inv_def pinv_def op_ok_def binds_above_def at_binop_def cur_tok_def cur_op_def)
  have "at_least (prec (ps_scan q)) x"
    using i a by (auto simp: climb_inv_def at_least_def binds_above_def split: option.split)
  moreover have "op_seq p (operands x @ operands y) (operators x @ (cur_pos q, cur_op q) # operators y) r"
    using i y a by (auto simp: climb_inv_def binary_ok_def intro: op_seq.more)
  ultimately show ?thesis
    using i b y o by (auto simp: climb_inv_def binary_ok_def above_def binds_above_def)
qed

lemma operand_leaf: "operand_expr x \<Longrightarrow> prec_tree x \<and> operands x = [x] \<and> operators x = []"
  by (cases x rule: prec_tree.cases) auto

lemma binary_n_ok:
  assumes "3 * N + 2 \<le> n" "pinv p" "left p \<le> N" "binary_n n None k p = (x, q)"
  shows "binary_ok k p x q"
  using assms
proof (induction n arbitrary: N k p x q)
  case (Suc n)
  have T: "type_calls (knot n) N" using knot_calls [of N n] Suc.prems(1) by simp
  have R: "M < N \<Longrightarrow> stmt_calls (knot n) M" for M using knot_calls [of M n] Suc.prems(1) by simp
  obtain u p1 where u: "unaryExpr (knot n) p = (u, p1)" by fastforce
  have ul: "operand_expr u" using unaryExpr_operand [OF types_ok_knot, of n p] u by simp
  note d = runsD [OF unaryExpr_body [OF T R, of weak anyp] Suc.prems(2,3) _ u]
  have start: "climb_inv k N p u p1"
    using d operand_leaf [OF ul] ul op_seq.one [OF u] Suc.prems(3)
    by (auto simp: climb_inv_def above_def)
  have w: "while_n (loop_fuel p1) (\<lambda>x t. t = T_Operator \<or> t = T_Star) (binary_body (knot n) k) u p1 = (x, q)"
    using Suc.prems(4) u by (simp add: knot_Suc binaryExpr_def while_p_def)
  show ?case
  proof (rule while_n_rule [where I = "climb_inv k N p" and Q = "binary_ok k p", OF _ _ start left_less_fuel w])
    fix a p' r q'
    assume i: "climb_inv k N p a p'" and c: "cur_tok p' = T_Operator \<or> cur_tok p' = T_Star"
      and r: "binary_body (knot n) k a p' = (r, q')"
    show "if snd r then climb_inv k N p (fst r) q' \<and> left q' < left p' else binary_ok k p (fst r) q'"
    proof (cases "k < prec (ps_scan p')")
      case True
      then have ba: "binds_above k p'" using c by (simp add: binds_above_def at_binop_def)
      obtain y q2 where y: "binary_n n None (prec (ps_scan p')) (next_p p') = (y, q2)" by fastforce
      have p': "pinv p'" "left p' \<le> N" using i by (auto simp: climb_inv_def)
      have s: "pinv (next_p p')" "left (next_p p') < left p'"
        using next_p_step(1,3) [OF p'(1)] c by auto
      have M: "3 * left (next_p p') + 2 \<le> n" using s(2) p'(2) Suc.prems(1) by simp
      have e: "runs anyp (left (next_p p')) weak (binary_n n None (prec (ps_scan p')))"
        using knot_calls [of "left (next_p p')" n] M expr_calls.binary_runs [of "knot n"] by simp
      note yd = runsD [OF e s(1) order_refl _ y]
      have "binary_ok (prec (ps_scan p')) (next_p p') y q2" by (rule Suc.IH [OF M s(1) order_refl y])
      from climb_step [OF i ba this] have "climb_inv k N p (Operation (cur_pos p') (cur_op p') a (Some y)) q2"
        using yd(1,4) s(2) p'(2) by simp
      then show ?thesis using r True y yd(4) s(2) by (auto simp: binary_body_def Let_def)
    next
      case False
      then show ?thesis using r i by (auto simp: binary_body_def binds_above_def intro: climb_done)
    qed
  qed (auto simp: binds_above_def at_binop_def intro: climb_done)
qed simp

subsection \<open>The tree is determined by its leaves and operators\<close>

lemma operators_at_least:
  "prec_tree x \<Longrightarrow> at_least k x \<Longrightarrow> (pos, o1) \<in> set (operators x) \<Longrightarrow> k \<le> op_prec o1"
proof (induction x arbitrary: k rule: prec_tree.induct)
  case (1 p o2 x y)
  have k: "k \<le> op_prec o2" using "1.prems"(2) by (simp add: at_least_def)
  have y: "at_least (op_prec o2) y" using "1.prems"(1) by (auto simp: above_def at_least_def split: option.splits)
  consider "(pos, o1) \<in> set (operators x)" | "o1 = o2" | "(pos, o1) \<in> set (operators y)"
    using "1.prems"(3) by auto
  then have "op_prec o2 \<le> op_prec o1"
    by cases (use "1.IH" "1.prems"(1) y in auto)
  with k show ?case by simp
qed auto

lemma operators_above:
  assumes "prec_tree x" "above k x" "(pos, o1) \<in> set (operators x)"
  shows "k < op_prec o1"
proof -
  have "at_least (Suc k) x" using assms(2) by (auto simp: above_def at_least_def split: option.splits)
  from operators_at_least [OF assms(1) this assms(3)] show ?thesis by simp
qed

lemma length_operands: "length (operands x) = Suc (length (operators x))"
  by (induction x rule: operators.induct) auto

text \<open>The root is the last operator of the lowest precedence.\<close>

lemma root_unique:
  assumes "os @ (p, o1) # os' = us @ (q, o2) # us'"
    and "\<And>p x. (p, x) \<in> set os \<Longrightarrow> f o1 \<le> f x" "\<And>p x. (p, x) \<in> set os' \<Longrightarrow> f o1 < (f x :: nat)"
    and "\<And>p x. (p, x) \<in> set us \<Longrightarrow> f o2 \<le> f x" "\<And>p x. (p, x) \<in> set us' \<Longrightarrow> f o2 < f x"
  shows "os = us \<and> (p, o1) = (q, o2) \<and> os' = us'"
proof -
  from assms(1) consider "os = us"
    | vs where "us = os @ (p, o1) # vs" "os' = vs @ (q, o2) # us'"
    | vs where "os = us @ (q, o2) # vs" "us' = vs @ (p, o1) # os'"
    unfolding append_eq_append_conv2 by (auto simp: Cons_eq_append_conv append_eq_Cons_conv)
  then show ?thesis
  proof cases
    case 1
    then show ?thesis using assms(1) by simp
  next
    case (2 vs)
    then show ?thesis using assms(3) [of q o2] assms(4) [of p o1] by auto
  next
    case (3 vs)
    then show ?thesis using assms(5) [of p o1] assms(2) [of q o2] by auto
  qed
qed

lemma no_operators: "[] = operators x \<Longrightarrow> operands x = [x]"
  by (cases x rule: operators.cases) auto

lemma prec_tree_unique:
  "prec_tree t \<Longrightarrow> prec_tree u \<Longrightarrow> operands t = operands u \<Longrightarrow> operators t = operators u \<Longrightarrow> t = u"
proof (induction t arbitrary: u rule: prec_tree.induct)
  case (1 p o1 x y)
  then obtain q o2 x' y' where u: "u = Operation q o2 x' (Some y')"
    by (cases u rule: operators.cases) auto
  have "operators x = operators x' \<and> (p, o1) = (q, o2) \<and> operators y = operators y'"
    by (rule root_unique [where f = op_prec])
      (use 1(3-6) u in \<open>auto dest: operators_at_least operators_above\<close>)
  moreover from this have "operands x = operands x' \<and> operands y = operands y'"
    using 1(5) u length_operands [of x] length_operands [of x'] by simp
  ultimately show ?case using 1 u by auto
qed (auto dest!: no_operators)

text \<open>C2: precedence climbing is correct.  Called with a precedence, \<open>binaryExpr\<close> reads a sequence of operands and operators
  up to the first operator that does not bind tighter; it returns the tree with these operands and
  operators in which higher precedence binds tighter and equal precedence associates to the left, and
  there is only one such tree.\<close>

theorem precedence_climbing:
  assumes "pinv p" "left p \<le> 2 * length src + 2" "r_binaryExpr (knot (knot_fuel src)) None k p = (x, q)"
  shows "op_seq p (operands x) (operators x) q \<and> \<not> binds_above k q \<and> prec_tree x \<and> above k x
    \<and> (\<forall>t. prec_tree t \<and> operands t = operands x \<and> operators t = operators x \<longrightarrow> t = x)"
  using binary_n_ok [of "2 * length src + 2" "knot_fuel src" p k x q] assms prec_tree_unique [of _ x]
  by (auto simp: binary_ok_def knot_fuel_def)

definition sample_parser :: "string \<Rightarrow> parser" where
  "sample_parser src = next_p (init_parser \<lparr>x_String = (\<lambda>_. []), x_StmtString = (\<lambda>_. []), x_GoVersion = (\<lambda>_. None)\<rparr>
     (Some 0) [] src True None 0)"

theorem precedence_climbing_witness:
  "\<exists>x q. r_binaryExpr (knot (knot_fuel ''a+b*c'')) None 0 (sample_parser ''a+b*c'') = (x, q)
     \<and> map snd (operators x) = [Op_Add, Op_Mul] \<and> prec_tree x
     \<and> op_seq (sample_parser ''a+b*c'') (operands x) (operators x) q"
proof -
  let ?p = "sample_parser ''a+b*c''"
  obtain x q where x: "r_binaryExpr (knot (knot_fuel ''a+b*c'')) None 0 ?p = (x, q)" by fastforce
  have "map snd (operators (fst (r_binaryExpr (knot (knot_fuel ''a+b*c'')) None 0 ?p))) = [Op_Add, Op_Mul]"
    by code_simp
  moreover have "pinv ?p" "left ?p \<le> 2 * length ''a+b*c'' + 2"
    unfolding sample_parser_def by (rule start_parser_inv)+
  note precedence_climbing [OF this x]
  ultimately show ?thesis using x by (metis fst_conv)
qed

end
