(* ===== verification/Parser_Params.thy ===== *)
theory Parser_Params
  imports Parser_Prec
begin

text \<open>
  Parameter lists.  Go writes \<open>(a, b int)\<close> for two parameters of one type and \<open>(int, string)\<close> for two
  unnamed ones; \<open>paramList\<close> reads both alike and decides at the end.
\<close>

subsection \<open>What a parameter declaration has\<close>

fun has_part :: "Field \<Rightarrow> bool" where
  "has_part (Field _ n t) \<longleftrightarrow> n \<noteq> None \<or> t \<noteq> None"

fun full_field :: "Field \<Rightarrow> bool" where
  "full_field (Field _ n t) \<longleftrightarrow> n \<noteq> None \<and> t \<noteq> None"

lemma is_none_iff [simp]: "Option.is_none x \<longleftrightarrow> x = None"
  by (simp add: Option.is_none_def)

lemma embeddedElem_type: "f_type (fst (embeddedElem R f p)) \<noteq> None"
  by (auto simp: embeddedElem_def embedded_more_def Let_def case_prod_beta split: option.split Field.split)

lemma has_part_type: "f_type f \<noteq> None \<Longrightarrow> has_part f"
  by (cases f) simp

lemma has_part_iff: "has_part f \<longleftrightarrow> f_name f \<noteq> None \<or> f_type f \<noteq> None"
  by (cases f) simp

lemma embed_if_or_part: "has_part f \<Longrightarrow> has_part (fst (embed_if_or R b f p))"
  by (simp add: embed_if_or_def has_part_type embeddedElem_type)

lemma param_type_part: "fst (param_type R b t pos n p) = Some f \<Longrightarrow> has_part f"
  using embeddedElem_type
  by (auto simp: param_type_def has_part_iff Let_def case_prod_beta split: if_splits option.splits)

lemma param_named_part: "fst (param_named R b t pos n p) = Some f \<Longrightarrow> has_part f"
  by (auto simp: param_named_def param_instance_def param_type_part Let_def case_prod_beta
      has_part_type embeddedElem_type
      split: if_splits sum.splits intro!: embed_if_or_part)

lemma paramDeclOrNil_part: "fst (paramDeclOrNil R n t p) = Some f \<Longrightarrow> has_part f"
  by (auto simp: paramDeclOrNil_def param_type_part param_named_part Let_def case_prod_beta
      has_part_type embeddedElem_type split: if_splits option.splits)

subsection \<open>Collecting\<close>

text \<open>The counter of complete fields is exact, and no field is empty.\<close>

definition params_inv :: "param_vars \<Rightarrow> bool" where
  "params_inv v \<longleftrightarrow> list_all has_part (fst (snd v)) \<and> fst (snd (snd v)) = length (filter full_field (fst (snd v)))"

lemma add_param_inv:
  assumes "params_inv v" "\<And>f. par = Some f \<Longrightarrow> has_part f"
  shows "params_inv (add_param par v)"
proof (cases par)
  case None
  then show ?thesis using assms(1) by (cases v) (auto simp: params_inv_def)
next
  case (Some f)
  then show ?thesis using assms by (cases v; cases f) (auto simp: params_inv_def)
qed

lemma param_body_inv: "params_inv v \<Longrightarrow> params_inv (fst (fst (param_body R close v p)))"
  by (auto simp: param_body_def Let_def case_prod_beta split: prod.split option.split
      intro!: add_param_inv elim: paramDeclOrNil_part)

lemma list_value:
  assumes "\<And>a p. I a \<Longrightarrow> I (fst (fst (f a p)))" "I a"
  shows "I (fst (fst (list_p ctxt sep close f a p)))"
proof -
  let ?c = "\<lambda>v t. t \<noteq> T_EOF \<and> t \<noteq> close \<and> \<not> fst (snd v)"
  have "I (fst (fst (while_p ?c (list_body ctxt sep close f) (a, False, None) p)))"
    by (rule while_value [where I = "\<lambda>v. I (fst v)"])
       (use assms in \<open>auto simp: list_body_def Let_def case_prod_beta\<close>)
  then show ?thesis by (simp add: list_p_def Let_def case_prod_beta split: option.split)
qed

subsection \<open>Distributing\<close>

definition all_or_none :: "Field list \<Rightarrow> bool" where
  "all_or_none fs \<longleftrightarrow> list_all full_field fs \<or> list_all (\<lambda>f. f_name f = None \<and> f_type f \<noteq> None) fs"

lemma sweep_types_full: "list_all has_part fs \<Longrightarrow> list_all full_field (fst (sweep_types fs t e))"
  by (induction fs t e rule: sweep_types.induct) (auto simp: Let_def case_prod_beta split: option.splits)

lemma full_filter: "length (filter P xs) = length xs \<longleftrightarrow> list_all P xs"
  by (metis filter_id_conv length_filter_less less_irrefl list_all_iff)

lemma distribute_all_or_none:
  assumes "list_all has_part fs" "named = length (filter full_field fs)"
  shows "all_or_none (fst (distribute req named typed e fs p))"
proof -
  have u: "f_name (name_to_type f) = None \<and> f_type (name_to_type f) \<noteq> None" if "has_part f" "\<not> full_field f" for f
    using that by (cases f rule: name_to_type.cases) auto
  have "named = 0 \<Longrightarrow> list_all (\<lambda>f. f_name f = None \<and> f_type f \<noteq> None) (map name_to_type fs)"
    using assms u by (simp add: list_all_iff filter_empty_conv)
  then show ?thesis using assms sweep_types_full [of "rev fs" None zero_Pos] full_filter [of full_field fs]
    by (auto simp: distribute_def all_or_none_def Let_def case_prod_beta list_all_rev)
qed

lemma fix_dots_fields:
  "map f_name (fst (fix_dots b fs)) = map f_name fs \<and>
   (list_all (\<lambda>f. f_type f \<noteq> None) fs \<longrightarrow> list_all (\<lambda>f. f_type f \<noteq> None) (fst (fix_dots b fs)))"
  by (induction b fs rule: fix_dots.induct) (auto simp: Let_def case_prod_beta)

lemma all_or_none_iff:
  "all_or_none fs \<longleftrightarrow> list_all (\<lambda>f. f_type f \<noteq> None) fs
     \<and> (list_all (\<lambda>n. n \<noteq> None) (map f_name fs) \<or> list_all (\<lambda>n. n = None) (map f_name fs))"
proof -
  have "full_field f \<longleftrightarrow> f_name f \<noteq> None \<and> f_type f \<noteq> None" for f by (cases f) simp
  then show ?thesis by (auto simp: all_or_none_def list_all_iff)
qed

lemma check_dots_all_or_none: "all_or_none fs \<Longrightarrow> all_or_none (fst (check_dots b fs p))"
  using fix_dots_fields [of b fs] unfolding all_or_none_iff check_dots_def
  by (auto split: prod.split option.split)

text \<open>C9: in the list that \<open>paramList\<close> returns, every field has a type, and either all fields have a name or
  none has.  This holds on every input, after errors too.\<close>

theorem params_all_or_none:
  "list_all (\<lambda>f. f_type f \<noteq> None) (fst (paramList R name typ close req dddok p))
   \<and> (list_all (\<lambda>f. f_name f \<noteq> None) (fst (paramList R name typ close req dddok p))
      \<or> list_all (\<lambda>f. f_name f = None) (fst (paramList R name typ close req dddok p)))"
proof -
  let ?r = "list_p ''parameter list'' T_Comma close (param_body R close) ((name, typ), [], 0, 0) p"
  have "params_inv (fst (fst ?r))"
    by (rule list_value [where I = params_inv]) (simp_all add: param_body_inv, simp add: params_inv_def)
  then have d: "all_or_none (fst (distribute req (fst (snd (snd (fst (fst ?r))))) t e (fst (snd (fst (fst ?r)))) q))" for t e q
    by (intro distribute_all_or_none) (simp_all add: params_inv_def)
  have ifI: "(c \<Longrightarrow> all_or_none (fst a)) \<Longrightarrow> (\<not> c \<Longrightarrow> all_or_none (fst b)) \<Longrightarrow> all_or_none (fst (if c then a else b))"
    for c and a b :: "Field list \<times> parser" by simp
  have "all_or_none (fst (paramList R name typ close req dddok p))"
    unfolding paramList_def Let_def case_prod_beta
    by (intro ifI check_dots_all_or_none d) (auto simp: all_or_none_def)
  then show ?thesis by (simp add: all_or_none_iff list_all_iff)
qed

end
