(* ===== verification/Parser_Props.thy ===== *)
theory Parser_Props
  imports Parser_Params
begin

text \<open>
  Properties of the parser: it returns on every input, keeps its bookkeeping, reports errors as
  \<open>Parse\<close> promises, builds parameter lists and operator trees by the rules of the language; and what it
  does where it departs from its documentation.
\<close>

subsection \<open>Decimal numbers\<close>

fun dec_value :: "string \<Rightarrow> nat \<Rightarrow> nat" where
  "dec_value [] n = n"
| "dec_value (c # cs) n = dec_value cs (n * 10 + nat (rune_of c - 48))"

definition all_digits :: "string \<Rightarrow> bool" where
  "all_digits s \<longleftrightarrow> list_all (\<lambda>c. 48 \<le> rune_of c \<and> rune_of c \<le> 57) s"

lemma dec_value_ge: "n \<le> dec_value s n"
proof (induction s arbitrary: n)
  case (Cons c s)
  from Cons [of "n * 10 + nat (rune_of c - 48)"] show ?case by simp
qed simp

lemma parse_cutoff_unat: "unat parse_cutoff = 1844674407370955162"
  by (simp add: parse_cutoff_def unsigned_eq_0_iff)

lemma of_nat_unat: "k < 2 ^ 64 \<Longrightarrow> unat (of_nat k :: uint64) = k"
  by (simp only: unat_of_nat) simp

lemma parse_digits_value:
  assumes "all_digits s"
  shows "parse_digits s n =
    (if dec_value s (unat n) < 2 ^ 64 then (of_nat (dec_value s (unat n)), True) else (-1, False))"
  using assms
proof (induction s arbitrary: n)
  case Nil
  have "unat n < 2 ^ 64" using unsigned_less [of n] by simp
  then show ?case by simp
next
  case (Cons c s)
  let ?d = "nat (rune_of c - 48)"
  have d: "48 \<le> rune_of c" "rune_of c \<le> 57" "all_digits s" using Cons.prems by (auto simp: all_digits_def)
  then have d9: "?d \<le> 9" by simp
  have le: "unat n * 10 + ?d \<le> dec_value (c # s) (unat n)"
    using dec_value_ge [of "unat n * 10 + ?d" s] by simp
  show ?case
  proof (cases "n \<ge> parse_cutoff")
    case True
    then have "1844674407370955162 \<le> unat n" by (simp add: word_le_nat_alt parse_cutoff_unat)
    then have "\<not> dec_value (c # s) (unat n) < 2 ^ 64" using le by simp
    then show ?thesis using True d by simp
  next
    case False
    then have n: "unat n < 1844674407370955162" by (simp add: word_le_nat_alt parse_cutoff_unat)
    have m: "unat (n * 10) = unat n * 10" using n by (simp add: unat_word_ariths)
    have "of_int (rune_of c - 48) = (of_nat ?d :: uint64)" using d by simp
    then have s: "n * 10 + of_int (rune_of c - 48) = of_nat (unat n * 10 + ?d)" by simp
    show ?thesis
    proof (cases "unat n * 10 + ?d < 2 ^ 64")
      case True
      then have u: "unat (of_nat (unat n * 10 + ?d) :: uint64) = unat n * 10 + ?d"
        using of_nat_unat [of "unat n * 10 + ?d"] by simp
      then have "\<not> of_nat (unat n * 10 + ?d) < n * 10" using m by (simp add: word_less_nat_alt)
      then show ?thesis using False d Cons.IH [OF d(3), of "of_nat (unat n * 10 + ?d)"] s u
        by (simp add: Let_def)
    next
      case of: False
      then have "unat (of_nat (unat n * 10 + ?d) :: uint64) = unat n * 10 + ?d - 2 ^ 64"
        using n d9 by (simp only: unat_of_nat) (simp add: mod_if)
      then have "of_nat (unat n * 10 + ?d) < n * 10" using m n d9 of by (simp add: word_less_nat_alt)
      then show ?thesis using False d of le s by (simp add: Let_def)
    qed
  qed
qed

lemma dec_value_append: "dec_value (s @ t) n = dec_value t (dec_value s n)"
  by (induction s arbitrary: n) simp_all

lemma itoa_value: "all_digits (itoa n) \<and> dec_value (itoa n) 0 = n"
proof (induction n rule: itoa.induct)
  case (1 n)
  have b: "rune_of (byte_of (48 + int k)) = 48 + int k" if "k < 10" for k
    using that by (simp add: rune_of_byte_of)
  show ?case
  proof (cases "n < 10")
    case True
    then show ?thesis by (subst (1 2) itoa.simps) (simp add: all_digits_def b)
  next
    case False
    then show ?thesis using 1 b [of "n mod 10"]
      by (subst (1 2) itoa.simps) (simp add: all_digits_def dec_value_append)
  qed
qed

lemma ParseUint_itoa: "ParseUint (itoa n) = (if n < 2 ^ 64 then (of_nat n, True) else (-1, False))"
  using itoa_value [of n] parse_digits_value [of "itoa n" 0] itoa_nonempty [of n] by (simp add: ParseUint_def)

text \<open>Decimal numbers round-trip: parsing the decimal text of a number gives the number back if it fits into
  64 bits, and otherwise the largest value and an error; it never wraps.\<close>

lemma decimal_roundtrip:
  "ParseUint (itoa n) = (if n < 2 ^ 64 then (of_nat n, True) else (2 ^ 64 - 1, False))"
  by (simp add: ParseUint_itoa)

subsection \<open>Termination\<close>

lemma parse_not_stuck: "parse_state X base B src e h m = (f, p) \<Longrightarrow> \<not> ps_stuck p"
  using parse_state_adv(2) [of X base B src e h m f p] by (simp add: adv_def init_parser_def)

text \<open>C1: the parser returns on every input: neither the nesting of its productions nor one of its
  loops uses up the fuel of the model, in every mode and with every handler.\<close>

theorem parse_terminates: "\<not> ps_stuck (snd (parse_state X base B src e h m))"
  using parse_not_stuck [of X base B src e h m] by (cases "parse_state X base B src e h m") simp

lemma while_n_exit:
  assumes "\<And>a p. snd (fst (b a p))" "while_n n c b a p = (v, q)" "\<not> ps_stuck q"
  shows "\<not> c v (cur_tok q)"
  using assms(2,3)
proof (induction n arbitrary: a p)
  case (Suc n)
  obtain r p' where r: "b a p = (r, p')" by fastforce
  show ?case using Suc.IH [of "fst r" p'] Suc.prems r assms(1) [of a p] by (auto split: if_splits)
qed auto

lemma file_body_goes_on: "snd (fst (file_body R v p))"
  unfolding file_body_def Let_def by (simp split: prod.split)

lemma clear_pragma_scan [simp]: "ps_scan (clear_pragma p) = ps_scan p" "ps_stuck (clear_pragma p) = ps_stuck p"
  "ps_first (clear_pragma p) = ps_first p"
  by (simp_all add: clear_pragma_def split: option.split)

lemma fileOrNil_file:
  assumes "fileOrNil R p = (Some f, q)" "\<not> ps_stuck q"
  shows "cur_tok q = T_EOF"
proof -
  obtain pk p1 where pk: "package_clause (p\<lparr>ps_top := False\<rparr>) = (pk, p1)" by fastforce
  obtain v p2 where w: "while_p (\<lambda>v t. t \<noteq> T_EOF) (file_body R) ([], [], T_Import) p1 = (v, p2)" by fastforce
  have q: "q = clear_pragma p2"
    using assms(1) unfolding fileOrNil_def Let_def pk prod.case w by (auto split: if_splits)
  then show ?thesis
    using while_n_exit [OF file_body_goes_on w [unfolded while_p_def]] assms(2) by (simp add: cur_tok_def)
qed

text \<open>A tree stands for the whole input: when \<open>Parse\<close> builds a file, the parser is at the end-of-file
  token, no byte of the source is left, and the nesting levels of functions and expressions are those of the start.\<close>

lemma parse_whole_input:
  assumes "fst (parse_state X base B src e h m) \<noteq> None"
  shows "let p = snd (parse_state X base B src e h m) in
    cur_tok p = T_EOF \<and> remaining (ps_scan p) = 0 \<and> ps_xnest p = 0 \<and> ps_fnest p = 0"
proof -
  obtain f p where fp: "parse_state X base B src e h m = (Some f, p)"
    using assms by (cases "parse_state X base B src e h m") auto
  from fileOrNil_file [OF fp [unfolded parse_state_def] parse_not_stuck [OF fp]] parse_state_adv [OF fp]
  show ?thesis by (simp add: fp pinv_def adv_def init_parser_def)
qed

definition sample_externs :: externs where
  "sample_externs = \<lparr>x_String = (\<lambda>_. ''?''), x_StmtString = (\<lambda>_. ''?''), x_GoVersion = (\<lambda>_. None)\<rparr>"

definition sample_parse :: "string \<Rightarrow> bool \<Rightarrow> uint64 \<Rightarrow> File option \<times> parser" where
  "sample_parse src e m =
     parse_state sample_externs (Some 0) (fst (NewFileBase ''f.go'' [])) src e None m"

lemma parse_whole_input_witness:
  "fst (sample_parse ''x = 1 + 2'' True 0) \<noteq> None \<and>
   (let p = snd (sample_parse ''x = 1 + 2'' True 0) in
    cur_tok p = T_EOF \<and> remaining (ps_scan p) = 0 \<and> ps_xnest p = 0 \<and> ps_fnest p = 0)"
proof -
  have "fst (sample_parse ''x = 1 + 2'' True 0) \<noteq> None" by code_simp
  then show ?thesis unfolding sample_parse_def using parse_whole_input by blast
qed

subsection \<open>Errors\<close>

lemma fileOrNil_None: "fileOrNil R p = (None, q) \<Longrightarrow> ps_first q \<noteq> None"
  unfolding fileOrNil_def Let_def by (auto split: prod.splits if_splits simp: Option.is_none_def)

text \<open>C8: the contract of \<open>Parse\<close>, without the mode \<open>CheckBranches\<close>.  No panic that the code raises for an error gets out
  of it.  It returns no tree only together
  with an error.  With a handler, the error it returns is the first one the handler was called
  with, and none if it was not called; without a handler, it returns no tree if there is an error.\<close>

theorem parse_error_contract:
  assumes "m AND CheckBranches = 0"
  shows "\<exists>f err. Parse X base B src e h m = Some (f, err) \<and> (f = None \<longrightarrow> err \<noteq> None)
    \<and> (e \<longrightarrow> err = hd_option (ps_errs (snd (parse_state X base B src e h m))))
    \<and> (\<not> e \<longrightarrow> err = None \<or> f = None)"
proof -
  obtain f p where fp: "parse_state X base B src e h m = (f, p)" by fastforce
  note a = parse_state_adv [OF fp]
  have m: "plain_mode p" "ps_errh p = e"
    using a(2) assms by (auto simp: adv_def init_parser_def plain_mode_def)
  have i: "errs_inv p" using a(1) by (simp add: pinv_def)
  have n: "f = None \<Longrightarrow> ps_first p \<noteq> None"
    using fp fileOrNil_None by (auto simp: parse_state_def)
  have P: "Parse X base B src e h m = (case ps_panic p of None \<Rightarrow> Some (f, ps_first p)
      | Some (PanicError e) \<Rightarrow> Some (None, Some e) | Some PanicNil \<Rightarrow> None)"
    by (simp add: Parse_def fp)
  show ?thesis
  proof (cases e)
    case True
    then have "ps_panic p = None" "ps_first p = hd_option (ps_errs p)" using i m by (auto simp: errs_inv_def)
    then show ?thesis unfolding P fp using True n by simp
  next
    case False
    then have "ps_panic p = map_option PanicError (ps_first p)" using i m by (auto simp: errs_inv_def)
    then show ?thesis unfolding P using False n by (cases "ps_first p") auto
  qed
qed

theorem parse_error_contract_witness:
  "\<exists>f err. Parse sample_externs (Some 0) [] ''package p; var'' True None 0 = Some (f, err)
    \<and> (f = None \<longrightarrow> err \<noteq> None)
    \<and> (True \<longrightarrow> err = hd_option (ps_errs (snd (parse_state sample_externs (Some 0) [] ''package p; var'' True None 0))))
    \<and> (\<not> True \<longrightarrow> err = None \<or> f = None)"
  by (rule parse_error_contract) simp

subsection \<open>Enumerations\<close>

text \<open>
  What a generated method does: the value of an index expression for a value of the receiver, and the element of the
  table that a method of the given type and name returns.  A method of another form, and an index out of range, have no
  result.
\<close>

fun index_value :: "string \<Rightarrow> nat \<Rightarrow> Expr \<Rightarrow> nat option" where
  "index_value r v (NameE x) = (if n_value x = r then Some v else None)"
| "index_value r v (LitE l) = (case ParseUint (l_value l) of (k, ok) \<Rightarrow> if ok then Some (unat k) else None)"
| "index_value r v (ParenExpr _ x) = index_value r v x"
| "index_value r v _ = None"

fun is_name :: "string \<Rightarrow> Expr \<Rightarrow> bool" where
  "is_name s (NameE x) \<longleftrightarrow> n_value x = s"
| "is_name s _ \<longleftrightarrow> False"

fun string_table :: "Expr \<Rightarrow> Expr list option" where
  "string_table (CompositeLit _ (Some t) es _ _) =
     (case t of ArrayType _ None et \<Rightarrow> if is_name ''string'' et then Some es else None | _ \<Rightarrow> None)"
| "string_table _ = None"

fun element_value :: "string \<Rightarrow> nat \<Rightarrow> Expr \<Rightarrow> Expr option" where
  "element_value r v (IndexExpr _ x i) =
     (case (string_table x, index_value r v i) of
        (Some es, Some k) \<Rightarrow> if k < length es then Some (es ! k) else None
      | _ \<Rightarrow> None)"
| "element_value r v _ = None"

fun returned :: "Stmt \<Rightarrow> Expr option" where
  "returned (ReturnStmt _ e) = e"
| "returned _ = None"

fun only_stmt :: "BlockStmt \<Rightarrow> Stmt option" where
  "only_stmt (Block _ l _) = (case l of [s] \<Rightarrow> Some s | _ \<Rightarrow> None)"

fun result_type :: "FuncType \<Rightarrow> Expr option" where
  "result_type (FuncType _ ps rs) = (case (ps, rs) of ([], [Field _ None t]) \<Rightarrow> t | _ \<Rightarrow> None)"

fun method_result :: "Decl \<Rightarrow> string \<Rightarrow> string \<Rightarrow> nat \<Rightarrow> Expr option" where
  "method_result (FuncDecl _ _ recv m tps ft body) typ name v =
     (case recv of
        Some (Field _ (Some r) (Some t)) \<Rightarrow>
          if is_name typ t \<and> n_value m = name \<and> tps = [] \<and> map_option (is_name ''string'') (result_type ft) = Some True
          then Option.bind (Option.bind (Option.bind body only_stmt) returned) (element_value (n_value r) v)
          else None
      | _ \<Rightarrow> None)"
| "method_result _ _ _ _ = None"

text \<open>C29: the constants of an enumeration and its \<open>String\<close> method agree: the value literal of the \<open>i\<close>-th constant
  reads as \<open>i\<close>, the constant has the enumeration's type, and the method \<open>String\<close> of that type returns, for the value \<open>i\<close>, the string literal with
  the name of that constant.\<close>

theorem enum_values_match_names:
  assumes "i < length vs" "length vs \<le> 2 ^ 64"
  shows "\<exists>pos l q. enum_decls p n vs ! Suc i = ConstDecl pos None None [vs ! i] (Some (NameE n)) (Some (LitE l))
    \<and> ParseUint (l_value l) = (of_nat i, True)
    \<and> method_result (last (enum_decls p n vs)) (n_value n) ''String'' i = Some (LitE q)
    \<and> l_value q = CHR 34 # n_value (vs ! i) @ [CHR 34] \<and> l_kind q = StringLit"
proof -
  have "enum_decls p n vs ! Suc i = enum_const n (i, vs ! i)"
    using assms(1) by (simp add: enum_decls_def nth_append nth_enumerate_eq)
  moreover have "method_result (last (enum_decls p n vs)) (n_value n) ''String'' i = Some (quoted_lit (vs ! i))"
    using assms(1) by (simp add: enum_decls_def createEnumStringMethod_def Let_def NewName_def)
  moreover have "ParseUint (itoa i) = (of_nat i, True)" using assms by (simp add: ParseUint_itoa)
  ultimately show ?thesis by (simp add: enum_const_def quoted_lit_def)
qed

theorem enum_values_match_names_witness:
  "\<exists>pos l q. enum_decls zero_Pos (NewName zero_Pos ''E'') [NewName zero_Pos ''OK'', NewName zero_Pos ''BAD''] ! Suc 1
      = ConstDecl pos None None [[NewName zero_Pos ''OK'', NewName zero_Pos ''BAD''] ! 1]
          (Some (NameE (NewName zero_Pos ''E''))) (Some (LitE l))
    \<and> ParseUint (l_value l) = (of_nat 1, True)
    \<and> method_result (last (enum_decls zero_Pos (NewName zero_Pos ''E'') [NewName zero_Pos ''OK'', NewName zero_Pos ''BAD'']))
        (n_value (NewName zero_Pos ''E'')) ''String'' 1 = Some (LitE q)
    \<and> l_value q = CHR 34 # n_value ([NewName zero_Pos ''OK'', NewName zero_Pos ''BAD''] ! 1) @ [CHR 34] \<and> l_kind q = StringLit"
  by (rule enum_values_match_names) simp_all

subsection \<open>Departures from the documentation\<close>

text \<open>The errors of \<open>checkBranches\<close> go to the handler without being counted: in the mode \<open>CheckBranches\<close>, a jump to an
  undefined label is reported to the handler, and \<open>Parse\<close> still returns the tree and no error;
  without a handler it fails with a call of a nil function.\<close>

lemma branch_errors_not_returned:
  "map snd (ps_errs (snd (sample_parse ''package p;func f(){goto L}'' True CheckBranches))) = [''label L not defined'']
   \<and> ps_first (snd (sample_parse ''package p;func f(){goto L}'' True CheckBranches)) = None
   \<and> Parse sample_externs (Some 0) (fst (NewFileBase ''f.go'' [])) ''package p;func f(){goto L}'' False None CheckBranches = None"
proof (intro conjI)
  show "map snd (ps_errs (snd (sample_parse ''package p;func f(){goto L}'' True CheckBranches))) = [''label L not defined'']"
    by code_simp
  show "ps_first (snd (sample_parse ''package p;func f(){goto L}'' True CheckBranches)) = None"
    by code_simp
  show "Parse sample_externs (Some 0) (fst (NewFileBase ''f.go'' [])) ''package p;func f(){goto L}'' False None CheckBranches = None"
    by code_simp
qed

text \<open>Statements at the top level of a package other than \<open>main\<close> are read without an error, but no declaration contains
  them.\<close>

lemma top_level_statements_dropped:
  "map_option (\<lambda>f. (file_DeclList f, length (file_TopLevelStmts f))) (fst (sample_parse ''package p;f()'' True 0))
     = Some ([], 1)
   \<and> ps_errs (snd (sample_parse ''package p;f()'' True 0)) = []"
  by (intro conjI) code_simp+

text \<open>A list literal with two elements is accepted, with one element it is read as the length of an array type.\<close>

lemma one_element_list_rejected:
  "ps_errs (snd (sample_parse ''x=[1,2]'' True 0)) = []
   \<and> map snd (ps_errs (snd (sample_parse ''x=[1]'' True 0))) = [''syntax error: unexpected EOF, expected type'']"
  by (intro conjI) code_simp+

end
