(* ===== verification/Walk.thy ===== *)
theory Walk
  imports Parser
begin

text \<open>
  Traversal of syntax trees (\<open>walk.go\<close>).  A \<open>Node\<close> is one of the kinds of nodes; a nil interface
  is \<open>None\<close>.  The one pointer that the parser may leave nil and that is passed on without a test, the path of an import, is a
  node of its own: in Go it is an interface that is not nil, with a nil pointer inside.
\<close>

subsection \<open>Nodes\<close>

datatype (plugins only: code size) Node =
    FileN File
  | DeclN Decl
  | ExprN Expr
  | FieldN Field
  | StmtN Stmt
  | CaseN CaseClause
  | CommN CommClause
  | NilLitN

abbreviation name_node :: "Name \<Rightarrow> Node" where "name_node n \<equiv> ExprN (NameE n)"
abbreviation lit_node :: "BasicLit \<Rightarrow> Node" where "lit_node b \<equiv> ExprN (LitE b)"
abbreviation block_node :: "BlockStmt \<Rightarrow> Node" where "block_node b \<equiv> StmtN (BlockS b)"
abbreviation func_node :: "FuncType \<Rightarrow> Node" where "func_node t \<equiv> ExprN (FuncTypeE t)"

text \<open>A child that is visited unless it is nil, and children that are all visited.\<close>

definition opt_child :: "('a \<Rightarrow> Node) \<Rightarrow> 'a option \<Rightarrow> Node option list" where
  "opt_child f x = (case x of None \<Rightarrow> [] | Some y \<Rightarrow> [Some (f y)])"

definition all_children :: "('a \<Rightarrow> Node) \<Rightarrow> 'a list \<Rightarrow> Node option list" where
  "all_children f xs = map (\<lambda>x. Some (f x)) xs"

text \<open>The cases of the type switch in \<open>node\<close>: the calls that follow the visit of a node.\<close>

fun decl_children :: "Decl \<Rightarrow> Node option list" where
  "decl_children (ImportDecl _ _ _ nm path) =
     opt_child name_node nm @ [Some (case path of Some b \<Rightarrow> lit_node b | None \<Rightarrow> NilLitN)]"
| "decl_children (ConstDecl _ _ _ ns t v) = all_children name_node ns @ opt_child ExprN t @ opt_child ExprN v"
| "decl_children (TypeDecl _ _ _ n tps _ t) = [Some (name_node n)] @ all_children FieldN tps @ [Some (ExprN t)]"
| "decl_children (VarDecl _ _ _ ns t v) = all_children name_node ns @ opt_child ExprN t @ opt_child ExprN v"
| "decl_children (FuncDecl _ _ r n tps t b) =
     opt_child FieldN r @ [Some (name_node n)] @ all_children FieldN tps @ [Some (func_node t)] @ opt_child block_node b"

fun field_children :: "Field \<Rightarrow> Node option list" where
  "field_children (Field _ n t) = opt_child name_node n @ [map_option ExprN t]"

fun expr_children :: "Expr \<Rightarrow> Node option list" where
  "expr_children (BadExpr _) = []"
| "expr_children (NameE _) = []"
| "expr_children (LitE _) = []"
| "expr_children (CompositeLit _ t es _ _) = opt_child ExprN t @ all_children ExprN es"
| "expr_children (KeyValueExpr _ k v) = [Some (ExprN k), Some (ExprN v)]"
| "expr_children (FuncLit _ t b) = [Some (func_node t), Some (block_node b)]"
| "expr_children (ParenExpr _ x) = [Some (ExprN x)]"
| "expr_children (SelectorExpr _ x s) = [Some (ExprN x), Some (name_node s)]"
| "expr_children (IndexExpr _ x i) = [Some (ExprN x), Some (ExprN i)]"
| "expr_children (SliceExpr _ x i j k _) =
     [Some (ExprN x)] @ opt_child ExprN i @ opt_child ExprN j @ opt_child ExprN k"
| "expr_children (AssertExpr _ x t) = [Some (ExprN x), Some (ExprN t)]"
| "expr_children (TypeSwitchGuard _ l x) = opt_child name_node l @ [Some (ExprN x)]"
| "expr_children (Operation _ _ x y) = [Some (ExprN x)] @ opt_child ExprN y"
| "expr_children (CallExpr _ f as _) = [Some (ExprN f)] @ all_children ExprN as"
| "expr_children (ListExpr _ es) = all_children ExprN es"
| "expr_children (ArrayType _ l t) = opt_child ExprN l @ [Some (ExprN t)]"
| "expr_children (SliceType _ t) = [Some (ExprN t)]"
| "expr_children (DotsType _ t) = [Some (ExprN t)]"
| "expr_children (StructType _ fs tags) =
     all_children FieldN fs @ concat (map (opt_child lit_node) tags)"
| "expr_children (InterfaceType _ ms) = all_children FieldN ms"
| "expr_children (FuncTypeE (FuncType _ ps rs)) = all_children FieldN ps @ all_children FieldN rs"
| "expr_children (MapType _ k v) = [Some (ExprN k), Some (ExprN v)]"
| "expr_children (ChanType _ _ t) = [Some (ExprN t)]"

fun stmt_children :: "Stmt \<Rightarrow> Node option list" where
  "stmt_children (EmptyStmt _) = []"
| "stmt_children (LabeledStmt _ _ l s) = [Some (name_node l), Some (StmtN s)]"
| "stmt_children (BlockS (Block _ l _)) = all_children StmtN l"
| "stmt_children (ExprStmt _ x) = [Some (ExprN x)]"
| "stmt_children (SendStmt _ c v) = [Some (ExprN c), Some (ExprN v)]"
| "stmt_children (DeclStmt _ ds) = all_children DeclN ds"
| "stmt_children (AssignStmt _ _ l r) = [Some (ExprN l)] @ opt_child ExprN r"
| "stmt_children (BranchStmt _ _ _ l) = opt_child name_node l"
| "stmt_children (CallStmt _ _ c) = [Some (ExprN c)]"
| "stmt_children (ReturnStmt _ r) = opt_child ExprN r"
| "stmt_children (IfStmt _ i c t e) =
     opt_child StmtN i @ [map_option ExprN c, Some (block_node t)] @ opt_child StmtN e"
| "stmt_children (ForStmt _ _ i c q b) =
     opt_child StmtN i @ opt_child ExprN c @ opt_child StmtN q @ [Some (block_node b)]"
| "stmt_children (SwitchStmt _ _ i t cs _) = opt_child StmtN i @ opt_child ExprN t @ all_children CaseN cs"
| "stmt_children (SelectStmt _ _ cs _) = all_children CommN cs"
| "stmt_children (RangeClause _ l _ x) = opt_child ExprN l @ [Some (ExprN x)]"
| "stmt_children (CheckStmt _ c) = [Some (ExprN c)]"

fun child_nodes :: "Node \<Rightarrow> Node option list" where
  "child_nodes (FileN f) = [Some (name_node (file_PkgName f))] @ all_children DeclN (file_DeclList f)"
| "child_nodes (DeclN d) = decl_children d"
| "child_nodes (ExprN e) = expr_children e"
| "child_nodes (FieldN f) = field_children f"
| "child_nodes (StmtN s) = stmt_children s"
| "child_nodes (CaseN (CaseClause _ c b _)) = opt_child ExprN c @ all_children StmtN b"
| "child_nodes (CommN (CommClause _ c b _)) = opt_child StmtN c @ all_children StmtN b"
| "child_nodes NilLitN = []"

subsection \<open>Children are smaller\<close>

fun node_size :: "Node \<Rightarrow> nat" where
  "node_size (FileN f) = 3 * size_list size (file_DeclList f) + 1"
| "node_size (DeclN d) = 3 * size d + 1"
| "node_size (ExprN (FuncTypeE t)) = 3 * size t + 1"
| "node_size (ExprN e) = 3 * size e"
| "node_size (FieldN f) = 3 * size f"
| "node_size (StmtN (BlockS b)) = 3 * size b + 2"
| "node_size (StmtN s) = 3 * size s + 1"
| "node_size (CaseN c) = 3 * size c"
| "node_size (CommN c) = 3 * size c"
| "node_size NilLitN = 0"

lemma node_size_le: "node_size (ExprN e) \<le> 3 * size e" "node_size (StmtN s) \<le> 3 * size s + 1"
  by (cases e; simp) (cases s; simp)

lemma in_opt_child [simp]: "Some m \<in> set (opt_child f x) \<longleftrightarrow> (\<exists>y. x = Some y \<and> m = f y)"
  by (auto simp: opt_child_def split: option.splits)

lemma in_all_children [simp]: "Some m \<in> set (all_children f xs) \<longleftrightarrow> (\<exists>x\<in>set xs. m = f x)"
  by (auto simp: all_children_def)

lemma size_in_list: "x \<in> set xs \<Longrightarrow> f x < size_list f xs"
  by (induction xs) auto

lemma size_in_nodes:
  "x \<in> set es \<Longrightarrow> node_size (ExprN x) < 3 * size_list size es"
  "y \<in> set ss \<Longrightarrow> node_size (StmtN y) < 3 * size_list size ss"
  "f \<in> set fs \<Longrightarrow> 3 * size f < 3 * size_list size fs"
  "d \<in> set ds \<Longrightarrow> 3 * size d + 1 < 3 * size_list size ds"
  "c \<in> set cs \<Longrightarrow> 3 * size c < 3 * size_list size cs"
  "k \<in> set ks \<Longrightarrow> 3 * size k < 3 * size_list size ks"
  using node_size_le(1) [of x] node_size_le(2) [of y] size_in_list [of x es size] size_in_list [of y ss size] size_in_list [of f fs size]
    size_in_list [of d ds size] size_in_list [of c cs size] size_in_list [of k ks size] by auto

declare node_size_le [THEN le_less_trans, simp]

lemma decl_children_less: "Some m \<in> set (decl_children d) \<Longrightarrow> node_size m < 3 * size d + 1"
  by (cases d) (auto split: option.splits dest!: size_in_nodes)

lemma field_children_less: "Some m \<in> set (field_children f) \<Longrightarrow> node_size m < 3 * size f"
  by (cases f) (auto simp: map_option_case split: option.splits)

lemma expr_children_less: "Some m \<in> set (expr_children e) \<Longrightarrow> node_size m < node_size (ExprN e)"
  by (cases e rule: expr_children.cases) (auto dest!: size_in_nodes)

lemma stmt_children_less: "Some m \<in> set (stmt_children s) \<Longrightarrow> node_size m < node_size (StmtN s)"
  by (cases s rule: stmt_children.cases) (auto simp: map_option_case split: option.splits dest!: size_in_nodes)

lemma child_nodes_less: "Some m \<in> set (child_nodes n) \<Longrightarrow> node_size m < node_size n"
  by (cases n rule: child_nodes.cases)
     (use decl_children_less [of m] field_children_less [of m] expr_children_less [of m] stmt_children_less [of m]
       in \<open>auto dest: size_in_nodes\<close>)

subsection \<open>Walk\<close>

text \<open>
  A visitor is a value on which \<open>Visit\<close> is called with a node, or with nil; the call returns the visitor for
  the children, if any, and changes the state of the program.  \<open>None\<close> is the panic on a nil node.
\<close>

type_synonym ('v, 's) visit = "'v \<Rightarrow> Node option \<Rightarrow> 's \<Rightarrow> 'v option \<times> 's"

definition child_size :: "Node option \<Rightarrow> nat" where
  "child_size c = (case c of None \<Rightarrow> 0 | Some n \<Rightarrow> Suc (node_size n))"

definition children_size :: "Node option list \<Rightarrow> nat" where
  "children_size cs = foldr (\<lambda>c. max (child_size c)) cs 0"

lemma children_size_simps [simp]:
  "children_size [] = 0" "children_size (c # cs) = max (child_size c) (children_size cs)"
  by (simp_all add: children_size_def)

lemma children_size_le: "children_size cs \<le> k \<longleftrightarrow> (\<forall>c\<in>set cs. child_size c \<le> k)"
  by (induction cs) auto

lemma children_size_less: "children_size (child_nodes n) < Suc (node_size n)"
proof -
  have "child_size c \<le> node_size n" if "c \<in> set (child_nodes n)" for c
    using that child_nodes_less [of _ n] by (auto simp: child_size_def Suc_le_eq split: option.splits)
  then show ?thesis by (simp add: less_Suc_eq_le children_size_le)
qed

function (sequential)
  walk_node :: "('v, 's) visit \<Rightarrow> 'v \<Rightarrow> Node option \<Rightarrow> 's \<Rightarrow> 's option" and
  walk_list :: "('v, 's) visit \<Rightarrow> 'v \<Rightarrow> Node option list \<Rightarrow> 's \<Rightarrow> 's option" where
  "walk_node visit v None s = None"
| "walk_node visit v (Some n) s =
     (case visit v (Some n) s of
        (None, s) \<Rightarrow> Some s
      | (Some w, s) \<Rightarrow>
          (case walk_list visit w (child_nodes n) s of
             None \<Rightarrow> None
           | Some s \<Rightarrow> Some (snd (visit w None s))))"
| "walk_list visit v [] s = Some s"
| "walk_list visit v (c # cs) s =
     (case walk_node visit v c s of None \<Rightarrow> None | Some s \<Rightarrow> walk_list visit v cs s)"
  by pat_completeness auto
termination
  by (relation "measures [case_sum (\<lambda>(_, _, c, _). child_size c) (\<lambda>(_, _, cs, _). children_size cs),
        case_sum (\<lambda>_. 0) (\<lambda>(_, _, cs, _). Suc (length cs))]")
     (use children_size_less in \<open>auto simp: child_size_def less_max_iff_disj\<close>)

definition Walk :: "('v, 's) visit \<Rightarrow> Node \<Rightarrow> 'v \<Rightarrow> 's \<Rightarrow> 's option" where
  "Walk visit root v s = walk_node visit v (Some root) s"

text \<open>\<open>inspector\<close>: a function that returns whether to go on.\<close>

definition inspector_Visit :: "(Node option \<Rightarrow> 's \<Rightarrow> bool \<times> 's) \<Rightarrow> (unit, 's) visit" where
  "inspector_Visit f v n s = (let (b, s) = f n s in (if b then Some () else None, s))"

definition Inspect :: "Node \<Rightarrow> (Node option \<Rightarrow> 's \<Rightarrow> bool \<times> 's) \<Rightarrow> 's \<Rightarrow> 's option" where
  "Inspect root f s = Walk (inspector_Visit f) root () s"

subsection \<open>What a traversal visits\<close>

text \<open>
  The calls in pre-order: a node, then, if the traversal is to go on, what its children give, and nil
  at the end.  \<open>present\<close>: no child that is reached and that the code does not test is nil.
\<close>

function visits :: "(Node \<Rightarrow> bool) \<Rightarrow> Node \<Rightarrow> Node option list" where
  "visits f n = Some n #
     (if f n then concat (map (\<lambda>c. case c of None \<Rightarrow> [] | Some m \<Rightarrow> visits f m) (child_nodes n)) @ [None] else [])"
  by pat_completeness auto
termination
  by (relation "measure (\<lambda>(_, n). node_size n)") (auto intro: child_nodes_less)

function present :: "(Node \<Rightarrow> bool) \<Rightarrow> Node \<Rightarrow> bool" where
  "present f n \<longleftrightarrow> (f n \<longrightarrow> list_all (\<lambda>c. case c of None \<Rightarrow> False | Some m \<Rightarrow> present f m) (child_nodes n))"
  by pat_completeness auto
termination
  by (relation "measure (\<lambda>(_, n). node_size n)") (auto intro: child_nodes_less)

declare visits.simps [simp del] present.simps [simp del]

definition recorder :: "(Node \<Rightarrow> bool) \<Rightarrow> Node option \<Rightarrow> Node option list \<Rightarrow> bool \<times> Node option list" where
  "recorder f m es = (case m of None \<Rightarrow> True | Some n \<Rightarrow> f n, es @ [m])"

lemma walk_records:
  "walk_node (inspector_Visit (recorder f)) v c es =
     (case c of None \<Rightarrow> None | Some n \<Rightarrow> if present f n then Some (es @ visits f n) else None)"
  "walk_list (inspector_Visit (recorder f)) v cs es =
     (if list_all (\<lambda>c. case c of None \<Rightarrow> False | Some m \<Rightarrow> present f m) cs
      then Some (es @ concat (map (\<lambda>c. case c of None \<Rightarrow> [] | Some m \<Rightarrow> visits f m) cs)) else None)"
proof (induction "inspector_Visit (recorder f)" v c es and "inspector_Visit (recorder f)" v cs es
    rule: walk_node_walk_list.induct)
  case (2 v n s)
  show ?case
    using 2 by (subst present.simps, subst visits.simps) (simp add: inspector_Visit_def recorder_def)
qed (auto split: option.splits)

subsection \<open>The calls, by recursion over the syntax\<close>

text \<open>
  The reference for a traversal does not use the cases of \<open>walk.go\<close>: it follows the declarations of the nodes, field after field,
  and leaves out only positions, operators and tokens, and fields that are nil.  \<open>around\<close>: the calls for a node
  with those for what it consists of.
\<close>

definition around :: "(Node \<Rightarrow> bool) \<Rightarrow> Node \<Rightarrow> Node option list \<Rightarrow> Node option list" where
  "around f n inner = Some n # (if f n then inner @ [None] else [])"

abbreviation name_trace :: "(Node \<Rightarrow> bool) \<Rightarrow> Name \<Rightarrow> Node option list" where
  "name_trace f n \<equiv> around f (ExprN (NameE n)) []"

abbreviation lit_trace :: "(Node \<Rightarrow> bool) \<Rightarrow> BasicLit \<Rightarrow> Node option list" where
  "lit_trace f b \<equiv> around f (ExprN (LitE b)) []"

definition if_some :: "('a \<Rightarrow> 'b list) \<Rightarrow> 'a option \<Rightarrow> 'b list" where
  "if_some g x = (case x of None \<Rightarrow> [] | Some y \<Rightarrow> g y)"

lemma if_some_cong [fundef_cong]: "x = y \<Longrightarrow> (\<And>z. y = Some z \<Longrightarrow> g z = h z) \<Longrightarrow> if_some g x = if_some h y"
  by (simp add: if_some_def split: option.split)

definition each :: "('a \<Rightarrow> 'b list) \<Rightarrow> 'a list \<Rightarrow> 'b list" where
  "each g xs = concat (map g xs)"

lemma each_cong [fundef_cong]: "xs = ys \<Longrightarrow> (\<And>x. x \<in> set ys \<Longrightarrow> g x = h x) \<Longrightarrow> each g xs = each h ys"
  by (simp add: each_def cong: map_cong)

fun expr_trace :: "(Node \<Rightarrow> bool) \<Rightarrow> Expr \<Rightarrow> Node option list"
  and field_trace :: "(Node \<Rightarrow> bool) \<Rightarrow> Field \<Rightarrow> Node option list"
  and func_trace :: "(Node \<Rightarrow> bool) \<Rightarrow> FuncType \<Rightarrow> Node option list"
  and block_trace :: "(Node \<Rightarrow> bool) \<Rightarrow> BlockStmt \<Rightarrow> Node option list"
  and stmt_trace :: "(Node \<Rightarrow> bool) \<Rightarrow> Stmt \<Rightarrow> Node option list"
  and case_trace :: "(Node \<Rightarrow> bool) \<Rightarrow> CaseClause \<Rightarrow> Node option list"
  and comm_trace :: "(Node \<Rightarrow> bool) \<Rightarrow> CommClause \<Rightarrow> Node option list"
  and decl_trace :: "(Node \<Rightarrow> bool) \<Rightarrow> Decl \<Rightarrow> Node option list" where
  "expr_trace f (BadExpr p) = around f (ExprN (BadExpr p)) []"
| "expr_trace f (NameE n) = name_trace f n"
| "expr_trace f (LitE b) = lit_trace f b"
| "expr_trace f (CompositeLit p t es n rb) = around f (ExprN (CompositeLit p t es n rb))
     (if_some (expr_trace f) t @ each (expr_trace f) es)"
| "expr_trace f (KeyValueExpr p k v) = around f (ExprN (KeyValueExpr p k v)) (expr_trace f k @ expr_trace f v)"
| "expr_trace f (FuncLit p t b) = around f (ExprN (FuncLit p t b)) (func_trace f t @ block_trace f b)"
| "expr_trace f (ParenExpr p x) = around f (ExprN (ParenExpr p x)) (expr_trace f x)"
| "expr_trace f (SelectorExpr p x n) = around f (ExprN (SelectorExpr p x n)) (expr_trace f x @ name_trace f n)"
| "expr_trace f (IndexExpr p x i) = around f (ExprN (IndexExpr p x i)) (expr_trace f x @ expr_trace f i)"
| "expr_trace f (SliceExpr p x i j k full) = around f (ExprN (SliceExpr p x i j k full))
     (expr_trace f x @ if_some (expr_trace f) i @ if_some (expr_trace f) j @ if_some (expr_trace f) k)"
| "expr_trace f (AssertExpr p x t) = around f (ExprN (AssertExpr p x t)) (expr_trace f x @ expr_trace f t)"
| "expr_trace f (TypeSwitchGuard p l x) = around f (ExprN (TypeSwitchGuard p l x)) (if_some (name_trace f) l @ expr_trace f x)"
| "expr_trace f (Operation p o1 x y) = around f (ExprN (Operation p o1 x y)) (expr_trace f x @ if_some (expr_trace f) y)"
| "expr_trace f (CallExpr p x as dots) = around f (ExprN (CallExpr p x as dots)) (expr_trace f x @ each (expr_trace f) as)"
| "expr_trace f (ListExpr p es) = around f (ExprN (ListExpr p es)) (each (expr_trace f) es)"
| "expr_trace f (ArrayType p l t) = around f (ExprN (ArrayType p l t)) (if_some (expr_trace f) l @ expr_trace f t)"
| "expr_trace f (SliceType p t) = around f (ExprN (SliceType p t)) (expr_trace f t)"
| "expr_trace f (DotsType p t) = around f (ExprN (DotsType p t)) (expr_trace f t)"
| "expr_trace f (StructType p fs tags) = around f (ExprN (StructType p fs tags))
     (each (field_trace f) fs @ each (if_some (lit_trace f)) tags)"
| "expr_trace f (InterfaceType p ms) = around f (ExprN (InterfaceType p ms)) (each (field_trace f) ms)"
| "expr_trace f (FuncTypeE t) = func_trace f t"
| "expr_trace f (MapType p k v) = around f (ExprN (MapType p k v)) (expr_trace f k @ expr_trace f v)"
| "expr_trace f (ChanType p d t) = around f (ExprN (ChanType p d t)) (expr_trace f t)"
| "field_trace f (Field p n t) = around f (FieldN (Field p n t)) (if_some (name_trace f) n @ if_some (expr_trace f) t)"
| "func_trace f (FuncType p ps rs) = around f (ExprN (FuncTypeE (FuncType p ps rs)))
     (each (field_trace f) ps @ each (field_trace f) rs)"
| "block_trace f (Block p l rb) = around f (StmtN (BlockS (Block p l rb))) (each (stmt_trace f) l)"
| "stmt_trace f (EmptyStmt p) = around f (StmtN (EmptyStmt p)) []"
| "stmt_trace f (LabeledStmt a p l s) = around f (StmtN (LabeledStmt a p l s)) (name_trace f l @ stmt_trace f s)"
| "stmt_trace f (BlockS b) = block_trace f b"
| "stmt_trace f (ExprStmt p x) = around f (StmtN (ExprStmt p x)) (expr_trace f x)"
| "stmt_trace f (SendStmt p c v) = around f (StmtN (SendStmt p c v)) (expr_trace f c @ expr_trace f v)"
| "stmt_trace f (DeclStmt p ds) = around f (StmtN (DeclStmt p ds)) (each (decl_trace f) ds)"
| "stmt_trace f (AssignStmt p o1 l r) = around f (StmtN (AssignStmt p o1 l r)) (expr_trace f l @ if_some (expr_trace f) r)"
| "stmt_trace f (BranchStmt a p t l) = around f (StmtN (BranchStmt a p t l)) (if_some (name_trace f) l)"
| "stmt_trace f (CallStmt p t c) = around f (StmtN (CallStmt p t c)) (expr_trace f c)"
| "stmt_trace f (ReturnStmt p r) = around f (StmtN (ReturnStmt p r)) (if_some (expr_trace f) r)"
| "stmt_trace f (CheckStmt p c) = around f (StmtN (CheckStmt p c)) (expr_trace f c)"
| "stmt_trace f (IfStmt p i c t e) = around f (StmtN (IfStmt p i c t e))
     (if_some (stmt_trace f) i @ if_some (expr_trace f) c @ block_trace f t @ if_some (stmt_trace f) e)"
| "stmt_trace f (ForStmt a p i c q b) = around f (StmtN (ForStmt a p i c q b))
     (if_some (stmt_trace f) i @ if_some (expr_trace f) c @ if_some (stmt_trace f) q @ block_trace f b)"
| "stmt_trace f (SwitchStmt a p i t cs rb) = around f (StmtN (SwitchStmt a p i t cs rb))
     (if_some (stmt_trace f) i @ if_some (expr_trace f) t @ each (case_trace f) cs)"
| "stmt_trace f (SelectStmt a p cs rb) = around f (StmtN (SelectStmt a p cs rb)) (each (comm_trace f) cs)"
| "stmt_trace f (RangeClause p l d x) = around f (StmtN (RangeClause p l d x)) (if_some (expr_trace f) l @ expr_trace f x)"
| "case_trace f (CaseClause p c b cp) = around f (CaseN (CaseClause p c b cp)) (if_some (expr_trace f) c @ each (stmt_trace f) b)"
| "comm_trace f (CommClause p c b cp) = around f (CommN (CommClause p c b cp)) (if_some (stmt_trace f) c @ each (stmt_trace f) b)"
| "decl_trace f (ImportDecl p g pr n path) = around f (DeclN (ImportDecl p g pr n path))
     (if_some (name_trace f) n @ (case path of None \<Rightarrow> around f NilLitN [] | Some b \<Rightarrow> lit_trace f b))"
| "decl_trace f (ConstDecl p g pr ns t v) = around f (DeclN (ConstDecl p g pr ns t v))
     (each (name_trace f) ns @ if_some (expr_trace f) t @ if_some (expr_trace f) v)"
| "decl_trace f (TypeDecl p g pr n tps al t) = around f (DeclN (TypeDecl p g pr n tps al t))
     (name_trace f n @ each (field_trace f) tps @ expr_trace f t)"
| "decl_trace f (VarDecl p g pr ns t v) = around f (DeclN (VarDecl p g pr ns t v))
     (each (name_trace f) ns @ if_some (expr_trace f) t @ if_some (expr_trace f) v)"
| "decl_trace f (FuncDecl p pr r n tps t b) = around f (DeclN (FuncDecl p pr r n tps t b))
     (if_some (field_trace f) r @ name_trace f n @ each (field_trace f) tps @ func_trace f t @ if_some (block_trace f) b)"

fun node_trace :: "(Node \<Rightarrow> bool) \<Rightarrow> Node \<Rightarrow> Node option list" where
  "node_trace f (FileN d) = around f (FileN d) (name_trace f (file_PkgName d) @ each (decl_trace f) (file_DeclList d))"
| "node_trace f (DeclN d) = decl_trace f d"
| "node_trace f (ExprN e) = expr_trace f e"
| "node_trace f (FieldN d) = field_trace f d"
| "node_trace f (StmtN s) = stmt_trace f s"
| "node_trace f (CaseN c) = case_trace f c"
| "node_trace f (CommN c) = comm_trace f c"
| "node_trace f NilLitN = around f NilLitN []"

text \<open>The fields that the code passes on without a test: the type of a field, the condition of an if statement.\<close>

fun complete_node :: "Node \<Rightarrow> bool" where
  "complete_node (FieldN (Field _ _ t)) \<longleftrightarrow> t \<noteq> None"
| "complete_node (StmtN (IfStmt _ _ c _ _)) \<longleftrightarrow> c \<noteq> None"
| "complete_node _ \<longleftrightarrow> True"

lemma visits_around:
  "visits f n = around f n (concat (map (\<lambda>c. case c of None \<Rightarrow> [] | Some m \<Rightarrow> visits f m) (child_nodes n)))"
  by (subst visits.simps) (simp add: around_def)

lemma visits_children:
  "concat (map (\<lambda>c. case c of None \<Rightarrow> [] | Some m \<Rightarrow> visits f m) (opt_child g x)) = if_some (\<lambda>y. visits f (g y)) x"
  "concat (map (\<lambda>c. case c of None \<Rightarrow> [] | Some m \<Rightarrow> visits f m) (all_children g xs)) = each (\<lambda>y. visits f (g y)) xs"
  "(case x of None \<Rightarrow> [] | Some y \<Rightarrow> (visits f \<circ> g) y) = if_some (\<lambda>y. visits f (g y)) x"
  by (simp_all add: opt_child_def if_some_def all_children_def each_def comp_def split: option.split)

lemma visits_tags:
  "concat (map (\<lambda>c. case c of None \<Rightarrow> [] | Some m \<Rightarrow> visits f m) (concat (map (opt_child g) tags))) =
     each (if_some (\<lambda>y. visits f (g y))) tags"
  by (induction tags) (simp_all add: visits_children each_def)

lemma visits_leaf: "child_nodes n = [] \<Longrightarrow> visits f n = around f n []"
  by (subst visits_around) simp

lemma each_eq: "(\<And>x. x \<in> set xs \<Longrightarrow> g x = h x) \<Longrightarrow> each g xs = each h xs"
  by (simp add: each_def cong: map_cong)

lemma if_some_eq: "(\<And>y. x = Some y \<Longrightarrow> g y = h y) \<Longrightarrow> if_some g x = if_some h x"
  by (simp add: if_some_def split: option.split)

lemma visits_trace:
  "visits f (ExprN e) = expr_trace f e" "visits f (FieldN d) = field_trace f d"
  "visits f (ExprN (FuncTypeE t)) = func_trace f t" "visits f (StmtN (BlockS b)) = block_trace f b"
  "visits f (StmtN s) = stmt_trace f s" "visits f (CaseN c) = case_trace f c"
  "visits f (CommN k) = comm_trace f k" "visits f (DeclN l) = decl_trace f l"
proof (induction f e and f d and f t and f b and f s and f c and f k and f l
    rule: expr_trace_field_trace_func_trace_block_trace_stmt_trace_case_trace_comm_trace_decl_trace.induct)
qed ((simp; fail) | (subst visits_around;
     simp add: visits_children visits_tags visits_leaf cong: each_cong if_some_cong split: option.split; fail)
   | (subst visits_around; simp add: visits_children visits_leaf))+

lemma visits_node_trace: "visits f n = node_trace f n"
proof (cases n)
  case (FileN d)
  then show ?thesis by (subst visits_around) (simp add: visits_children visits_leaf visits_trace)
qed (simp_all add: visits_trace visits_leaf)

lemma children_not_nil: "None \<notin> set (opt_child g x)" "None \<notin> set (all_children h xs)"
  by (auto simp: opt_child_def all_children_def split: option.split)

lemma complete_children: "complete_node n \<longleftrightarrow> None \<notin> set (child_nodes n)"
proof -
  note o = children_not_nil
  show ?thesis
  proof (cases n)
    case (DeclN d)
    then show ?thesis by (cases d) (auto simp: o)
  next
    case (ExprN e)
    then show ?thesis by (cases e rule: expr_children.cases) (auto simp: o)
  next
    case (FieldN d)
    then show ?thesis by (cases d) (auto simp: o)
  next
    case (StmtN s)
    then show ?thesis by (cases s rule: stmt_children.cases) (auto simp: o)
  next
    case (CaseN c)
    then show ?thesis by (cases c) (auto simp: o)
  next
    case (CommN c)
    then show ?thesis by (cases c) (auto simp: o)
  qed (auto simp: o)
qed

lemma present_visits: "present f n \<longleftrightarrow> (\<forall>m. Some m \<in> set (visits f n) \<longrightarrow> f m \<longrightarrow> complete_node m)"
proof (induction f n rule: present.induct)
  case (1 f n)
  show ?case
  proof (cases "f n \<and> complete_node n")
    case False
    then show ?thesis
      by (subst present.simps, subst visits.simps) (auto simp: complete_children list_all_iff split: option.split)
  next
    case True
    have c: "(case c of None \<Rightarrow> False | Some m \<Rightarrow> present f m) \<longleftrightarrow>
        (\<forall>m. Some m \<in> set (case c of None \<Rightarrow> [] | Some m \<Rightarrow> visits f m) \<longrightarrow> f m \<longrightarrow> complete_node m)"
      if i: "c \<in> set (child_nodes n)" for c
    proof (cases c)
      case None
      then show ?thesis using True i by (simp add: complete_children)
    next
      case (Some m)
      then show ?thesis using True "1.IH" [OF _ i Some] by simp
    qed
    have "present f n \<longleftrightarrow> (\<forall>c\<in>set (child_nodes n). case c of None \<Rightarrow> False | Some m \<Rightarrow> present f m)"
      using True by (subst present.simps) (simp add: list_all_iff)
    also have "\<dots> \<longleftrightarrow> (\<forall>c\<in>set (child_nodes n). \<forall>m. Some m \<in> set (case c of None \<Rightarrow> [] | Some m \<Rightarrow> visits f m)
        \<longrightarrow> f m \<longrightarrow> complete_node m)"
      by (rule ball_cong [OF refl c])
    also have "\<dots> \<longleftrightarrow> (\<forall>m. Some m \<in> set (visits f n) \<longrightarrow> f m \<longrightarrow> complete_node m)"
      using True by (subst (2) visits.simps) auto
    finally show ?thesis .
  qed
qed


end
