(* ===== verification/Printer.thy ===== *)
theory Printer
  imports Walk
begin

text \<open>
  The printer of syntax trees (\<open>printer.go\<close>).

  \<open>print\<close> takes tokens, operators, control symbols and nodes; a node is printed by more calls of \<open>print\<close>,
  which depend only on the node and the form.  The model has the arguments of these calls as lists
  (\<open>printRawNode\<close> and the functions it calls, one level of the tree at a time), their expansion (\<open>print_items\<close>), and what
  \<open>print\<close> does with an argument that is not a node (\<open>print_item\<close>).  The output is a byte string, as
  for the \<open>strings.Builder\<close> of \<open>String\<close>.  A panic is a field of the state; nothing is printed after it.  Types
  of fields, which the code compares by pointer, are compared with their positions.
\<close>

subsection \<open>State\<close>

datatype Form = DefaultForm | LineForm | ShortForm

datatype ctrlSymbol = C_none | C_semi | C_blank | C_newline | C_indent | C_outdent

type_synonym pr_space = "token \<times> ctrlSymbol"

record printer =
  pr_out :: string
  pr_form :: Form
  pr_linebreaks :: bool
  pr_indent :: int
  pr_nlcount :: nat
  pr_pending :: "pr_space list"
  pr_lastTok :: token
  pr_panic :: bool

definition print_panic :: "printer \<Rightarrow> printer" where
  "print_panic p = p\<lparr>pr_panic := True\<rparr>"

definition write_out :: "string \<Rightarrow> printer \<Rightarrow> printer" where
  "write_out s p = p\<lparr>pr_out := pr_out p @ s\<rparr>"

definition writeString :: "string \<Rightarrow> printer \<Rightarrow> printer" where
  "writeString s p =
     (if s = [] then print_panic p
      else
        let p = (if pr_nlcount p > 0 \<and> pr_indent p > 0 then write_out (replicate (nat (pr_indent p)) (CHR 9)) p else p);
            p = write_out s p
        in p\<lparr>pr_nlcount := 0\<rparr>)"

fun impliesSemi :: "token \<Rightarrow> bool" where
  "impliesSemi t \<longleftrightarrow> t \<in> {T_Name, T_Break, T_Continue, T_Fallthrough, T_Return, T_Rparen, T_Rbrack, T_Rbrace}"

definition addWhitespace :: "ctrlSymbol \<Rightarrow> printer \<Rightarrow> printer" where
  "addWhitespace k p =
     (let p = p\<lparr>pr_pending := pr_pending p @ [(pr_lastTok p, k)]\<rparr> in
      if k = C_semi then p\<lparr>pr_lastTok := T_Semi\<rparr>
      else if k = C_newline then p\<lparr>pr_lastTok := T_None\<rparr>
      else p)"

subsection \<open>flush\<close>

text \<open>The first loop of \<open>flush\<close>, from the last pending symbol to the first: the argument is the reversed list.\<close>

fun eliminate :: "bool \<Rightarrow> bool \<Rightarrow> pr_space list \<Rightarrow> pr_space list" where
  "eliminate nl paren [] = []"
| "eliminate nl paren ((t, k) # ws) =
     (if k = C_semi then
        if paren then (t, C_none) # eliminate nl False ws
        else if nl \<and> impliesSemi t then (t, C_none) # eliminate False paren ws
        else (t, k) # eliminate nl paren ws
      else (t, k) # eliminate (nl \<or> k = C_newline) paren ws)"

text \<open>The body of the second loop, with the previous symbol.\<close>

definition flush_space :: "pr_space \<Rightarrow> ctrlSymbol \<times> printer \<Rightarrow> ctrlSymbol \<times> printer" where
  "flush_space w v =
     (case (w, v) of ((t, k), (prev, p)) \<Rightarrow>
        if pr_panic p then (prev, p)
        else (case k of
          C_none \<Rightarrow> (prev, p)
        | C_semi \<Rightarrow> (C_semi, (writeString '';'' p)\<lparr>pr_nlcount := 0\<rparr>)
        | C_blank \<Rightarrow> if prev \<noteq> C_blank then (C_blank, (writeString '' '' p)\<lparr>pr_nlcount := 0\<rparr>) else (prev, p)
        | C_newline \<Rightarrow>
            if pr_nlcount p \<le> 1
            then (C_newline, (write_out [CHR 10] p)\<lparr>pr_nlcount := pr_nlcount p + 1\<rparr>) else (prev, p)
        | C_indent \<Rightarrow> (prev, p\<lparr>pr_indent := pr_indent p + 1\<rparr>)
        | C_outdent \<Rightarrow>
            let p = p\<lparr>pr_indent := pr_indent p - 1\<rparr> in
            (prev, if pr_indent p < 0 then print_panic p else p)))"

definition flush :: "token \<Rightarrow> printer \<Rightarrow> printer" where
  "flush nxt p =
     (if list_ex (\<lambda>w. snd w = C_none) (pr_pending p) then print_panic p
      else
        let ws = rev (eliminate (nxt = T_EOF) (nxt = T_Rparen \<or> nxt = T_Rbrace) (rev (pr_pending p)));
            (prev, p) = fold flush_space ws (C_none, p)
        in p\<lparr>pr_pending := []\<rparr>)"

subsection \<open>print\<close>

text \<open>The arguments of \<open>print\<close>; \<open>NameI\<close> is \<open>_Name\<close> with the string that follows it.\<close>

datatype pitem = TokI token | NameI string | OpI Operator | CtlI ctrlSymbol | PanicI

datatype (plugins only: code size) pnode = PN Node | PGroup token "Decl list"

datatype (plugins only: code size) parg = I pitem | N pnode

definition print_token :: "token \<Rightarrow> string \<Rightarrow> printer \<Rightarrow> printer" where
  "print_token t s p =
     (if s = [] then print_panic p
      else if t = T_Semi then addWhitespace C_semi p
      else
        let p = flush t p in
        if pr_panic p then p
        else (writeString s p)\<lparr>pr_nlcount := 0, pr_lastTok := t\<rparr>)"

definition print_item :: "pitem \<Rightarrow> printer \<Rightarrow> printer" where
  "print_item i p =
     (if pr_panic p then p
      else (case i of
        TokI t \<Rightarrow> print_token t (token_String t) p
      | NameI s \<Rightarrow> print_token T_Name s p
      | OpI o1 \<Rightarrow>
          if o1 \<noteq> Op_None then
            let p = flush T_Operator p in if pr_panic p then p else writeString (Operator_String o1) p
          else p
      | CtlI k \<Rightarrow>
          if k = C_none \<or> k = C_semi then print_panic p
          else addWhitespace (if k = C_newline \<and> \<not> pr_linebreaks p then C_blank else k) p
      | PanicI \<Rightarrow> print_panic p))"

abbreviation tk :: "token \<Rightarrow> parg" where "tk t \<equiv> I (TokI t)"
abbreviation bl :: parg where "bl \<equiv> I (CtlI C_blank)"
abbreviation newl :: parg where "newl \<equiv> I (CtlI C_newline)"
abbreviation ind :: parg where "ind \<equiv> I (CtlI C_indent)"
abbreviation outd :: parg where "outd \<equiv> I (CtlI C_outdent)"
abbreviation ex :: "Expr \<Rightarrow> parg" where "ex e \<equiv> N (PN (ExprN e))"
abbreviation st :: "Stmt \<Rightarrow> parg" where "st s \<equiv> N (PN (StmtN s))"
abbreviation nm :: "Name \<Rightarrow> parg" where "nm n \<equiv> N (PN (name_node n))"

text \<open>A nil interface is not printed; a nil pointer in an interface panics.\<close>

definition ex_opt :: "Expr option \<Rightarrow> parg list" where
  "ex_opt e = (case e of None \<Rightarrow> [] | Some e \<Rightarrow> [ex e])"

definition nm_opt :: "Name option \<Rightarrow> parg" where
  "nm_opt n = (case n of None \<Rightarrow> N (PN NilLitN) | Some n \<Rightarrow> nm n)"

subsection \<open>Lists\<close>

fun printExprList :: "Expr list \<Rightarrow> parg list" where
  "printExprList [] = []"
| "printExprList [e] = [ex e]"
| "printExprList (e # es) = [ex e, tk T_Comma, bl] @ printExprList es"

definition printNameList :: "Name list \<Rightarrow> parg list" where
  "printNameList ns = printExprList (map NameE ns)"

definition printExprLines :: "Expr list \<Rightarrow> parg list" where
  "printExprLines es =
     (if es = [] then [] else [newl, ind] @ concat (map (\<lambda>e. [ex e, tk T_Comma, newl]) es) @ [outd])"

fun combinesWithName :: "Expr \<Rightarrow> bool" where
  "combinesWithName (Operation _ o1 x None) \<longleftrightarrow> o1 = Op_Mul \<and> \<not> isTypeElem x"
| "combinesWithName (Operation _ o1 x (Some y)) \<longleftrightarrow> combinesWithName x \<and> \<not> isTypeElem y"
| "combinesWithName (ParenExpr _ x) \<longleftrightarrow> \<not> isTypeElem x"
| "combinesWithName _ \<longleftrightarrow> False"

text \<open>The loop of \<open>printParameterList\<close>: \<open>True\<close> at the first parameter.\<close>

fun print_params :: "bool \<Rightarrow> Field list \<Rightarrow> parg list" where
  "print_params first_p [] = []"
| "print_params first_p (Field _ n t # fs) =
     (if first_p then [] else [tk T_Comma, bl]) @
     (case n of
        None \<Rightarrow> ex_opt t
      | Some n \<Rightarrow>
          [nm n] @
          (case fs of
             Field _ (Some _) t1 # _ \<Rightarrow> if t1 = t then [] else [bl] @ ex_opt t
           | _ \<Rightarrow> [bl] @ ex_opt t)) @
     print_params False fs"

definition printParameterList :: "Field list \<Rightarrow> token \<Rightarrow> parg list" where
  "printParameterList fs t =
     [tk (if t \<noteq> T_None then T_Lbrack else T_Lparen)] @ print_params True fs @
     (if t = T_Type \<and> length fs = 1 \<and> (case f_type (hd fs) of None \<Rightarrow> False | Some e \<Rightarrow> combinesWithName e)
      then [tk T_Comma] else []) @
     [tk (if t \<noteq> T_None then T_Rbrack else T_Rparen)]"

fun printSignature :: "FuncType \<Rightarrow> parg list" where
  "printSignature (FuncType _ ps rs) =
     printParameterList ps T_None @
     (case rs of
        [] \<Rightarrow> []
      | [Field _ None t] \<Rightarrow> [bl] @ ex_opt t
      | _ \<Rightarrow> [bl] @ printParameterList rs T_None)"

text \<open>\<open>printFields\<close> of the fields \<open>fields[i:j]\<close>, with their tags from the \<open>i\<close>-th on.\<close>

definition printFields :: "Field list \<Rightarrow> BasicLit option list \<Rightarrow> parg list" where
  "printFields fs tags =
     (case fs of
        [Field _ None t] \<Rightarrow> ex_opt t
      | _ \<Rightarrow>
          concat (map (\<lambda>(k, f). (if k > 0 then [tk T_Comma, bl] else []) @ [nm_opt (f_name f)]) (enumerate 0 fs)) @
          [bl] @ ex_opt (f_type (hd fs))) @
     (case tags of Some b # _ \<Rightarrow> [bl, N (PN (lit_node b))] | _ \<Rightarrow> [])"

text \<open>The loop of \<open>printFieldList\<close>: the pending fields with their tags, the last type, the rest.\<close>

fun print_field_loop :: "token \<Rightarrow> Field list \<Rightarrow> BasicLit option list \<Rightarrow> Expr option \<Rightarrow> Field list \<Rightarrow> BasicLit option list
    \<Rightarrow> parg list" where
  "print_field_loop sep cur ctags typ [] tags = printFields cur ctags"
| "print_field_loop sep cur ctags typ (f # fs) tags =
     (if f_name f = None \<or> f_type f \<noteq> typ then
        (if cur \<noteq> [] then printFields cur ctags @ [tk sep, newl] else []) @
        print_field_loop sep [f] tags (f_type f) fs (tl tags)
      else print_field_loop sep (cur @ [f]) (if cur = [] then tags else ctags) typ fs (tl tags))"

definition printFieldList :: "Field list \<Rightarrow> BasicLit option list \<Rightarrow> token \<Rightarrow> parg list" where
  "printFieldList fs tags sep = print_field_loop sep [] [] None fs tags"

fun print_method :: "Field \<Rightarrow> parg list" where
  "print_method (Field _ (Some n) t) =
     [nm n] @ (case t of Some (FuncTypeE ft) \<Rightarrow> printSignature ft | _ \<Rightarrow> [I PanicI])"
| "print_method (Field _ None t) = ex_opt t"

fun printMethodList :: "Field list \<Rightarrow> parg list" where
  "printMethodList [] = []"
| "printMethodList [m] = print_method m"
| "printMethodList (m # ms) = print_method m @ [tk T_Semi, newl] @ printMethodList ms"

subsection \<open>Expressions\<close>

definition ellipsis :: string where "ellipsis = [CHR 0xE2, CHR 0x80, CHR 0xA6]"

fun is_recv_chan :: "Expr \<Rightarrow> bool" where
  "is_recv_chan (ChanType _ d _) \<longleftrightarrow> d = RecvOnly"
| "is_recv_chan _ \<longleftrightarrow> False"

fun print_expr :: "Form \<Rightarrow> Expr \<Rightarrow> parg list" where
  "print_expr fm (BadExpr _) = [I (NameI ''<bad expr>'')]"
| "print_expr fm (NameE n) = [I (NameI (n_value n))]"
| "print_expr fm (LitE b) = [I (NameI (l_value b))]"
| "print_expr fm (FuncLit _ t (Block p l rb)) =
     [N (PN (func_node t)), bl] @
     (if fm = ShortForm then
        [tk T_Lbrace] @ (if l \<noteq> [] then [I (NameI ellipsis)] else []) @ [tk T_Rbrace]
      else [N (PN (block_node (Block p l rb)))])"
| "print_expr fm (CompositeLit _ t es nkeys _) =
     ex_opt t @ [tk T_Lbrace] @
     (if fm = ShortForm then if es \<noteq> [] then [I (NameI ellipsis)] else []
      else if nkeys > 0 \<and> nkeys = length es then printExprLines es
      else printExprList es) @
     [tk T_Rbrace]"
| "print_expr fm (ParenExpr _ x) = [tk T_Lparen, ex x, tk T_Rparen]"
| "print_expr fm (SelectorExpr _ x s) = [ex x, tk T_Dot, nm s]"
| "print_expr fm (IndexExpr _ x i) = [ex x, tk T_Lbrack, ex i, tk T_Rbrack]"
| "print_expr fm (SliceExpr _ x i j k _) =
     [ex x, tk T_Lbrack] @ ex_opt i @ [tk T_Colon] @ ex_opt j @
     (case k of None \<Rightarrow> [] | Some k \<Rightarrow> [tk T_Colon, ex k]) @ [tk T_Rbrack]"
| "print_expr fm (AssertExpr _ x t) = [ex x, tk T_Dot, tk T_Lparen, ex t, tk T_Rparen]"
| "print_expr fm (TypeSwitchGuard _ l x) =
     (case l of None \<Rightarrow> [] | Some n \<Rightarrow> [nm n, bl, tk T_Define, bl]) @
     [ex x, tk T_Dot, tk T_Lparen, tk T_Type, tk T_Rparen]"
| "print_expr fm (CallExpr _ f as dots) =
     [ex f, tk T_Lparen] @ printExprList as @ (if dots then [tk T_DotDotDot] else []) @ [tk T_Rparen]"
| "print_expr fm (Operation _ o1 x y) =
     (case y of None \<Rightarrow> [I (OpI o1), ex x] | Some y \<Rightarrow> [ex x, bl, I (OpI o1), bl, ex y])"
| "print_expr fm (KeyValueExpr _ k v) = [ex k, tk T_Colon, bl, ex v]"
| "print_expr fm (ListExpr _ es) = printExprList es"
| "print_expr fm (ArrayType _ l t) =
     [tk T_Lbrack, case l of None \<Rightarrow> tk T_DotDotDot | Some e \<Rightarrow> ex e, tk T_Rbrack, ex t]"
| "print_expr fm (SliceType _ t) = [tk T_Lbrack, tk T_Rbrack, ex t]"
| "print_expr fm (DotsType _ t) = [tk T_DotDotDot, ex t]"
| "print_expr fm (StructType _ fs tags) =
     [tk T_Struct] @ (if fs \<noteq> [] \<and> fm = DefaultForm then [bl] else []) @ [tk T_Lbrace] @
     (if fs \<noteq> [] then
        if fm = DefaultForm
        then [newl, ind] @ printFieldList fs tags T_Semi @ [outd, newl]
        else printFieldList fs tags T_Semi
      else []) @
     [tk T_Rbrace]"
| "print_expr fm (FuncTypeE ft) = [tk T_Func] @ printSignature ft"
| "print_expr fm (InterfaceType _ ms) =
     [tk T_Interface] @
     (if fm = DefaultForm \<and> length ms > 1
      then [bl, tk T_Lbrace, newl, ind] @ printMethodList ms @ [outd, newl]
      else [tk T_Lbrace] @ printMethodList ms) @
     [tk T_Rbrace]"
| "print_expr fm (MapType _ k v) = [tk T_Map, tk T_Lbrack, ex k, tk T_Rbrack, ex v]"
| "print_expr fm (ChanType _ d t) =
     (if d = RecvOnly then [tk T_Arrow] else []) @ [tk T_Chan] @
     (if d = SendOnly then [tk T_Arrow] else []) @ [bl] @
     (if d = NoDir \<and> is_recv_chan t then [tk T_Lparen, ex t, tk T_Rparen] else [ex t])"

subsection \<open>Declarations\<close>

fun groupFor :: "Decl \<Rightarrow> token \<times> nat option" where
  "groupFor (ImportDecl _ _ g _ _) = (T_Import, g)"
| "groupFor (ConstDecl _ _ g _ _ _) = (T_Const, g)"
| "groupFor (TypeDecl _ _ g _ _ _ _) = (T_Type, g)"
| "groupFor (VarDecl _ _ g _ _ _) = (T_Var, g)"
| "groupFor (FuncDecl _ _ _ _ _ _ _) = (T_Func, None)"

definition printDecl :: "Decl list \<Rightarrow> parg list" where
  "printDecl ds =
     (case ds of
        [] \<Rightarrow> [I PanicI]
      | d # ds' \<Rightarrow>
          (case groupFor d of
             (t, None) \<Rightarrow> if ds' \<noteq> [] then [I PanicI] else [N (PN (DeclN d))]
           | (t, Some _) \<Rightarrow> [N (PGroup t ds)]))"

text \<open>The loop of \<open>printDeclList\<close>: kind and group of the pending declarations, the pending ones, the rest.\<close>

fun print_decl_loop :: "token \<Rightarrow> nat option \<Rightarrow> Decl list \<Rightarrow> Decl list \<Rightarrow> parg list" where
  "print_decl_loop t grp cur [] = printDecl cur"
| "print_decl_loop t grp cur (x # xs) =
     (case groupFor x of (s, g) \<Rightarrow>
        if g = None \<or> g \<noteq> grp then
          (if cur \<noteq> [] then
             printDecl cur @ [tk T_Semi, newl] @ (if g \<noteq> grp \<or> s \<noteq> t \<or> s = T_Func then [newl] else [])
           else []) @ print_decl_loop s g [x] xs
        else print_decl_loop t grp (cur @ [x]) xs)"

definition printDeclList :: "Decl list \<Rightarrow> parg list" where
  "printDeclList ds = print_decl_loop T_None None [] ds"

definition print_values :: "Name list \<Rightarrow> Expr option \<Rightarrow> Expr option \<Rightarrow> parg list" where
  "print_values ns t v =
     printNameList ns @ (case t of None \<Rightarrow> [] | Some t \<Rightarrow> [bl, ex t]) @
     (case v of None \<Rightarrow> [] | Some v \<Rightarrow> [bl, tk T_Assign, bl, ex v])"

fun print_decl :: "Decl \<Rightarrow> parg list" where
  "print_decl (ImportDecl _ _ g l path) =
     (if g = None then [tk T_Import, bl] else []) @ (case l of None \<Rightarrow> [] | Some n \<Rightarrow> [nm n, bl]) @
     [case path of None \<Rightarrow> N (PN NilLitN) | Some b \<Rightarrow> N (PN (lit_node b))]"
| "print_decl (ConstDecl _ _ g ns t v) = (if g = None then [tk T_Const, bl] else []) @ print_values ns t v"
| "print_decl (TypeDecl _ _ g n tps al t) =
     (if g = None then [tk T_Type, bl] else []) @ [nm n] @
     (if tps \<noteq> [] then printParameterList tps T_Type else []) @ [bl] @
     (if al then [tk T_Assign, bl] else []) @ [ex t]"
| "print_decl (VarDecl _ _ g ns t v) = (if g = None then [tk T_Var, bl] else []) @ print_values ns t v"
| "print_decl (FuncDecl _ _ r n tps ft b) =
     [tk T_Func, bl] @
     (case r of
        None \<Rightarrow> []
      | Some f \<Rightarrow> [tk T_Lparen] @ (case f_name f of None \<Rightarrow> [] | Some m \<Rightarrow> [nm m, bl]) @
                   ex_opt (f_type f) @ [tk T_Rparen, bl]) @
     [nm n] @ (if tps \<noteq> [] then printParameterList tps T_Func else []) @ printSignature ft @
     (case b of None \<Rightarrow> [] | Some b \<Rightarrow> [bl, N (PN (block_node b))])"

subsection \<open>Statements\<close>

fun is_EmptyStmt :: "Stmt \<Rightarrow> bool" where
  "is_EmptyStmt (EmptyStmt _) \<longleftrightarrow> True"
| "is_EmptyStmt _ \<longleftrightarrow> False"

fun printStmtList :: "Stmt list \<Rightarrow> bool \<Rightarrow> parg list" where
  "printStmtList [] braces = []"
| "printStmtList [s] braces =
     [st s, tk T_Semi] @ (if braces \<and> is_EmptyStmt s then [st s, tk T_Semi] else [])"
| "printStmtList (s # ss) braces = [st s, tk T_Semi, newl] @ printStmtList ss braces"

definition print_body :: "Stmt list \<Rightarrow> bool \<Rightarrow> parg list" where
  "print_body b braces = (if b = [] then [] else [newl, ind] @ printStmtList b braces @ [outd])"

fun printCaseClause :: "CaseClause \<Rightarrow> bool \<Rightarrow> parg list" where
  "printCaseClause (CaseClause _ c b _) braces =
     (case c of None \<Rightarrow> [tk T_Default] | Some e \<Rightarrow> [tk T_Case, bl, ex e]) @ [tk T_Colon] @ print_body b braces"

fun printCommClause :: "CommClause \<Rightarrow> bool \<Rightarrow> parg list" where
  "printCommClause (CommClause _ c b _) braces =
     (case c of None \<Rightarrow> [tk T_Default] | Some s \<Rightarrow> [tk T_Case, bl, st s]) @ [tk T_Colon] @ print_body b braces"

fun print_clauses :: "('a \<Rightarrow> bool \<Rightarrow> parg list) \<Rightarrow> 'a list \<Rightarrow> parg list" where
  "print_clauses f [] = []"
| "print_clauses f (c # cs) = f c (cs = []) @ [newl] @ print_clauses f cs"

definition printSwitchBody :: "CaseClause list \<Rightarrow> parg list" where
  "printSwitchBody cs = [tk T_Lbrace] @ (if cs \<noteq> [] then [newl] @ print_clauses printCaseClause cs else []) @ [tk T_Rbrace]"

definition printSelectBody :: "CommClause list \<Rightarrow> parg list" where
  "printSelectBody cs = [tk T_Lbrace] @ (if cs \<noteq> [] then [newl] @ print_clauses printCommClause cs else []) @ [tk T_Rbrace]"

definition print_init :: "Stmt option \<Rightarrow> parg list" where
  "print_init i = (case i of None \<Rightarrow> [] | Some s \<Rightarrow> [st s, tk T_Semi, bl])"

definition print_for :: "Stmt option \<Rightarrow> Expr option \<Rightarrow> Stmt option \<Rightarrow> BlockStmt \<Rightarrow> parg list" where
  "print_for i c q b =
     [tk T_For, bl] @
     (if i = None \<and> q = None then
        (case c of None \<Rightarrow> [] | Some e \<Rightarrow> [ex e, bl]) @ [N (PN (block_node b))]
      else if is_range i then [st (the i), bl, N (PN (block_node b))]
      else
        (case i of None \<Rightarrow> [] | Some s \<Rightarrow> [st s]) @ [tk T_Semi, bl] @ ex_opt c @ [tk T_Semi, bl] @
        (case q of None \<Rightarrow> [] | Some s \<Rightarrow> [st s, bl]) @ [N (PN (block_node b))])"

fun print_stmt :: "Stmt \<Rightarrow> parg list" where
  "print_stmt (DeclStmt _ ds) = printDecl ds"
| "print_stmt (EmptyStmt _) = []"
| "print_stmt (LabeledStmt _ _ l s) = [outd, nm l, tk T_Colon, ind, newl, st s]"
| "print_stmt (ExprStmt _ x) = [ex x]"
| "print_stmt (SendStmt _ c v) = [ex c, bl, tk T_Arrow, bl, ex v]"
| "print_stmt (AssignStmt _ o1 l r) =
     [ex l] @ (case r of None \<Rightarrow> [I (OpI o1), I (OpI o1)] | Some r \<Rightarrow> [bl, I (OpI o1), tk T_Assign, bl, ex r])"
| "print_stmt (CallStmt _ t c) = [tk t, bl, ex c]"
| "print_stmt (ReturnStmt _ r) = [tk T_Return] @ (case r of None \<Rightarrow> [] | Some r \<Rightarrow> [bl, ex r])"
| "print_stmt (BranchStmt _ _ t l) = [tk t] @ (case l of None \<Rightarrow> [] | Some n \<Rightarrow> [bl, nm n])"
| "print_stmt (BlockS (Block _ l _)) =
     [tk T_Lbrace] @ (if l \<noteq> [] then [newl, ind] @ printStmtList l True @ [outd, newl] else []) @ [tk T_Rbrace]"
| "print_stmt (IfStmt _ i c t e) =
     [tk T_If, bl] @ print_init i @ ex_opt c @ [bl, N (PN (block_node t))] @
     (case e of None \<Rightarrow> [] | Some e \<Rightarrow> [bl, tk T_Else, bl, st e])"
| "print_stmt (SwitchStmt _ _ i t cs _) =
     [tk T_Switch, bl] @ print_init i @ (case t of None \<Rightarrow> [] | Some e \<Rightarrow> [ex e, bl]) @ printSwitchBody cs"
| "print_stmt (SelectStmt _ _ cs _) = [tk T_Select, bl] @ printSelectBody cs"
| "print_stmt (RangeClause _ l d x) =
     (case l of None \<Rightarrow> [] | Some e \<Rightarrow> [ex e, bl, tk (if d then T_Define else T_Assign), bl]) @ [tk T_Range, bl, ex x]"
| "print_stmt (ForStmt _ _ i c q b) = print_for i c q b"
| "print_stmt (CheckStmt _ _) = [I PanicI]"

subsection \<open>Nodes\<close>

text \<open>The type switch of \<open>printRawNode\<close>; fields and clauses are not printed as nodes, and \<open>check\<close> statements have no case.\<close>

fun printRawNode :: "Form \<Rightarrow> pnode \<Rightarrow> parg list" where
  "printRawNode fm (PN (ExprN e)) = print_expr fm e"
| "printRawNode fm (PN (StmtN s)) = print_stmt s"
| "printRawNode fm (PN (DeclN d)) = print_decl d"
| "printRawNode fm (PN (FileN f)) =
     [tk T_Package, bl, nm (file_PkgName f)] @
     (if file_DeclList f \<noteq> [] then [tk T_Semi, newl, newl] @ printDeclList (file_DeclList f) else [])"
| "printRawNode fm (PGroup t ds) =
     [tk t, bl, tk T_Lparen] @
     (if ds \<noteq> [] then [newl, ind] @ concat (map (\<lambda>d. [N (PN (DeclN d)), tk T_Semi, newl]) ds) @ [outd] else []) @
     [tk T_Rparen]"
| "printRawNode fm (PN _) = [I PanicI]"

subsection \<open>The nodes that are printed are smaller\<close>

fun pnode_size :: "pnode \<Rightarrow> nat" where
  "pnode_size (PN n) = node_size n"
| "pnode_size (PGroup t ds) = 3 * size_list size ds"

definition args_below :: "nat \<Rightarrow> parg list \<Rightarrow> bool" where
  "args_below k as \<longleftrightarrow> (\<forall>m. N m \<in> set as \<longrightarrow> pnode_size m < k)"

lemma args_below_simps [simp]:
  "args_below k []" "args_below k (I i # as) \<longleftrightarrow> args_below k as"
  "args_below k (N m # as) \<longleftrightarrow> pnode_size m < k \<and> args_below k as"
  "args_below k (as @ bs) \<longleftrightarrow> args_below k as \<and> args_below k bs"
  by (auto simp: args_below_def)

lemma args_below_mono: "args_below k as \<Longrightarrow> k \<le> l \<Longrightarrow> args_below l as"
  by (auto simp: args_below_def intro: less_le_trans)

lemma args_below_ex_opt: "3 * size_option size t < k \<Longrightarrow> args_below k (ex_opt t)"
  using node_size_le(1) by (auto simp: ex_opt_def split: option.splits)

lemma args_below_exprs: "3 * size_list size es \<le> k \<Longrightarrow> args_below k (printExprList es)"
  using node_size_le(1) by (induction es rule: printExprList.induct) auto

lemma args_below_names: "0 < k \<Longrightarrow> args_below k (printNameList ns)"
  unfolding printNameList_def by (induction ns rule: induct_list012) auto

lemma args_below_lines: "3 * size_list size es \<le> k \<Longrightarrow> args_below k (printExprLines es)"
  using size_in_nodes(1) by (fastforce simp: printExprLines_def args_below_def)

lemma args_below_params: "3 * size_list size fs \<le> k \<Longrightarrow> args_below k (print_params b fs)"
proof (induction b fs rule: print_params.induct)
  case (2 b p n t fs)
  then have "args_below k (ex_opt t)" "0 < k" by (auto intro: args_below_ex_opt)
  with 2 show ?case by (auto split: option.splits list.splits Field.splits)
qed simp

lemma args_below_paramList: "3 * size_list size fs \<le> k \<Longrightarrow> args_below k (printParameterList fs t)"
  by (simp add: printParameterList_def args_below_params)

lemma args_below_signature: "3 * size ft \<le> k \<Longrightarrow> args_below k (printSignature ft)"
  by (cases ft rule: printSignature.cases)
     (auto split: list.splits Field.splits option.splits intro!: args_below_paramList args_below_ex_opt)

lemma f_type_size: "3 * size_option size (f_type f) < 3 * size f"
  by (cases f) simp

lemma args_below_concat [simp]: "args_below k (concat (map g xs)) \<longleftrightarrow> (\<forall>x\<in>set xs. args_below k (g x))"
  by (auto simp: args_below_def)

lemma args_below_fields:
  assumes "fs \<noteq> []" "3 * size_list size fs \<le> k"
  shows "args_below k (printFields fs tags)"
proof -
  obtain f gs where fs: "fs = f # gs" using assms(1) by (cases fs) auto
  have k: "0 < k" "args_below k (ex_opt (f_type f))"
    using assms(2) f_type_size [of f] by (auto simp: fs intro!: args_below_ex_opt)
  have e: "f = Field p n t \<Longrightarrow> args_below k (ex_opt t)" for p n t using k(2) by simp
  show ?thesis
    using k unfolding printFields_def fs
    by (auto simp: nm_opt_def split: list.split Field.split option.split dest: e)
qed

lemma args_below_field_loop:
  "3 * size_list size cur + 3 * size_list size fs \<le> k \<Longrightarrow> cur \<noteq> [] \<or> fs \<noteq> [] \<Longrightarrow>
   args_below k (print_field_loop sep cur ctags t0 fs tags)"
proof (induction sep cur ctags t0 fs tags rule: print_field_loop.induct)
  case (2 sep cur ctags t0 f fs tags)
  then show ?case by (auto intro!: args_below_fields)
qed (auto intro: args_below_fields)

lemma args_below_method: "3 * size m \<le> k \<Longrightarrow> args_below k (print_method m)"
  by (cases m rule: print_method.cases)
     (auto split: option.splits Expr.splits intro!: args_below_ex_opt args_below_signature)

lemma args_below_methods: "3 * size_list size ms \<le> k \<Longrightarrow> args_below k (printMethodList ms)"
  by (induction ms rule: printMethodList.induct) (auto intro: args_below_method)

lemmas args_below_rules = args_below_ex_opt args_below_exprs args_below_lines args_below_names args_below_paramList
  args_below_signature args_below_field_loop args_below_methods

lemma print_expr_below: "args_below (node_size (ExprN e)) (print_expr fm e)"
  using node_size_le(1)
  by (cases "(fm, e)" rule: print_expr.cases)
     (auto simp: printFieldList_def le_less_trans less_Suc_eq_le split: option.split intro!: args_below_rules)

lemma args_below_printDecl: "3 * size_list size ds < k \<Longrightarrow> args_below k (printDecl ds)"
  by (auto simp: printDecl_def split: list.split prod.split option.split)

lemma args_below_decl_loop:
  "3 * size_list size cur + 3 * size_list size ds < k \<Longrightarrow> args_below k (print_decl_loop t grp cur ds)"
  by (induction t grp cur ds rule: print_decl_loop.induct) (auto simp: args_below_printDecl split: prod.split)

lemma args_below_values:
  "3 * size_option size t < k \<Longrightarrow> 3 * size_option size v < k \<Longrightarrow> args_below k (print_values ns t v)"
  using node_size_le(1) by (auto simp: print_values_def le_less_trans args_below_names split: option.splits)

lemma args_below_field_opt: "3 * size f \<le> k \<Longrightarrow> args_below k (ex_opt (f_type f))"
  using f_type_size [of f] by (intro args_below_ex_opt) simp

lemma print_decl_below: "args_below (node_size (DeclN d)) (print_decl d)"
  using node_size_le(1)
  by (cases d rule: print_decl.cases)
     (auto simp: le_less_trans less_Suc_eq_le split: option.split
       intro!: args_below_field_opt args_below_paramList args_below_signature args_below_values)

lemma args_below_stmts: "3 * size_list size ss \<le> k \<Longrightarrow> args_below k (printStmtList ss b)"
  using node_size_le(2) by (induction ss b rule: printStmtList.induct) (auto simp: le_less_trans)

lemma args_below_body: "3 * size_list size ss \<le> k \<Longrightarrow> args_below k (print_body ss b)"
  by (simp add: print_body_def args_below_stmts)

lemma args_below_caseClause: "3 * size c \<le> k \<Longrightarrow> args_below k (printCaseClause c b)"
  using node_size_le(1) by (cases c) (auto simp: le_less_trans intro!: args_below_body split: option.split)

lemma args_below_commClause: "3 * size c \<le> k \<Longrightarrow> args_below k (printCommClause c b)"
  using node_size_le(2) by (cases c) (auto simp: le_less_trans intro!: args_below_body split: option.split)

lemma args_below_clauses:
  "(\<And>c b. c \<in> set cs \<Longrightarrow> args_below k (f c b)) \<Longrightarrow> args_below k (print_clauses f cs)"
  by (induction f cs rule: print_clauses.induct) auto

lemma args_below_switch:
  "3 * size_list size cs \<le> k \<Longrightarrow> args_below k (printSwitchBody cs)"
  "3 * size_list size ds \<le> k \<Longrightarrow> args_below k (printSelectBody ds)"
  using size_in_nodes(5) [of _ cs] size_in_nodes(6) [of _ ds]
  by (force simp: printSwitchBody_def printSelectBody_def
      intro!: args_below_clauses args_below_caseClause args_below_commClause)+

lemma print_stmt_below: "args_below (node_size (StmtN s)) (print_stmt s)"
  using node_size_le
  by (cases s rule: print_stmt.cases)
     (auto simp: le_less_trans less_Suc_eq_le print_init_def print_for_def split: option.split
       intro!: args_below_rules args_below_printDecl args_below_switch args_below_stmts)

lemma printRawNode_below: "args_below (pnode_size n) (printRawNode fm n)"
  by (cases "(fm, n)" rule: printRawNode.cases)
     (auto simp: print_expr_below print_stmt_below print_decl_below [simplified] printDeclList_def
       intro!: args_below_decl_loop dest: size_in_nodes)

subsection \<open>Fprint\<close>

function print_items :: "Form \<Rightarrow> pnode \<Rightarrow> pitem list" where
  "print_items fm n = concat (map (\<lambda>a. case a of I i \<Rightarrow> [i] | N m \<Rightarrow> print_items fm m) (printRawNode fm n))"
  by pat_completeness auto
termination
  by (relation "measure (\<lambda>(_, n). pnode_size n)") (use printRawNode_below in \<open>auto simp: args_below_def\<close>)

declare print_items.simps [simp del]

definition init_printer :: "Form \<Rightarrow> printer" where
  "init_printer fm = \<lparr>pr_out = [], pr_form = fm, pr_linebreaks = (fm = DefaultForm), pr_indent = 0, pr_nlcount = 0,
     pr_pending = [], pr_lastTok = T_None, pr_panic = False\<rparr>"

definition Fprint :: "Node \<Rightarrow> Form \<Rightarrow> printer" where
  "Fprint x fm =
     (let p = fold print_item (print_items fm (PN x)) (init_printer fm) in
      if pr_panic p then p else flush T_EOF p)"

text \<open>\<open>String\<close>; \<open>None\<close> is a panic.\<close>

definition node_String :: "Node \<Rightarrow> string option" where
  "node_String n = (let p = Fprint n ShortForm in if pr_panic p then None else Some (pr_out p))"

end
