(* ===== verification/Printer_Props.thy ===== *)
theory Printer_Props
  imports Printer
begin

text \<open>
  Properties of the printer: where the indentation becomes negative, the forms without line breaks print one line, and
  semicolons are only left out where the scanner inserts them.
\<close>

subsection \<open>Levels of indentation\<close>

text \<open>From level \<open>k\<close>, the indentation stays non-negative.\<close>

fun keeps :: "int \<Rightarrow> pitem list \<Rightarrow> bool" where
  "keeps k [] \<longleftrightarrow> True"
| "keeps k (CtlI C_indent # is) \<longleftrightarrow> keeps (k + 1) is"
| "keeps k (CtlI C_outdent # is) \<longleftrightarrow> 1 \<le> k \<and> keeps (k - 1) is"
| "keeps k (i # is) \<longleftrightarrow> keeps k is"

fun net :: "pitem list \<Rightarrow> int" where
  "net [] = 0"
| "net (CtlI C_indent # is) = net is + 1"
| "net (CtlI C_outdent # is) = net is - 1"
| "net (i # is) = net is"

lemma net_append [simp]: "net (is @ js) = net is + net js"
  by (induction "is" rule: net.induct) auto

lemma keeps_append [simp]: "keeps k (is @ js) \<longleftrightarrow> keeps k is \<and> keeps (k + net is) js"
  by (induction k "is" rule: keeps.induct) (auto simp: algebra_simps)

text \<open>
  The same for the arguments of \<open>print\<close>, where a statement may start one level further out: a label does, if it is
  the statement itself or in a part of it that is not a block.
\<close>

fun leads_label :: "Stmt \<Rightarrow> bool" where
  "leads_label (LabeledStmt _ _ _ _) \<longleftrightarrow> True"
| "leads_label (IfStmt _ i _ _ e) \<longleftrightarrow>
     (case i of None \<Rightarrow> False | Some s \<Rightarrow> leads_label s) \<or> (case e of None \<Rightarrow> False | Some s \<Rightarrow> leads_label s)"
| "leads_label (ForStmt _ _ i _ q _) \<longleftrightarrow>
     (case i of None \<Rightarrow> False | Some s \<Rightarrow> leads_label s) \<or>
     \<not> is_range i \<and> (case q of None \<Rightarrow> False | Some s \<Rightarrow> leads_label s)"
| "leads_label (SwitchStmt _ _ i _ _ _) \<longleftrightarrow> (case i of None \<Rightarrow> False | Some s \<Rightarrow> leads_label s)"
| "leads_label (SelectStmt _ _ cs _) \<longleftrightarrow>
     (\<exists>c\<in>set cs. case c of CommClause _ s _ _ \<Rightarrow> case s of None \<Rightarrow> False | Some s \<Rightarrow> leads_label s)"
| "leads_label _ \<longleftrightarrow> False"

definition stmt_base :: "Stmt \<Rightarrow> int" where
  "stmt_base s = (if leads_label s then 1 else 0)"

fun base :: "pnode \<Rightarrow> int" where
  "base (PN (StmtN s)) = stmt_base s"
| "base _ = 0"

lemma stmt_base_le [simp]: "1 \<le> k \<Longrightarrow> stmt_base s \<le> k" "stmt_base (BlockS b) = 0"
  by (auto simp: stmt_base_def)

lemma stmt_base_iff: "0 \<le> k \<Longrightarrow> stmt_base s \<le> k \<longleftrightarrow> 1 \<le> k \<or> \<not> leads_label s"
  by (auto simp: stmt_base_def)

fun ok_args :: "int \<Rightarrow> parg list \<Rightarrow> bool" where
  "ok_args k [] \<longleftrightarrow> True"
| "ok_args k (I (CtlI C_indent) # as) \<longleftrightarrow> ok_args (k + 1) as"
| "ok_args k (I (CtlI C_outdent) # as) \<longleftrightarrow> 1 \<le> k \<and> ok_args (k - 1) as"
| "ok_args k (I (CtlI C_none) # as) \<longleftrightarrow> False"
| "ok_args k (I (CtlI C_semi) # as) \<longleftrightarrow> False"
| "ok_args k (I i # as) \<longleftrightarrow> ok_args k as"
| "ok_args k (N m # as) \<longleftrightarrow> base m \<le> k \<and> ok_args k as"

fun net_args :: "parg list \<Rightarrow> int" where
  "net_args [] = 0"
| "net_args (I (CtlI C_indent) # as) = net_args as + 1"
| "net_args (I (CtlI C_outdent) # as) = net_args as - 1"
| "net_args (a # as) = net_args as"

lemma net_args_append [simp]: "net_args (as @ bs) = net_args as + net_args bs"
  by (induction as rule: net_args.induct) auto

lemma ok_args_append [simp]: "ok_args k (as @ bs) \<longleftrightarrow> ok_args k as \<and> ok_args (k + net_args as) bs"
  by (induction k as rule: ok_args.induct) (auto simp: algebra_simps)

text \<open>Arguments without indentation, and without statements.\<close>

fun plain_arg :: "parg \<Rightarrow> bool" where
  "plain_arg (I i) \<longleftrightarrow> i \<notin> {CtlI C_indent, CtlI C_outdent, CtlI C_none, CtlI C_semi}"
| "plain_arg (N m) \<longleftrightarrow> base m = 0"

lemma plain_ok: "list_all plain_arg as \<Longrightarrow> net_args as = 0 \<and> (0 \<le> k \<longrightarrow> ok_args k as)"
  by (induction k as rule: ok_args.induct) auto

lemma plain_exprs [simp]: "list_all plain_arg (ex_opt t)" "list_all plain_arg (printExprList es)"
  "list_all plain_arg (printNameList ns)"
proof -
  show "list_all plain_arg (ex_opt t)" by (simp add: ex_opt_def split: option.split)
  show e: "list_all plain_arg (printExprList es)" for es by (induction es rule: printExprList.induct) auto
  show "list_all plain_arg (printNameList ns)" by (simp add: printNameList_def e)
qed

lemma plain_params [simp]: "list_all plain_arg (print_params b fs)"
  by (induction b fs rule: print_params.induct) (auto split: option.splits list.splits Field.splits)

lemma plain_signature [simp]: "list_all plain_arg (printParameterList fs t)" "list_all plain_arg (printSignature ft)"
  by (auto simp: printParameterList_def split: list.split Field.split option.split elim: printSignature.elims)
     (cases ft; auto simp: printParameterList_def split: list.split Field.split option.split)

lemma plain_concat [simp]: "list_all plain_arg (concat (map g xs)) \<longleftrightarrow> (\<forall>x\<in>set xs. list_all plain_arg (g x))"
  by (auto simp: list_all_iff)

lemma plain_fields [simp]: "list_all plain_arg (printFields fs tags)"
  by (auto simp: printFields_def nm_opt_def split: list.split Field.split option.split)

lemma plain_field_loop [simp]: "list_all plain_arg (print_field_loop sep cur ctags t0 fs tags)"
  by (induction sep cur ctags t0 fs tags rule: print_field_loop.induct) auto

lemma plain_methods [simp]: "list_all plain_arg (printMethodList ms)"
proof -
  have m: "list_all plain_arg (print_method m)" for m
    by (cases m rule: print_method.cases) (auto split: option.split Expr.split)
  show ?thesis by (induction ms rule: printMethodList.induct) (auto simp: m)
qed

lemma plain_net [simp]: "list_all plain_arg as \<Longrightarrow> net_args as = 0"
  and plain_level [simp]: "list_all plain_arg as \<Longrightarrow> 0 \<le> k \<Longrightarrow> ok_args k as"
  using plain_ok by blast+

lemma lines_level [simp]: "net_args (printExprLines es) = 0" "0 \<le> k \<Longrightarrow> ok_args k (printExprLines es)"
  by (auto simp: printExprLines_def)

lemma print_expr_level: "net_args (print_expr fm e) = 0 \<and> (0 \<le> k \<longrightarrow> ok_args k (print_expr fm e))"
  by (cases "(fm, e)" rule: print_expr.cases) (auto simp: printFieldList_def split: option.split)

lemma stmts_level [simp]: "net_args (printStmtList ss b) = 0" "1 \<le> k \<Longrightarrow> ok_args k (printStmtList ss b)"
  by (induction ss b rule: printStmtList.induct) auto

lemma body_level [simp]: "net_args (print_body ss b) = 0" "0 \<le> k \<Longrightarrow> ok_args k (print_body ss b)"
  by (auto simp: print_body_def)

lemma clauses_level:
  "(\<And>c b. net_args (f c b) = 0) \<Longrightarrow> net_args (print_clauses f cs) = 0"
  "(\<And>c b. net_args (f c b) = 0) \<Longrightarrow> (\<And>c b. ok_args k (f c b)) \<Longrightarrow> ok_args k (print_clauses f cs)"
  by (induction cs) auto

lemma case_level:
  "net_args (printCaseClause c b) = 0" "0 \<le> k \<Longrightarrow> ok_args k (printCaseClause c b)"
  "net_args (printCommClause d b) = 0"
  "0 \<le> k \<Longrightarrow> ok_args k (printCommClause d b) \<longleftrightarrow>
     1 \<le> k \<or> \<not> (case d of CommClause _ s _ _ \<Rightarrow> case s of None \<Rightarrow> False | Some s \<Rightarrow> leads_label s)"
  by (cases c; cases d; auto simp: stmt_base_iff split: option.split)+

lemma comm_clauses_level:
  "0 \<le> k \<Longrightarrow> ok_args k (print_clauses printCommClause cs) \<longleftrightarrow>
     1 \<le> k \<or> (\<forall>d\<in>set cs. \<not> (case d of CommClause _ s _ _ \<Rightarrow> case s of None \<Rightarrow> False | Some s \<Rightarrow> leads_label s))"
  by (induction cs) (auto simp: case_level)

lemma switch_level [simp]:
  "net_args (printSwitchBody cs) = 0" "0 \<le> k \<Longrightarrow> ok_args k (printSwitchBody cs)"
  "net_args (printSelectBody ds) = 0"
  "0 \<le> k \<Longrightarrow> ok_args k (printSelectBody ds) \<longleftrightarrow>
     1 \<le> k \<or> (\<forall>d\<in>set ds. \<not> (case d of CommClause _ s _ _ \<Rightarrow> case s of None \<Rightarrow> False | Some s \<Rightarrow> leads_label s))"
  by (auto simp: printSwitchBody_def printSelectBody_def clauses_level case_level comm_clauses_level)

lemma decls_level [simp]: "list_all plain_arg (printDecl ds)" "list_all plain_arg (print_decl_loop t g cur ds)"
proof -
  show d: "list_all plain_arg (printDecl ds)" for ds
    by (simp add: printDecl_def split: list.split prod.split option.split)
  show "list_all plain_arg (print_decl_loop t g cur ds)"
    by (induction t g cur ds rule: print_decl_loop.induct) (auto simp: d split: prod.split)
qed

lemma print_decl_plain: "list_all plain_arg (print_decl d)"
  by (cases d rule: print_decl.cases) (auto simp: print_values_def split: option.split)

lemma range_no_label: "is_range i \<Longrightarrow> \<exists>s. i = Some s \<and> \<not> leads_label s"
  by (cases i rule: is_range.cases) auto

lemma print_stmt_level:
  "net_args (print_stmt s) = 0 \<and> (0 \<le> k \<longrightarrow> (ok_args k (print_stmt s) \<longleftrightarrow> stmt_base s \<le> k))"
  using range_no_label
  by (cases s rule: print_stmt.cases)
     (auto simp: print_init_def print_for_def stmt_base_iff split: option.split)

lemma printRawNode_level:
  "net_args (printRawNode fm n) = 0 \<and> (0 \<le> k \<longrightarrow> (ok_args k (printRawNode fm n) \<longleftrightarrow> base n \<le> k))"
  using print_expr_level print_stmt_level print_decl_plain
  by (cases "(fm, n)" rule: printRawNode.cases) (auto simp: printDeclList_def)

definition expand :: "(pnode \<Rightarrow> pitem list) \<Rightarrow> parg list \<Rightarrow> pitem list" where
  "expand f as = concat (map (\<lambda>a. case a of I i \<Rightarrow> [i] | N m \<Rightarrow> f m) as)"

lemma expand_simps [simp]: "expand f [] = []" "expand f (I i # as) = i # expand f as" "expand f (N m # as) = f m @ expand f as"
  by (simp_all add: expand_def)

definition spaces_ok :: "pitem list \<Rightarrow> bool" where
  "spaces_ok is \<longleftrightarrow> CtlI C_none \<notin> set is \<and> CtlI C_semi \<notin> set is"

lemma spaces_ok_simps [simp]:
  "spaces_ok []" "spaces_ok (is @ js) \<longleftrightarrow> spaces_ok is \<and> spaces_ok js"
  "spaces_ok (i # is) \<longleftrightarrow> i \<noteq> CtlI C_none \<and> i \<noteq> CtlI C_semi \<and> spaces_ok is"
  by (auto simp: spaces_ok_def)

lemma expand_net:
  "(\<And>m. N m \<in> set as \<Longrightarrow> net (f m) = 0) \<Longrightarrow> net (expand f as) = net_args as"
  by (induction as rule: net_args.induct) auto

lemma expand_level:
  "(\<And>m. N m \<in> set as \<Longrightarrow> net (f m) = 0 \<and> (\<forall>k \<ge> 0. keeps k (f m) \<longleftrightarrow> base m \<le> k)) \<Longrightarrow>
   I (CtlI C_none) \<notin> set as \<Longrightarrow> I (CtlI C_semi) \<notin> set as \<Longrightarrow> 0 \<le> k \<Longrightarrow> keeps k (expand f as) \<longleftrightarrow> ok_args k as"
  by (induction k as rule: ok_args.induct) auto

lemma expand_spaces:
  "(\<And>m. N m \<in> set as \<Longrightarrow> spaces_ok (f m)) \<Longrightarrow>
   I (CtlI C_none) \<notin> set as \<Longrightarrow> I (CtlI C_semi) \<notin> set as \<Longrightarrow> spaces_ok (expand f as)"
  by (induction as rule: net_args.induct) auto

lemma ok_args_spaces: "ok_args k as \<Longrightarrow> I (CtlI C_none) \<notin> set as \<and> I (CtlI C_semi) \<notin> set as"
  by (induction k as rule: ok_args.induct) auto

lemma base_le_1: "base n \<le> 1"
  by (cases n rule: base.cases) simp_all

lemma print_items_level:
  "net (print_items fm n) = 0 \<and> spaces_ok (print_items fm n) \<and> (\<forall>k \<ge> 0. keeps k (print_items fm n) \<longleftrightarrow> base n \<le> k)"
proof (induction fm n rule: print_items.induct)
  case (1 fm n)
  let ?as = "printRawNode fm n"
  have c: "I (CtlI C_none) \<notin> set ?as" "I (CtlI C_semi) \<notin> set ?as"
    using printRawNode_level [of fm n 1] base_le_1 [of n] ok_args_spaces [of 1 ?as] by auto
  have "net (expand (print_items fm) ?as) = 0" using 1 expand_net [of ?as "print_items fm"] printRawNode_level [of fm n] by simp
  moreover have "spaces_ok (expand (print_items fm) ?as)" using 1 c by (intro expand_spaces) blast+
  moreover have "keeps k (expand (print_items fm) ?as) \<longleftrightarrow> base n \<le> k" if "0 \<le> k" for k
    using 1 expand_level [of ?as "print_items fm" k] c that printRawNode_level [of fm n k] by blast
  ultimately show ?case by (subst (1 2 3) print_items.simps) (simp add: expand_def)
qed

subsection \<open>Flushing\<close>

abbreviation space_items :: "pr_space list \<Rightarrow> pitem list" where "space_items ws \<equiv> map (\<lambda>w. CtlI (snd w)) ws"

lemma keeps_neutral: "k' \<noteq> C_indent \<Longrightarrow> k' \<noteq> C_outdent \<Longrightarrow> keeps k (CtlI k' # is) = keeps k is"
  by (cases k') auto

lemma writeString_fields [simp]:
  "s \<noteq> [] \<Longrightarrow> pr_panic (writeString s p) = pr_panic p" "pr_indent (writeString s p) = pr_indent p"
  "pr_pending (writeString s p) = pr_pending p" "pr_linebreaks (writeString s p) = pr_linebreaks p"
  by (simp_all add: writeString_def write_out_def print_panic_def Let_def)

lemma flush_space_level:
  assumes "\<not> pr_panic p" "keeps (pr_indent p) (CtlI (snd w) # is)" "flush_space w (prev, p) = (prev', q)"
  shows "\<not> pr_panic q \<and> keeps (pr_indent q) is"
  using assms
  by (cases w; cases "snd w")
     (auto simp: flush_space_def write_out_def print_panic_def Let_def split: if_splits)

lemma flush_fold_level:
  "\<not> pr_panic p \<Longrightarrow> keeps (pr_indent p) (space_items ws @ is) \<Longrightarrow>
   \<not> pr_panic (snd (fold flush_space ws (prev, p))) \<and> keeps (pr_indent (snd (fold flush_space ws (prev, p)))) is"
proof (induction ws arbitrary: prev p)
  case (Cons w ws)
  obtain prev' q where q: "flush_space w (prev, p) = (prev', q)" by fastforce
  from flush_space_level [OF Cons.prems(1) _ q, of "space_items ws @ is"] Cons.prems(2) Cons.IH [of q prev']
  show ?case by (simp add: q)
qed simp

lemma eliminate_level:
  "keeps k (space_items (rev (eliminate nl pa ws))) = keeps k (space_items (rev ws))
   \<and> net (space_items (rev (eliminate nl pa ws))) = net (space_items (rev ws))"
proof (induction nl pa ws rule: eliminate.induct)
  case (2 nl paren t k' ws)
  then show ?case by (auto simp del: impliesSemi.simps)
qed simp

lemma flush_level:
  assumes "\<not> pr_panic p" "list_all (\<lambda>w. snd w \<noteq> C_none) (pr_pending p)"
    "keeps (pr_indent p) (space_items (pr_pending p) @ is)"
  shows "\<not> pr_panic (flush t p) \<and> keeps (pr_indent (flush t p)) is \<and> pr_pending (flush t p) = []"
proof -
  have n: "\<not> list_ex (\<lambda>w. snd w = C_none) (pr_pending p)" using assms(2) by (simp add: list_all_iff list_ex_iff)
  let ?ws = "rev (eliminate (t = T_EOF) (t = T_Rparen \<or> t = T_Rbrace) (rev (pr_pending p)))"
  have "keeps (pr_indent p) (space_items ?ws @ is)"
    using assms(3) eliminate_level [of _ _ _ "rev (pr_pending p)"] by simp
  from flush_fold_level [OF assms(1) this, of C_none] show ?thesis
    using n by (simp add: flush_def Let_def case_prod_beta)
qed

subsection \<open>Printing\<close>

text \<open>What the arguments of \<open>print\<close> may be: control symbols that are spaces, and names that are not empty.\<close>

fun good_item :: "pitem \<Rightarrow> bool" where
  "good_item (CtlI k) \<longleftrightarrow> k \<noteq> C_none \<and> k \<noteq> C_semi"
| "good_item (NameI s) \<longleftrightarrow> s \<noteq> []"
| "good_item PanicI \<longleftrightarrow> False"
| "good_item _ \<longleftrightarrow> True"

definition ready :: "printer \<Rightarrow> pitem list \<Rightarrow> bool" where
  "ready p is \<longleftrightarrow> \<not> pr_panic p \<and> list_all (\<lambda>w. snd w \<noteq> C_none) (pr_pending p)
     \<and> keeps (pr_indent p) (space_items (pr_pending p) @ is)"

lemma token_String_nonempty: "token_String t \<noteq> []"
  by (cases t) (simp_all add: token_String_def)

lemma Operator_String_nonempty: "Operator_String o1 \<noteq> []"
  by (simp add: Operator_String_def)

lemma addWhitespace_ready:
  "ready p (CtlI k # is) \<Longrightarrow> k \<noteq> C_none \<Longrightarrow> ready (addWhitespace k p) is"
  by (cases k) (simp_all add: ready_def addWhitespace_def Let_def)

lemma print_token_ready:
  assumes "s \<noteq> []" "ready p is"
  shows "ready (print_token t s p) is"
proof (cases "t = T_Semi")
  case True
  then show ?thesis using assms addWhitespace_ready [of p C_semi "is"]
    by (simp add: print_token_def ready_def)
next
  case False
  have "\<not> pr_panic (flush t p) \<and> keeps (pr_indent (flush t p)) is \<and> pr_pending (flush t p) = []"
    using assms(2) by (intro flush_level) (auto simp: ready_def)
  then show ?thesis using False assms(1) by (simp add: print_token_def ready_def Let_def)
qed

lemma print_item_ready:
  assumes "ready p (i # is)" "good_item i"
  shows "ready (print_item i p) is"
proof -
  have np: "\<not> pr_panic p" using assms(1) by (simp add: ready_def)
  show ?thesis
  proof (cases i)
    case (OpI o1)
    have "\<not> pr_panic (flush T_Operator p) \<and> keeps (pr_indent (flush T_Operator p)) is \<and> pr_pending (flush T_Operator p) = []"
      using assms(1) OpI by (intro flush_level) (auto simp: ready_def)
    then show ?thesis using OpI assms(1) np Operator_String_nonempty
      by (auto simp: print_item_def ready_def Let_def)
  next
    case (CtlI k)
    then have "ready p (CtlI (if k = C_newline \<and> \<not> pr_linebreaks p then C_blank else k) # is)"
      using assms(1) by (auto simp: ready_def)
    then show ?thesis using CtlI assms(2) np addWhitespace_ready by (auto simp: print_item_def)
  next
    case (TokI t)
    then have "ready p is" using assms(1) by (simp add: ready_def)
    then show ?thesis using TokI np print_token_ready token_String_nonempty by (simp add: print_item_def)
  next
    case (NameI s)
    then have "ready p is" using assms(1) by (simp add: ready_def)
    then show ?thesis using NameI np print_token_ready assms(2) by (simp add: print_item_def)
  qed (use assms in simp)
qed

lemma print_fold_ready:
  "ready p is \<Longrightarrow> list_all good_item is \<Longrightarrow> ready (fold print_item is p) []"
  by (induction "is" arbitrary: p) (auto simp: print_item_ready)

lemma print_item_panic: "pr_panic p \<Longrightarrow> print_item i p = p"
  by (simp add: print_item_def)

lemma print_fold_panic:
  assumes "PanicI \<in> set is \<or> NameI [] \<in> set is"
  shows "pr_panic (fold print_item is p)"
proof -
  have stays: "pr_panic p \<Longrightarrow> pr_panic (fold print_item is p)" for p "is"
    by (induction "is") (simp_all add: print_item_panic)
  obtain i js ks where i: "is = js @ i # ks" "i = PanicI \<or> i = NameI []"
    using assms by (metis split_list)
  have "pr_panic (print_item i q)" for q
    using i(2) by (auto simp: print_item_def print_token_def print_panic_def)
  then show ?thesis using stays by (simp add: i(1))
qed

text \<open>Once what is still to come leads below level zero, the printer panics, at the latest when it flushes.\<close>

definition doomed :: "printer \<Rightarrow> pitem list \<Rightarrow> bool" where
  "doomed p is \<longleftrightarrow> pr_panic p \<or> \<not> keeps (pr_indent p) (space_items (pr_pending p) @ is)"

lemma print_panic_fields [simp]: "pr_panic (print_panic p)" "pr_indent (print_panic p) = pr_indent p"
  by (simp_all add: print_panic_def)

lemma write_out_fields [simp]: "pr_panic (write_out s p) = pr_panic p" "pr_indent (write_out s p) = pr_indent p"
  by (simp_all add: write_out_def)

lemma flush_pending: "pr_panic (flush t p) \<or> pr_pending (flush t p) = []"
  by (simp add: flush_def Let_def case_prod_beta)

lemma flush_space_doomed:
  assumes "pr_panic p \<or> \<not> keeps (pr_indent p) (CtlI (snd w) # is)" "flush_space w (prev, p) = (prev', q)"
  shows "pr_panic q \<or> \<not> keeps (pr_indent q) is"
  using assms
  by (cases w; cases "snd w") (auto simp: flush_space_def Let_def split: if_splits)

lemma flush_fold_doomed:
  "pr_panic p \<or> \<not> keeps (pr_indent p) (space_items ws @ is) \<Longrightarrow>
   pr_panic (snd (fold flush_space ws (prev, p))) \<or> \<not> keeps (pr_indent (snd (fold flush_space ws (prev, p)))) is"
proof (induction ws arbitrary: prev p)
  case (Cons w ws)
  obtain prev' q where q: "flush_space w (prev, p) = (prev', q)" by fastforce
  from flush_space_doomed [OF _ q, of "space_items ws @ is"] Cons.prems Cons.IH [of q prev'] show ?case by (simp add: q)
qed simp

lemma flush_doomed:
  assumes "doomed p is"
  shows "doomed (flush t p) is"
proof (cases "list_ex (\<lambda>w. snd w = C_none) (pr_pending p)")
  case True
  then show ?thesis by (simp add: flush_def doomed_def)
next
  case False
  let ?ws = "rev (eliminate (t = T_EOF) (t = T_Rparen \<or> t = T_Rbrace) (rev (pr_pending p)))"
  have "pr_panic p \<or> \<not> keeps (pr_indent p) (space_items ?ws @ is)"
    using assms eliminate_level [of _ _ _ "rev (pr_pending p)"] by (simp add: doomed_def)
  from flush_fold_doomed [OF this, of C_none] show ?thesis
    using False by (simp add: flush_def doomed_def Let_def case_prod_beta)
qed

lemma addWhitespace_doomed: "doomed p (CtlI k # is) \<Longrightarrow> doomed (addWhitespace k p) is"
  by (cases k) (simp_all add: doomed_def addWhitespace_def Let_def)

lemma doomed_neutral: "doomed p (i # is) \<Longrightarrow> i \<noteq> CtlI C_indent \<Longrightarrow> i \<noteq> CtlI C_outdent \<Longrightarrow> doomed p is"
  by (cases i rule: good_item.cases) (auto simp: doomed_def keeps_neutral)

lemma doomed_semi: "doomed p is \<Longrightarrow> doomed p (CtlI C_semi # is)" "doomed p is \<Longrightarrow> doomed p (CtlI C_blank # is)"
  by (simp_all add: doomed_def)

lemma print_token_doomed: "doomed p is \<Longrightarrow> doomed (print_token t s p) is"
  using flush_doomed [of p "is" t] addWhitespace_doomed [of p C_semi "is"]
  by (auto simp: print_token_def doomed_def Let_def)

lemma print_item_doomed:
  assumes "doomed p (i # is)"
  shows "doomed (print_item i p) is"
proof (cases "pr_panic p")
  case True
  then show ?thesis by (simp add: print_item_def doomed_def)
next
  case False
  show ?thesis
  proof (cases i)
    case (OpI o1)
    then have "doomed p is" using doomed_neutral [OF assms] by simp
    with flush_doomed [of p "is" T_Operator] show ?thesis using OpI False Operator_String_nonempty
      by (auto simp: print_item_def doomed_def Let_def)
  next
    case (CtlI k)
    have "doomed p (CtlI (if k = C_newline \<and> \<not> pr_linebreaks p then C_blank else k) # is)"
      using assms CtlI by (auto simp: doomed_def)
    from addWhitespace_doomed [OF this] show ?thesis using CtlI False
      by (auto simp: print_item_def) (simp_all add: doomed_def)
  next
    case (TokI t)
    then show ?thesis using doomed_neutral [OF assms] False print_token_doomed by (simp add: print_item_def)
  next
    case (NameI s)
    then show ?thesis using doomed_neutral [OF assms] False print_token_doomed by (simp add: print_item_def)
  qed (simp add: print_item_def False doomed_def)
qed

lemma print_fold_doomed: "doomed p is \<Longrightarrow> doomed (fold print_item is p) []"
  by (induction "is" arbitrary: p) (auto simp: print_item_doomed)


lemma eliminate_length [simp]: "length (eliminate nl pa ws) = length ws"
  by (induction nl pa ws rule: eliminate.induct) (auto simp del: impliesSemi.simps)

lemma eliminate_nth:
  "i < length ws \<Longrightarrow> snd (ws ! i) = C_semi \<Longrightarrow> snd (eliminate nl pa ws ! i) = C_none \<Longrightarrow>
   pa \<or> impliesSemi (fst (ws ! i)) \<and> (nl \<or> C_newline \<in> snd ` set (take i ws))"
proof (induction nl pa ws arbitrary: i rule: eliminate.induct)
  case (2 nl paren t k ws)
  then show ?case
    by (cases i) (auto simp del: impliesSemi.simps split: if_splits)
qed simp

text \<open>A semicolon is only left out where the scanner does not need it: before a closing parenthesis or brace, or where a line
  break or the end follows and the token before it is one after which the scanner inserts a
  semicolon at the end of a line.\<close>

lemma elided_semicolons:
  assumes "i < length ws" "snd (ws ! i) = C_semi"
    and "snd (rev (eliminate (nxt = T_EOF) (nxt = T_Rparen \<or> nxt = T_Rbrace) (rev ws)) ! i) = C_none"
  shows "nxt = T_Rparen \<or> nxt = T_Rbrace
    \<or> fst (ws ! i) \<in> set semi_tokens \<and> (nxt = T_EOF \<or> C_newline \<in> snd ` set (drop (Suc i) ws))"
proof -
  let ?j = "length ws - Suc i"
  have j: "rev ws ! ?j = ws ! i" "?j < length ws" using assms(1) by (simp_all add: rev_nth)
  have e: "snd (eliminate (nxt = T_EOF) (nxt = T_Rparen \<or> nxt = T_Rbrace) (rev ws) ! ?j) = C_none"
    using assms(1,3) by (simp add: rev_nth)
  have t: "set (take ?j (rev ws)) = set (drop (Suc i) ws)" using assms(1) by (simp add: take_rev)
  show ?thesis using eliminate_nth [OF _ _ e] j assms(2) t by (auto simp: semi_tokens_def)
qed

lemma elided_semicolons_witness:
  "snd (rev (eliminate (T_If = T_EOF) (T_If = T_Rparen \<or> T_If = T_Rbrace) (rev [(T_Name, C_semi), (T_Semi, C_newline)])) ! 0)
     = C_none
   \<and> (T_If = T_Rparen \<or> T_If = T_Rbrace \<or> fst ([(T_Name, C_semi), (T_Semi, C_newline)] ! 0) \<in> set semi_tokens
      \<and> (T_If = T_EOF \<or> C_newline \<in> snd ` set (drop (Suc 0) [(T_Name, C_semi), (T_Semi, C_newline)])))"
proof -
  have e: "snd (rev (eliminate (T_If = T_EOF) (T_If = T_Rparen \<or> T_If = T_Rbrace)
      (rev [(T_Name, C_semi), (T_Semi, C_newline)])) ! 0) = C_none" by simp
  then show ?thesis using elided_semicolons [OF _ _ e] by auto
qed

subsection \<open>One line\<close>

definition one_line :: "printer \<Rightarrow> bool" where
  "one_line p \<longleftrightarrow> \<not> pr_linebreaks p \<and> CHR 10 \<notin> set (pr_out p) \<and> C_newline \<notin> snd ` set (pr_pending p)"

lemma writeString_one_line: "one_line p \<Longrightarrow> CHR 10 \<notin> set s \<Longrightarrow> one_line (writeString s p)"
  by (auto simp: one_line_def writeString_def write_out_def print_panic_def Let_def)

lemma flush_space_one_line:
  "one_line (snd v) \<Longrightarrow> snd w \<noteq> C_newline \<Longrightarrow> one_line (snd (flush_space w v))"
  using writeString_one_line [of "snd v" "'';''"] writeString_one_line [of "snd v" "'' ''"]
  by (cases w; cases v; cases "snd w") (auto simp: flush_space_def one_line_def print_panic_def Let_def)

lemma flush_fold_one_line:
  "one_line (snd v) \<Longrightarrow> C_newline \<notin> snd ` set ws \<Longrightarrow> one_line (snd (fold flush_space ws v))"
proof (induction ws arbitrary: v)
  case (Cons w ws)
  then have "one_line (snd (flush_space w v))" by (intro flush_space_one_line) auto
  with Cons show ?case by simp
qed simp

lemma eliminate_newline: "C_newline \<notin> snd ` set ws \<Longrightarrow> C_newline \<notin> snd ` set (eliminate nl pa ws)"
  by (induction nl pa ws rule: eliminate.induct) (auto simp del: impliesSemi.simps)

lemma flush_one_line:
  assumes "one_line p"
  shows "one_line (flush t p)"
proof -
  let ?ws = "rev (eliminate (t = T_EOF) (t = T_Rparen \<or> t = T_Rbrace) (rev (pr_pending p)))"
  have "C_newline \<notin> snd ` set ?ws"
    using assms eliminate_newline [of "rev (pr_pending p)"] by (simp add: one_line_def)
  then have "one_line (snd (fold flush_space ?ws (C_none, p)))" by (intro flush_fold_one_line) (use assms in auto)
  then show ?thesis using assms
    by (auto simp: flush_def one_line_def print_panic_def Let_def case_prod_beta)
qed

lemma itoa_no_newline: "CHR 10 \<notin> set (itoa n)"
proof (induction n rule: itoa.induct)
  case (1 n)
  have b: "byte_of (48 + int k) \<noteq> CHR 10" if "k < 10" for k
  proof
    assume "byte_of (48 + int k) = CHR 10"
    then have "(48 + int k) mod 256 = rune_of (CHR 10)" using rune_of_byte_of by metis
    then show False using that by (simp add: rune_of_def)
  qed
  show ?case using 1 b [of n] b [of "n mod 10"] by (subst itoa.simps) auto
qed

lemma token_String_no_newline: "CHR 10 \<notin> set (token_String t)"
  using itoa_no_newline by (cases t) (simp_all add: token_String_def)

lemma Operator_String_no_newline: "CHR 10 \<notin> set (Operator_String o1)"
  using itoa_no_newline by (cases o1) (simp_all add: Operator_String_def)

lemma print_token_one_line: "one_line p \<Longrightarrow> CHR 10 \<notin> set s \<Longrightarrow> one_line (print_token t s p)"
  using flush_one_line [of p t] writeString_one_line [of "flush t p" s]
  by (auto simp: print_token_def addWhitespace_def one_line_def print_panic_def Let_def)

lemma print_item_one_line:
  assumes "one_line p" "\<And>s. i = NameI s \<Longrightarrow> CHR 10 \<notin> set s"
  shows "one_line (print_item i p)"
  using assms flush_one_line [of p T_Operator] writeString_one_line [of "flush T_Operator p"]
  by (cases i)
     (auto simp: print_item_def print_token_one_line token_String_no_newline Operator_String_no_newline Let_def,
      auto simp: addWhitespace_def one_line_def print_panic_def Let_def)

lemma print_fold_one_line:
  "one_line p \<Longrightarrow> (\<And>s. NameI s \<in> set is \<Longrightarrow> CHR 10 \<notin> set s) \<Longrightarrow> one_line (fold print_item is p)"
proof (induction "is" arbitrary: p)
  case (Cons i "is")
  then show ?case using print_item_one_line [of p i] by simp
qed simp

text \<open>In the forms without line breaks, the output is one line, unless a name or a literal contains a line break.\<close>

lemma print_one_line:
  assumes "fm \<noteq> DefaultForm" "\<And>s. NameI s \<in> set (print_items fm (PN n)) \<Longrightarrow> CHR 10 \<notin> set s"
  shows "CHR 10 \<notin> set (pr_out (Fprint n fm))"
proof -
  have "one_line (fold print_item (print_items fm (PN n)) (init_printer fm))"
    by (rule print_fold_one_line) (use assms in \<open>auto simp: one_line_def init_printer_def\<close>)
  then show ?thesis using flush_one_line by (auto simp: Fprint_def Let_def one_line_def)
qed

lemma print_one_line_witness: "CHR 10 \<notin> set (pr_out (Fprint (ExprN (BadExpr zero_Pos)) ShortForm))"
  by (rule print_one_line) (simp_all add: print_items.simps)

end
