(* ===== verification/Positions.thy ===== *)
theory Positions
  imports Walk
begin

text \<open>
  Start and end positions of nodes (\<open>positions.go\<close>).  Both functions are loops that descend the tree; one
  round either returns a position, goes on with a node, calls itself and adds columns, or panics on nil.
\<close>

datatype step = Ret Pos | Descend Node | After Node nat | NilPanic

fun decl_pos :: "Decl \<Rightarrow> Pos" where
  "decl_pos (ImportDecl p _ _ _ _) = p"
| "decl_pos (ConstDecl p _ _ _ _ _) = p"
| "decl_pos (TypeDecl p _ _ _ _ _ _) = p"
| "decl_pos (VarDecl p _ _ _ _ _) = p"
| "decl_pos (FuncDecl p _ _ _ _ _ _) = p"

text \<open>\<open>Pos\<close> of a node; \<open>None\<close> is the panic on a nil pointer.\<close>

fun node_pos :: "Node \<Rightarrow> Pos option" where
  "node_pos (FileN f) = Some (file_pos f)"
| "node_pos (DeclN d) = Some (decl_pos d)"
| "node_pos (ExprN e) = Some (expr_pos e)"
| "node_pos (FieldN f) = Some (f_pos f)"
| "node_pos (StmtN s) = Some (stmt_pos s)"
| "node_pos (CaseN (CaseClause p _ _ _)) = Some p"
| "node_pos (CommN (CommClause p _ _ _)) = Some p"
| "node_pos NilLitN = None"

subsection \<open>StartPos\<close>

fun start_step :: "Node \<Rightarrow> step" where
  "start_step (FileN f) = Ret (MakePos (Base (file_pos f)) 1 1)"
| "start_step (ExprN (CompositeLit p (Some t) _ _ _)) = Descend (ExprN t)"
| "start_step (ExprN (KeyValueExpr _ k _)) = Descend (ExprN k)"
| "start_step (ExprN (SelectorExpr _ x _)) = Descend (ExprN x)"
| "start_step (ExprN (IndexExpr _ x _)) = Descend (ExprN x)"
| "start_step (ExprN (AssertExpr _ x _)) = Descend (ExprN x)"
| "start_step (ExprN (TypeSwitchGuard _ l x)) = Descend (case l of Some n \<Rightarrow> name_node n | None \<Rightarrow> ExprN x)"
| "start_step (ExprN (Operation p _ x (Some _))) = Descend (ExprN x)"
| "start_step (ExprN (CallExpr _ f _ _)) = Descend (ExprN f)"
| "start_step (ExprN (ListExpr _ (e # _))) = Descend (ExprN e)"
| "start_step (StmtN (SendStmt _ c _)) = Descend (ExprN c)"
| "start_step (StmtN (AssignStmt _ _ l _)) = Descend (ExprN l)"
| "start_step (StmtN (RangeClause _ l _ x)) = Descend (ExprN (case l of Some e \<Rightarrow> e | None \<Rightarrow> x))"
| "start_step n = (case node_pos n of Some p \<Rightarrow> Ret p | None \<Rightarrow> NilPanic)"

subsection \<open>EndPos\<close>

text \<open>The position \<open>k\<close> columns after another one.\<close>

definition pos_after :: "Pos \<Rightarrow> nat \<Rightarrow> Pos" where
  "pos_after p k = MakePos (Base p) (Line p) (Col p + of_nat k)"

definition last_option :: "'a list \<Rightarrow> 'a option" where
  "last_option xs = (if xs = [] then None else Some (last xs))"

text \<open>The first of some nodes that is there, or else a position.\<close>

definition descend_or :: "Node option list \<Rightarrow> Pos \<Rightarrow> step" where
  "descend_or ns p = (case concat (map (\<lambda>n. case n of None \<Rightarrow> [] | Some m \<Rightarrow> [m]) ns) of [] \<Rightarrow> Ret p | m # _ \<Rightarrow> Descend m)"

fun end_decl :: "Decl \<Rightarrow> step" where
  "end_decl (ImportDecl _ _ _ _ path) = (case path of Some b \<Rightarrow> Descend (lit_node b) | None \<Rightarrow> NilPanic)"
| "end_decl (ConstDecl p _ _ ns t v) =
     descend_or [map_option ExprN v, map_option ExprN t, map_option name_node (last_option ns)] p"
| "end_decl (TypeDecl _ _ _ _ _ _ t) = Descend (ExprN t)"
| "end_decl (VarDecl p _ _ ns t v) =
     descend_or [map_option ExprN v, map_option ExprN t, map_option name_node (last_option ns)] p"
| "end_decl (FuncDecl _ _ _ _ _ t b) = Descend (case b of Some b \<Rightarrow> block_node b | None \<Rightarrow> func_node t)"

text \<open>In the case of \<open>SliceExpr\<close>, the \<open>continue\<close> in the loop over the indices goes on with that inner loop, not with
  the outer one.\<close>

fun end_expr :: "Expr \<Rightarrow> step" where
  "end_expr (BadExpr p) = Ret p"
| "end_expr (NameE n) = Ret (pos_after (n_pos n) (length (n_value n)))"
| "end_expr (LitE b) = Ret (pos_after (l_pos b) (length (l_value b)))"
| "end_expr (CompositeLit _ _ _ _ rb) = Ret rb"
| "end_expr (KeyValueExpr _ _ v) = Descend (ExprN v)"
| "end_expr (FuncLit _ _ b) = Descend (block_node b)"
| "end_expr (ParenExpr _ x) = Descend (ExprN x)"
| "end_expr (SelectorExpr _ _ s) = Descend (name_node s)"
| "end_expr (IndexExpr _ _ i) = Descend (ExprN i)"
| "end_expr (SliceExpr _ x _ _ _ _) = Descend (ExprN x)"
| "end_expr (AssertExpr _ _ t) = Descend (ExprN t)"
| "end_expr (TypeSwitchGuard _ _ x) = Descend (ExprN x)"
| "end_expr (Operation _ _ x y) = Descend (ExprN (case y of Some y \<Rightarrow> y | None \<Rightarrow> x))"
| "end_expr (CallExpr _ f as _) = Descend (ExprN (case last_option as of Some a \<Rightarrow> a | None \<Rightarrow> f))"
| "end_expr (ListExpr p es) = descend_or [map_option ExprN (last_option es)] p"
| "end_expr (ArrayType _ _ t) = Descend (ExprN t)"
| "end_expr (SliceType _ t) = Descend (ExprN t)"
| "end_expr (DotsType _ t) = Descend (ExprN t)"
| "end_expr (StructType p fs _) = descend_or [map_option FieldN (last_option fs)] p"
| "end_expr (InterfaceType p ms) = descend_or [map_option FieldN (last_option ms)] p"
| "end_expr (FuncTypeE (FuncType p ps rs)) =
     descend_or [map_option FieldN (last_option rs), map_option FieldN (last_option ps)] p"
| "end_expr (MapType _ _ v) = Descend (ExprN v)"
| "end_expr (ChanType _ _ t) = Descend (ExprN t)"

fun end_stmt :: "Stmt \<Rightarrow> step" where
  "end_stmt (EmptyStmt p) = Ret p"
| "end_stmt (LabeledStmt _ _ _ s) = Descend (StmtN s)"
| "end_stmt (BlockS (Block _ _ rb)) = Ret rb"
| "end_stmt (ExprStmt _ x) = Descend (ExprN x)"
| "end_stmt (SendStmt _ _ v) = Descend (ExprN v)"
| "end_stmt (DeclStmt p ds) = descend_or [map_option DeclN (last_option ds)] p"
| "end_stmt (AssignStmt _ _ l r) = (case r of Some r \<Rightarrow> Descend (ExprN r) | None \<Rightarrow> After (ExprN l) 2)"
| "end_stmt (BranchStmt _ p _ l) = descend_or [map_option name_node l] p"
| "end_stmt (CallStmt _ _ c) = Descend (ExprN c)"
| "end_stmt (ReturnStmt p r) = descend_or [map_option ExprN r] p"
| "end_stmt (IfStmt _ _ _ t e) = Descend (case e of Some e \<Rightarrow> StmtN e | None \<Rightarrow> block_node t)"
| "end_stmt (ForStmt _ _ _ _ _ b) = Descend (block_node b)"
| "end_stmt (SwitchStmt _ _ _ _ _ rb) = Ret rb"
| "end_stmt (SelectStmt _ _ _ rb) = Ret rb"
| "end_stmt (RangeClause _ _ _ x) = Descend (ExprN x)"
| "end_stmt (CheckStmt p _) = Ret p"

fun end_step :: "Node \<Rightarrow> step" where
  "end_step (FileN f) = Ret (file_EOF f)"
| "end_step (DeclN d) = end_decl d"
| "end_step (ExprN e) = end_expr e"
| "end_step (FieldN (Field _ n t)) =
     (case t of Some t \<Rightarrow> Descend (ExprN t)
      | None \<Rightarrow> (case n of Some n \<Rightarrow> Descend (name_node n) | None \<Rightarrow> NilPanic))"
| "end_step (StmtN s) = end_stmt s"
| "end_step (CaseN (CaseClause _ _ b c)) = descend_or [map_option StmtN (last_option b)] c"
| "end_step (CommN (CommClause _ _ b c)) = descend_or [map_option StmtN (last_option b)] c"
| "end_step NilLitN = NilPanic"

subsection \<open>The loops\<close>

definition goes_to :: "step \<Rightarrow> Node \<Rightarrow> bool" where
  "goes_to s m \<longleftrightarrow> s = Descend m \<or> (\<exists>k. s = After m k)"

lemma goes_to_simps [simp]:
  "goes_to (Ret p) m \<longleftrightarrow> False" "goes_to (Descend n) m \<longleftrightarrow> m = n" "goes_to (After n k) m \<longleftrightarrow> m = n" "goes_to NilPanic m \<longleftrightarrow> False"
  by (auto simp: goes_to_def)

lemma goes_to_descend_or: "goes_to (descend_or ns p) m \<Longrightarrow> Some m \<in> set ns"
  by (auto simp: descend_or_def split: list.splits option.splits dest!: arg_cong [of _ _ set])

lemma last_option_in: "last_option xs = Some x \<Longrightarrow> x \<in> set xs"
  by (auto simp: last_option_def split: if_splits)

text \<open>Both loops only ever go to children of a node.\<close>

lemma end_expr_child: "goes_to (end_expr e) m \<Longrightarrow> Some m \<in> set (expr_children e)"
  by (cases e rule: end_expr.cases)
     (auto dest!: goes_to_descend_or last_option_in split: option.splits simp: map_option_case)

lemma end_stmt_child: "goes_to (end_stmt s) m \<Longrightarrow> Some m \<in> set (stmt_children s)"
  by (cases s rule: end_stmt.cases)
     (auto dest!: goes_to_descend_or last_option_in split: option.splits simp: map_option_case)

lemma end_decl_child: "goes_to (end_decl d) m \<Longrightarrow> Some m \<in> set (decl_children d)"
  by (cases d rule: end_decl.cases)
     (auto dest!: goes_to_descend_or last_option_in split: option.splits simp: map_option_case)

lemma end_step_child: "goes_to (end_step n) m \<Longrightarrow> Some m \<in> set (child_nodes n)"
  by (cases n rule: end_step.cases)
     (auto dest!: goes_to_descend_or last_option_in split: option.splits
       simp: map_option_case end_expr_child end_stmt_child end_decl_child)

lemma start_step_child: "goes_to (start_step n) m \<Longrightarrow> Some m \<in> set (child_nodes n)"
  by (cases n rule: start_step.cases) (auto split: option.splits simp: all_children_def)

function EndPos :: "Node \<Rightarrow> Pos option" where
  "EndPos n =
     (case end_step n of
        Ret p \<Rightarrow> Some p
      | Descend m \<Rightarrow> EndPos m
      | After m k \<Rightarrow> map_option (\<lambda>p. pos_after p k) (EndPos m)
      | NilPanic \<Rightarrow> None)"
  by pat_completeness auto
termination
  by (relation "measure node_size") (auto intro!: child_nodes_less end_step_child)

function node_StartPos :: "Node \<Rightarrow> Pos option" where
  "node_StartPos n =
     (case start_step n of
        Ret p \<Rightarrow> Some p
      | Descend m \<Rightarrow> node_StartPos m
      | After m k \<Rightarrow> None
      | NilPanic \<Rightarrow> None)"
  by pat_completeness auto
termination
  by (relation "measure node_size") (auto intro!: child_nodes_less start_step_child)

declare EndPos.simps [simp del] node_StartPos.simps [simp del]

subsection \<open>Properties\<close>

text \<open>The loop of \<open>StartPos\<close> and the recursive function that the model of the parser uses agree on expressions.\<close>

lemma start_pos_loop: "node_StartPos (ExprN e) = Some (StartPos e)"
  by (induction e rule: StartPos.induct)
     (subst node_StartPos.simps; simp add: node_StartPos.simps [of "ExprN (NameE _)"] split: option.split)+

text \<open>Where a traversal of the whole tree does not panic, and meets no nil pointer, neither does \<open>EndPos\<close>.\<close>

lemma visits_child:
  assumes "Some m \<in> set (child_nodes n)"
  shows "set (visits (\<lambda>_. True) m) \<subseteq> set (visits (\<lambda>_. True) n)"
  using assms by (subst (2) visits.simps) (auto intro!: bexI [of _ "Some m"])

lemma present_child: "present (\<lambda>_. True) n \<Longrightarrow> Some m \<in> set (child_nodes n) \<Longrightarrow> present (\<lambda>_. True) m"
  by (subst (asm) present.simps) (auto simp: list_all_iff)

lemma end_step_ok:
  assumes "end_step n = NilPanic"
  shows "None \<in> set (child_nodes n) \<or> Some NilLitN \<in> set (child_nodes n) \<or> n = NilLitN"
proof (cases n rule: end_step.cases)
  case (2 d)
  then show ?thesis using assms by (cases d) (auto simp: descend_or_def split: option.splits list.splits)
next
  case (3 e)
  then show ?thesis using assms by (cases e rule: end_expr.cases) (auto simp: descend_or_def split: list.splits)
next
  case (5 s)
  then show ?thesis using assms
    by (cases s rule: end_stmt.cases) (auto simp: descend_or_def split: list.splits option.splits)
qed (use assms in \<open>auto simp: descend_or_def split: option.splits list.splits\<close>)

text \<open>C37: \<open>EndPos\<close> returns a position for every tree that can be traversed completely and has no import without a path.\<close>

theorem end_pos_total:
  assumes "present (\<lambda>_. True) n" "Some NilLitN \<notin> set (visits (\<lambda>_. True) n)"
  shows "\<exists>p. EndPos n = Some p"
  using assms
proof (induction n rule: EndPos.induct)
  case (1 n)
  have go: "\<exists>p. EndPos m = Some p" if "goes_to (end_step n) m" for m
  proof -
    have c: "Some m \<in> set (child_nodes n)" by (rule end_step_child [OF that])
    have "Some NilLitN \<notin> set (visits (\<lambda>_. True) m)" using visits_child [OF c] "1.prems"(2) by blast
    with "1.IH" present_child [OF "1.prems"(1) c] that show ?thesis by (auto simp: goes_to_def)
  qed
  show ?case
  proof (cases "end_step n")
    case NilPanic
    have "None \<notin> set (child_nodes n)" using "1.prems"(1) by (subst (asm) present.simps) (auto simp: list_all_iff)
    moreover have "Some NilLitN \<notin> set (child_nodes n)" "n \<noteq> NilLitN"
      using "1.prems"(2) visits_child [of NilLitN n] by (auto simp: visits.simps [of _ NilLitN])
    ultimately show ?thesis using end_step_ok [OF NilPanic] by blast
  qed (use go in \<open>auto simp: EndPos.simps [of n]\<close>)
qed

theorem end_pos_total_witness:
  "present (\<lambda>_. True) (ExprN (BadExpr zero_Pos)) \<and> (\<exists>p. EndPos (ExprN (BadExpr zero_Pos)) = Some p)"
proof -
  have "present (\<lambda>_. True) (ExprN (BadExpr zero_Pos))" by (simp add: present.simps)
  then show ?thesis
    using end_pos_total [of "ExprN (BadExpr zero_Pos)"] by (simp add: visits.simps)
qed

text \<open>\<open>EndPos\<close> ignores the indices of a slice expression and the condition of a check statement: the end of \<open>x[i:j]\<close> is the
  end of \<open>x\<close>, and the end of a check statement is its start.\<close>

lemma end_pos_too_early:
  "EndPos (ExprN (SliceExpr p x i j k f)) = EndPos (ExprN x) \<and> EndPos (StmtN (CheckStmt p c)) = Some p"
  by (simp add: EndPos.simps [of "ExprN (SliceExpr p x i j k f)"] EndPos.simps [of "StmtN (CheckStmt p c)"])

end
