(* ===== verification/Tree_Props.thy ===== *)
theory Tree_Props
  imports Parser_Props Printer_Props Positions
begin

text \<open>
  Properties that span the parser, the printer and the positions: the parser with the printer for its messages, and where
  printing or positions go wrong on trees that the parser builds.
\<close>

subsection \<open>The parser with the printer\<close>

text \<open>\<open>String\<close> as the parser uses it in messages.\<close>

definition printer_externs :: "(string \<Rightarrow> string option) \<Rightarrow> externs" where
  "printer_externs gv =
     \<lparr>x_String = (\<lambda>e. pr_out (Fprint (ExprN e) ShortForm)), x_StmtString = (\<lambda>s. pr_out (Fprint (StmtN s) ShortForm)),
      x_GoVersion = gv\<rparr>"

lemma assignment_as_condition:
  "map snd (ps_errs (snd (parse_state (printer_externs (\<lambda>_. None)) (Some 0) [] ''package p;func f(){if a=b+c{}}'' True None 0)))
     = [''syntax error: cannot use assignment a = (b + c) as value'']"
  by code_simp

subsection \<open>Departures from the documentation\<close>

text \<open>Printing merges adjacent operators: the negation of a negation is printed as two minus signs without a space, which
  the scanner reads as the decrement operator.\<close>

lemma printing_merges_operators:
  "node_String (ExprN (Operation zero_Pos Op_Sub (Operation zero_Pos Op_Sub (NameE (NewName zero_Pos ''y'')) None) None))
     = Some ''--y''
   \<and> tok (scan_n ''--y'' 0 1) = T_IncOp"
proof (intro conjI)
  show "node_String (ExprN (Operation zero_Pos Op_Sub (Operation zero_Pos Op_Sub (NameE (NewName zero_Pos ''y'')) None) None))
     = Some ''--y''" by code_simp
  show "tok (scan_n ''--y'' 0 1) = T_IncOp" by code_simp
qed

text \<open>The operand of an address operation is parsed without its parentheses, and printed without them: the
  text of the address of a sum in parentheses is that of the sum of an address and an operand.\<close>

definition expr_text :: "string \<Rightarrow> string option" where
  "expr_text src = node_String (ExprN (fst (r_binaryExpr (knot (knot_fuel src)) None 0 (sample_parser src))))"

lemma address_operand_parentheses_lost:
  "expr_text ''&(a+b)'' = Some ''&a + b'' \<and> expr_text ''&a+b'' = Some ''&a + b''"
  by (intro conjI) code_simp+

text \<open>A labeled statement alone cannot be printed: the label is written one level further out than the statement.\<close>

lemma labeled_statement_panics:
  "node_String (StmtN (LabeledStmt 0 zero_Pos (NewName zero_Pos ''L'') (EmptyStmt zero_Pos))) = None"
  by code_simp

text \<open>Whether a source is parsed without an error, and whether printing it panics.\<close>

definition sample_print :: "string \<Rightarrow> (bool \<times> bool) option" where
  "sample_print src =
     (let (f, p) = sample_parse src True 0
      in map_option (\<lambda>f. (ps_errs p = [], pr_panic (Fprint (FileN f) DefaultForm))) f)"

text \<open>The printer panics on valid programs: on a check statement, for which it has no case, on an enumeration in a
  function, which is a group of declarations without a group, and on an empty group of declarations in a
  function.\<close>

lemma print_panics_on_valid_programs:
  "sample_print ''package p;func f(){check x}'' = Some (True, True)
   \<and> sample_print ''package p;func f(){enum E{A,B}}'' = Some (True, True)
   \<and> sample_print ''package p;func f(){var()}'' = Some (True, True)"
proof (intro conjI)
  show "sample_print ''package p;func f(){check x}'' = Some (True, True)" by code_simp
  show "sample_print ''package p;func f(){enum E{A,B}}'' = Some (True, True)" by code_simp
  show "sample_print ''package p;func f(){var()}'' = Some (True, True)" by code_simp
qed

text \<open>The start of a slice expression is the position of its bracket, one column after its operand here.\<close>

lemma start_pos_of_slice:
  "Col (StartPos (fst (r_binaryExpr (knot (knot_fuel ''a[1:2]'')) None 0 (sample_parser ''a[1:2]'')))) = 2"
  by code_simp

end
