(* ===== verification/Literals.thy ===== *)
theory Literals
  imports Scanner_Props
begin

text \<open>
  Literals: the digit separators of \<open>invalidSep\<close>, and the 32-bit arithmetic of numeric escapes.
\<close>

subsection \<open>Digit separators\<close>

text \<open>A digit of a literal; the digits of a hexadecimal literal (\<open>x1\<close> is \<open>x\<close>) include the letters.\<close>

definition sep_digit :: "rune \<Rightarrow> char \<Rightarrow> bool" where
  "sep_digit x1 c \<longleftrightarrow> isDecimal (rune_of c) \<or> x1 = 120 \<and> isHex (rune_of c)"

definition us :: char where "us = CHR ''_''"

lemma us_facts [simp]: "\<not> sep_digit x1 us" "rune_of us = 95"
  by (simp_all add: sep_digit_def isDecimal_def isHex_def lower_def us_def rune_of_def)

lemma rune_of_us: "rune_of c = 95 \<longleftrightarrow> c = us"
  using rune_of_inject [of c us] by (simp del: rune_of_inject)

text \<open>Every separator of \<open>xs\<close> stands between two digits; \<open>p\<close> is the class of what precedes \<open>xs\<close>.\<close>

definition separated :: "rune \<Rightarrow> rune \<Rightarrow> string \<Rightarrow> bool" where
  "separated x1 p xs \<longleftrightarrow> (p = 95 \<longrightarrow> xs \<noteq> [] \<and> sep_digit x1 (xs ! 0))
     \<and> (\<forall>i < length xs. xs ! i = us \<longrightarrow>
          (case i of 0 \<Rightarrow> p = 48 | Suc j \<Rightarrow> sep_digit x1 (xs ! j))
          \<and> Suc i < length xs \<and> sep_digit x1 (xs ! Suc i))"

lemma all_less_Suc_split: "(\<forall>i < Suc n. P i) \<longleftrightarrow> P 0 \<and> (\<forall>i < n. P (Suc i))"
  using less_Suc_eq_0_disj by auto

definition sep_class :: "rune \<Rightarrow> char \<Rightarrow> rune" where
  "sep_class x1 c = (if c = us then 95 else if sep_digit x1 c then 48 else 46)"

lemma separated_Cons:
  "separated x1 p (c # cs) \<longleftrightarrow>
     (p = 95 \<longrightarrow> sep_digit x1 c) \<and> (c = us \<longrightarrow> p = 48) \<and> separated x1 (sep_class x1 c) cs"
proof -
  have s: "(case i of 0 \<Rightarrow> sep_class x1 c = 48 | Suc j \<Rightarrow> sep_digit x1 (cs ! j)) \<longleftrightarrow> sep_digit x1 ((c # cs) ! i)"
    for i by (cases i) (auto simp: sep_class_def)
  have n: "sep_class x1 c = 95 \<longleftrightarrow> c = us" by (auto simp: sep_class_def)
  show ?thesis unfolding separated_def s n by (auto simp: all_less_Suc_split)
qed

lemma invalidSep_loop_step:
  "invalidSep_loop x1 p i (c # cs) =
     (if c = us then (if p \<noteq> 48 then int i else invalidSep_loop x1 95 (Suc i) cs)
      else if sep_digit x1 c then invalidSep_loop x1 48 (Suc i) cs
      else if p = 95 then int i - 1 else invalidSep_loop x1 46 (Suc i) cs)"
  by (auto simp: Let_def rune_of_us sep_digit_def)

lemma invalidSep_loop_ok:
  assumes "p \<in> {48, 95, 46}" "p = 95 \<longrightarrow> 0 < i"
  shows "invalidSep_loop x1 p i cs = -1 \<longleftrightarrow> separated x1 p cs"
  using assms
proof (induction cs arbitrary: p i)
  case Nil
  then show ?case by (auto simp: separated_def)
next
  case (Cons c cs)
  then show ?case
    unfolding separated_Cons invalidSep_loop_step using Cons.IH [of "sep_class x1 c" "Suc i"]
    by (auto simp: sep_class_def)
qed

text \<open>The index that \<open>invalidSep\<close> reports is that of a separator.\<close>

lemma invalidSep_loop_index:
  assumes "p = 95 \<longrightarrow> 0 < i \<and> x ! (i - 1) = us" "i \<le> length x" "0 \<le> invalidSep_loop x1 p i (drop i x)"
  shows "nat (invalidSep_loop x1 p i (drop i x)) < length x
     \<and> x ! nat (invalidSep_loop x1 p i (drop i x)) = us"
  using assms
proof (induction "length x - i" arbitrary: p i)
  case 0
  then show ?case by (auto simp: nat_diff_distrib')
next
  case (Suc n)
  then have l: "i < length x" by simp
  then have d: "drop i x = x ! i # drop (Suc i) x" by (simp add: Cons_nth_drop_Suc)
  show ?case
  proof (cases "x ! i = us")
    case True
    then show ?thesis
      using Suc.hyps(1) [of "Suc i" 95] Suc.hyps(2) Suc.prems l unfolding d invalidSep_loop_step
      by (auto split: if_splits)
  next
    case False
    then show ?thesis
      using Suc.hyps(1) [of "Suc i" 48] Suc.hyps(1) [of "Suc i" 46] Suc.hyps(2) Suc.prems l
      unfolding d invalidSep_loop_step by (auto simp: nat_diff_distrib' split: if_splits)
  qed
qed

definition has_prefix :: "string \<Rightarrow> bool" where
  "has_prefix x \<longleftrightarrow> length x \<ge> 2 \<and> x ! 0 = CHR ''0'' \<and> lower (rune_of (x ! 1)) \<in> {120, 111, 98}"

text \<open>The separators of a literal are well placed: a prefix counts as a digit.\<close>

definition well_separated :: "string \<Rightarrow> bool" where
  "well_separated x \<longleftrightarrow>
     (if has_prefix x then separated (lower (rune_of (x ! 1))) 48 (drop 2 x) else separated 32 46 x)"

lemma separated_nonhex: "x1 \<noteq> 120 \<Longrightarrow> separated x1 p xs = separated 32 p xs"
proof -
  assume "x1 \<noteq> 120"
  then have "sep_digit x1 = sep_digit 32" by (intro ext) (simp add: sep_digit_def)
  then show ?thesis by (simp only: separated_def)
qed

lemma invalidSep_cases:
  obtains (prefix) "has_prefix x" "invalidSep x = invalidSep_loop (lower (rune_of (x ! 1))) 48 2 (drop 2 x)"
  | (plain) x1 where "\<not> has_prefix x" "x1 \<noteq> 120" "invalidSep x = invalidSep_loop x1 46 0 (drop 0 x)"
proof (cases "has_prefix x")
  case True
  then show thesis by (intro prefix) (auto simp: invalidSep_def has_prefix_def Let_def)
next
  case False
  show thesis
  proof (cases "length x \<ge> 2 \<and> x ! 0 = CHR ''0''")
    case True
    with False show thesis
      by (intro plain [of "lower (rune_of (x ! 1))"]) (auto simp: invalidSep_def has_prefix_def Let_def)
  next
    case no: False
    then have "invalidSep x = invalidSep_loop 32 46 0 x" unfolding invalidSep_def by argo
    with False show thesis by (intro plain [of 32]) simp_all
  qed
qed

lemma invalidSep_iff: "invalidSep x = -1 \<longleftrightarrow> well_separated x"
proof (cases rule: invalidSep_cases [of x])
  case prefix
  then show ?thesis by (simp add: well_separated_def invalidSep_loop_ok)
next
  case (plain x1)
  then show ?thesis using separated_nonhex [of x1] by (simp add: well_separated_def invalidSep_loop_ok)
qed

lemma invalidSep_index:
  assumes "0 \<le> invalidSep x"
  shows "nat (invalidSep x) < length x \<and> x ! nat (invalidSep x) = us"
proof (cases rule: invalidSep_cases [of x])
  case prefix
  then show ?thesis
    using assms invalidSep_loop_index [of 48 2 x] by (simp add: has_prefix_def)
next
  case (plain x1)
  then show ?thesis using assms invalidSep_loop_index [of 46 0 x x1] by simp
qed

subsection \<open>Numeric escapes\<close>

text \<open>The value of a digit as a number, and the characters the loop looks at.\<close>

definition digit_val :: "rune \<Rightarrow> nat" where
  "digit_val c = (if isDecimal c then nat (c - 48) else nat (lower c - 97 + 10))"

definition next_chars :: "nat \<Rightarrow> 'a source_scheme \<Rightarrow> rune list" where
  "next_chars n s = map (\<lambda>k. ch ((nextch ^^ k) s)) [0..<n]"

definition base_value :: "nat \<Rightarrow> rune list \<Rightarrow> nat" where
  "base_value b cs = foldl (\<lambda>v c. v * b + digit_val c) 0 cs"

lemma unat_of_int_32: "0 \<le> i \<Longrightarrow> i < 2 ^ 32 \<Longrightarrow> unat (of_int i :: 32 word) = nat i"
  by (simp add: unsigned_of_int take_bit_int_eq_self)

lemma unat_mult_add_32:
  "unat x * unat y + unat z < 2 ^ 32 \<Longrightarrow> unat (x * y + z) = unat x * unat y + unat z" for x y z :: "32 word"
  by (simp add: unat_word_ariths)

lemma escape_digit_val:
  assumes "escape_digit c base < base"
  shows "unat (escape_digit c base) = digit_val c"
proof -
  consider (dec) "isDecimal c" | (hex) "\<not> isDecimal c" "97 \<le> lower c" "lower c \<le> 102"
    using assms by (auto simp: escape_digit_def split: if_splits)
  then show ?thesis
  proof cases
    case dec
    then have "unat (of_int (c - 48) :: 32 word) = nat (c - 48)"
      by (intro unat_of_int_32) (auto simp: isDecimal_def)
    moreover have "escape_digit c base = of_int (c - 48)" using dec by (simp add: escape_digit_def)
    ultimately show ?thesis using dec by (simp only: digit_val_def if_True)
  next
    case hex
    then have "unat (of_int (lower c - 97 + 10) :: 32 word) = nat (lower c - 97 + 10)"
      by (intro unat_of_int_32) auto
    moreover have "escape_digit c base = of_int (lower c - 97 + 10)" using hex by (simp add: escape_digit_def)
    ultimately show ?thesis using hex by (simp only: digit_val_def if_False)
  qed
qed

text \<open>If the bound leaves room for all digits, the loop computes the value without wrap-around.\<close>

lemma escape_loop_value:
  assumes "escape_loop n base x s = (EscValue y, t)" "(unat x + 1) * unat base ^ n \<le> 2 ^ 32"
  shows "unat y = foldl (\<lambda>v c. v * unat base + digit_val c) (unat x) (next_chars n s)
     \<and> unat y < (unat x + 1) * unat base ^ n \<and> t = (nextch ^^ n) s"
  using assms
proof (induction n arbitrary: x s)
  case 0
  then show ?case by (simp add: next_chars_def)
next
  case (Suc n)
  let ?d = "escape_digit (ch s) base"
  have d: "?d < base" and e: "escape_loop n base (x * base + ?d) (nextch s) = (EscValue y, t)"
    using Suc.prems(1) by (auto simp: Let_def split: if_splits)
  have v: "unat ?d = digit_val (ch s)" "unat ?d < unat base"
    using escape_digit_val [OF d] d by (simp_all add: word_less_nat_alt)
  have b: "0 < unat base" using v(2) by simp
  have le: "unat x * unat base + unat ?d + 1 \<le> (unat x + 1) * unat base" using v(2) by simp
  have "(unat x * unat base + unat ?d + 1) * unat base ^ n \<le> (unat x + 1) * unat base ^ Suc n"
    using mult_le_mono1 [OF le, of "unat base ^ n"] by (simp add: algebra_simps)
  with Suc.prems(2) have fit: "(unat x * unat base + unat ?d + 1) * unat base ^ n \<le> 2 ^ 32" by linarith
  have one: "1 \<le> unat base ^ n" using b by simp
  have "unat x * unat base + unat ?d + 1 \<le> (unat x * unat base + unat ?d + 1) * unat base ^ n"
    using mult_le_mono2 [OF one, of "unat x * unat base + unat ?d + 1"] by simp
  then have "unat x * unat base + unat ?d < 2 ^ 32" using fit by linarith
  then have u: "unat (x * base + ?d) = unat x * unat base + unat ?d" by (rule unat_mult_add_32)
  have c: "next_chars (Suc n) s = ch s # next_chars n (nextch s)"
    unfolding next_chars_def by (simp add: upt_rec [of 0] funpow_swap1 map_Suc_upt [symmetric] comp_def del: upt_Suc)
  from Suc.IH [OF e] fit u le v(1)
    \<open>(unat x * unat base + unat ?d + 1) * unat base ^ n \<le> (unat x + 1) * unat base ^ Suc n\<close>
  show ?case by (simp add: c funpow_swap1)
qed

lemma escape_loop_base_value:
  assumes "escape_loop n base 0 s = (EscValue y, t)" "unat base ^ n \<le> 2 ^ 32"
  shows "unat y = base_value (unat base) (next_chars n s) \<and> unat y < unat base ^ n \<and> t = (nextch ^^ n) s"
  using escape_loop_value [OF assms(1)] assms(2) by (simp add: base_value_def)

subsection \<open>Properties\<close>

text \<open>\<open>invalidSep\<close> finds nothing exactly if every separator of the literal stands between two digits (a
  base prefix counts as a digit, and hexadecimal literals have more digits); otherwise it returns the index
  of a separator.\<close>

lemma separator_check:
  "(invalidSep x = -1 \<longleftrightarrow> well_separated x)
   \<and> (0 \<le> invalidSep x \<longrightarrow> nat (invalidSep x) < length x \<and> x ! nat (invalidSep x) = CHR ''_'')"
  using invalidSep_iff [of x] invalidSep_index [of x] by (simp add: us_def)

lemma separator_check_witness:
  "0 \<le> invalidSep ''1__0'' \<and> nat (invalidSep ''1__0'') < length ''1__0''
   \<and> ''1__0'' ! nat (invalidSep ''1__0'') = CHR ''_''"
proof -
  have "0 \<le> invalidSep ''1__0''" by code_simp
  with separator_check [of "''1__0''"] show ?thesis by blast
qed

text \<open>The value of a numeric escape is computed without wrap-around: for each of the four forms the
  32-bit accumulator ends as the value of the digits read, which is below the base to the power of
  their number.\<close>

lemma escape_value_exact:
  assumes "(n, base) \<in> {(3, 8), (2, 16), (4, 16), (8, 16 :: 32 word)}"
    and "escape_loop n base 0 s = (EscValue y, t)"
  shows "unat y = base_value (unat base) (next_chars n s) \<and> unat y < unat base ^ n"
proof -
  have "unat base ^ n \<le> 2 ^ 32" using assms(1) by auto
  with escape_loop_base_value [OF assms(2)] show ?thesis by simp
qed

lemma escape_value_exact_witness:
  "let s = nextch (scanner_init ''41z'' 0); r = escape_loop 2 16 0 s in
   fst r = EscValue 65 \<and> unat (65 :: 32 word) = base_value (unat (16 :: 32 word)) (next_chars 2 s)"
proof -
  let ?s = "nextch (scanner_init ''41z'' 0)"
  have r: "fst (escape_loop 2 16 0 ?s) = EscValue 65" by code_simp
  then have e: "escape_loop 2 16 0 ?s = (EscValue 65, snd (escape_loop 2 16 0 ?s))" by (metis prod.collapse)
  have "unat (65 :: 32 word) = base_value (unat (16 :: 32 word)) (next_chars 2 ?s)"
    using escape_value_exact [OF _ e] by blast
  with r show ?thesis unfolding Let_def by blast
qed

text \<open>An escape whose digits are all read is accepted exactly if its value is at most the limit of its
  form and no surrogate, and a rejected one is reported.\<close>

lemma escape_number_accepts:
  assumes "escape_loop n base 0 s = (EscValue y, t)"
  shows "(fst (escape_number n base maxi s) \<longleftrightarrow> y \<le> maxi \<and> \<not> (0xD800 \<le> y \<and> y < 0xE000))
    \<and> (fst (escape_number n base maxi s) \<longleftrightarrow> errs (snd (escape_number n base maxi s)) = errs t)"
  using assms by (auto simp: escape_number_def errorf_def error_def errh_def not_le case_prod_beta)

lemma escape_number_accepts_witness:
  "let s = nextch (scanner_init ''777'' 0) in
   fst (escape_loop 3 8 0 s) = EscValue 511 \<and> \<not> fst (escape_number 3 8 255 s)"
proof -
  let ?s = "nextch (scanner_init ''777'' 0)"
  have r: "fst (escape_loop 3 8 0 ?s) = EscValue 511" by code_simp
  then have e: "escape_loop 3 8 0 ?s = (EscValue 511, snd (escape_loop 3 8 0 ?s))" by (metis prod.collapse)
  have "\<not> fst (escape_number 3 8 255 ?s)" using escape_number_accepts [OF e, of 255] by simp
  with r show ?thesis unfolding Let_def by blast
qed

end
