(* ===== verification/Utf8_Strings.thy ===== *)
theory Utf8_Strings
  imports Utf8
begin

text \<open>
  The functions of \<open>utf8.go\<close> that go over a whole byte slice: \<open>Valid\<close>, \<open>RuneCount\<close>,
  \<open>RuneCountInString\<close> and \<open>DecodeLastRune\<close>.  A loop over an index has the rest of the slice as its
  argument; \<open>range\<close> over a string decodes one rune per round.  The lemmas show that they agree with
  the encoding of sequences of runes.
\<close>

subsection \<open>Counting\<close>

function RuneCountInString :: "string \<Rightarrow> nat" where
  "RuneCountInString s = (if s = [] then 0 else Suc (RuneCountInString (drop (snd (DecodeRune s)) s)))"
  by pat_completeness auto
termination
  by (relation "measure length") (use DecodeRune_width in auto)

declare RuneCountInString.simps [simp del]

fun rune_count_loop :: "nat \<Rightarrow> string \<Rightarrow> nat" where
  "rune_count_loop n [] = n"
| "rune_count_loop n (c # p) =
     (if rune_of c \<ge> RuneSelf then n + RuneCountInString (c # p) else rune_count_loop (n + 1) p)"

definition RuneCount :: "string \<Rightarrow> nat" where
  "RuneCount p = rune_count_loop 0 p"

subsection \<open>Validation\<close>

text \<open>Four bytes as a little-endian 32-bit number.\<close>

definition load32 :: "string \<Rightarrow> nat \<Rightarrow> int" where
  "load32 p i = byte_at p i OR push_bit 8 (byte_at p (i + 1)) OR push_bit 16 (byte_at p (i + 2))
     OR push_bit 24 (byte_at p (i + 3))"

function skip_ascii :: "string \<Rightarrow> string" where
  "skip_ascii p =
     (if length p \<ge> 8 then
        if (load32 p 0 OR load32 p 4) AND 0x80808080 \<noteq> 0 then p else skip_ascii (drop 8 p)
      else p)"
  by pat_completeness auto
termination
  by (relation "measure length") auto

declare skip_ascii.simps [simp del]

lemma starter_size:
  assumes "\<not> rune_of a < 128" "first (rune_of a) \<noteq> 241"
  shows "0 < nat (first (rune_of a) AND 7)"
  using assms by (cases rule: first_range [of a]) auto

function valid_loop :: "string \<Rightarrow> bool" where
  "valid_loop p =
     (if p = [] then True
      else if byte_at p 0 < RuneSelf then valid_loop (drop 1 p)
      else
        let x = first (byte_at p 0) in
        if x = xx then False
        else
          let sz = nat (x AND 7) in
          if sz > length p then False
          else
            let (lo, hi) = accept x in
            if byte_at p 1 < lo \<or> hi < byte_at p 1 then False
            else if sz = 2 then valid_loop (drop sz p)
            else if byte_at p 2 < locb \<or> hicb < byte_at p 2 then False
            else if sz = 3 then valid_loop (drop sz p)
            else if byte_at p 3 < locb \<or> hicb < byte_at p 3 then False
            else valid_loop (drop sz p))"
  by pat_completeness auto
termination
  by (relation "measure length")
     (auto simp: byte_at_def utf8_consts neq_Nil_conv dest: starter_size)

declare valid_loop.simps [simp del]

definition Valid :: "string \<Rightarrow> bool" where
  "Valid p = valid_loop (skip_ascii p)"

subsection \<open>Decoding from the end\<close>

function last_start :: "string \<Rightarrow> int \<Rightarrow> int \<Rightarrow> int" where
  "last_start p lim i =
     (if i \<ge> lim then if RuneStart (p ! nat i) then i else last_start p lim (i - 1) else i)"
  by pat_completeness auto
termination
  by (relation "measure (\<lambda>(_, lim, i). nat (i - lim + 1))") auto

declare last_start.simps [simp del]

definition DecodeLastRune :: "string \<Rightarrow> rune \<times> nat" where
  "DecodeLastRune p =
     (let e = int (length p) in
      if e = 0 then (RuneError, 0)
      else
        let i = e - 1; r = byte_at p (nat i) in
        if r < RuneSelf then (r, 1)
        else
          let lim = max (e - int UTFMax) 0;
              i = last_start p lim (i - 1);
              i = (if i < 0 then 0 else i);
              (r, sz) = DecodeRune (drop (nat i) p)
          in if i + int sz \<noteq> e then (RuneError, 1) else (r, sz))"

subsection \<open>Sequences of runes\<close>

definition encode_all :: "rune list \<Rightarrow> string" where
  "encode_all rs = concat (map EncodeRune rs)"

lemma encode_all_simps [simp]:
  "encode_all [] = []" "encode_all (r # rs) = EncodeRune r @ encode_all rs"
  by (simp_all add: encode_all_def)

lemma EncodeRune_nonempty: "ValidRune r \<Longrightarrow> EncodeRune r \<noteq> []"
  using utf8_seq_length [OF EncodeRune_seq] by fastforce

lemma count_encoded:
  "ValidRune r \<Longrightarrow> RuneCountInString (EncodeRune r @ s) = Suc (RuneCountInString s)"
  by (subst RuneCountInString.simps) (simp add: DecodeRune_EncodeRune EncodeRune_nonempty)

lemma count_all: "list_all ValidRune rs \<Longrightarrow> RuneCountInString (encode_all rs) = length rs"
  by (induction rs) (simp_all add: count_encoded RuneCountInString.simps [of "[]"])

lemma count_ascii: "rune_of c < 128 \<Longrightarrow> RuneCountInString (c # p) = Suc (RuneCountInString p)"
  by (subst RuneCountInString.simps) (simp add: DecodeRune_1)

lemma rune_count_loop_eq: "rune_count_loop n p = n + RuneCountInString p"
  by (induction n p rule: rune_count_loop.induct)
     (simp_all add: RuneCountInString.simps [of "[]"] RuneSelf_def count_ascii)

subsection \<open>Validation is exact\<close>

lemma valid_loop_seq: "utf8_seq q \<Longrightarrow> valid_loop (q @ s) = valid_loop s"
proof (induction rule: utf8_seq.induct)
  case (seq1 a)
  then show ?case by (subst valid_loop.simps) (simp add: byte_at_def RuneSelf_def)
next
  case (seq2 a b)
  then show ?case
    by (subst valid_loop.simps, cases rule: first_range [of a])
       (auto simp: byte_at_def accept_simps utf8_consts numeral_2_eq_2)
next
  case (seq3 a b c)
  then show ?case
    by (subst valid_loop.simps, cases rule: first_range [of a])
       (auto simp: byte_at_def accept_simps utf8_consts eval_nat_numeral)
next
  case (seq4 a b c d)
  then show ?case
    by (subst valid_loop.simps, cases rule: first_range [of a])
       (auto simp: byte_at_def accept_simps utf8_consts eval_nat_numeral)
qed

lemma valid_loop_none:
  assumes "p \<noteq> []" "\<And>n. \<not> utf8_seq (take n p)"
  shows "\<not> valid_loop p"
proof -
  obtain a q where p: "p = a # q" using assms(1) by (cases p) auto
  note no = assms(2) [of 1] assms(2) [of 2] assms(2) [of 3] assms(2) [of 4]
  note unfold = byte_at_def accept_simps utf8_consts Let_def p
  show ?thesis
  proof (cases rule: first_range [of a])
    case 1
    with no(1) p show ?thesis by (simp add: utf8_seq_1)
  next
    case 2
    then show ?thesis by (subst valid_loop.simps) (simp add: unfold)
  next
    case 3
    then show ?thesis using no(2) by (subst valid_loop.simps, cases q) (auto simp: unfold utf8_seq_2)
  next
    case 4
    then show ?thesis using no(3)
      by (subst valid_loop.simps, cases rule: length_ge_2_cases [of q]) (auto simp: unfold utf8_seq_3)
  next
    case 5
    then show ?thesis using no(3)
      by (subst valid_loop.simps, cases rule: length_ge_2_cases [of q]) (auto simp: unfold utf8_seq_3)
  next
    case 6
    then show ?thesis using no(3)
      by (subst valid_loop.simps, cases rule: length_ge_2_cases [of q]) (auto simp: unfold utf8_seq_3)
  next
    case 7
    then show ?thesis using no(4)
      by (subst valid_loop.simps, cases rule: length_ge_3_cases [of q]) (auto simp: unfold utf8_seq_4)
  next
    case 8
    then show ?thesis using no(4)
      by (subst valid_loop.simps, cases rule: length_ge_3_cases [of q]) (auto simp: unfold utf8_seq_4)
  next
    case 9
    then show ?thesis using no(4)
      by (subst valid_loop.simps, cases rule: length_ge_3_cases [of q]) (auto simp: unfold utf8_seq_4)
  qed
qed

lemma valid_loop_iff: "valid_loop p \<longleftrightarrow> (\<exists>rs. list_all ValidRune rs \<and> p = encode_all rs)"
proof (induction p rule: length_induct)
  case (1 p)
  show ?case
  proof (cases "p = []")
    case True
    then show ?thesis by (auto simp: valid_loop.simps intro: exI [of _ "[]"])
  next
    case False
    then show ?thesis
    proof (cases rule: DecodeRune_cases)
      case invalid
      have "p \<noteq> encode_all rs" if "list_all ValidRune rs" for rs
      proof (cases rs)
        case (Cons r rs')
        with that have "utf8_seq (take (length (EncodeRune r)) (encode_all rs))" by (simp add: EncodeRune_seq)
        with invalid(2) show ?thesis by auto
      qed (use False in simp)
      with valid_loop_none [OF False invalid(2)] show ?thesis by blast
    next
      case (valid r n)
      have p: "p = EncodeRune r @ drop n p" using valid(3) by (metis append_take_drop_id)
      have "length (drop n p) < length p" using valid(4,6) by simp
      with 1 have "valid_loop (drop n p) \<longleftrightarrow> (\<exists>rs. list_all ValidRune rs \<and> drop n p = encode_all rs)" by blast
      moreover have "valid_loop p = valid_loop (drop n p)"
        using valid_loop_seq [OF EncodeRune_seq [OF valid(2)], of "drop n p"] p by simp
      moreover have "drop n p = encode_all rs'" "ValidRune r'" 
        if "p = encode_all (r' # rs')" "list_all ValidRune (r' # rs')" for r' rs'
        using that valid(1,2) DecodeRune_EncodeRune [of r' "encode_all rs'"] by auto
      ultimately show ?thesis
        using p False valid(2) by (metis encode_all_simps list.exhaust list.pred_inject(2))
    qed
  qed
qed

subsection \<open>The fast path\<close>

lemma high_bit: "bit (rune_of c) 7 \<longleftrightarrow> 128 \<le> rune_of c"
proof -
  have "0 \<le> x \<Longrightarrow> x < 256 \<Longrightarrow> odd (x div 128) \<longleftrightarrow> 128 \<le> x" for x :: int by presburger
  from this [of "rune_of c"] show ?thesis by (simp add: bit_iff_odd)
qed

lemma load32_bit:
  assumes "j < 4" "128 \<le> byte_at p (i + j)"
  shows "bit (load32 p i) (8 * j + 7)"
proof -
  have "j = 0 \<or> j = 1 \<or> j = 2 \<or> j = 3" using assms(1) by auto
  then show ?thesis using assms(2) by (auto simp: load32_def bit_simps byte_at_def high_bit)
qed

lemma mask_bit: "j < 4 \<Longrightarrow> bit (0x80808080 :: int) (8 * j + 7)"
proof -
  assume "j < 4"
  then have "j = 0 \<or> j = 1 \<or> j = 2 \<or> j = 3" by auto
  then show ?thesis by (auto simp: bit_iff_odd)
qed

lemma all_ascii:
  assumes "(load32 p 0 OR load32 p 4) AND 0x80808080 = 0" "i < 8"
  shows "byte_at p i < 128"
proof (rule ccontr)
  assume "\<not> byte_at p i < 128"
  then have b: "128 \<le> byte_at p i" by simp
  define j where "j = i mod 4"
  have "bit (load32 p 0 OR load32 p 4) (8 * j + 7)"
  proof (cases "i < 4")
    case True
    with b load32_bit [of j p 0] show ?thesis by (simp add: j_def bit_or_iff)
  next
    case False
    then have "i = 4 + j" "j < 4" using assms(2) unfolding j_def by presburger+
    with b load32_bit [of j p 4] show ?thesis by (simp add: bit_or_iff)
  qed
  then have "bit ((load32 p 0 OR load32 p 4) AND 0x80808080) (8 * j + 7)"
    using mask_bit [of j] by (simp add: bit_and_iff j_def)
  with assms(1) show False by simp
qed

lemma valid_loop_ascii: "(\<And>i. i < n \<Longrightarrow> byte_at p i < 128) \<Longrightarrow> n \<le> length p \<Longrightarrow> valid_loop p = valid_loop (drop n p)"
proof (induction n arbitrary: p)
  case (Suc n)
  then obtain a q where p: "p = a # q" by (cases p) auto
  have "byte_at q i < 128" if "i < n" for i using Suc.prems(1) [of "Suc i"] that by (simp add: p byte_at_def)
  with Suc.IH [of q] Suc.prems(2) have "valid_loop q = valid_loop (drop n q)" by (simp add: p)
  moreover have "valid_loop p = valid_loop q"
    using Suc.prems(1) [of 0] by (subst valid_loop.simps) (simp add: p byte_at_def RuneSelf_def)
  ultimately show ?case by (simp add: p)
qed simp

lemma valid_loop_skip: "valid_loop (skip_ascii p) = valid_loop p"
proof (induction p rule: skip_ascii.induct)
  case (1 p)
  show ?case
  proof (cases "length p \<ge> 8 \<and> (load32 p 0 OR load32 p 4) AND 0x80808080 = 0")
    case True
    with 1 have "valid_loop (skip_ascii p) = valid_loop (drop 8 p)" by (subst skip_ascii.simps) simp
    also have "\<dots> = valid_loop p" using True all_ascii valid_loop_ascii [of 8 p] by simp
    finally show ?thesis .
  next
    case False
    then show ?thesis by (subst skip_ascii.simps) auto
  qed
qed

subsection \<open>The last rune\<close>

lemma RuneStart_iff: "RuneStart c \<longleftrightarrow> \<not> is_cont c"
proof -
  have *: "list_all (\<lambda>n. (int n AND 0xC0 \<noteq> 0x80) = (\<not> (128 \<le> int n \<and> int n \<le> 191))) [0..<256]"
    by code_simp
  have "nat (rune_of c) \<in> set [0..<256]" by (simp add: nat_less_iff)
  from bspec [OF * [unfolded list_all_iff] this] show ?thesis by (simp add: RuneStart_def)
qed

lemma last_start_bounds: "lim \<le> i + 1 \<Longrightarrow> lim - 1 \<le> last_start p lim i \<and> last_start p lim i \<le> i"
proof (induction p lim i rule: last_start.induct)
  case (1 p lim i)
  then show ?case by (subst (1 2) last_start.simps) force
qed

lemma last_start_step:
  "last_start (p @ q) lim (int (length p) + int k) =
     (if lim \<le> int (length p) + int k then
        if \<not> is_cont (q ! k) then int (length p) + int k else last_start (p @ q) lim (int (length p) + int k - 1)
      else int (length p) + int k)"
  by (subst last_start.simps) (simp add: RuneStart_iff nth_append nat_add_distrib)

lemma last_start_back:
  assumes "lim \<le> int (length p)" "\<not> is_cont (q ! 0)"
  shows "(\<And>k. 0 < k \<Longrightarrow> k \<le> m \<Longrightarrow> is_cont (q ! k)) \<Longrightarrow>
    last_start (p @ q) lim (int (length p) + int m) = int (length p)"
proof (induction m)
  case 0
  then show ?case using assms by (subst last_start_step) simp
next
  case (Suc m)
  then show ?case using assms(1) by (subst last_start_step) auto
qed

lemma utf8_seq_bytes:
  assumes "utf8_seq q"
  shows "\<not> is_cont (q ! 0)" "0 < k \<Longrightarrow> k < length q \<Longrightarrow> is_cont (q ! k)"
  using assms by (cases; auto simp: less_Suc_eq numeral_eq_Suc)+

lemma last_start_seq:
  assumes "utf8_seq q" "1 < length q"
  shows "last_start (p @ q) (max (int (length (p @ q)) - 4) 0) (int (length (p @ q)) - 2) = int (length p)"
proof -
  have "int (length (p @ q)) - 2 = int (length p) + int (length q - 2)" using assms(2) by simp
  then show ?thesis
    using utf8_seq_bytes [OF assms(1)] utf8_seq_length [OF assms(1)] assms(2)
    by (simp only:) (rule last_start_back, auto)
qed

lemma utf8_seq_last:
  assumes "utf8_seq q"
  shows "byte_at (p @ q) (length (p @ q) - 1) < 128 \<longleftrightarrow> length q = 1"
  using assms by cases (simp_all add: byte_at_def nth_append)

lemma DecodeLastRune_ascii:
  "p \<noteq> [] \<Longrightarrow> byte_at p (length p - 1) < 128 \<Longrightarrow> DecodeLastRune p = (byte_at p (length p - 1), 1)"
proof -
  have "nat (int (length p) - 1) = length p - 1" by simp
  then show "p \<noteq> [] \<Longrightarrow> byte_at p (length p - 1) < 128 \<Longrightarrow> ?thesis" by (simp add: DecodeLastRune_def RuneSelf_def Let_def)
qed

lemma DecodeLastRune_other:
  assumes "p \<noteq> []" "\<not> byte_at p (length p - 1) < 128"
  obtains i where "i < length p" "int i = max 0 (last_start p (max (int (length p) - 4) 0) (int (length p) - 2))"
    "DecodeLastRune p = (if i + snd (DecodeRune (drop i p)) = length p then DecodeRune (drop i p) else (RuneError, 1))"
proof -
  define s where "s = last_start p (max (int (length p) - 4) 0) (int (length p) - 2)"
  have "max (int (length p) - 4) 0 \<le> int (length p) - 2 + 1" using assms(1) by (simp add: Suc_le_eq)
  from last_start_bounds [OF this, of p] have s: "s \<le> int (length p) - 2" by (simp add: s_def)
  have n: "nat (int (length p) - 1) = length p - 1" by simp
  define i where "i = nat s"
  have "nat (if s < 0 then 0 else s) = i" "int i = max 0 s" by (auto simp: i_def)
  moreover have "i < length p" using s assms(1) by (cases "s \<ge> 0") (auto simp: i_def nat_less_iff)
  moreover have "DecodeLastRune p =
      (if i + snd (DecodeRune (drop i p)) = length p then DecodeRune (drop i p) else (RuneError, 1))"
    using assms calculation(2)
    by (auto simp: DecodeLastRune_def RuneSelf_def UTFMax_def Let_def n s_def [symmetric] i_def split: prod.split)
  ultimately show thesis using that s_def by metis
qed

lemma DecodeLastRune_EncodeRune:
  assumes "ValidRune r"
  shows "DecodeLastRune (q @ EncodeRune r) = (r, length (EncodeRune r))"
proof -
  let ?p = "q @ EncodeRune r"
  note sq = EncodeRune_seq [OF assms]
  have ne: "?p \<noteq> []" using EncodeRune_nonempty [OF assms] by simp
  have d: "DecodeRune (EncodeRune r) = (r, length (EncodeRune r))"
    using DecodeRune_EncodeRune [OF assms, of "[]"] by simp
  show ?thesis
  proof (cases "length (EncodeRune r) = 1")
    case True
    then obtain a where a: "EncodeRune r = [a]" by (auto simp: length_Suc_conv)
    with sq d have "rune_of a = r" "rune_of a < 128" by (auto simp: utf8_seq_1 DecodeRune_1)
    with a ne show ?thesis using DecodeLastRune_ascii [of ?p] by (simp add: byte_at_def)
  next
    case False
    with utf8_seq_length [OF sq] have l: "1 < length (EncodeRune r)" by linarith
    have "\<not> byte_at ?p (length ?p - 1) < 128" using utf8_seq_last [OF sq] False by blast
    then obtain i where "int i = max 0 (last_start ?p (max (int (length ?p) - 4) 0) (int (length ?p) - 2))"
      "DecodeLastRune ?p = (if i + snd (DecodeRune (drop i ?p)) = length ?p then DecodeRune (drop i ?p) else (RuneError, 1))"
      using DecodeLastRune_other [OF ne] by blast
    with last_start_seq [OF sq l, of q] d show ?thesis by simp
  qed
qed

lemma DecodeLastRune_sound:
  assumes "p \<noteq> []" "DecodeLastRune p \<noteq> (RuneError, 1)"
  obtains r q where "ValidRune r" "p = q @ EncodeRune r"
proof (cases "byte_at p (length p - 1) < 128")
  case True
  have l: "p = butlast p @ [last p]" using assms(1) by simp
  have b: "rune_of (last p) < 128" using True assms(1) by (simp add: byte_at_def last_conv_nth)
  then have "EncodeRune (rune_of (last p)) = [last p]" by (simp add: EncodeRune_1)
  moreover have "ValidRune (rune_of (last p))" using b by (simp add: ValidRune_def utf8_consts)
  ultimately show thesis using that l by metis
next
  case False
  from DecodeLastRune_other [OF assms(1) this] obtain i where i: "i < length p"
    "DecodeLastRune p = (if i + snd (DecodeRune (drop i p)) = length p then DecodeRune (drop i p) else (RuneError, 1))"
    by metis
  with assms(2) have e: "i + snd (DecodeRune (drop i p)) = length p" "DecodeRune (drop i p) \<noteq> (RuneError, 1)"
    by (auto split: if_splits)
  have "drop i p \<noteq> []" using i(1) by simp
  then show thesis
  proof (cases rule: DecodeRune_cases)
    case invalid
    with e(2) show thesis by simp
  next
    case (valid r n)
    with e(1) have "n = length p - i" by simp
    with valid(3) have "p = take i p @ EncodeRune r" by (metis append_take_drop_id length_drop order_refl take_all)
    with that valid(2) show thesis by blast
  qed
qed

subsection \<open>Properties\<close>

text \<open>C39: \<open>Valid\<close>, with its fast path that looks at eight bytes at once, accepts exactly the byte strings that are
  the encoding of a sequence of valid runes.\<close>

theorem valid_exact: "Valid p \<longleftrightarrow> (\<exists>rs. list_all ValidRune rs \<and> p = concat (map EncodeRune rs))"
  by (simp only: Valid_def valid_loop_skip) (simp only: valid_loop_iff encode_all_def)

text \<open>\<open>RuneCount\<close> of the encoding of valid runes is their number; invalid bytes after them do not change
  how they are counted.\<close>

lemma rune_count_encoded:
  assumes "list_all ValidRune rs"
  shows "RuneCount (concat (map EncodeRune rs) @ s) = length rs + RuneCountInString s"
  using assms by (induction rs) (simp_all add: RuneCount_def rune_count_loop_eq count_encoded)

lemma rune_count_encoded_witness:
  "RuneCount (concat (map EncodeRune [65, 8364]) @ [CHR 0xC3]) = length [65, 8364 :: rune] + RuneCountInString [CHR 0xC3]"
  by (rule rune_count_encoded) (simp add: ValidRune_def utf8_consts)

text \<open>\<open>DecodeLastRune\<close> returns a rune and a width other than those of an error exactly if the slice ends with the encoding of
  that valid rune, of that width.\<close>

lemma decode_last_exact:
  "DecodeLastRune p = (r, n) \<and> (r, n) \<notin> {(RuneError, 0), (RuneError, 1)}
     \<longleftrightarrow> ValidRune r \<and> n = length (EncodeRune r) \<and> (\<exists>q. p = q @ EncodeRune r)"
proof (cases "ValidRune r \<and> (\<exists>q. p = q @ EncodeRune r)")
  case True
  then have v: "ValidRune r" and d: "DecodeLastRune p = (r, length (EncodeRune r))"
    using DecodeLastRune_EncodeRune by auto
  have "length (EncodeRune RuneError) = 3" by (simp add: EncodeRune_3 RuneError_def)
  with EncodeRune_nonempty [OF v] True d show ?thesis by auto
next
  case False
  have "DecodeLastRune p \<in> {(RuneError, 0), (RuneError, 1)}" if d: "DecodeLastRune p = (r, n)"
  proof (rule ccontr)
    assume e: "DecodeLastRune p \<notin> {(RuneError, 0), (RuneError, 1)}"
    then have "p \<noteq> []" by (auto simp: DecodeLastRune_def)
    with e obtain r' q where r': "ValidRune r'" "p = q @ EncodeRune r'" using DecodeLastRune_sound [of p] by auto
    with d have "r' = r" using DecodeLastRune_EncodeRune [of r' q] by simp
    with r' False show False by blast
  qed
  with False show ?thesis by auto
qed

end
