(* ===== verification/Quote.thy ===== *)
theory Quote
  imports Unicode Utf8_Strings
begin

text \<open>
  Quoting and unquoting of strings (\<open>strconv/quote.go\<close>), which give literals their values.  A byte slice that is
  appended to is returned; an error, always \<open>ErrSyntax\<close>, is \<open>None\<close>.  Runes are 32-bit: the shifts of \<open>UnquoteChar\<close>
  wrap.  The lemmas show that \<open>Unquote\<close> inverts each of the quoting functions on all byte strings.
\<close>

subsection \<open>Searching for bytes\<close>

fun index_from :: "int \<Rightarrow> string \<Rightarrow> char \<Rightarrow> int" where
  "index_from i [] c = -1"
| "index_from i (b # s) c = (if b = c then i else index_from (i + 1) s c)"

definition index_byte :: "string \<Rightarrow> char \<Rightarrow> int" where
  "index_byte s c = index_from 0 s c"

definition contains_byte :: "string \<Rightarrow> char \<Rightarrow> bool" where
  "contains_byte s c \<longleftrightarrow> index_byte s c \<noteq> -1"

subsection \<open>Quoting\<close>

definition isGraphic :: "int list" where
  "isGraphic = [0x00a0, 0x1680, 0x2000, 0x2001, 0x2002, 0x2003, 0x2004, 0x2005, 0x2006, 0x2007, 0x2008, 0x2009, 0x200a,
     0x202f, 0x205f, 0x3000]"

definition isInGraphicList :: "rune \<Rightarrow> bool" where
  "isInGraphicList r = (if r > 0xFFFF then False else snd (bsearch isGraphic (take_bit 16 r)))"

text \<open>The bytes that \<open>appendEscapedRune\<close> appends: its switch, and the cases before it.\<close>

definition escape_switch :: "rune \<Rightarrow> string" where
  "escape_switch r =
     (if r = 7 then [backslash, CHR ''a'']
      else if r = 8 then [backslash, CHR ''b'']
      else if r = 12 then [backslash, CHR ''f'']
      else if r = 10 then [backslash, CHR ''n'']
      else if r = 13 then [backslash, CHR ''r'']
      else if r = 9 then [backslash, CHR ''t'']
      else if r = 11 then [backslash, CHR ''v'']
      else if r < 32 \<or> r = 0x7F then [backslash, CHR ''x''] @ hex_tail 2 (take_bit 8 r)
      else
        let r = (if \<not> ValidRune r then 0xFFFD else r) in
        if r < 0x10000 then [backslash, CHR ''u''] @ hex_tail 4 r
        else [backslash, CHR ''U''] @ hex_tail 8 r)"

definition escaped_rune :: "rune \<Rightarrow> char \<Rightarrow> bool \<Rightarrow> bool \<Rightarrow> string" where
  "escaped_rune r quote ASCIIonly graphicOnly =
     (if r = rune_of quote \<or> r = 92 then [backslash, byte_of (take_bit 8 r)]
      else if ASCIIonly \<and> r < RuneSelf \<and> IsPrint r then [byte_of (take_bit 8 r)]
      else if \<not> ASCIIonly \<and> (IsPrint r \<or> graphicOnly \<and> isInGraphicList r) then AppendRune [] r
      else escape_switch r)"

definition appendEscapedRuneWith :: "string \<Rightarrow> rune \<Rightarrow> char \<Rightarrow> bool \<Rightarrow> bool \<Rightarrow> string" where
  "appendEscapedRuneWith buf r quote ASCIIonly graphicOnly = buf @ escaped_rune r quote ASCIIonly graphicOnly"

text \<open>The rune and its width that a round of the loop in \<open>appendQuotedWith\<close> works on.\<close>

definition next_rune :: "string \<Rightarrow> rune \<times> nat" where
  "next_rune s = (if byte_at s 0 \<ge> RuneSelf then DecodeRune s else (byte_at s 0, 1))"

lemma next_rune_eq: "s \<noteq> [] \<Longrightarrow> next_rune s = DecodeRune s"
  by (cases s) (auto simp: next_rune_def byte_at_def RuneSelf_def DecodeRune_1)

function quote_loop :: "char \<Rightarrow> bool \<Rightarrow> bool \<Rightarrow> string \<Rightarrow> string \<Rightarrow> string" where
  "quote_loop quote ASCIIonly graphicOnly s buf =
     (if s = [] then buf
      else
        let (r, width) = next_rune s;
            buf = (if width = 1 \<and> r = RuneError then buf @ [backslash, CHR ''x''] @ hex_tail 2 (byte_at s 0)
                   else appendEscapedRuneWith buf r quote ASCIIonly graphicOnly)
        in quote_loop quote ASCIIonly graphicOnly (drop width s) buf)"
  by pat_completeness auto
termination
proof (relation "measure (\<lambda>(_, _, _, s, _). length s)", goal_cases)
  case (2 quote asc gra s buf x r width y)
  then show ?case using DecodeRune_width [of s] by (cases "DecodeRune s") (simp add: next_rune_eq)
qed simp

declare quote_loop.simps [simp del]

definition appendQuotedWith :: "string \<Rightarrow> string \<Rightarrow> char \<Rightarrow> bool \<Rightarrow> bool \<Rightarrow> string" where
  "appendQuotedWith buf s quote ASCIIonly graphicOnly =
     quote_loop quote ASCIIonly graphicOnly s (buf @ [quote]) @ [quote]"

definition quoteWith :: "string \<Rightarrow> char \<Rightarrow> bool \<Rightarrow> bool \<Rightarrow> string" where
  "quoteWith s quote ASCIIonly graphicOnly = appendQuotedWith [] s quote ASCIIonly graphicOnly"

definition Quote :: "string \<Rightarrow> string" where "Quote s = quoteWith s (CHR 34) False False"
definition QuoteToASCII :: "string \<Rightarrow> string" where "QuoteToASCII s = quoteWith s (CHR 34) True False"
definition QuoteToGraphic :: "string \<Rightarrow> string" where "QuoteToGraphic s = quoteWith s (CHR 34) False True"

function CanBackquote :: "string \<Rightarrow> bool" where
  "CanBackquote s =
     (if s = [] then True
      else
        let (r, wid) = DecodeRune s in
        if wid > 1 then if r = 0xFEFF then False else CanBackquote (drop wid s)
        else if r = RuneError then False
        else if r < 32 \<and> r \<noteq> 9 \<or> r = 96 \<or> r = 0x7F then False
        else CanBackquote (drop wid s))"
  by pat_completeness auto
termination
proof (relation "measure length", goal_cases)
  case (2 s x r wid)
  then show ?case by simp
next
  case (3 s x r wid)
  then show ?case using DecodeRune_width [of s] by (cases "DecodeRune s") simp
qed simp

declare CanBackquote.simps [simp del]

subsection \<open>Unquoting\<close>

definition unhex :: "char \<Rightarrow> rune option" where
  "unhex b =
     (let c = rune_of b in
      if 48 \<le> c \<and> c \<le> 57 then Some (c - 48)
      else if 97 \<le> c \<and> c \<le> 102 then Some (c - 97 + 10)
      else if 65 \<le> c \<and> c \<le> 70 then Some (c - 65 + 10)
      else None)"

fun unhex_loop :: "nat \<Rightarrow> rune \<Rightarrow> string \<Rightarrow> rune option" where
  "unhex_loop 0 v s = Some v"
| "unhex_loop (Suc n) v [] = None"
| "unhex_loop (Suc n) v (b # s) =
     (case unhex b of
        None \<Rightarrow> None
      | Some x \<Rightarrow> unhex_loop n (signed_take_bit 31 (push_bit 4 v OR x)) s)"

fun octal_loop :: "nat \<Rightarrow> rune \<Rightarrow> string \<Rightarrow> rune option" where
  "octal_loop 0 v s = Some v"
| "octal_loop (Suc n) v [] = None"
| "octal_loop (Suc n) v (b # s) =
     (let x = rune_of b - 48 in if x < 0 \<or> x > 7 then None else octal_loop n (push_bit 3 v OR x) s)"

text \<open>The value, whether it is multibyte, and the tail.\<close>

type_synonym unquoted = "(rune \<times> bool \<times> string) option"

definition unquote_hex :: "char \<Rightarrow> nat \<Rightarrow> string \<Rightarrow> unquoted" where
  "unquote_hex c n s =
     (if length s < n then None
      else (case unhex_loop n 0 s of
        None \<Rightarrow> None
      | Some v \<Rightarrow>
          if c = CHR ''x'' then Some (v, False, drop n s)
          else if \<not> ValidRune v then None
          else Some (v, True, drop n s)))"

definition unquote_octal :: "char \<Rightarrow> string \<Rightarrow> unquoted" where
  "unquote_octal c s =
     (if length s < 2 then None
      else (case octal_loop 2 (rune_of c - 48) s of
        None \<Rightarrow> None
      | Some v \<Rightarrow> if v > 255 then None else Some (v, False, drop 2 s)))"

definition unquote_escape :: "string \<Rightarrow> char \<Rightarrow> unquoted" where
  "unquote_escape s quote =
     (case s of
        [] \<Rightarrow> None
      | c # s \<Rightarrow>
          if c = CHR ''a'' then Some (7, False, s)
          else if c = CHR ''b'' then Some (8, False, s)
          else if c = CHR ''f'' then Some (12, False, s)
          else if c = CHR ''n'' then Some (10, False, s)
          else if c = CHR ''r'' then Some (13, False, s)
          else if c = CHR ''t'' then Some (9, False, s)
          else if c = CHR ''v'' then Some (11, False, s)
          else if c = CHR ''x'' then unquote_hex c 2 s
          else if c = CHR ''u'' then unquote_hex c 4 s
          else if c = CHR ''U'' then unquote_hex c 8 s
          else if 48 \<le> rune_of c \<and> rune_of c \<le> 55 then unquote_octal c s
          else if c = backslash then Some (92, False, s)
          else if c = CHR 39 \<or> c = CHR 34 then if c \<noteq> quote then None else Some (rune_of c, False, s)
          else None)"

definition UnquoteChar :: "string \<Rightarrow> char \<Rightarrow> unquoted" where
  "UnquoteChar s quote =
     (case s of
        [] \<Rightarrow> None
      | c # s1 \<Rightarrow>
          if c = quote \<and> (quote = CHR 39 \<or> quote = CHR 34) then None
          else if rune_of c \<ge> RuneSelf then let (r, n) = DecodeRune s in Some (r, True, drop n s)
          else if c \<noteq> backslash then Some (rune_of c, False, s1)
          else unquote_escape s1 quote)"

lemma UnquoteChar_tail: "UnquoteChar s quote = Some (r, mb, rem) \<Longrightarrow> length rem < length s"
  using DecodeRune_width [of s]
  by (auto simp: UnquoteChar_def unquote_escape_def unquote_hex_def unquote_octal_def Let_def
      split: list.splits if_splits option.splits prod.splits)

text \<open>The loop of \<open>unquote\<close>; the result is what was appended and the rest of the input.\<close>

definition append_unquoted :: "bool \<Rightarrow> rune \<Rightarrow> bool \<Rightarrow> string \<Rightarrow> string" where
  "append_unquoted unescape r mb buf =
     (if unescape then if r < RuneSelf \<or> \<not> mb then buf @ [byte_of (take_bit 8 r)] else AppendRune buf r else buf)"

function unquote_loop :: "char \<Rightarrow> bool \<Rightarrow> string \<Rightarrow> string \<Rightarrow> (string \<times> string) option" where
  "unquote_loop quote unescape s buf =
     (if s \<noteq> [] \<and> s ! 0 \<noteq> quote then
        (case UnquoteChar s quote of
           None \<Rightarrow> None
         | Some (r, mb, rem) \<Rightarrow>
             if s ! 0 = CHR 10 then None
             else
               let buf = append_unquoted unescape r mb buf in
               if quote = CHR 39 then Some (buf, rem) else unquote_loop quote unescape rem buf)
      else Some (buf, s))"
  by pat_completeness auto
termination
  by (relation "measure (\<lambda>(_, _, s, _). length s)") (auto dest: UnquoteChar_tail)

declare unquote_loop.simps [simp del]

definition unquote_slow :: "char \<Rightarrow> bool \<Rightarrow> string \<Rightarrow> (string \<times> string) option" where
  "unquote_slow quote unescape s0 =
     (case unquote_loop quote unescape (drop 1 s0) [] of
        None \<Rightarrow> None
      | Some (buf, s) \<Rightarrow>
          if \<not> (s \<noteq> [] \<and> s ! 0 = quote) then None
          else
            let s = drop 1 s in
            if unescape then Some (buf, s) else Some (take (length s0 - length s) s0, s))"

text \<open>The value of a raw string, and whether the text between quotes is its own value.\<close>

definition unquote_raw :: "bool \<Rightarrow> nat \<Rightarrow> string \<Rightarrow> string" where
  "unquote_raw unescape e s =
     (if \<not> unescape then take e s
      else if \<not> contains_byte (take e s) (CHR 13) then drop 1 (take (e - 1) s)
      else filter (\<lambda>c. c \<noteq> CHR 13) (drop 1 (take (e - 1) s)))"

definition unquote_valid :: "char \<Rightarrow> nat \<Rightarrow> string \<Rightarrow> bool" where
  "unquote_valid quote e s =
     (if quote = CHR 34 then Valid (drop 1 (take (e - 1) s))
      else let (r, n) = DecodeRune (drop 1 (take (e - 1) s)) in 1 + n + 1 = e \<and> (r \<noteq> RuneError \<or> n \<noteq> 1))"

definition unquote :: "string \<Rightarrow> bool \<Rightarrow> (string \<times> string) option" where
  "unquote s unescape =
     (if length s < 2 then None
      else
        let quote = s ! 0; i = index_byte (drop 1 s) quote in
        if i < 0 then None
        else
          let e = nat i + 2 in
          if quote = CHR 96 then Some (unquote_raw unescape e s, drop e s)
          else if quote = CHR 34 \<or> quote = CHR 39 then
            if \<not> contains_byte (take e s) backslash \<and> \<not> contains_byte (take e s) (CHR 10) \<and> unquote_valid quote e s
            then Some (if unescape then drop 1 (take (e - 1) s) else take e s, drop e s)
            else unquote_slow quote unescape s
          else None)"

definition Unquote :: "string \<Rightarrow> string option" where
  "Unquote s = (case unquote s True of None \<Rightarrow> None | Some (out, rem) \<Rightarrow> if length rem > 0 then None else Some out)"

definition QuotedPrefix :: "string \<Rightarrow> string option" where
  "QuotedPrefix s = map_option fst (unquote s False)"

subsection \<open>Searching\<close>

lemma index_from_cases: "index_from i s c = (if c \<in> set s then i + int (length (takeWhile (\<lambda>b. b \<noteq> c) s)) else -1)"
  by (induction i s c rule: index_from.induct) auto

lemma index_byte_eq: "index_byte s c = (if c \<in> set s then int (length (takeWhile (\<lambda>b. b \<noteq> c) s)) else -1)"
  by (simp add: index_byte_def index_from_cases)

lemma contains_byte_iff [simp]: "contains_byte s c \<longleftrightarrow> c \<in> set s"
  by (simp add: contains_byte_def index_byte_eq)

subsection \<open>Hexadecimal digits\<close>

lemma hexdigit_code: "list_all (\<lambda>n. unhex (lowerhex ! n) = Some (int n) \<and> lowerhex ! n \<noteq> CHR 34) [0..<16]"
  by code_simp

lemma unhex_hexdigit: "unhex (hexdigit lowerhex n) = Some (n mod 16)"
proof -
  have "nat (n mod 16) \<in> set [0..<16]" by (simp add: nat_less_iff)
  from bspec [OF hexdigit_code [unfolded list_all_iff] this]
  show ?thesis using and_mask_mod(3) [of n] by (simp add: hexdigit_def)
qed

lemma length_hex_tail [simp]: "length (hex_tail k r) = k"
  by (induction k) auto

lemma shift_or: "0 \<le> x \<Longrightarrow> x < 16 \<Longrightarrow> push_bit 4 v OR x = 16 * v + (x :: int)"
  using or_eq_add [of x 4 v] by simp

lemma unhex_loop_tail:
  "0 \<le> v \<Longrightarrow> 16 ^ k * v + r mod 16 ^ k < 2 ^ 31 \<Longrightarrow>
   unhex_loop k v (hex_tail k r @ s) = Some (16 ^ k * v + r mod 16 ^ k)"
proof (induction k arbitrary: v)
  case (Suc k)
  define d where "d = r div 16 ^ k mod 16"
  have d: "0 \<le> d" "d < 16" by (simp_all add: d_def)
  have e: "r mod 16 ^ Suc k = 16 ^ k * d + r mod 16 ^ k"
    using zmod_zmult2_eq [of 16 r "16 ^ k"] by (simp add: d_def mult.commute)
  have m: "16 ^ k * (16 * v + d) + r mod 16 ^ k = 16 ^ Suc k * v + r mod 16 ^ Suc k"
    unfolding e by (simp add: algebra_simps)
  have "16 * v + d \<le> 16 ^ k * (16 * v + d)" using Suc.prems(1) d by (simp add: mult_le_cancel_right1)
  also have "\<dots> < 2 ^ 31" using Suc.prems(2) m by (smt (verit) pos_mod_sign zero_less_power)
  finally have "signed_take_bit 31 (push_bit 4 v OR d) = 16 * v + d"
    using Suc.prems(1) d by (simp add: shift_or signed_take_bit_int_eq_self)
  moreover have "drop_bit (4 * k) r mod 16 = d" by (simp add: d_def drop_bit_eq_div power_mult)
  ultimately show ?case using Suc.IH [of "16 * v + d"] Suc.prems d by (simp add: unhex_hexdigit m del: power_Suc)
qed simp

subsection \<open>Escapes that unquote to given bytes\<close>

definition unq :: "string \<Rightarrow> string \<Rightarrow> bool" where
  "unq esc bs \<longleftrightarrow> esc \<noteq> [] \<and> esc ! 0 \<noteq> CHR 34 \<and> esc ! 0 \<noteq> CHR 10 \<and>
     (\<forall>s buf. \<exists>r mb. UnquoteChar (esc @ s) (CHR 34) = Some (r, mb, s) \<and> append_unquoted True r mb buf = buf @ bs)"

lemma unquote_loop_unq:
  assumes "unq esc bs"
  shows "unquote_loop (CHR 34) True (esc @ s) buf = unquote_loop (CHR 34) True s (buf @ bs)"
proof -
  obtain c e where c: "esc = c # e" "c \<noteq> CHR 34" "c \<noteq> CHR 10" using assms by (cases esc) (auto simp: unq_def)
  obtain r mb where "UnquoteChar (esc @ s) (CHR 34) = Some (r, mb, s)" "append_unquoted True r mb buf = buf @ bs"
    using assms unfolding unq_def by blast
  with c show ?thesis by (subst unquote_loop.simps) (simp add: Let_def)
qed

lemma AppendRune_EncodeRune: "AppendRune buf r = buf @ EncodeRune r"
  by (simp add: AppendRune_def EncodeRune_def)

lemma append_byte: "append_unquoted True (rune_of c) mb buf = (if rune_of c < 128 \<or> \<not> mb then buf @ [c] else AppendRune buf (rune_of c))"
  by (simp add: append_unquoted_def RuneSelf_def take_bit_int_eq_self)

lemma append_rune:
  assumes "ValidRune r"
  shows "append_unquoted True r True buf = buf @ EncodeRune r"
proof (cases "r < 128")
  case True
  then have "0 \<le> r" using assms by (auto simp: ValidRune_def utf8_consts)
  with True show ?thesis by (simp add: append_unquoted_def RuneSelf_def EncodeRune_1 take_bit_int_eq_self)
qed (simp add: append_unquoted_def RuneSelf_def AppendRune_EncodeRune)

lemma backslash_eq: "backslash = CHR 92"
  by code_simp

lemma rune_lits [simp]: "rune_of (CHR 92) = 92" "rune_of (CHR 34) = 34" "rune_of (CHR 10) = 10"
  by code_simp+

lemma byte_lits: "byte_of 34 = CHR 34" "byte_of 92 = backslash"
  by (simp_all add: backslash_def) code_simp

lemma unq_escape:
  assumes "\<And>s. unquote_escape (e @ s) (CHR 34) = Some (r, mb, s)" "\<And>buf. append_unquoted True r mb buf = buf @ bs"
  shows "unq (backslash # e) bs"
  using assms unfolding unq_def by (auto simp: UnquoteChar_def backslash_eq RuneSelf_def)

lemma unq_rune:
  assumes "ValidRune r" "r \<noteq> 34" "r \<noteq> 92" "r \<noteq> 10"
  shows "unq (EncodeRune r) (EncodeRune r)"
proof (cases "r < 128")
  case True
  have r: "0 \<le> r" using assms(1) by (auto simp: ValidRune_def utf8_consts)
  define c where "c = byte_of r"
  have e: "EncodeRune r = [c]" "rune_of c = r" using r True by (simp_all add: c_def EncodeRune_1 rune_of_byte_of)
  have "c \<noteq> CHR 34" "c \<noteq> CHR 10" "c \<noteq> CHR 92" using assms e(2) by auto
  moreover have "append_unquoted True r False buf = buf @ [c]" for buf using append_byte [of c False buf] e(2) by simp
  ultimately show ?thesis using True e unfolding unq_def by (auto simp: UnquoteChar_def backslash_eq RuneSelf_def)
next
  case False
  obtain c q where e: "EncodeRune r = c # q" using EncodeRune_nonempty [OF assms(1)] by (cases "EncodeRune r") auto
  have "\<not> rune_of c < 128" 
  proof
    assume "rune_of c < 128"
    then have "DecodeRune (EncodeRune r) = (rune_of c, 1)" by (simp add: e DecodeRune_1)
    with DecodeRune_EncodeRune [OF assms(1), of "[]"] \<open>rune_of c < 128\<close> False show False by simp
  qed
  then have "UnquoteChar (EncodeRune r @ s) (CHR 34) = Some (r, True, s)" for s
    using DecodeRune_EncodeRune [OF assms(1), of s] by (auto simp: UnquoteChar_def e RuneSelf_def)
  moreover have "c \<noteq> CHR 34" "c \<noteq> CHR 10" using \<open>\<not> rune_of c < 128\<close> by auto
  ultimately show ?thesis using append_rune [OF assms(1)] e unfolding unq_def by auto
qed

lemma unq_byte: "unq ([backslash, CHR ''x''] @ hex_tail 2 (rune_of c)) [c]"
proof -
  have "rune_of c < 2147483648" using rune_of_less_256 [of c] by linarith
  then have "unhex_loop 2 0 (hex_tail 2 (rune_of c) @ s) = Some (rune_of c)" for s
    using unhex_loop_tail [of 0 2 "rune_of c" s] by simp
  then show ?thesis by (auto simp: unquote_escape_def unquote_hex_def append_byte intro!: unq_escape)
qed

lemma unq_unicode:
  assumes "ValidRune r"
  shows "r < 65536 \<Longrightarrow> unq ([backslash, CHR ''u''] @ hex_tail 4 r) (EncodeRune r)"
    and "unq ([backslash, CHR ''U''] @ hex_tail 8 r) (EncodeRune r)"
proof -
  have r: "0 \<le> r" "r < 0x110000" using assms by (auto simp: ValidRune_def utf8_consts)
  have "unhex_loop 4 0 (hex_tail 4 r @ s) = Some r" if "r < 65536" for s
    using unhex_loop_tail [of 0 4 r s] that r by simp
  then show "r < 65536 \<Longrightarrow> unq ([backslash, CHR ''u''] @ hex_tail 4 r) (EncodeRune r)"
    using append_rune [OF assms] assms by (auto simp: unquote_escape_def unquote_hex_def intro!: unq_escape)
  have "unhex_loop 8 0 (hex_tail 8 r @ s) = Some r" for s
    using unhex_loop_tail [of 0 8 r s] r by simp
  then show "unq ([backslash, CHR ''U''] @ hex_tail 8 r) (EncodeRune r)"
    using append_rune [OF assms] assms by (auto simp: unquote_escape_def unquote_hex_def intro!: unq_escape)
qed

lemma append_small: "0 \<le> r \<Longrightarrow> r < 128 \<Longrightarrow> append_unquoted True r mb buf = buf @ [byte_of r]"
  by (simp add: append_unquoted_def RuneSelf_def take_bit_int_eq_self)

lemma unq_simple:
  "unq [backslash, CHR ''a''] [byte_of 7]" "unq [backslash, CHR ''b''] [byte_of 8]" "unq [backslash, CHR ''f''] [byte_of 12]"
  "unq [backslash, CHR ''n''] [byte_of 10]" "unq [backslash, CHR ''r''] [byte_of 13]" "unq [backslash, CHR ''t''] [byte_of 9]"
  "unq [backslash, CHR ''v''] [byte_of 11]" "unq [backslash, CHR 34] [byte_of 34]" "unq [backslash, backslash] [byte_of 92]"
  by (rule unq_escape [where mb = False, OF _ append_small]; simp add: unquote_escape_def backslash_eq)+

lemma IsPrint_not_newline: "IsPrint r \<Longrightarrow> r \<noteq> 10"
  by (auto simp: IsPrint_def)

lemma graphic_not_newline: "isInGraphicList r \<Longrightarrow> r \<noteq> 10"
proof -
  have "\<not> isInGraphicList 10" by code_simp
  then show "isInGraphicList r \<Longrightarrow> r \<noteq> 10" by auto
qed

lemma unq_switch:
  assumes "ValidRune r"
  shows "unq (escape_switch r) (EncodeRune r)"
proof -
  have r: "0 \<le> r" using assms by (auto simp: ValidRune_def utf8_consts)
  have "unq ([backslash, CHR ''x''] @ hex_tail 2 (take_bit 8 r)) (EncodeRune r)" if "r < 128"
    using unq_byte [of "byte_of r"] that r by (simp add: EncodeRune_1 rune_of_byte_of take_bit_int_eq_self)
  then show ?thesis
    using unq_simple unq_unicode [OF assms] assms r by (auto simp: escape_switch_def EncodeRune_1)
qed

lemma unq_escaped:
  assumes "ValidRune r"
  shows "unq (escaped_rune r (CHR 34) a g) (EncodeRune r)"
proof -
  have r: "0 \<le> r" using assms by (auto simp: ValidRune_def utf8_consts)
  consider "r = 34 \<or> r = 92" | "r \<noteq> 34" "r \<noteq> 92" "a \<and> r < 128 \<and> IsPrint r \<or> \<not> a \<and> (IsPrint r \<or> g \<and> isInGraphicList r)"
    | "r \<noteq> 34" "r \<noteq> 92" "\<not> (a \<and> r < 128 \<and> IsPrint r \<or> \<not> a \<and> (IsPrint r \<or> g \<and> isInGraphicList r))"
    by blast
  then show ?thesis
  proof cases
    case 1
    then show ?thesis
      using unq_simple(8,9) by (auto simp: escaped_rune_def EncodeRune_1 take_bit_int_eq_self byte_lits)
  next
    case 2
    then have "r \<noteq> 10" using IsPrint_not_newline graphic_not_newline by blast
    with 2 r have "escaped_rune r (CHR 34) a g = EncodeRune r"
      by (auto simp: escaped_rune_def AppendRune_EncodeRune RuneSelf_def EncodeRune_1 take_bit_int_eq_self)
    with unq_rune [OF assms] 2 \<open>r \<noteq> 10\<close> show ?thesis by simp
  next
    case 3
    then have "escaped_rune r (CHR 34) a g = escape_switch r" by (auto simp: escaped_rune_def RuneSelf_def)
    then show ?thesis using unq_switch [OF assms] by simp
  qed
qed

subsection \<open>The loops\<close>

text \<open>What a round of the loop appends.\<close>

definition quoted_rune :: "char \<Rightarrow> bool \<Rightarrow> bool \<Rightarrow> string \<Rightarrow> string" where
  "quoted_rune q a g s =
     (if DecodeRune s = (RuneError, 1) then [backslash, CHR ''x''] @ hex_tail 2 (byte_at s 0)
      else escaped_rune (fst (DecodeRune s)) q a g)"

lemma quote_loop_step:
  "s \<noteq> [] \<Longrightarrow> quote_loop q a g s buf = quote_loop q a g (drop (snd (DecodeRune s)) s) (buf @ quoted_rune q a g s)"
  by (subst quote_loop.simps, cases "DecodeRune s")
     (simp add: next_rune_eq quoted_rune_def appendEscapedRuneWith_def)

lemma rune_drop_less: "s \<noteq> [] \<Longrightarrow> length (drop (snd (DecodeRune s)) s) < length s"
  using DecodeRune_width [of s] by simp

lemma quote_loop_append: "quote_loop q a g s buf = buf @ quote_loop q a g s []"
proof (induction s arbitrary: buf rule: length_induct)
  case (1 s)
  show ?case
  proof (cases "s = []")
    case False
    with 1 rune_drop_less have "quote_loop q a g (drop (snd (DecodeRune s)) s) b =
        b @ quote_loop q a g (drop (snd (DecodeRune s)) s) []" for b by blast
    then show ?thesis using quote_loop_step [OF False] by (metis append.assoc append_Nil)
  qed (simp add: quote_loop.simps)
qed

lemma unq_quoted:
  assumes "s \<noteq> []"
  shows "unq (quoted_rune (CHR 34) a g s) (take (snd (DecodeRune s)) s)"
  using assms
proof (cases rule: DecodeRune_cases)
  case invalid
  with assms unq_byte [of "hd s"] show ?thesis
    by (cases s) (simp_all add: quoted_rune_def byte_at_def)
next
  case (valid r n)
  then have "DecodeRune s \<noteq> (RuneError, 1)"
    using EncodeRune_3 [of RuneError] by (auto simp: RuneError_def dest: arg_cong [of _ _ length])
  with valid unq_escaped [OF valid(2)] show ?thesis by (auto simp: quoted_rune_def)
qed

lemma quote_loop_unq:
  "unquote_loop (CHR 34) True (quote_loop (CHR 34) a g s [] @ t) buf = unquote_loop (CHR 34) True t (buf @ s)"
proof (induction s arbitrary: buf rule: length_induct)
  case (1 s)
  show ?case
  proof (cases "s = []")
    case False
    let ?n = "snd (DecodeRune s)"
    have "unquote_loop (CHR 34) True (quote_loop (CHR 34) a g (drop ?n s) [] @ t) b =
        unquote_loop (CHR 34) True t (b @ drop ?n s)" for b
      using 1 rune_drop_less [OF False] by blast
    moreover have "quote_loop (CHR 34) a g s [] = quoted_rune (CHR 34) a g s @ quote_loop (CHR 34) a g (drop ?n s) []"
      using quote_loop_step [OF False, of _ a g "[]"] quote_loop_append by (metis append_Nil)
    ultimately show ?thesis using unquote_loop_unq [OF unq_quoted [OF False]] by simp
  qed (simp add: quote_loop.simps)
qed

subsection \<open>The fast path\<close>

lemma encode_all_bytes: "list_all ValidRune rs \<Longrightarrow> r \<in> set rs \<Longrightarrow> 0 \<le> r \<Longrightarrow> r < 128 \<Longrightarrow> byte_of r \<in> set (encode_all rs)"
  by (induction rs) (auto simp: EncodeRune_1)

lemma unquote_loop_plain:
  "list_all ValidRune rs \<Longrightarrow> {34, 92, 10} \<inter> set rs = {} \<Longrightarrow>
   unquote_loop (CHR 34) True (encode_all rs @ t) buf = unquote_loop (CHR 34) True t (buf @ encode_all rs)"
  by (induction rs arbitrary: buf) (simp_all add: unquote_loop_unq [OF unq_rune])

lemma unquote_loop_valid:
  assumes "Valid w" "CHR 34 \<notin> set w" "backslash \<notin> set w" "CHR 10 \<notin> set w"
  shows "unquote_loop (CHR 34) True (w @ t) buf = unquote_loop (CHR 34) True t (buf @ w)"
proof -
  obtain rs where rs: "list_all ValidRune rs" "w = encode_all rs"
    using assms(1) valid_loop_iff [of w] unfolding Valid_def valid_loop_skip by blast
  have b: "byte_of 10 = CHR 10" by code_simp
  have "byte_of k \<in> set w" if "k \<in> set rs" "0 \<le> k" "k < 128" for k
    unfolding rs(2) using encode_all_bytes [OF rs(1)] that by blast
  from this [of 34] this [of 92] this [of 10] have "34 \<notin> set rs" "92 \<notin> set rs" "10 \<notin> set rs"
    unfolding b byte_lits using assms(2-4) by linarith+
  then have "{34, 92, 10} \<inter> set rs = {}" by blast
  then show ?thesis using unquote_loop_plain [OF rs(1)] rs(2) by blast
qed

lemma unquote_loop_end: "unquote_loop q u (q # t) buf = Some (buf, q # t)"
  by (simp add: unquote_loop.simps)

lemma unquote_slow_end:
  "unquote_loop (CHR 34) True (w @ [CHR 34]) [] = Some (out, [CHR 34]) \<Longrightarrow>
   unquote_slow (CHR 34) True (CHR 34 # w @ [CHR 34]) = Some (out, [])"
  by (simp add: unquote_slow_def)

text \<open>Between double quotes, \<open>Unquote\<close> returns what its slow path returns.\<close>

lemma Unquote_slow:
  assumes "unquote_loop (CHR 34) True (w @ [CHR 34]) [] = Some (out, [CHR 34])"
  shows "Unquote (CHR 34 # w @ [CHR 34]) = Some out"
proof -
  let ?s = "CHR 34 # w @ [CHR 34]"
  have "CHR 34 \<in> set (w @ [CHR 34])" by simp
  then obtain u v where uv: "w @ [CHR 34] = u @ CHR 34 # v" and nq: "CHR 34 \<notin> set u" using split_list_first by metis
  have i: "index_byte (w @ [CHR 34]) (CHR 34) = int (length u)"
    unfolding uv index_byte_eq using nq by (induction u) auto
  have t: "take (length u + 2) ?s = CHR 34 # u @ [CHR 34]" "drop 1 (take (length u + 2 - 1) ?s) = u" "drop (length u + 2) ?s = v"
    by (simp_all add: uv)
  show ?thesis
  proof (cases "backslash \<notin> set u \<and> CHR 10 \<notin> set u \<and> Valid u")
    case True
    then have "unquote_loop (CHR 34) True (u @ CHR 34 # v) [] = Some (u, CHR 34 # v)"
      using unquote_loop_valid [of u] nq by (simp add: unquote_loop_end)
    with assms uv have "v = []" "out = u" by auto
    with True nq show ?thesis
      unfolding Unquote_def unquote_def using i t
      by (simp add: unquote_valid_def backslash_eq Let_def)
  next
    case False
    then have "unquote ?s True = unquote_slow (CHR 34) True ?s"
      unfolding unquote_def using i t by (auto simp: unquote_valid_def backslash_eq Let_def)
    with unquote_slow_end [OF assms] show ?thesis by (simp add: Unquote_def)
  qed
qed

subsection \<open>Properties\<close>

text \<open>C11: \<open>Unquote\<close> inverts \<open>Quote\<close>, \<open>QuoteToASCII\<close> and \<open>QuoteToGraphic\<close> on every byte string, valid UTF-8 or not.\<close>

theorem unquote_quote:
  "Unquote (Quote s) = Some s \<and> Unquote (QuoteToASCII s) = Some s \<and> Unquote (QuoteToGraphic s) = Some s"
proof -
  have "Unquote (quoteWith s (CHR 34) a g) = Some s" for a g
  proof -
    have "quoteWith s (CHR 34) a g = CHR 34 # quote_loop (CHR 34) a g s [] @ [CHR 34]"
      using quote_loop_append [of "CHR 34" a g s "[CHR 34]"] by (simp add: quoteWith_def appendQuotedWith_def)
    moreover have "unquote_loop (CHR 34) True (quote_loop (CHR 34) a g s [] @ [CHR 34]) [] = Some (s, [CHR 34])"
      using quote_loop_unq [of a g s "[CHR 34]" "[]"] by (simp add: unquote_loop_end)
    ultimately show ?thesis using Unquote_slow by simp
  qed
  then show ?thesis by (simp add: Quote_def QuoteToASCII_def QuoteToGraphic_def)
qed

text \<open>A string that \<open>CanBackquote\<close> accepts has no byte that ends or is dropped from a raw string.\<close>

lemma wide_bytes:
  assumes "utf8_seq q" "1 < length q" "rune_of c < 128"
  shows "c \<notin> set q"
  using assms by cases auto

lemma CanBackquote_bytes: "CanBackquote s \<Longrightarrow> CHR 96 \<notin> set s \<and> CHR 13 \<notin> set s"
proof (induction s rule: CanBackquote.induct)
  case (1 s)
  show ?case
  proof (cases "s = []")
    case False
    obtain r n where d: "DecodeRune s = (r, n)" by fastforce
    have ok: "if n > 1 then r \<noteq> 0xFEFF else r \<noteq> RuneError \<and> \<not> (r < 32 \<and> r \<noteq> 9 \<or> r = 96 \<or> r = 0x7F)"
      and c: "CanBackquote (drop n s)"
      using "1.prems" False d by (subst (asm) CanBackquote.simps, simp split: if_splits)+
    have rest: "CHR 96 \<notin> set (drop n s) \<and> CHR 13 \<notin> set (drop n s)"
      using "1.IH" [OF False d [symmetric] refl] ok c by (auto split: if_splits)
    have lits: "rune_of (CHR 96) = 96" "rune_of (CHR 13) = 13" by code_simp+
    from False have "CHR 96 \<notin> set (take n s) \<and> CHR 13 \<notin> set (take n s)"
    proof (cases rule: DecodeRune_cases)
      case invalid
      with d ok show ?thesis by simp
    next
      case (valid r' n')
      then have e: "r' = r" "n' = n" using d by auto
      show ?thesis
      proof (cases "n = 1")
        case True
        then obtain a t where s: "s = a # t" using False by (cases s) auto
        from valid(7) e True s have "rune_of a < 128" by (simp add: utf8_seq_1)
        then have "rune_of a = r" using d DecodeRune_1 [of a t] s by simp
        with ok True lits show ?thesis by (auto simp: s)
      next
        case False
        then have "1 < length (take n s)" using valid(4,6) e by simp
        with wide_bytes valid(7) e lits show ?thesis by simp
      qed
    qed
    with rest show ?thesis using append_take_drop_id [of n s] by (metis Un_iff set_append)
  qed simp
qed

text \<open>A string that \<open>CanBackquote\<close> accepts is the value of the raw string literal with its text.\<close>

lemma backquote_roundtrip:
  assumes "CanBackquote s"
  shows "Unquote (CHR 96 # s @ [CHR 96]) = Some s"
proof -
  have b: "CHR 96 \<notin> set s" "CHR 13 \<notin> set s" using CanBackquote_bytes [OF assms] by blast+
  have i: "index_byte (s @ [CHR 96]) (CHR 96) = int (length s)"
    unfolding index_byte_eq using b(1) by (induction s) auto
  show ?thesis using b(2) i by (simp add: Unquote_def unquote_def unquote_raw_def Let_def)
qed

lemma backquote_roundtrip_witness: "CanBackquote ''a b'' \<and> Unquote (CHR 96 # ''a b'' @ [CHR 96]) = Some ''a b''"
proof
  show c: "CanBackquote ''a b''" by code_simp
  show "Unquote (CHR 96 # ''a b'' @ [CHR 96]) = Some ''a b''" by (rule backquote_roundtrip [OF c])
qed

end
