(* ===== verification/Literal_Values.thy ===== *)
theory Literal_Values
  imports Literals Quote
begin

text \<open>
  The scanner and \<open>strconv\<close> agree on string literals: what \<open>stdString\<close> accepts without an error, \<open>Unquote\<close> can
  evaluate.  The reader may skip bytes, but never without a report.
\<close>

subsection \<open>Errors are only added\<close>

abbreviation nerr :: "'a source_scheme \<Rightarrow> nat" where "nerr s \<equiv> length (errs s)"

lemma nerr_error [simp]: "nerr (error m s) = Suc (nerr s)"
  by (simp add: error_def errh_def case_prod_beta)

lemma nerr_errorf [simp]: "nerr (errorf m s) = Suc (nerr s)" "nerr (errorAtf k m s) = Suc (nerr s)"
  by (simp_all add: errorf_def errorAtf_def errh_def)

lemma nerr_errorBase: "nerr s \<le> nerr (errorBase pre b post s)" "baseName b \<noteq> None \<Longrightarrow> nerr (errorBase pre b post s) = Suc (nerr s)"
  by (auto simp: errorBase_def simp del: baseName.simps split: option.split)

lemma nerr_read_char: "nerr s \<le> nerr (fst (read_char s))"
  by (simp add: read_char_def Let_def case_prod_beta)

lemma nerr_nextch: "nerr s \<le> nerr (nextch s)"
proof (induction s rule: nextch_induct)
  case (step s)
  have "nerr s \<le> nerr (fst (read_char (step_pos s)))" using nerr_read_char [of "step_pos s"] by simp
  with step show ?case by (subst nextch_unfold) auto
qed

lemma nerr_escape_loop: "nerr s \<le> nerr (snd (escape_loop n base x s))"
proof (induction n arbitrary: x s)
  case (Suc n)
  then show ?case by (auto simp: Let_def intro: order_trans [OF nerr_nextch] nerr_errorBase(1))
qed simp

lemma nerr_escape_number: "nerr s \<le> nerr (snd (escape_number n base maxi s))"
  using nerr_escape_loop [of s n base 0]
  by (auto simp: escape_number_def split: prod.split esc_result.split)

lemma nerr_escape: "nerr s \<le> nerr (snd (escape q s))"
  by (auto simp: escape_def nerr_nextch nerr_escape_number intro: order_trans [OF nerr_nextch nerr_escape_number])

lemma nerr_stdString_loop: "nerr s \<le> nerr (snd (stdString_loop ok s))"
proof (induction ok s rule: stdString_loop.induct)
  case (1 ok s)
  obtain e t where e: "escape 34 (nextch s) = (e, t)" by fastforce
  have "nerr s \<le> nerr t" using order_trans [OF nerr_nextch nerr_escape [of _ 34], of s] by (simp add: e)
  with 1 nerr_nextch [of s] show ?case by (subst stdString_loop.simps) (auto simp: e intro: order_trans)
qed

subsection \<open>Reading without a report\<close>

definition rest_of :: "'a source_scheme \<Rightarrow> string" where
  "rest_of s = drop (rd_r s - chw s) (data s)"

definition cur :: "'a source_scheme \<Rightarrow> bool" where
  "cur s \<longleftrightarrow> src_inv s \<and> 0 \<le> src_col s \<and>
     (ch s = -1 \<or> 0 < chw s \<and> ValidRune (ch s) \<and> rest_of s = EncodeRune (ch s) @ drop (rd_r s) (data s))"

lemma read_char_quiet:
  assumes r: "rd_r s < length (data s)" and q: "nerr (fst (read_char s)) = nerr s" and p: "0 < src_line s \<or> 0 < src_col s"
  obtains x w where "DecodeRune (drop (rd_r s) (data s)) = (x, w)" "ValidRune x" "take w (drop (rd_r s) (data s)) = EncodeRune x"
    "0 < w" "read_char s = (s\<lparr>ch := x, chw := w, rd_r := rd_r s + w\<rparr>, False)"
proof -
  let ?p = "drop (rd_r s) (data s)"
  have ne: "?p \<noteq> []" "?p ! 0 = data s ! rd_r s" using r by simp_all
  from ne(1) show thesis
  proof (cases rule: DecodeRune_cases)
    case invalid
    have "\<not> rune_of (data s ! rd_r s) < 128"
      using invalid(2) [of 1] ne by (cases ?p) (auto simp: utf8_seq_1)
    with r q invalid(1) show thesis by (simp add: read_char_def Let_def sentinel_def RuneSelf_def)
  next
    case (valid x w)
    show thesis
    proof (cases "rune_of (data s ! rd_r s) < 128")
      case True
      have "DecodeRune ?p = (rune_of (data s ! rd_r s), 1)" using True ne DecodeRune_1 [of "?p ! 0" "tl ?p"] by (cases ?p) auto
      with valid have e: "x = rune_of (data s ! rd_r s)" "w = 1" by auto
      have "read_char s = (s\<lparr>ch := x, chw := w, rd_r := rd_r s + w\<rparr>, False)"
        using r q True by (auto simp: read_char_def Let_def sentinel_def RuneSelf_def e split: if_splits)
      with valid that show thesis by blast
    next
      case False
      have "\<not> (x = RuneError \<and> w = 1)"
        using valid(3,6) EncodeRune_3 [of RuneError] by (auto simp: RuneError_def dest: arg_cong [of _ _ length])
      moreover have "x \<noteq> BOM" using r q False p valid(1) calculation
        by (auto simp: read_char_def Let_def sentinel_def RuneSelf_def)
      ultimately have "read_char s = (s\<lparr>ch := x, chw := w, rd_r := rd_r s + w\<rparr>, False)"
        using r False valid(1) by (auto simp: read_char_def Let_def sentinel_def RuneSelf_def)
      with valid that show thesis by blast
    qed
  qed
qed

lemma nextch_quiet:
  assumes c: "cur s" "0 \<le> ch s" and q: "nerr (nextch s) = nerr s"
  shows "cur (nextch s)" "rest_of s = EncodeRune (ch s) @ rest_of (nextch s)"
proof -
  let ?s = "step_pos s"
  have i: "src_inv s" "0 < chw s" "rd_r s \<le> length (data s)" using c by (auto simp: cur_def src_inv_def)
  have p: "0 < src_line ?s \<or> 0 < src_col ?s" "0 \<le> src_col ?s" using c(1) i(2) by (auto simp: step_pos_def Let_def cur_def)
  have e: "nerr (fst (read_char ?s)) = nerr ?s"
    using q nerr_nextch [of "fst (read_char ?s)"] nerr_read_char [of ?s] nextch_unfold [of s] by (auto split: if_splits)
  have n: "cur (nextch s) \<and> rest_of (nextch s) = drop (rd_r s) (data s)"
  proof (cases "rd_r s < length (data s)")
    case True
    then obtain x w where d: "DecodeRune (drop (rd_r s) (data s)) = (x, w)" "ValidRune x"
      "take w (drop (rd_r s) (data s)) = EncodeRune x" "0 < w" "read_char ?s = (?s\<lparr>ch := x, chw := w, rd_r := rd_r s + w\<rparr>, False)"
      using read_char_quiet [of ?s] p(1) e by auto
    have "drop (rd_r s) (data s) = EncodeRune x @ drop (rd_r s + w) (data s)"
      using append_take_drop_id [of w "drop (rd_r s) (data s)"] d(3) by (simp add: add.commute)
    moreover have "nextch s = ?s\<lparr>ch := x, chw := w, rd_r := rd_r s + w\<rparr>" using d(5) by (subst nextch_unfold) simp
    ultimately show ?thesis using d p(2) nextch_src_inv [OF i(1)] by (simp add: cur_def rest_of_def)
  next
    case False
    then have "nextch s = ?s\<lparr>ch := -1, chw := 0\<rparr>" by (subst nextch_unfold) (simp add: read_char_def)
    with False p(2) nextch_src_inv [OF i(1)] show ?thesis by (simp add: cur_def rest_of_def)
  qed
  then show "cur (nextch s)" "rest_of s = EncodeRune (ch s) @ rest_of (nextch s)" using c by (auto simp: cur_def)
qed

subsection \<open>Numeric escapes\<close>

lemma lower_code:
  "list_all (\<lambda>n. let c = int n in 97 \<le> lower c \<and> lower c \<le> 102 \<longrightarrow>
     (if c < 97 then 65 \<le> c \<and> c \<le> 70 \<and> lower c = c + 32 else c \<le> 102 \<and> lower c = c)) [0..<128]"
  by code_simp

lemma lower_hex:
  assumes "97 \<le> lower c" "lower c \<le> 102"
  shows "if c < 97 then 65 \<le> c \<and> c \<le> 70 \<and> lower c = c + 32 else c \<le> 102 \<and> lower c = c"
proof -
  have c: "0 \<le> c" using assms(1) by (rule lower_nonneg)
  have "c \<le> lower c" using or_greater_eq [of 32 c] by (simp add: lower_def or.commute)
  then have "nat c \<in> set [0..<128]" using assms(2) c by (simp add: nat_less_iff)
  from bspec [OF lower_code [unfolded list_all_iff Let_def] this] show ?thesis
    using assms c by (simp only: int_nat_eq if_True simp_thms)
qed

lemma digit_facts:
  assumes "0 \<le> c"
  shows "escape_digit c 16 < 16 \<Longrightarrow> c < 128 \<and> unhex (byte_of c) = Some (uint (escape_digit c 16))"
    and "escape_digit c 8 < 8 \<Longrightarrow> uint (escape_digit c 8) = c - 48 \<and> 48 \<le> c \<and> c < 56"
proof -
  assume d: "escape_digit c 16 < 16"
  then have v: "uint (escape_digit c 16) = int (digit_val c)" using escape_digit_val [OF d] by (simp add: uint_nat)
  consider "isDecimal c" | "\<not> isDecimal c" "97 \<le> lower c" "lower c \<le> 102"
    using d by (auto simp: escape_digit_def split: if_splits)
  then show "c < 128 \<and> unhex (byte_of c) = Some (uint (escape_digit c 16))"
  proof cases
    case 1
    then show ?thesis unfolding v by (simp add: isDecimal_def digit_val_def unhex_def rune_of_byte_of)
  next
    case 2
    then show ?thesis using lower_hex [OF 2(2,3)] unfolding v
      by (auto simp: isDecimal_def digit_val_def unhex_def rune_of_byte_of split: if_splits)
  qed
next
  assume d: "escape_digit c 8 < 8"
  then have v: "uint (escape_digit c 8) = int (digit_val c)" using escape_digit_val [OF d] by (simp add: uint_nat)
  have "uint (escape_digit c 8) < 8" using d by (simp add: word_less_def)
  moreover have "isDecimal c \<or> 97 \<le> lower c"
    using d by (auto simp: escape_digit_def split: if_splits)
  ultimately show "uint (escape_digit c 8) = c - 48 \<and> 48 \<le> c \<and> c < 56"
    unfolding v by (auto simp: digit_val_def isDecimal_def split: if_splits)
qed

lemma sint_step: "signed_take_bit 31 (push_bit 4 (sint x) OR uint d) = sint (x * 16 + d)"
  if "d < 16" for x d :: "32 word"
proof -
  have "uint d < 16" using that by (simp add: word_less_def)
  then have "push_bit 4 (sint x) OR uint d = 16 * sint x + uint d" using or_eq_add [of "uint d" 4 "sint x"] by simp
  moreover have "x * 16 + d = word_of_int (16 * sint x + uint d)" by (simp add: mult.commute)
  ultimately show ?thesis by (simp only: sint_sbintrunc') (simp add: sint_sbintrunc')
qed

lemma hex_digits:
  assumes "escape_loop n 16 x s = (EscValue v, t)" "cur s" "nerr t = nerr s"
  shows "cur t \<and> (\<exists>ds. length ds = n \<and> rest_of s = ds @ rest_of t \<and> (\<forall>u. unhex_loop n (sint x) (ds @ u) = Some (sint v)))"
  using assms
proof (induction n arbitrary: x s)
  case 0
  then show ?case by auto
next
  case (Suc n)
  let ?d = "escape_digit (ch s) 16"
  have d: "0 \<le> ch s" "?d < 16" "escape_loop n 16 (x * 16 + ?d) (nextch s) = (EscValue v, t)"
    using Suc.prems(1) by (auto simp: Let_def not_le split: if_splits)
  have q: "nerr (nextch s) = nerr s" "nerr t = nerr (nextch s)"
    using nerr_nextch [of s] nerr_escape_loop [of "nextch s" n 16 "x * 16 + ?d"] Suc.prems(3) d(3) by auto
  note nx = nextch_quiet [OF Suc.prems(2) d(1) q(1)]
  from Suc.IH [OF d(3) nx(1) q(2)] obtain ds where ds: "cur t" "length ds = n" "rest_of (nextch s) = ds @ rest_of t"
    "\<And>u. unhex_loop n (sint (x * 16 + ?d)) (ds @ u) = Some (sint v)" by blast
  note f = digit_facts(1) [OF d(1,2)]
  have "EncodeRune (ch s) = [byte_of (ch s)]" using f d(1) by (simp add: EncodeRune_1)
  with nx(2) ds(3) have "rest_of s = (byte_of (ch s) # ds) @ rest_of t" by simp
  moreover have "unhex_loop (Suc n) (sint x) ((byte_of (ch s) # ds) @ u) = Some (sint v)" for u
    using f ds(4) sint_step [OF d(2), of x] by simp
  ultimately show ?case using ds(1,2) by (metis length_Cons)
qed

lemma octal_digits:
  assumes "escape_loop n 8 x s = (EscValue v, t)" "cur s" "nerr t = nerr s" "(uint x + 1) * 8 ^ n \<le> 512"
  shows "cur t \<and> (\<exists>ds. length ds = n \<and> rest_of s = ds @ rest_of t \<and> (\<forall>u. octal_loop n (uint x) (ds @ u) = Some (uint v)))"
  using assms
proof (induction n arbitrary: x s)
  case 0
  then show ?case by auto
next
  case (Suc n)
  let ?d = "escape_digit (ch s) 8"
  have d: "0 \<le> ch s" "?d < 8" "escape_loop n 8 (x * 8 + ?d) (nextch s) = (EscValue v, t)"
    using Suc.prems(1) by (auto simp: Let_def not_le split: if_splits)
  have q: "nerr (nextch s) = nerr s" "nerr t = nerr (nextch s)"
    using nerr_nextch [of s] nerr_escape_loop [of "nextch s" n 8 "x * 8 + ?d"] Suc.prems(3) d(3) by auto
  note nx = nextch_quiet [OF Suc.prems(2) d(1) q(1)]
  have ud: "0 \<le> uint ?d" "uint ?d < 8" "0 \<le> uint x" using d(2) by (simp_all add: word_less_def)
  have "1 \<le> (8::int) ^ n" by simp
  then have "(uint x + 1) * 8 \<le> 512"
    using Suc.prems(4) mult_left_mono [of 1 "8 ^ n" "(uint x + 1) * 8"] ud(3) by (simp add: algebra_simps)
  then have u: "uint (x * 8 + ?d) = 8 * uint x + uint ?d"
    using ud by (simp add: uint_word_ariths take_bit_int_eq_self mult.commute)
  have "(8 * uint x + uint ?d + 1) * 8 ^ n \<le> (8 * (uint x + 1)) * 8 ^ n" using ud by (intro mult_right_mono) auto
  also have "\<dots> = (uint x + 1) * 8 ^ Suc n" by simp
  finally have "(uint (x * 8 + ?d) + 1) * 8 ^ n \<le> 512" using Suc.prems(4) unfolding u by linarith
  from Suc.IH [OF d(3) nx(1) q(2) this] obtain ds where ds: "cur t" "length ds = n" "rest_of (nextch s) = ds @ rest_of t"
    "\<And>w. octal_loop n (uint (x * 8 + ?d)) (ds @ w) = Some (uint v)" by blast
  note f = digit_facts(2) [OF d(1,2)]
  have "EncodeRune (ch s) = [byte_of (ch s)]" using f d(1) by (simp add: EncodeRune_1)
  with nx(2) ds(3) have "rest_of s = (byte_of (ch s) # ds) @ rest_of t" by simp
  moreover have "octal_loop (Suc n) (uint x) ((byte_of (ch s) # ds) @ w) = Some (uint v)" for w
    using f ds(4) or_eq_add [of "uint ?d" 3 "uint x"] ud by (simp add: u Let_def rune_of_byte_of)
  ultimately show ?case using ds(1,2) by (metis length_Cons)
qed

subsection \<open>Escapes\<close>

text \<open>After the backslash: the scanner accepts an escape that unquotes, or the input ends.\<close>

definition escape_ok :: "'a scanner_scheme \<Rightarrow> 'a scanner_scheme \<Rightarrow> bool" where
  "escape_ok s t \<longleftrightarrow> ch t < 0 \<or> cur t \<and> (\<exists>e bs. rest_of s = e @ rest_of t \<and> unq (backslash # e) bs)"

lemma escape_okI: "cur t \<Longrightarrow> rest_of s = e @ rest_of t \<Longrightarrow> unq (backslash # e) bs \<Longrightarrow> escape_ok s t"
  by (auto simp: escape_ok_def)

lemma escape_loop_eof: "escape_loop n base x s = (EscEOF, t) \<Longrightarrow> ch t < 0"
  by (induction n arbitrary: x s) (auto simp: Let_def split: if_splits)

lemma escape_number_cases:
  assumes "escape_number n base maxi s = (True, t)"
  obtains "ch t < 0" | x where "escape_loop n base 0 s = (EscValue x, t)" "x \<le> maxi" "\<not> (0xD800 \<le> x \<and> x < 0xE000)"
proof (cases "escape_loop n base 0 s")
  case (Pair r u)
  with assms show thesis
    by (cases r) (auto simp: escape_number_def not_less split: if_splits dest: escape_loop_eof intro: that)
qed

lemma sint_small: "x \<le> 0x10FFFF \<Longrightarrow> sint x = uint x" for x :: "32 word"
proof -
  assume "x \<le> 0x10FFFF"
  then have "uint x \<le> 0x10FFFF" by (simp add: word_le_def)
  then have "uint x < 2 ^ 31" by simp
  moreover have "- (2 ^ 31) \<le> uint x" using uint_ge_0 [of x] by (rule order_trans [rotated]) simp
  ultimately have "- (2 ^ 31) \<le> uint x" "uint x < 2 ^ 31" by blast+
  then have "signed_take_bit 31 (uint x) = uint x" by (rule signed_take_bit_int_eq_self)
  then show ?thesis by (simp add: sint_uint)
qed

lemma valid_word: "x \<le> 0x10FFFF \<Longrightarrow> \<not> (0xD800 \<le> x \<and> x < 0xE000) \<Longrightarrow> ValidRune (uint x)" for x :: "32 word"
  by (auto simp: ValidRune_def utf8_consts word_le_def word_less_def)

lemma escape_unicode:
  assumes "escape_number n 16 0x10FFFF s = (True, t)" "cur s" "nerr t = nerr s" "n = 4 \<and> c = CHR ''u'' \<or> n = 8 \<and> c = CHR ''U''"
  shows "ch t < 0 \<or> cur t \<and> (\<exists>ds bs. rest_of s = ds @ rest_of t \<and> unq (backslash # c # ds) bs)"
  using assms(1)
proof (cases rule: escape_number_cases)
  case (2 x)
  from hex_digits [OF 2(1) assms(2,3)] obtain ds where ds: "cur t" "length ds = n" "rest_of s = ds @ rest_of t"
    "\<And>u. unhex_loop n 0 (ds @ u) = Some (uint x)" using sint_small [OF 2(2)] by auto
  have "unquote_hex c n (ds @ u) = Some (uint x, True, u)" for u
    using ds(2,4) assms(4) valid_word [OF 2(2,3)] by (auto simp: unquote_hex_def)
  then have "unquote_escape ((c # ds) @ u) (CHR 34) = Some (uint x, True, u)" for u
    using assms(4) unfolding unquote_escape_def by (elim disjE) simp_all
  then have "unq (backslash # c # ds) (EncodeRune (uint x))"
    by (rule unq_escape [OF _ append_rune [OF valid_word [OF 2(2,3)]]])
  with ds show ?thesis by blast
qed simp

lemma escape_byte:
  assumes "escape_number 2 16 255 s = (True, t)" "cur s" "nerr t = nerr s"
  shows "ch t < 0 \<or> cur t \<and> (\<exists>ds bs. rest_of s = ds @ rest_of t \<and> unq (backslash # CHR ''x'' # ds) bs)"
  using assms(1)
proof (cases rule: escape_number_cases)
  case (2 x)
  have x: "sint x = uint x" using 2(2) by (intro sint_small) (simp add: word_le_def)
  from hex_digits [OF 2(1) assms(2,3)] obtain ds where ds: "cur t" "length ds = 2" "rest_of s = ds @ rest_of t"
    "\<And>u. unhex_loop 2 0 (ds @ u) = Some (uint x)" using x by auto
  have "unquote_escape ((CHR ''x'' # ds) @ u) (CHR 34) = Some (uint x, False, u)" for u
    using ds(2,4) by (simp add: unquote_escape_def unquote_hex_def)
  then have "unq (backslash # CHR ''x'' # ds) [byte_of (take_bit 8 (uint x))]"
    by (rule unq_escape) (simp add: append_unquoted_def)
  with ds show ?thesis by blast
qed simp

lemma letter_runes:
  "rune_of (CHR ''a'') = 97" "rune_of (CHR ''b'') = 98" "rune_of (CHR ''f'') = 102" "rune_of (CHR ''n'') = 110"
  "rune_of (CHR ''r'') = 114" "rune_of (CHR ''t'') = 116" "rune_of (CHR ''v'') = 118" "rune_of (CHR ''x'') = 120"
  "rune_of (CHR ''u'') = 117" "rune_of (CHR ''U'') = 85"
  by (simp_all add: rune_of_def)

lemma unquote_escape_octal:
  assumes "48 \<le> rune_of c" "rune_of c \<le> 55"
  shows "unquote_escape (c # s) q = unquote_octal c s"
proof -
  have "c \<noteq> d" if "55 < rune_of d" for d using that assms by auto
  from this [of "CHR ''a''"] this [of "CHR ''b''"] this [of "CHR ''f''"] this [of "CHR ''n''"] this [of "CHR ''r''"]
    this [of "CHR ''t''"] this [of "CHR ''v''"] this [of "CHR ''x''"] this [of "CHR ''u''"] this [of "CHR ''U''"]
  show ?thesis using assms unfolding unquote_escape_def by (simp add: letter_runes)
qed

lemma escape_octal:
  assumes "escape_number 3 8 255 s = (True, t)" "cur s" "nerr t = nerr s"
  shows "escape_ok s t"
  using assms(1)
proof (cases rule: escape_number_cases)
  case (2 x)
  from octal_digits [OF 2(1) assms(2,3)] obtain ds where ds: "cur t" "length ds = 3" "rest_of s = ds @ rest_of t"
    "\<And>u. octal_loop 3 0 (ds @ u) = Some (uint x)" by auto
  then obtain c d where c: "ds = c # d" "length d = 2" by (auto simp: length_Suc_conv numeral_3_eq_3)
  have oc: "\<not> (rune_of c - 48 < 0 \<or> rune_of c - 48 > 7)"
    using ds(4) [of "[]"] unfolding c(1) numeral_3_eq_3 by (simp add: Let_def split: if_splits)
  then have o: "octal_loop 2 (rune_of c - 48) (d @ u) = Some (uint x)" for u
    using ds(4) [of u] unfolding c(1) numeral_3_eq_3 numeral_2_eq_2 by (simp add: Let_def)
  have "uint x \<le> 255" using 2(2) by (simp add: word_le_def)
  then have "unquote_escape (ds @ u) (CHR 34) = Some (uint x, False, u)" for u
    using o [of u] oc c(2) by (simp add: c(1) unquote_escape_octal unquote_octal_def)
  then have "unq (backslash # ds) [byte_of (take_bit 8 (uint x))]"
    by (rule unq_escape) (simp add: append_unquoted_def)
  with ds show ?thesis by (auto intro: escape_okI)
qed (simp add: escape_ok_def)

lemma escape_simple:
  "c \<in> {34, 97, 98, 102, 110, 114, 116, 118, 92} \<Longrightarrow> \<exists>bs. unq [backslash, byte_of c] bs"
proof -
  have "byte_of 97 = CHR ''a''" "byte_of 98 = CHR ''b''" "byte_of 102 = CHR ''f''" "byte_of 110 = CHR ''n''"
    "byte_of 114 = CHR ''r''" "byte_of 116 = CHR ''t''" "byte_of 118 = CHR ''v''"
    by code_simp+
  then show "c \<in> {34, 97, 98, 102, 110, 114, 116, 118, 92} \<Longrightarrow> \<exists>bs. unq [backslash, byte_of c] bs"
    using unq_simple byte_lits by auto
qed

lemma letter_bytes: "byte_of 120 = CHR ''x''" "byte_of 117 = CHR ''u''" "byte_of 85 = CHR ''U''"
  by code_simp+

text \<open>A numeric escape after its letter.\<close>

lemma escape_letter:
  assumes "cur s" "0 \<le> ch s" "ch s < 128" "escape_number n 16 m (nextch s) = (True, t)" "nerr t = nerr s"
    and "\<And>u. u = nextch s \<Longrightarrow> cur u \<Longrightarrow> nerr t = nerr u \<Longrightarrow>
      ch t < 0 \<or> cur t \<and> (\<exists>ds bs. rest_of u = ds @ rest_of t \<and> unq (backslash # byte_of (ch s) # ds) bs)"
  shows "escape_ok s t"
proof -
  have q: "nerr (nextch s) = nerr s" "nerr t = nerr (nextch s)"
    using nerr_nextch [of s] nerr_escape_number [of "nextch s" n 16 m] assms(4,5) by auto
  note nx = nextch_quiet [OF assms(1,2) q(1)]
  have r: "rest_of s = byte_of (ch s) # rest_of (nextch s)" using nx(2) assms(2,3) by (simp add: EncodeRune_1)
  from assms(6) [OF refl nx(1) q(2)] show ?thesis
  proof (elim disjE conjE exE)
    fix ds bs
    assume "cur t" "rest_of (nextch s) = ds @ rest_of t" "unq (backslash # byte_of (ch s) # ds) bs"
    then show ?thesis by (intro escape_okI [of t s "byte_of (ch s) # ds"]) (simp_all add: r)
  qed (simp add: escape_ok_def)
qed

lemma escape_quiet:
  assumes "escape 34 s = (True, t)" "cur s" "nerr t = nerr s"
  shows "escape_ok s t"
proof -
  consider (simple) "ch s \<in> {34, 97, 98, 102, 110, 114, 116, 118, 92}"
    | (octal) "ch s \<notin> {34, 97, 98, 102, 110, 114, 116, 118, 92}" "48 \<le> ch s \<and> ch s \<le> 55"
    | (hex) "ch s = 120" | (u4) "ch s = 117" | (u8) "ch s = 85"
    | (other) "ch s \<notin> {34, 97, 98, 102, 110, 114, 116, 118, 92}" "\<not> (48 \<le> ch s \<and> ch s \<le> 55)" "ch s \<notin> {120, 117, 85}"
    by blast
  then show ?thesis
  proof cases
    case simple
    then have t: "t = nextch s" using assms(1) unfolding escape_def by simp
    have c: "0 \<le> ch s" "ch s < 128" using simple by auto
    have q: "nerr (nextch s) = nerr s" using assms(3) t by simp
    note nx = nextch_quiet [OF assms(2) c(1) q]
    obtain bs where b: "unq [backslash, byte_of (ch s)] bs" using escape_simple [OF simple] by blast
    show ?thesis using nx c unfolding t by (intro escape_okI [OF _ _ b]) (simp_all add: EncodeRune_1)
  next
    case octal
    then have "escape_number 3 8 255 s = (True, t)" using assms(1) unfolding escape_def by (simp only: if_False if_True simp_thms)
    then show ?thesis using assms by (intro escape_octal)
  next
    case hex
    then have e: "escape_number 2 16 255 (nextch s) = (True, t)" using assms(1) unfolding escape_def by simp
    show ?thesis
      by (rule escape_letter [OF assms(2) _ _ e assms(3)]) (use escape_byte [OF e] in \<open>simp_all add: hex letter_bytes\<close>)
  next
    case u4
    then have e: "escape_number 4 16 0x10FFFF (nextch s) = (True, t)" using assms(1) unfolding escape_def by simp
    show ?thesis
      by (rule escape_letter [OF assms(2) _ _ e assms(3)]) (use escape_unicode [OF e] in \<open>simp_all add: u4 letter_bytes\<close>)
  next
    case u8
    then have e: "escape_number 8 16 0x10FFFF (nextch s) = (True, t)" using assms(1) unfolding escape_def by simp
    show ?thesis
      by (rule escape_letter [OF assms(2) _ _ e assms(3)]) (use escape_unicode [OF e] in \<open>simp_all add: u8 letter_bytes\<close>)
  next
    case other
    then have "ch s < 0 \<and> t = s" using assms(1) unfolding escape_def by (simp split: if_splits)
    then show ?thesis by (simp add: escape_ok_def)
  qed
qed

subsection \<open>Strings\<close>

lemma cur_ch: "cur s \<Longrightarrow> \<not> ch s < 0 \<Longrightarrow> ValidRune (ch s)"
  by (auto simp: cur_def)

definition string_ok :: "'a scanner_scheme \<Rightarrow> 'a scanner_scheme \<Rightarrow> bool" where
  "string_ok s t \<longleftrightarrow> cur t \<and> (\<exists>w out. rest_of s = w @ CHR 34 # rest_of t \<and>
     (\<forall>u buf. unquote_loop (CHR 34) True (w @ CHR 34 # u) buf = Some (buf @ out, CHR 34 # u)))"

lemma string_ok_step:
  assumes "unq e bs" "rest_of s = e @ rest_of s'" "string_ok s' t"
  shows "string_ok s t"
proof -
  obtain w out where w: "cur t" "rest_of s' = w @ CHR 34 # rest_of t"
    "\<And>u buf. unquote_loop (CHR 34) True (w @ CHR 34 # u) buf = Some (buf @ out, CHR 34 # u)"
    using assms(3) unfolding string_ok_def by blast
  have "unquote_loop (CHR 34) True ((e @ w) @ CHR 34 # u) buf = Some (buf @ (bs @ out), CHR 34 # u)" for u buf
    using unquote_loop_unq [OF assms(1), of "w @ CHR 34 # u" buf] w(3) by simp
  moreover have "rest_of s = (e @ w) @ CHR 34 # rest_of t" using assms(2) w(2) by simp
  ultimately show ?thesis unfolding string_ok_def using w(1) by blast
qed

lemma fst_stdString_loop: "fst (stdString_loop ok s) \<Longrightarrow> ok"
proof (induction ok s rule: stdString_loop.induct)
  case (1 ok s)
  then show ?case by (subst (asm) (3) stdString_loop.simps) (auto split: if_splits prod.splits)
qed

lemma stdString_loop_quiet:
  "stdString_loop ok s = (True, t) \<Longrightarrow> cur s \<Longrightarrow> nerr t = nerr s \<Longrightarrow> string_ok s t"
proof (induction ok s rule: stdString_loop.induct)
  case (1 ok s)
  note eq = "1.prems"(1) [unfolded stdString_loop.simps [of ok s]]
  consider (quote) "ch s = 34" | (esc) "ch s = 92" | (stop) "ch s = 10 \<or> ch s < 0"
    | (plain) "ch s \<noteq> 34" "ch s \<noteq> 92" "ch s \<noteq> 10" "\<not> ch s < 0" by blast
  then show ?case
  proof cases
    case quote
    then have t: "t = nextch s" using eq by simp
    have b: "EncodeRune 34 = [CHR 34]" by (simp add: EncodeRune_1 byte_lits)
    have q: "nerr (nextch s) = nerr s" using "1.prems"(3) t by simp
    note nx = nextch_quiet [OF "1.prems"(2) _ q]
    have "cur t" "rest_of s = [] @ CHR 34 # rest_of t" using nx quote b t by simp_all
    moreover have "unquote_loop (CHR 34) True ([] @ CHR 34 # u) buf = Some (buf @ [], CHR 34 # u)" for u buf
      by (simp add: unquote_loop_end)
    ultimately show ?thesis unfolding string_ok_def by blast
  next
    case esc
    obtain e u where u: "escape 34 (nextch s) = (e, u)" by fastforce
    have l: "stdString_loop (ok \<and> e) u = (True, t)" using eq esc u by simp
    have n: "nerr (nextch s) = nerr s" "nerr u = nerr (nextch s)" "nerr t = nerr u"
      using nerr_nextch [of s] nerr_escape [of "nextch s" 34] nerr_stdString_loop [of u "ok \<and> e"] "1.prems"(3) u l by auto
    note nx = nextch_quiet [OF "1.prems"(2) _ n(1)]
    have c: "\<not> ch u < 0" using l by (subst (asm) stdString_loop.simps) (auto split: if_splits)
    have e: "e" using fst_stdString_loop [of "ok \<and> e" u] l by simp
    from escape_quiet [of "nextch s" u] u e nx(1) n(2) esc have "escape_ok (nextch s) u" by simp
    with c obtain es bs where es: "cur u" "rest_of (nextch s) = es @ rest_of u" "unq (backslash # es) bs"
      unfolding escape_ok_def by blast
    have r: "rest_of s = (backslash # es) @ rest_of u" using nx(2) esc es(2) byte_lits by (simp add: EncodeRune_1)
    have "string_ok u t" using "1.IH"(1) [of "(e, u)" e u] es(1) u esc l n by simp
    then show ?thesis by (rule string_ok_step [OF es(3) r])
  next
    case stop
    with eq show ?thesis by (auto split: if_splits)
  next
    case plain
    have l: "stdString_loop ok (nextch s) = (True, t)" using eq plain by simp
    have n: "nerr (nextch s) = nerr s" "nerr t = nerr (nextch s)"
      using nerr_nextch [of s] nerr_stdString_loop [of "nextch s" ok] "1.prems"(3) l by auto
    note nx = nextch_quiet [OF "1.prems"(2) _ n(1)]
    have "unq (EncodeRune (ch s)) (EncodeRune (ch s))" using plain cur_ch [OF "1.prems"(2)] by (intro unq_rune) auto
    moreover have "string_ok (nextch s) t" using nx(1) plain "1.IH"(2) l n(2) by simp
    ultimately show ?thesis using string_ok_step nx(2) plain(4) by force
  qed
qed

subsection \<open>Rejection is reported\<close>

lemma escape_loop_bad: "escape_loop n base x s = (EscBad, t) \<Longrightarrow> baseName (uint base) \<noteq> None \<Longrightarrow> nerr s < nerr t"
proof (induction n arbitrary: x s)
  case (Suc n)
  note e = Suc.prems(1)
  show ?case
  proof (cases "escape_digit (ch s) base \<ge> base")
    case True
    then show ?thesis using e nerr_errorBase(2) [OF Suc.prems(2), where s = s]
      by (auto simp: Let_def simp del: baseName.simps split: if_splits)
  next
    case False
    then have "escape_loop n base (x * base + escape_digit (ch s) base) (nextch s) = (EscBad, t)"
      using e by (auto simp: Let_def split: if_splits)
    with Suc.IH [OF _ Suc.prems(2)] nerr_nextch [of s] show ?thesis by (meson le_less_trans)
  qed
qed simp

lemma escape_number_loud:
  assumes "escape_number n base m s = (False, t)" "baseName (uint base) \<noteq> None"
  shows "nerr s < nerr t"
proof (cases "escape_loop n base 0 s")
  case (Pair r u)
  have "nerr s \<le> nerr u" using nerr_escape_loop [of s n base 0] Pair by simp
  with assms Pair show ?thesis
    by (cases r) (auto simp: escape_number_def simp del: baseName.simps split: if_splits dest: escape_loop_bad)
qed

lemma escape_loud: "escape q s = (False, t) \<Longrightarrow> nerr s < nerr t"
proof -
  assume e: "escape q s = (False, t)"
  have n: "nerr s < nerr t" if "escape_number n base m (nextch s) = (False, t)" "baseName (uint base) \<noteq> None" for n base m
    using escape_number_loud [OF that] nerr_nextch [of s] by linarith
  show "nerr s < nerr t"
  proof (cases "ch s \<in> {q, 97, 98, 102, 110, 114, 116, 118, 92}")
    case True
    with e show ?thesis unfolding escape_def by simp
  next
    case out: False
    note eq = e [unfolded escape_def if_not_P [OF out]]
    show ?thesis
    proof (cases "48 \<le> ch s \<and> ch s \<le> 55")
      case True
      then show ?thesis using eq by (simp add: escape_number_loud)
    next
      case False
      note eq' = eq [unfolded if_not_P [OF False]]
      show ?thesis
        using eq' n by (cases "ch s = 120"; cases "ch s = 117"; cases "ch s = 85"; cases "ch s < 0") auto
    qed
  qed
qed

lemma stdString_loop_loud: "stdString_loop ok s = (False, t) \<Longrightarrow> ok \<Longrightarrow> nerr s < nerr t"
proof (induction ok s rule: stdString_loop.induct)
  case (1 ok s)
  note eq = "1.prems"(1) [unfolded stdString_loop.simps [of ok s]]
  note nn = nerr_nextch [of s]
  show ?case
  proof (cases "ch s = 92")
    case True
    obtain e u where u: "escape 34 (nextch s) = (e, u)" by fastforce
    have l: "stdString_loop (ok \<and> e) u = (False, t)" using eq True u by simp
    have m: "nerr (nextch s) \<le> nerr u" "nerr u \<le> nerr t"
      using nerr_escape [of "nextch s" 34] nerr_stdString_loop [of u "ok \<and> e"] u l by auto
    show ?thesis
    proof (cases e)
      case True
      with "1.IH"(1) [of "(e, u)" e u] u l \<open>ch s = 92\<close> "1.prems"(2) have "nerr u < nerr t" by simp
      with m nn show ?thesis by linarith
    next
      case False
      with u escape_loud [of 34 "nextch s" u] m nn show ?thesis by simp
    qed
  next
    case False
    consider "ch s = 10 \<or> ch s < 0" | "ch s \<noteq> 10" "\<not> ch s < 0" "ch s \<noteq> 34" | "ch s = 34" by blast
    then show ?thesis
    proof cases
      case 1
      with eq False show ?thesis by (auto split: if_splits)
    next
      case 2
      with False eq have "stdString_loop ok (nextch s) = (False, t)" by simp
      with "1.IH"(2) 2 False "1.prems"(2) nn show ?thesis by (simp add: le_less_trans)
    next
      case 3
      with eq "1.prems"(2) show ?thesis by simp
    qed
  qed
qed

subsection \<open>Properties\<close>

lemma ch_inv_cur:
  assumes "src_inv s" "ch_inv s" "ch s = c" "0 \<le> c" "c < 128" "0 \<le> src_col s"
  shows "cur s"
proof -
  have d: "0 < chw s" "chw s \<le> rd_r s" "DecodeRune (rest_of s) = (c, chw s)"
    using assms(2-4) by (auto simp: ch_inv_def rest_of_def)
  then have "rest_of s \<noteq> []" by (auto simp: DecodeRune_Nil RuneError_def)
  then show ?thesis
  proof (cases rule: DecodeRune_cases)
    case invalid
    with d(3) assms(5) show ?thesis by (simp add: RuneError_def)
  next
    case (valid r n)
    then have r: "r = c" "n = chw s" using d(3) by auto
    have "rest_of s = EncodeRune c @ drop (chw s) (rest_of s)"
      using append_take_drop_id [of "chw s" "rest_of s"] valid(3) r by metis
    moreover have "drop (chw s) (rest_of s) = drop (rd_r s) (data s)" using d(2) by (simp add: rest_of_def)
    ultimately show ?thesis using assms d(1) valid(2) r by (simp add: cur_def)
  qed
qed

lemma segment_text:
  assumes "cur s" "seg_b s = int (rd_r s) - int (chw s)" "cur t" "data t = data s" "seg_b t = seg_b s" "rest_of s = w @ rest_of t"
  shows "segment t = w"
proof -
  have "segment t = take (rd_r t - chw t - (rd_r s - chw s)) (rest_of s)"
    using assms(1-5) by (simp add: segment_def rest_of_def cur_def src_inv_def nat_diff_distrib)
  moreover have "length w = rd_r t - chw t - (rd_r s - chw s)"
    using arg_cong [OF assms(6), of length] assms(1,3,4) by (auto simp: rest_of_def cur_def src_inv_def)
  ultimately show ?thesis using assms(6) by simp
qed

text \<open>C10: an interpreted string literal (in double quotes) that the scanner reads without reporting an error is not marked as bad, and its
  text is one that \<open>Unquote\<close> evaluates.\<close>

theorem string_literal_unquotes:
  assumes "src_inv s" "ch_inv s" "ch s = 34" "seg_b s = int (rd_r s) - int (chw s)" "0 \<le> src_col s"
    and "errs (stdString s) = errs s"
  shows "\<not> bad (stdString s) \<and> (\<exists>v. Unquote (lit (stdString s)) = Some v)"
proof -
  have c: "cur s" using ch_inv_cur [OF assms(1-3) _ _ assms(5)] by simp
  obtain ok t where t: "stdString_loop True (nextch s) = (ok, t)" by fastforce
  have st: "stdString s = setLit StringLit ok t" by (simp add: stdString_def t)
  have n: "nerr (nextch s) = nerr s" "nerr t = nerr (nextch s)"
    using nerr_nextch [of s] nerr_stdString_loop [of "nextch s" True] assms(6) t by (auto simp: st setLit_def)
  have ok: "ok" using stdString_loop_loud [of True "nextch s" t] t n(2) by (cases ok) auto
  note nx = nextch_quiet [OF c _ n(1)]
  from stdString_loop_quiet [of True "nextch s" t] t ok nx(1) n(2) assms(3) obtain w out where
    w: "cur t" "rest_of (nextch s) = w @ CHR 34 # rest_of t" "unquote_loop (CHR 34) True (w @ [CHR 34]) [] = Some (out, [CHR 34])"
    unfolding string_ok_def by fastforce
  have d: "data t = data s" "seg_b t = seg_b s"
    using reads_trans [OF reads_nextch reads_stdString_loop, of s True] t by (simp_all add: reads_def)
  have "rest_of s = (CHR 34 # w @ [CHR 34]) @ rest_of t"
    using nx(2) w(2) assms(3) by (simp add: EncodeRune_1 byte_lits)
  then have "segment t = CHR 34 # w @ [CHR 34]" by (rule segment_text [OF c assms(4) w(1) d])
  then have "lit (stdString s) = CHR 34 # w @ [CHR 34]" by (simp add: st)
  with Unquote_slow [OF w(3)] ok show ?thesis by (simp add: st setLit_def)
qed

definition sample_string :: scanner where
  "sample_string = token_start False (scanner_init [CHR 34, CHR 97, CHR 92, CHR 110, CHR 34] 0)"

theorem string_literal_unquotes_witness:
  "errs (stdString sample_string) = errs sample_string \<and> \<not> bad (stdString sample_string)
     \<and> (\<exists>v. Unquote (lit (stdString sample_string)) = Some v)"
proof (rule conjI)
  show e: "errs (stdString sample_string) = errs sample_string" by code_simp
  show "\<not> bad (stdString sample_string) \<and> (\<exists>v. Unquote (lit (stdString sample_string)) = Some v)"
  proof (rule string_literal_unquotes [OF _ _ _ _ _ e])
    show "src_inv sample_string" by code_simp
    show "ch_inv sample_string" by code_simp
    show "ch sample_string = 34" by code_simp
    show "seg_b sample_string = int (rd_r sample_string) - int (chw sample_string)" by code_simp
    show "0 \<le> src_col sample_string" by code_simp
  qed
qed

subsection \<open>Raw strings\<close>

lemma nerr_rawString_loop: "nerr s \<le> nerr (snd (rawString_loop s))"
proof (induction s rule: rawString_loop.induct)
  case (1 s)
  with nerr_nextch [of s] show ?case by (subst rawString_loop.simps) (auto intro: order_trans)
qed

lemma rawString_loop_loud: "rawString_loop s = (False, t) \<Longrightarrow> nerr s < nerr t"
proof (induction s rule: rawString_loop.induct)
  case (1 s)
  note eq = "1.prems" [unfolded rawString_loop.simps [of s]]
  show ?case
  proof (cases "ch s = 96 \<or> ch s < 0")
    case True
    then show ?thesis using eq by (auto split: if_splits)
  next
    case False
    then have "rawString_loop (nextch s) = (False, t)" using eq by simp
    with "1.IH" False nerr_nextch [of s] show ?thesis by simp
  qed
qed

lemma no_backquote:
  assumes "ValidRune c" "c \<noteq> 96"
  shows "CHR 96 \<notin> set (EncodeRune c)"
proof (cases "1 < length (EncodeRune c)")
  case True
  have "rune_of (CHR 96) < 128" by code_simp
  with wide_bytes [OF EncodeRune_seq [OF assms(1)] True] show ?thesis by simp
next
  case False
  have l: "rune_of (CHR 96) = 96" by code_simp
  from EncodeRune_seq [OF assms(1)] False obtain a where a: "EncodeRune c = [a]" "rune_of a < 128"
    by cases auto
  with DecodeRune_EncodeRune [OF assms(1), of "[]"] DecodeRune_1 [of a "[]"] have "c = rune_of a" by simp
  with a(1) assms(2) l show ?thesis by auto
qed

lemma rawString_loop_quiet:
  "rawString_loop s = (True, t) \<Longrightarrow> cur s \<Longrightarrow> nerr t = nerr s \<Longrightarrow>
   cur t \<and> (\<exists>w. rest_of s = w @ CHR 96 # rest_of t \<and> CHR 96 \<notin> set w)"
proof (induction s rule: rawString_loop.induct)
  case (1 s)
  note eq = "1.prems"(1) [unfolded rawString_loop.simps [of s]]
  consider (quote) "ch s = 96" | (stop) "ch s < 0" | (plain) "ch s \<noteq> 96" "\<not> ch s < 0" by blast
  then show ?case
  proof cases
    case quote
    then have t: "t = nextch s" using eq by simp
    have q: "nerr (nextch s) = nerr s" using "1.prems"(3) t by simp
    have b: "EncodeRune 96 = [CHR 96]" by code_simp
    show ?thesis using nextch_quiet [OF "1.prems"(2) _ q] quote b t by (intro conjI exI [of _ "[]"]) simp_all
  next
    case plain
    have l: "rawString_loop (nextch s) = (True, t)" using eq plain by simp
    have n: "nerr (nextch s) = nerr s" "nerr t = nerr (nextch s)"
      using nerr_nextch [of s] nerr_rawString_loop [of "nextch s"] "1.prems"(3) l by auto
    note nx = nextch_quiet [OF "1.prems"(2) _ n(1)]
    obtain w where w: "cur t" "rest_of (nextch s) = w @ CHR 96 # rest_of t" "CHR 96 \<notin> set w"
      using "1.IH" [OF plain l] nx(1) plain(2) n(2) by auto
    have "CHR 96 \<notin> set (EncodeRune (ch s) @ w)"
      using w(3) no_backquote [OF cur_ch [OF "1.prems"(2) plain(2)] plain(1)] by simp
    then show ?thesis using w(1,2) nx(2) plain(2) by (intro conjI exI [of _ "EncodeRune (ch s) @ w"]) simp_all
  qed (use eq in auto)
qed

lemma Unquote_raw:
  assumes "CHR 96 \<notin> set s"
  shows "Unquote (CHR 96 # s @ [CHR 96]) = Some (filter (\<lambda>c. c \<noteq> CHR 13) s)"
proof -
  have i: "index_byte (s @ [CHR 96]) (CHR 96) = int (length s)"
    unfolding index_byte_eq using assms by (induction s) auto
  have "CHR 13 \<notin> set s \<Longrightarrow> filter (\<lambda>c. c \<noteq> CHR 13) s = s" by (auto simp: filter_id_conv)
  then show ?thesis using i by (auto simp: Unquote_def unquote_def unquote_raw_def Let_def)
qed

text \<open>C26: a raw string that the scanner reads without reporting an error is not marked as bad; its text is a backquote, the
  bytes up to the next backquote, and that backquote, reading goes on right behind it, and \<open>Unquote\<close> evaluates
  the text to these bytes without the carriage returns.\<close>

theorem raw_string_text:
  assumes "src_inv s" "ch_inv s" "ch s = 96" "seg_b s = int (rd_r s) - int (chw s)" "0 \<le> src_col s"
    and "errs (rawString s) = errs s"
  shows "\<not> bad (rawString s) \<and> rest_of s = lit (rawString s) @ rest_of (rawString s) \<and>
    (\<exists>body. CHR 96 \<notin> set body \<and> lit (rawString s) = CHR 96 # body @ [CHR 96] \<and>
       Unquote (lit (rawString s)) = Some (filter (\<lambda>c. c \<noteq> CHR 13) body))"
proof -
  have c: "cur s" using ch_inv_cur [OF assms(1-3) _ _ assms(5)] by simp
  obtain ok t where t: "rawString_loop (nextch s) = (ok, t)" by fastforce
  have st: "rawString s = setLit StringLit ok t" by (simp add: rawString_def t)
  have n: "nerr (nextch s) = nerr s" "nerr t = nerr (nextch s)"
    using nerr_nextch [of s] nerr_rawString_loop [of "nextch s"] assms(6) t by (auto simp: st setLit_def)
  have ok: "ok" using rawString_loop_loud [of "nextch s" t] t n(2) by (cases ok) auto
  note nx = nextch_quiet [OF c _ n(1)]
  from rawString_loop_quiet [of "nextch s" t] t ok nx(1) n(2) assms(3) obtain w where
    w: "cur t" "rest_of (nextch s) = w @ CHR 96 # rest_of t" "CHR 96 \<notin> set w" by fastforce
  have d: "data t = data s" "seg_b t = seg_b s"
    using reads_trans [OF reads_nextch reads_rawString_loop, of s] t by (simp_all add: reads_def)
  have "EncodeRune 96 = [CHR 96]" by code_simp
  then have r: "rest_of s = (CHR 96 # w @ [CHR 96]) @ rest_of t"
    using nx(2) w(2) assms(3) by simp
  then have "segment t = CHR 96 # w @ [CHR 96]" by (rule segment_text [OF c assms(4) w(1) d])
  then have l: "lit (rawString s) = CHR 96 # w @ [CHR 96]" by (simp add: st)
  have "rest_of (rawString s) = rest_of t" by (simp add: st setLit_def rest_of_def check_segment_def go_panic_def split: option.split)
  with r l Unquote_raw [OF w(3)] w(3) ok show ?thesis by (auto simp: st setLit_def)
qed

definition sample_raw :: scanner where
  "sample_raw = token_start False (scanner_init [CHR 96, CHR 97, CHR 13, CHR 10, CHR 96, CHR 43] 0)"

theorem raw_string_text_witness:
  "lit (rawString sample_raw) = [CHR 96, CHR 97, CHR 13, CHR 10, CHR 96] \<and> \<not> bad (rawString sample_raw)
   \<and> rest_of sample_raw = lit (rawString sample_raw) @ rest_of (rawString sample_raw)
   \<and> (\<exists>body. CHR 96 \<notin> set body \<and> lit (rawString sample_raw) = CHR 96 # body @ [CHR 96] \<and>
       Unquote (lit (rawString sample_raw)) = Some (filter (\<lambda>c. c \<noteq> CHR 13) body))"
proof (rule conjI)
  show "lit (rawString sample_raw) = [CHR 96, CHR 97, CHR 13, CHR 10, CHR 96]" by code_simp
  have e: "errs (rawString sample_raw) = errs sample_raw" by code_simp
  show "\<not> bad (rawString sample_raw) \<and> rest_of sample_raw = lit (rawString sample_raw) @ rest_of (rawString sample_raw)
   \<and> (\<exists>body. CHR 96 \<notin> set body \<and> lit (rawString sample_raw) = CHR 96 # body @ [CHR 96] \<and>
       Unquote (lit (rawString sample_raw)) = Some (filter (\<lambda>c. c \<noteq> CHR 13) body))"
  proof (rule raw_string_text [OF _ _ _ _ _ e])
    show "src_inv sample_raw" by code_simp
    show "ch_inv sample_raw" by code_simp
    show "ch sample_raw = 96" by code_simp
    show "seg_b sample_raw = int (rd_r sample_raw) - int (chw sample_raw)" by code_simp
    show "0 \<le> src_col sample_raw" by code_simp
  qed
qed

end
