(* ===== verification/Source_Buffer.thy ===== *)
theory Source_Buffer
  imports Source
begin

text \<open>
  The buffer of \<open>cmd/compile/internal/syntax/source.go\<close>: \<open>source\<close> as the code has it, with the
  byte slice \<open>buf\<close>, the indices \<open>b\<close>, \<open>r\<close>, \<open>e\<close>, the sentinel and the refill from an \<open>io.Reader\<close>.
  The reader is a parameter: a call of \<open>Read\<close> gets the destination slice and returns \<open>n\<close>, the
  new contents of the slice, the error and the new state of the reader.  The locale
  \<open>io_reader\<close> states what the code relies on; \<open>strings.Reader\<close> is the instance.  The result of
  the theory is that, over a lawful reader, the buffered operations refine those of \<open>Source\<close>.
\<close>

datatype io_error = IoEOF | IoNoProgress | IoOther string

fun io_error_Error :: "io_error \<Rightarrow> string" where
  "io_error_Error IoEOF = ''EOF''"
| "io_error_Error IoNoProgress = ''multiple Read calls return no data or error''"
| "io_error_Error (IoOther m) = m"

type_synonym 'r reader = "'r \<Rightarrow> string \<Rightarrow> int \<times> string \<times> io_error option \<times> 'r"

record 'r bsource =
  in_r :: 'r
  buf :: string
  ioerr :: "io_error option"
  bf_b :: int
  bf_r :: int
  bf_e :: int
  bf_line :: nat
  bf_col :: int
  bf_ch :: rune
  bf_chw :: nat
  bf_blank :: bool
  bf_errs :: "errh_call list"
  bf_panicked :: "string option"

definition sentinel_byte :: char where "sentinel_byte = byte_of sentinel"

definition nextSize :: "nat \<Rightarrow> nat" where
  "nextSize n =
     (if n < 4096 then 4096 else if n \<le> 1048576 then 2 * n else n + 1048576)"

definition buf_init :: "'r \<Rightarrow> 'r bsource" where
  "buf_init rd = \<lparr>in_r = rd, buf = (replicate (nextSize 0) (byte_of 0))[0 := sentinel_byte],
     ioerr = None, bf_b = -1, bf_r = 0, bf_e = 0, bf_line = 0, bf_col = 0, bf_ch = 32, bf_chw = 0,
     bf_blank = False, bf_errs = [], bf_panicked = None\<rparr>"

definition buf_pos :: "'r bsource \<Rightarrow> nat \<times> nat" where
  "buf_pos s = (linebase + bf_line s, nat (int colbase + bf_col s))"

definition buf_error :: "string \<Rightarrow> 'r bsource \<Rightarrow> 'r bsource" where
  "buf_error msg s =
     (let (l, c) = buf_pos s in s\<lparr>bf_errs := bf_errs s @ [(l, c, msg, bf_blank s)]\<rparr>)"

definition buf_panic :: "string \<Rightarrow> 'r bsource \<Rightarrow> 'r bsource" where
  "buf_panic msg s = (case bf_panicked s of None \<Rightarrow> s\<lparr>bf_panicked := Some msg\<rparr> | Some _ \<Rightarrow> s)"

definition buf_start :: "'r bsource \<Rightarrow> 'r bsource" where
  "buf_start s = s\<lparr>bf_b := bf_r s - int (bf_chw s)\<rparr>"

definition buf_stop :: "'r bsource \<Rightarrow> 'r bsource" where
  "buf_stop s = s\<lparr>bf_b := -1\<rparr>"

text \<open>\<open>buf[i:j]\<close>.\<close>

definition slice :: "string \<Rightarrow> int \<Rightarrow> int \<Rightarrow> string" where
  "slice xs i j = take (nat (j - i)) (drop (nat i) xs)"

definition buf_segment :: "'r bsource \<Rightarrow> string" where
  "buf_segment s = slice (buf s) (bf_b s) (bf_r s - int (bf_chw s))"

text \<open>The first half of \<open>fill\<close>: keep the segment (or the unread bytes), grow or move down.\<close>

definition fill_move :: "'r bsource \<Rightarrow> 'r bsource" where
  "fill_move s =
     (let bb = (if bf_b s \<ge> 0 then bf_b s else bf_r s);
          s = (if bf_b s \<ge> 0 then s\<lparr>bf_b := 0\<rparr> else s);
          content = slice (buf s) bb (bf_e s);
          buf2 = (if length content * 2 > length (buf s)
                  then content @ replicate (nextSize (length (buf s)) - length content) (byte_of 0)
                  else if bb > 0 then content @ drop (length content) (buf s)
                  else buf s)
      in s\<lparr>buf := buf2, bf_r := bf_r s - bb, bf_e := bf_e s - bb\<rparr>)"

text \<open>The second half: at most \<open>k\<close> attempts to read.\<close>

fun fill_read :: "'r reader \<Rightarrow> nat \<Rightarrow> 'r bsource \<Rightarrow> 'r bsource" where
  "fill_read Read 0 s = s\<lparr>buf := (buf s)[nat (bf_e s) := sentinel_byte], ioerr := Some IoNoProgress\<rparr>"
| "fill_read Read (Suc k) s =
     (case Read (in_r s) (slice (buf s) (bf_e s) (int (length (buf s)) - 1)) of (n, q, e, rd) \<Rightarrow>
        let s = s\<lparr>in_r := rd, ioerr := e,
                  buf := take (nat (bf_e s)) (buf s) @ q @ drop (nat (bf_e s) + length q) (buf s)\<rparr> in
        if n < 0 then buf_panic ''negative read'' s
        else if n > 0 \<or> e \<noteq> None then
          if bf_e s + n < int (length (buf s)) then
            s\<lparr>bf_e := bf_e s + n, buf := (buf s)[nat (bf_e s + n) := sentinel_byte]\<rparr>
          else buf_panic ''index out of range'' s
        else fill_read Read k s)"

definition fill :: "'r reader \<Rightarrow> 'r bsource \<Rightarrow> 'r bsource" where
  "fill Read s = fill_read Read 10 (fill_move s)"

text \<open>The loop that makes a full rune available.  It ends for every reader.\<close>

lemma fill_read_grows:
  "bf_panicked s = None \<Longrightarrow> bf_panicked (fill_read Read k s) \<noteq> None \<or> ioerr (fill_read Read k s) \<noteq> None
     \<or> bf_e (fill_read Read k s) > bf_e s \<and> bf_r (fill_read Read k s) = bf_r s"
proof (induction k arbitrary: s)
  case (Suc k)
  obtain n q e rd where r:
      "Read (in_r s) (slice (buf s) (bf_e s) (int (length (buf s)) - 1)) = (n, q, e, rd)"
    using prod_cases4 by blast
  define t where "t = s\<lparr>in_r := rd, ioerr := e,
    buf := take (nat (bf_e s)) (buf s) @ q @ drop (nat (bf_e s) + length q) (buf s)\<rparr>"
  have t: "bf_panicked t = None" "bf_e t = bf_e s" "bf_r t = bf_r s" "ioerr t = e"
    using Suc.prems by (simp_all add: t_def)
  have "fill_read Read (Suc k) s =
      (if n < 0 then buf_panic ''negative read'' t
       else if n > 0 \<or> e \<noteq> None then
         if bf_e s + n < int (length (buf t)) then
           t\<lparr>bf_e := bf_e s + n, buf := (buf t)[nat (bf_e s + n) := sentinel_byte]\<rparr>
         else buf_panic ''index out of range'' t
       else fill_read Read k t)"
    by (simp add: r Let_def flip: t_def) (simp add: t_def)
  then show ?case using t Suc.IH [OF t(1)] by (auto simp: buf_panic_def)
qed simp

lemma fill_move_frame:
  "bf_panicked (fill_move s) = bf_panicked s" "ioerr (fill_move s) = ioerr s"
  "bf_e (fill_move s) - bf_r (fill_move s) = bf_e s - bf_r s"
  by (simp_all add: fill_move_def Let_def)

function fill_loop :: "'r reader \<Rightarrow> 'r bsource \<Rightarrow> 'r bsource" where
  "fill_loop Read s =
     (if bf_panicked s = None \<and> bf_e s - bf_r s < int UTFMax
         \<and> \<not> FullRune (slice (buf s) (bf_r s) (bf_e s)) \<and> ioerr s = None
      then fill_loop Read (fill Read s) else s)"
  by pat_completeness auto
termination
proof (relation "measure (\<lambda>(Read, s). if ioerr s = None \<and> bf_panicked s = None
    then nat (int UTFMax - (bf_e s - bf_r s)) + 1 else 0)", goal_cases)
  case (2 Read s)
  then show ?case
    using fill_read_grows [of "fill_move s" Read 10] fill_move_frame [of s]
    by (auto simp: fill_def)
qed simp

declare fill_loop.simps [simp del]

definition buf_step_pos :: "'r bsource \<Rightarrow> 'r bsource" where
  "buf_step_pos s =
     (let s = s\<lparr>bf_col := bf_col s + int (bf_chw s)\<rparr> in
      if bf_ch s = 10 then s\<lparr>bf_line := bf_line s + 1, bf_col := 0\<rparr> else s)"

text \<open>The general case of \<open>nextch\<close>, after the refill.\<close>

definition buf_decode :: "'r bsource \<Rightarrow> 'r bsource \<times> bool" where
  "buf_decode s =
     (if bf_r s = bf_e s then
        (let s = (case ioerr s of
                    None \<Rightarrow> buf_panic ''nil dereference'' s
                  | Some e \<Rightarrow>
                      if e \<noteq> IoEOF
                      then (buf_error (''I/O error: '' @ io_error_Error e) s)\<lparr>ioerr := None\<rparr> else s)
         in s\<lparr>bf_ch := -1, bf_chw := 0\<rparr>, False)
      else
        let (x, w) = DecodeRune (slice (buf s) (bf_r s) (bf_e s));
            s = s\<lparr>bf_ch := x, bf_chw := w, bf_r := bf_r s + int w\<rparr> in
        if x = RuneError \<and> w = 1 then (buf_error ''invalid UTF-8 encoding'' s, True)
        else if x = BOM then
          (if bf_line s > 0 \<or> bf_col s > 0
           then buf_error ''invalid BOM in the middle of the file'' s else s, True)
        else (s, False))"

definition buf_read_char :: "'r reader \<Rightarrow> 'r bsource \<Rightarrow> 'r bsource \<times> bool" where
  "buf_read_char Read s =
     (let c = rune_of (buf s ! nat (bf_r s)); s = s\<lparr>bf_ch := c\<rparr> in
      if c < sentinel then
        let s = s\<lparr>bf_r := bf_r s + 1, bf_chw := 1\<rparr> in
        if c = 0 then (buf_error ''invalid NUL character'' s, True) else (s, False)
      else
        let s = fill_loop Read s in
        if bf_panicked s \<noteq> None then (s, False) else buf_decode s)"

text \<open>\<open>nextch\<close>; on a reader that never ends it may not return, which is \<open>None\<close>.\<close>

partial_function (option) buf_nextch :: "'r reader \<Rightarrow> 'r bsource \<Rightarrow> 'r bsource option" where
  "buf_nextch Read s =
     (let (s', redo) = buf_read_char Read (buf_step_pos s) in
      if redo then buf_nextch Read s' else Some s')"

definition buf_rewind :: "'r reader \<Rightarrow> 'r bsource \<Rightarrow> 'r bsource option" where
  "buf_rewind Read s =
     (if bf_b s < 0 then Some (buf_panic ''no active segment'' s)
      else buf_nextch Read (s\<lparr>bf_col := bf_col s - (bf_r s - bf_b s), bf_r := bf_b s\<rparr>))"

subsection \<open>strings.Reader\<close>

record StringsReader =
  sr_s :: string
  sr_i :: int
  sr_prevRune :: int

definition strings_NewReader :: "string \<Rightarrow> StringsReader" where
  "strings_NewReader x = \<lparr>sr_s = x, sr_i = 0, sr_prevRune = -1\<rparr>"

definition strings_Read :: "StringsReader reader" where
  "strings_Read rd b =
     (if sr_i rd \<ge> int (length (sr_s rd)) then (0, b, Some IoEOF, rd)
      else
        let n = min (length b) (length (sr_s rd) - nat (sr_i rd))
        in (int n, take n (drop (nat (sr_i rd)) (sr_s rd)) @ drop n b, None,
            rd\<lparr>sr_prevRune := -1, sr_i := sr_i rd + int n\<rparr>))"

definition strings_rest :: "StringsReader \<Rightarrow> string" where
  "strings_rest rd = drop (nat (sr_i rd)) (sr_s rd)"

subsection \<open>The contract of a reader, and refinement\<close>

text \<open>
  What \<open>source.go\<close> relies on of \<open>io.Reader\<close>: \<open>0 \<le> n \<le> len(p)\<close>, the bytes delivered are the next
  bytes of the stream, the only error is the end of the stream, and a call with room to
  read either delivers a byte or reports an error.
\<close>

locale io_reader =
  fixes Read :: "'r reader"
    and valid :: "'r \<Rightarrow> bool"
    and rest :: "'r \<Rightarrow> string"
  assumes read_stream: "valid rd \<Longrightarrow> Read rd p = (n, q, e, rd') \<Longrightarrow>
      0 \<le> n \<and> nat n \<le> length p \<and> length q = length p \<and> rest rd = take (nat n) q @ rest rd' \<and> valid rd'"
    and read_err: "valid rd \<Longrightarrow> Read rd p = (n, q, e, rd') \<Longrightarrow> e = None \<or> e = Some IoEOF \<and> rest rd' = []"
    and read_progress: "valid rd \<Longrightarrow> Read rd p = (n, q, e, rd') \<Longrightarrow> p \<noteq> [] \<Longrightarrow> 0 < n \<or> e \<noteq> None"

text \<open>The buffer indices and the sentinel; \<open>nextch\<close> may run from here (after \<open>rewind\<close>, too).\<close>

definition buf_idx :: "('r \<Rightarrow> bool) \<Rightarrow> 'r bsource \<Rightarrow> bool" where
  "buf_idx valid s \<longleftrightarrow> valid (in_r s) \<and> -1 \<le> bf_b s \<and> bf_b s \<le> bf_r s \<and> 0 \<le> bf_r s \<and> bf_r s \<le> bf_e s
     \<and> bf_e s < int (length (buf s)) \<and> 4096 \<le> length (buf s)"

definition buf_ok :: "('r \<Rightarrow> bool) \<Rightarrow> ('r \<Rightarrow> string) \<Rightarrow> 'r bsource \<Rightarrow> bool" where
  "buf_ok valid rest s \<longleftrightarrow> buf_idx valid s \<and> buf s ! nat (bf_e s) = sentinel_byte
     \<and> (ioerr s = None \<or> ioerr s = Some IoEOF \<and> rest (in_r s) = [])"

text \<open>The buffer shows the window of the input that starts after the bytes \<open>pre\<close>.\<close>

definition window :: "('r \<Rightarrow> string) \<Rightarrow> 'r bsource \<Rightarrow> source \<Rightarrow> bool" where
  "window rest s a \<longleftrightarrow> (\<exists>pre. data a = pre @ take (nat (bf_e s)) (buf s) @ rest (in_r s)
     \<and> int (rd_r a) = int (length pre) + bf_r s
     \<and> seg_b a = (if bf_b s < 0 then -1 else int (length pre) + bf_b s))"

definition buf_same :: "'r bsource \<Rightarrow> source \<Rightarrow> bool" where
  "buf_same s a \<longleftrightarrow> src_line a = bf_line s \<and> src_col a = bf_col s \<and> chw a = bf_chw s
     \<and> ch a = bf_ch s \<and> blank a = bf_blank s \<and> errs a = bf_errs s
     \<and> bf_panicked s = panicked a"

definition buf_rel :: "('r \<Rightarrow> bool) \<Rightarrow> ('r \<Rightarrow> string) \<Rightarrow> 'r bsource \<Rightarrow> source \<Rightarrow> bool" where
  "buf_rel valid rest s a \<longleftrightarrow> buf_ok valid rest s \<and> window rest s a \<and> buf_same s a
     \<and> int (bf_chw s) \<le> bf_r s"

lemma slice_len: "0 \<le> i \<Longrightarrow> i \<le> j \<Longrightarrow> j \<le> int (length xs) \<Longrightarrow> length (slice xs i j) = nat (j - i)"
  by (simp add: slice_def)

lemma take_slice: "0 \<le> i \<Longrightarrow> i \<le> j \<Longrightarrow> take (nat j) xs = take (nat i) xs @ slice xs i j"
  by (simp add: slice_def nat_diff_distrib flip: take_add)

lemma slice_Cons:
  assumes "0 \<le> i" "i < j" "j < int (length xs)"
  shows "slice xs i j = xs ! nat i # take (nat (j - i) - 1) (drop (Suc (nat i)) xs)"
proof -
  obtain k where "nat (j - i) = Suc k" using assms(2) by (metis gr0_conv_Suc zero_less_nat_eq diff_gt_0_iff_gt)
  moreover have "drop (nat i) xs = xs ! nat i # drop (Suc (nat i)) xs"
    using assms by (intro Cons_nth_drop_Suc [symmetric]) linarith
  ultimately show ?thesis by (simp add: slice_def)
qed

lemma nextSize_grows: "4096 \<le> n \<Longrightarrow> n + 4096 \<le> nextSize n" "4096 \<le> nextSize n"
  by (simp_all add: nextSize_def)

lemma buf_panic_None: "bf_panicked (buf_panic m s) \<noteq> None"
  by (simp add: buf_panic_def split: option.split)

subsubsection \<open>The refill\<close>

lemma fill_move_buf:
  assumes idx: "buf_idx valid s"
  defines "bb \<equiv> (if bf_b s \<ge> 0 then bf_b s else bf_r s)"
  shows "take (nat (bf_e s - bb)) (buf (fill_move s)) = slice (buf s) bb (bf_e s)"
    and "bf_e s - bb + 1 < int (length (buf (fill_move s)))"
    and "4096 \<le> length (buf (fill_move s))"
proof -
  define content where "content = slice (buf s) bb (bf_e s)"
  have bb: "0 \<le> bb" "bb \<le> bf_e s" "bf_e s < int (length (buf s))" "4096 \<le> length (buf s)"
    using idx by (auto simp: buf_idx_def bb_def)
  then have len: "length content = nat (bf_e s - bb)"
    unfolding content_def by (intro slice_len) auto
  have b: "buf (fill_move s) =
      (if length content * 2 > length (buf s)
       then content @ replicate (nextSize (length (buf s)) - length content) (byte_of 0)
       else if bb > 0 then content @ drop (length content) (buf s) else buf s)"
    by (simp add: fill_move_def Let_def bb_def content_def)
  have c0: "bb = 0 \<Longrightarrow> content = take (nat (bf_e s)) (buf s)"
    by (simp add: content_def slice_def)
  show "take (nat (bf_e s - bb)) (buf (fill_move s)) = slice (buf s) bb (bf_e s)"
    using len c0 bb(1) unfolding b content_def [symmetric] by auto
  show "4096 \<le> length (buf (fill_move s))"
    using bb len nextSize_grows [of "length (buf s)"] unfolding b by auto
  show "bf_e s - bb + 1 < int (length (buf (fill_move s)))"
    using bb len nextSize_grows(1) [OF bb(4)] unfolding b by (auto split: if_splits)
qed

lemma fill_move_rel:
  assumes idx: "buf_idx valid s" and w: "window rest s a"
  shows "buf_idx valid (fill_move s)" "window rest (fill_move s) a"
    "bf_e (fill_move s) + 1 < int (length (buf (fill_move s)))"
proof -
  define bb where "bb = (if bf_b s \<ge> 0 then bf_b s else bf_r s)"
  note m = fill_move_buf [OF idx, folded bb_def]
  have bb: "0 \<le> bb" "bb \<le> bf_e s" "bb \<le> bf_r s" using idx by (auto simp: buf_idx_def bb_def)
  have f: "bf_e (fill_move s) = bf_e s - bb" "bf_r (fill_move s) = bf_r s - bb"
    "bf_b (fill_move s) = (if bf_b s \<ge> 0 then 0 else bf_b s)" "in_r (fill_move s) = in_r s"
    by (simp_all add: fill_move_def Let_def bb_def)
  show "bf_e (fill_move s) + 1 < int (length (buf (fill_move s)))" using m(2) by (simp add: f)
  show "buf_idx valid (fill_move s)"
    using idx m bb by (auto simp: buf_idx_def f)
  from w obtain pre where pre: "data a = pre @ take (nat (bf_e s)) (buf s) @ rest (in_r s)"
    "int (rd_r a) = int (length pre) + bf_r s"
    "seg_b a = (if bf_b s < 0 then -1 else int (length pre) + bf_b s)" by (auto simp: window_def)
  have "take (nat (bf_e s)) (buf s) = take (nat bb) (buf s) @ slice (buf s) bb (bf_e s)"
    using bb by (intro take_slice)
  moreover have "length (take (nat bb) (buf s)) = nat bb" using bb idx by (auto simp: buf_idx_def)
  ultimately show "window rest (fill_move s) a"
    unfolding window_def f m(1) using pre bb
    by (intro exI [of _ "pre @ take (nat bb) (buf s)"]) (auto simp: bb_def)
qed

lemma fill_move_same: "buf_same (fill_move s) a = buf_same s a"
  by (simp add: fill_move_def buf_same_def Let_def)

subsubsection \<open>One character\<close>

lemma window_drop:
  assumes "buf_idx valid s" "window rest s a"
  shows "drop (rd_r a) (data a) = slice (buf s) (bf_r s) (bf_e s) @ rest (in_r s)"
proof -
  from assms(2) obtain pre where pre: "data a = pre @ take (nat (bf_e s)) (buf s) @ rest (in_r s)"
    "int (rd_r a) = int (length pre) + bf_r s" by (auto simp: window_def)
  have i: "0 \<le> bf_r s" "bf_r s \<le> bf_e s" "bf_e s \<le> int (length (buf s))"
    using assms(1) by (auto simp: buf_idx_def)
  have "rd_r a = length pre + nat (bf_r s)" using pre(2) i by linarith
  moreover have "take (nat (bf_e s)) (buf s) = take (nat (bf_r s)) (buf s) @ slice (buf s) (bf_r s) (bf_e s)"
    using i by (intro take_slice)
  ultimately show ?thesis using i by (simp add: pre(1))
qed

text \<open>Without NUL bytes the fast path for ASCII is a case of the general one.\<close>

lemma read_char_decode:
  assumes "drop (rd_r a) (data a) = p" "p \<noteq> []" "byte_of 0 \<notin> set (data a)" "DecodeRune p = (x, w)"
  defines "a' \<equiv> a\<lparr>ch := x, chw := w, rd_r := rd_r a + w\<rparr>"
  shows "read_char a =
     (if x = RuneError \<and> w = 1 then (error ''invalid UTF-8 encoding'' a', True)
      else if x = BOM then
        (if src_line a' > 0 \<or> src_col a' > 0
         then error ''invalid BOM in the middle of the file'' a' else a', True)
      else (a', False))"
proof -
  obtain c cs where p: "p = c # cs" using assms(2) by (cases p) auto
  have l: "rd_r a < length (data a)" using assms(1,2) by auto
  have c: "data a ! rd_r a = c" using assms(1) p l by (metis Cons_nth_drop_Suc list.inject)
  have "rune_of c \<noteq> 0"
    using c assms(3) l by (metis byte_of_rune_of nth_mem)
  show ?thesis
  proof (cases "rune_of c < sentinel")
    case True
    then have "(x, w) = (rune_of c, 1)"
      using assms(4) DecodeRune_1 [of c cs] by (simp add: p sentinel_def RuneSelf_def)
    with True \<open>rune_of c \<noteq> 0\<close> l c show ?thesis
      by (simp add: read_char_def a'_def Let_def sentinel_def RuneSelf_def RuneError_def BOM_def)
  next
    case False
    with l c assms show ?thesis by (simp add: read_char_def Let_def)
  qed
qed

lemma advance_rel:
  assumes "buf_ok valid rest t" "window rest t a" "buf_same (t\<lparr>bf_ch := ch a\<rparr>) a"
    "int w \<le> bf_e t - bf_r t"
  shows "buf_rel valid rest (t\<lparr>bf_ch := x, bf_chw := w, bf_r := bf_r t + int w\<rparr>)
    (a\<lparr>ch := x, chw := w, rd_r := rd_r a + w\<rparr>)"
  using assms by (auto simp: buf_rel_def buf_ok_def buf_idx_def window_def buf_same_def)

lemma buf_error_rel: "buf_rel valid rest s a \<Longrightarrow> buf_rel valid rest (buf_error m s) (error m a)"
  by (auto simp: buf_rel_def buf_ok_def buf_idx_def window_def buf_same_def buf_error_def error_def
      errh_def buf_pos_def src_pos_def)

lemma fill_loop_done:
  "bf_panicked (fill_loop R s) \<noteq> None \<or> bf_e (fill_loop R s) - bf_r (fill_loop R s) \<ge> int UTFMax
     \<or> FullRune (slice (buf (fill_loop R s)) (bf_r (fill_loop R s)) (bf_e (fill_loop R s)))
     \<or> ioerr (fill_loop R s) \<noteq> None"
proof (induction R s rule: fill_loop.induct)
  case (1 R s)
  let ?go = "bf_panicked s = None \<and> bf_e s - bf_r s < int UTFMax
         \<and> \<not> FullRune (slice (buf s) (bf_r s) (bf_e s)) \<and> ioerr s = None"
  show ?case
  proof (cases ?go)
    case True
    with "1.IH" show ?thesis by (simp add: fill_loop.simps [of R s])
  next
    case False
    then have "fill_loop R s = s" by (subst fill_loop.simps) (simp only: if_False)
    with False show ?thesis by auto
  qed
qed

context io_reader
begin

lemma fill_read_rel:
  assumes idx: "buf_idx valid s" and w: "window rest s a"
    and room: "bf_e s + 1 < int (length (buf s))" and sm: "buf_same s a"
  shows "buf_ok valid rest (fill_read Read (Suc k) s) \<and> window rest (fill_read Read (Suc k) s) a
    \<and> buf_same (fill_read Read (Suc k) s) a"
proof -
  let ?p = "slice (buf s) (bf_e s) (int (length (buf s)) - 1)"
  obtain n q e rd where r: "Read (in_r s) ?p = (n, q, e, rd)" using prod_cases4 by blast
  have v: "valid (in_r s)" and i: "0 \<le> bf_e s" "0 \<le> bf_r s" "bf_r s \<le> bf_e s"
    using idx by (auto simp: buf_idx_def)
  have lp: "length ?p = length (buf s) - 1 - nat (bf_e s)" using i room by (subst slice_len) auto
  have st: "0 \<le> n" "nat n \<le> length ?p" "length q = length ?p" "rest (in_r s) = take (nat n) q @ rest rd"
    "valid rd" using read_stream [OF v r] by auto
  have ne: "?p \<noteq> []" using lp room i by auto
  have pr: "0 < n \<or> e \<noteq> None" by (rule read_progress [OF v r ne])
  define B where "B = take (nat (bf_e s)) (buf s) @ q @ drop (nat (bf_e s) + length q) (buf s)"
  have lB: "length B = length (buf s)" using st lp i room by (simp add: B_def)
  have fit: "bf_e s + n < int (length B)" using st lp i room lB by linarith
  have res: "fill_read Read (Suc k) s = s\<lparr>in_r := rd, ioerr := e,
      buf := B[nat (bf_e s + n) := sentinel_byte], bf_e := bf_e s + n\<rparr>"
    using pr st(1) fit by (auto simp: r Let_def B_def)
  have tk: "take (nat (bf_e s + n)) B = take (nat (bf_e s)) (buf s) @ take (nat n) q"
    using i st lp room by (simp add: B_def nat_add_distrib)
  have "buf_ok valid rest (fill_read Read (Suc k) s)"
    using idx fit lB st read_err [OF v r] unfolding res buf_ok_def buf_idx_def by auto
  moreover have "window rest (fill_read Read (Suc k) s) a"
    using w st(4) tk unfolding res window_def by auto
  moreover have "buf_same (fill_read Read (Suc k) s) a"
    using sm unfolding res buf_same_def by simp
  ultimately show ?thesis by blast
qed

lemma fill_rel:
  assumes "buf_ok valid rest s" "window rest s a" "buf_same s a"
  shows "buf_ok valid rest (fill Read s) \<and> window rest (fill Read s) a \<and> buf_same (fill Read s) a"
proof -
  have idx: "buf_idx valid s" using assms(1) by (simp add: buf_ok_def)
  note m = fill_move_rel [OF idx assms(2)]
  show ?thesis unfolding fill_def using fill_read_rel [OF m] assms(3)
    by (simp add: fill_move_same numeral_eq_Suc del: fill_read.simps)
qed

lemma fill_loop_rel:
  "R = Read \<Longrightarrow> buf_ok valid rest s \<Longrightarrow> window rest s a \<Longrightarrow> buf_same s a \<Longrightarrow>
     buf_ok valid rest (fill_loop R s) \<and> window rest (fill_loop R s) a \<and> buf_same (fill_loop R s) a"
proof (induction R s rule: fill_loop.induct)
  case (1 R s)
  let ?go = "bf_panicked s = None \<and> bf_e s - bf_r s < int UTFMax
         \<and> \<not> FullRune (slice (buf s) (bf_r s) (bf_e s)) \<and> ioerr s = None"
  show ?case
  proof (cases ?go)
    case True
    with fill_rel [OF "1.prems"(2-4)] "1.IH" "1.prems"(1) show ?thesis
      by (simp add: fill_loop.simps [of Read s])
  next
    case False
    with "1.prems" show ?thesis by (simp add: fill_loop.simps [of Read s] del: not_less de_Morgan_conj)
  qed
qed

lemma buf_decode_rel:
  assumes ok: "buf_ok valid rest t" and w: "window rest t a" and sm: "buf_same (t\<lparr>bf_ch := ch a\<rparr>) a"
    and fin: "bf_e t - bf_r t \<ge> int UTFMax \<or> FullRune (slice (buf t) (bf_r t) (bf_e t)) \<or> ioerr t \<noteq> None"
    and nul: "byte_of 0 \<notin> set (data a)"
  shows "\<exists>s'. buf_decode t = (s', snd (read_char a)) \<and> buf_rel valid rest s' (fst (read_char a))"
proof -
  let ?p = "slice (buf t) (bf_r t) (bf_e t)"
  have idx: "buf_idx valid t" using ok by (simp add: buf_ok_def)
  have i: "0 \<le> bf_r t" "bf_r t \<le> bf_e t" "bf_e t < int (length (buf t))"
    using idx by (auto simp: buf_idx_def)
  have lp: "length ?p = nat (bf_e t - bf_r t)" using i by (intro slice_len) auto
  note d = window_drop [OF idx w]
  show ?thesis
  proof (cases "bf_r t = bf_e t")
    case True
    then have e: "?p = []" using lp by simp
    with fin True have "ioerr t \<noteq> None" by (auto simp: UTFMax_def FullRune_Nil)
    then have eof: "ioerr t = Some IoEOF" "rest (in_r t) = []" using ok by (auto simp: buf_ok_def)
    then have "read_char a = (a\<lparr>ch := -1, chw := 0\<rparr>, False)"
      using d e by (simp add: read_char_def)
    moreover have "buf_decode t = (t\<lparr>bf_ch := -1, bf_chw := 0\<rparr>, False)"
      using True eof by (simp add: buf_decode_def)
    moreover have "buf_rel valid rest (t\<lparr>bf_ch := -1, bf_chw := 0\<rparr>) (a\<lparr>ch := -1, chw := 0\<rparr>)"
      using advance_rel [OF ok w sm, of 0 "-1"] i by simp
    ultimately show ?thesis by auto
  next
    case False
    then have ne: "?p \<noteq> []" using lp i by auto
    obtain x n where dec: "DecodeRune ?p = (x, n)" by fastforce
    have n: "int n \<le> bf_e t - bf_r t" using DecodeRune_width [OF ne] lp i by (simp add: dec) linarith
    have "DecodeRune (?p @ rest (in_r t)) = (x, n)"
    proof -
      consider "4 \<le> length ?p" | "FullRune ?p" | "rest (in_r t) = []"
        using fin ok lp by (auto simp: buf_ok_def UTFMax_def)
      then show ?thesis
      proof cases
        case 1
        then show ?thesis
          using DecodeRune_take4 [of "?p @ rest (in_r t)"] DecodeRune_take4 [of ?p] dec by simp
      next
        case 2
        then show ?thesis using FullRune_stable [OF 2] dec by simp
      qed (simp add: dec)
    qed
    note rc = read_char_decode [OF d _ nul this]
    define t' where "t' = t\<lparr>bf_ch := x, bf_chw := n, bf_r := bf_r t + int n\<rparr>"
    define a' where "a' = a\<lparr>ch := x, chw := n, rd_r := rd_r a + n\<rparr>"
    have rel: "buf_rel valid rest t' a'" unfolding t'_def a'_def by (rule advance_rel [OF ok w sm n])
    then have lc: "src_line a' = bf_line t'" "src_col a' = bf_col t'" by (auto simp: buf_rel_def buf_same_def)
    have "buf_decode t = (if x = RuneError \<and> n = 1 then (buf_error ''invalid UTF-8 encoding'' t', True)
        else if x = BOM then
          (if bf_line t' > 0 \<or> bf_col t' > 0
           then buf_error ''invalid BOM in the middle of the file'' t' else t', True)
        else (t', False))"
      using False by (simp add: buf_decode_def dec t'_def Let_def)
    moreover have "read_char a = (if x = RuneError \<and> n = 1 then (error ''invalid UTF-8 encoding'' a', True)
        else if x = BOM then
          (if src_line a' > 0 \<or> src_col a' > 0
           then error ''invalid BOM in the middle of the file'' a' else a', True)
        else (a', False))" using rc ne by (simp add: a'_def)
    ultimately show ?thesis using rel lc by (simp add: buf_error_rel)
  qed
qed

lemma buf_read_char_rel:
  assumes ok: "buf_ok valid rest s" and w: "window rest s a" and sm: "buf_same s a"
    and np: "panicked a = None" and nul: "byte_of 0 \<notin> set (data a)"
  shows "\<exists>s'. buf_read_char Read s = (s', snd (read_char a)) \<and> buf_rel valid rest s' (fst (read_char a))"
proof (cases "rune_of (buf s ! nat (bf_r s)) < sentinel")
  case True
  let ?p = "slice (buf s) (bf_r s) (bf_e s)" and ?c = "buf s ! nat (bf_r s)"
  have idx: "buf_idx valid s" using ok by (simp add: buf_ok_def)
  have i: "0 \<le> bf_r s" "bf_r s \<le> bf_e s" "bf_e s < int (length (buf s))"
    using idx by (auto simp: buf_idx_def)
  have "bf_r s \<noteq> bf_e s"
    using True ok by (auto simp: buf_ok_def sentinel_byte_def rune_of_byte_of sentinel_def RuneSelf_def)
  then have lt: "bf_r s < bf_e s" using i by simp
  then obtain cs where p: "?p = ?c # cs" using i by (intro that) (rule slice_Cons)
  note d = window_drop [OF idx w, unfolded p append_Cons]
  have "DecodeRune (?c # cs @ rest (in_r s)) = (rune_of ?c, 1)"
    using True by (intro DecodeRune_1) (simp add: sentinel_def RuneSelf_def)
  note rc = read_char_decode [OF d _ nul this]
  have "?c \<in> set (data a)" using d by (metis in_set_dropD list.set_intros(1))
  then have nz: "rune_of ?c \<noteq> 0" using nul by (metis byte_of_rune_of)
  define a' where "a' = a\<lparr>ch := rune_of ?c, chw := 1, rd_r := rd_r a + 1\<rparr>"
  define s' where "s' = s\<lparr>bf_ch := rune_of ?c, bf_chw := 1, bf_r := bf_r s + int 1\<rparr>"
  have "buf_read_char Read s = (s', False)"
    using True nz by (simp add: buf_read_char_def Let_def s'_def)
  moreover have "read_char a = (a', False)"
    using rc True by (simp add: RuneError_def BOM_def sentinel_def RuneSelf_def a'_def)
  moreover have "buf_rel valid rest s' a'"
    unfolding s'_def a'_def using lt sm by (intro advance_rel [OF ok w]) (auto simp: buf_same_def)
  ultimately show ?thesis by simp
next
  case False
  define b where "b = a\<lparr>ch := rune_of (buf s ! nat (bf_r s))\<rparr>"
  define t where "t = fill_loop Read (s\<lparr>bf_ch := rune_of (buf s ! nat (bf_r s))\<rparr>)"
  have "buf_ok valid rest t \<and> window rest t b \<and> buf_same t b" unfolding t_def
    using ok w sm by (intro fill_loop_rel [OF refl])
      (auto simp: b_def buf_ok_def buf_idx_def window_def buf_same_def)
  then have r: "buf_ok valid rest t" "window rest t a" "buf_same (t\<lparr>bf_ch := ch a\<rparr>) a" "bf_panicked t = None"
    using np by (auto simp: b_def window_def buf_same_def)
  have fin: "bf_e t - bf_r t \<ge> int UTFMax \<or> FullRune (slice (buf t) (bf_r t) (bf_e t)) \<or> ioerr t \<noteq> None"
    using fill_loop_done [of Read] r(4) unfolding t_def by blast
  have "buf_read_char Read s = buf_decode t"
    using False r(4) by (simp add: buf_read_char_def Let_def t_def)
  then show ?thesis using buf_decode_rel [OF r(1-3) fin nul] by simp
qed

text \<open>\<open>nextch\<close> returns, and agrees with \<open>nextch\<close> on the whole input.\<close>

lemma buf_step_pos_rel:
  assumes "buf_ok valid rest s" "window rest s a" "buf_same s a"
  shows "buf_ok valid rest (buf_step_pos s)" "window rest (buf_step_pos s) (step_pos a)"
    "buf_same (buf_step_pos s) (step_pos a)"
  using assms by (auto simp: buf_step_pos_def step_pos_def buf_ok_def buf_idx_def window_def
      buf_same_def Let_def)

lemma buf_nextch_rel:
  "buf_ok valid rest s \<Longrightarrow> window rest s a \<Longrightarrow> buf_same s a \<Longrightarrow> panicked a = None \<Longrightarrow>
     byte_of 0 \<notin> set (data a) \<Longrightarrow>
     \<exists>s'. buf_nextch Read s = Some s' \<and> buf_rel valid rest s' (nextch a)"
proof (induction a arbitrary: s rule: nextch_induct)
  case (step a)
  note b = buf_step_pos_rel [OF step.prems(1-3)]
  obtain s' where s': "buf_read_char Read (buf_step_pos s) = (s', snd (read_char (step_pos a)))"
      "buf_rel valid rest s' (fst (read_char (step_pos a)))"
    using buf_read_char_rel [OF b] step.prems by auto
  show ?case
  proof (cases "snd (read_char (step_pos a))")
    case True
    have "\<exists>s''. buf_nextch Read s' = Some s'' \<and> buf_rel valid rest s'' (nextch (fst (read_char (step_pos a))))"
      using s'(2) step.prems by (intro step.IH [OF True]) (auto simp: buf_rel_def)
    then show ?thesis using True s'(1) by (subst buf_nextch.simps, subst nextch_unfold) simp
  next
    case False
    then show ?thesis using s' by (subst buf_nextch.simps, subst nextch_unfold) simp
  qed
qed

lemma buf_rewind_rel:
  assumes "buf_rel valid rest s a" "panicked a = None" "byte_of 0 \<notin> set (data a)" "0 \<le> seg_b a"
  shows "\<exists>s'. buf_rewind Read s = Some s' \<and> buf_rel valid rest s' (rewind a)"
proof -
  have b: "0 \<le> bf_b s" using assms(1,4) by (auto simp: buf_rel_def window_def split: if_splits)
  have "\<exists>s'. buf_nextch Read (s\<lparr>bf_col := bf_col s - (bf_r s - bf_b s), bf_r := bf_b s\<rparr>) = Some s'
     \<and> buf_rel valid rest s' (nextch (a\<lparr>src_col := src_col a - (int (rd_r a) - seg_b a), rd_r := nat (seg_b a)\<rparr>))"
    using assms b
    by (intro buf_nextch_rel) (auto simp: buf_rel_def buf_ok_def buf_idx_def window_def buf_same_def)
  then show ?thesis using b assms(4) by (simp add: buf_rewind_def rewind_def)
qed

end

subsubsection \<open>The other operations\<close>

lemma buf_start_rel: "buf_rel valid rest s a \<Longrightarrow> buf_rel valid rest (buf_start s) (start a)"
  by (auto simp: buf_rel_def buf_ok_def buf_idx_def window_def buf_same_def buf_start_def start_def)

lemma buf_stop_rel: "buf_rel valid rest s a \<Longrightarrow> buf_rel valid rest (buf_stop s) (stop a)"
  by (auto simp: buf_rel_def buf_ok_def buf_idx_def window_def buf_same_def buf_stop_def stop_def)

lemma buf_init_rel:
  assumes "valid rd" "rest rd = inp"
  shows "buf_rel valid rest (buf_init rd) (source_init inp)"
  using assms by (auto simp: buf_rel_def buf_ok_def buf_idx_def window_def buf_same_def buf_init_def
      source_init_def nextSize_def)

text \<open>The bytes of the active segment are all still in the buffer.\<close>

lemma buf_segment_rel:
  assumes "buf_rel valid rest s a" "src_inv a" "0 \<le> seg_b a"
  shows "buf_segment s = segment a"
proof -
  from assms(1) obtain pre where pre: "data a = pre @ take (nat (bf_e s)) (buf s) @ rest (in_r s)"
      "int (rd_r a) = int (length pre) + bf_r s"
      "seg_b a = (if bf_b s < 0 then -1 else int (length pre) + bf_b s)"
    by (auto simp: buf_rel_def window_def)
  have i: "bf_r s \<le> bf_e s" "bf_e s < int (length (buf s))" "0 \<le> bf_b s" "chw a = bf_chw s"
    using assms(1,3) pre(3) by (auto simp: buf_rel_def buf_ok_def buf_idx_def buf_same_def split: if_splits)
  have g: "seg_b a \<le> int (rd_r a) - int (chw a)" using assms(2) by (simp add: src_inv_def)
  then have n: "nat (seg_b a) = length pre + nat (bf_b s)"
    "nat (int (rd_r a) - int (chw a) - seg_b a) = nat (bf_r s - int (bf_chw s) - bf_b s)"
    using pre i by (auto split: if_splits)
  have le: "nat (bf_b s) + nat (bf_r s - int (bf_chw s) - bf_b s) \<le> nat (bf_e s)"
    using i g pre by (auto split: if_splits)
  show ?thesis
    unfolding segment_def buf_segment_def slice_def n pre(1) using le i
    by (simp add: drop_take min_def)
qed

subsubsection \<open>The instance\<close>

interpretation strings_reader: io_reader strings_Read "\<lambda>rd. 0 \<le> sr_i rd" strings_rest
proof
  fix rd p n q e rd'
  assume v: "0 \<le> sr_i rd" and r: "strings_Read rd p = (n, q, e, rd')"
  show "0 \<le> n \<and> nat n \<le> length p \<and> length q = length p
      \<and> strings_rest rd = take (nat n) q @ strings_rest rd' \<and> 0 \<le> sr_i rd'"
  proof (cases "sr_i rd \<ge> int (length (sr_s rd))")
    case False
    define k where "k = min (length p) (length (sr_s rd) - nat (sr_i rd))"
    let ?d = "drop (nat (sr_i rd)) (sr_s rd)"
    have d: "drop (nat (sr_i rd + int k)) (sr_s rd) = drop k ?d"
      using v by (simp add: nat_add_distrib add.commute)
    have res: "n = int k" "q = take k ?d @ drop k p"
      "rd' = rd\<lparr>sr_prevRune := -1, sr_i := sr_i rd + int k\<rparr>"
      using r False by (auto simp: strings_Read_def k_def Let_def)
    have k: "k \<le> length p" "k \<le> length ?d" by (simp_all add: k_def)
    then have "take (nat n) q = take k ?d" "length q = length p" by (simp_all add: res)
    with k v append_take_drop_id [of k ?d] show ?thesis
      by (simp add: strings_rest_def res d del: append_take_drop_id)
  qed (use v r in \<open>auto simp: strings_Read_def\<close>)
  show "e = None \<or> e = Some IoEOF \<and> strings_rest rd' = []"
    using v r by (auto simp: strings_Read_def strings_rest_def Let_def split: if_splits)
  show "p \<noteq> [] \<Longrightarrow> 0 < n \<or> e \<noteq> None"
    using v r by (auto simp: strings_Read_def Let_def split: if_splits)
qed

subsubsection \<open>Reading a string\<close>

primrec buf_steps :: "'r reader \<Rightarrow> nat \<Rightarrow> 'r bsource \<Rightarrow> 'r bsource option" where
  "buf_steps Read 0 s = Some s"
| "buf_steps Read (Suc n) s = (case buf_nextch Read s of None \<Rightarrow> None | Some s' \<Rightarrow> buf_steps Read n s')"

abbreviation str_rel :: "StringsReader bsource \<Rightarrow> source \<Rightarrow> bool" where
  "str_rel \<equiv> buf_rel (\<lambda>rd. 0 \<le> sr_i rd) strings_rest"

lemma str_rel_init: "str_rel (buf_init (strings_NewReader inp)) (source_init inp)"
  by (rule buf_init_rel) (simp_all add: strings_NewReader_def strings_rest_def)

lemma buf_steps_rel:
  "str_rel s a \<Longrightarrow> panicked a = None \<Longrightarrow> byte_of 0 \<notin> set (data a) \<Longrightarrow>
     \<exists>s'. buf_steps strings_Read n s = Some s' \<and> str_rel s' ((nextch ^^ n) a)"
proof (induction n arbitrary: s a)
  case (Suc n)
  obtain s1 where s1: "buf_nextch strings_Read s = Some s1" "str_rel s1 (nextch a)"
    using strings_reader.buf_nextch_rel [of s a] Suc.prems by (auto simp: buf_rel_def)
  with Suc.IH [OF s1(2)] Suc.prems show ?case by (simp add: funpow_swap1)
qed simp

lemma nextch_iter_frame:
  "panicked ((nextch ^^ n) a) = panicked a" "data ((nextch ^^ n) a) = data a" "seg_b ((nextch ^^ n) a) = seg_b a"
  "src_inv a \<Longrightarrow> src_inv ((nextch ^^ n) a)"
  by (induction n) (simp_all add: nextch_src_inv)

subsubsection \<open>NUL bytes\<close>

text \<open>The buffer is empty at first, so the first character always comes from a refill.\<close>

lemma buf_nextch_nul:
  "\<exists>s. buf_nextch strings_Read (buf_init (strings_NewReader (byte_of 0 # inp))) = Some s
     \<and> bf_ch s = 0 \<and> bf_errs s = []"
proof -
  let ?inp = "byte_of 0 # inp"
  let ?s = "buf_step_pos (buf_init (strings_NewReader ?inp))" and ?a = "step_pos (source_init ?inp)"
  let ?v = "\<lambda>rd. 0 \<le> sr_i rd"
  have z: "rune_of (byte_of 0) = 0" by (simp add: rune_of_byte_of)
  have rel: "buf_ok ?v strings_rest ?s" "window strings_rest ?s ?a" "buf_same ?s ?a"
    using str_rel_init [of ?inp] unfolding buf_rel_def
    by (auto intro: strings_reader.buf_step_pos_rel)
  have first_byte: "rune_of (buf ?s ! nat (bf_r ?s)) = 128" "bf_errs ?s = []" "bf_panicked ?s = None"
    by (simp_all add: buf_init_def buf_step_pos_def nextSize_def sentinel_byte_def sentinel_def RuneSelf_def
        rune_of_byte_of Let_def)
  define b where "b = ?a\<lparr>ch := 128\<rparr>"
  define t where "t = fill_loop strings_Read (?s\<lparr>bf_ch := 128\<rparr>)"
  have t: "buf_ok ?v strings_rest t \<and> window strings_rest t b \<and> buf_same t b" unfolding t_def
    using rel by (intro strings_reader.fill_loop_rel [OF refl])
      (auto simp: b_def buf_ok_def buf_idx_def window_def buf_same_def)
  have e: "errs b = []" "panicked b = None" "drop (rd_r b) (data b) = ?inp"
    by (simp_all add: b_def source_init_def)
  then have te: "bf_errs t = []" "bf_panicked t = None" using t by (auto simp: buf_same_def)
  have idx: "buf_idx ?v t" using t by (simp add: buf_ok_def)
  let ?p = "slice (buf t) (bf_r t) (bf_e t)"
  have d: "?inp = ?p @ strings_rest (in_r t)" using window_drop [OF idx] t e(3) by metis
  have "?p \<noteq> []"
  proof
    assume p: "?p = []"
    then have "strings_rest (in_r t) \<noteq> []" using d by auto
    then have "ioerr t = None" using t by (auto simp: buf_ok_def)
    moreover have "bf_e t - bf_r t < int UTFMax"
      using p idx slice_len [of "bf_r t" "bf_e t" "buf t"] by (simp add: buf_idx_def UTFMax_def)
    ultimately show False
      using fill_loop_done [of strings_Read "?s\<lparr>bf_ch := 128\<rparr>", folded t_def] te(2) p
      by (simp add: FullRune_Nil)
  qed
  then obtain q where q: "?p = byte_of 0 # q" using d by (cases ?p) auto
  have ne: "bf_r t \<noteq> bf_e t" using q by (auto simp: slice_def)
  have "DecodeRune ?p = (0, 1)" unfolding q using DecodeRune_1 [of "byte_of 0" q] by (simp add: z)
  then have dec: "buf_decode t = (t\<lparr>bf_ch := 0, bf_chw := 1, bf_r := bf_r t + int 1\<rparr>, False)"
    using ne by (simp add: buf_decode_def RuneError_def BOM_def)
  have "buf_read_char strings_Read ?s = buf_decode t"
    using first_byte te(2) by (simp add: buf_read_char_def Let_def t_def sentinel_def RuneSelf_def)
  then show ?thesis using dec te(1) by (subst buf_nextch.simps) simp
qed

lemma errs_nextch_prefix: "\<exists>es. errs (nextch s) = errs s @ es"
proof (induction s rule: nextch_induct)
  case (step s)
  have "\<exists>es. errs (fst (read_char (step_pos s))) = errs s @ es"
    by (auto simp: read_char_def Let_def error_def errh_def case_prod_beta)
  with step show ?case by (subst nextch_unfold) fastforce
qed

lemma nextch_nul:
  "\<exists>es. errs (nextch (source_init (byte_of 0 # inp))) = (1, 1, ''invalid NUL character'', False) # es"
proof -
  let ?t = "fst (read_char (step_pos (source_init (byte_of 0 # inp))))"
  have "snd (read_char (step_pos (source_init (byte_of 0 # inp))))
      \<and> errs ?t = [(1, 1, ''invalid NUL character'', False)]"
    by (simp add: read_char_def step_pos_def source_init_def Let_def rune_of_byte_of sentinel_def RuneSelf_def
        error_def errh_def src_pos_def linebase_def colbase_def)
  then show ?thesis using errs_nextch_prefix [of ?t] by (subst nextch_unfold) auto
qed

subsection \<open>Properties\<close>

text \<open>C4: on every input without NUL bytes, whatever its length, the buffered reader returns from every
  call of \<open>nextch\<close> and delivers the character, the position and the error reports of a reader that has the
  whole input at hand: refilling, moving and growing the buffer are invisible.\<close>

theorem buffered_reader_refines:
  assumes "byte_of 0 \<notin> set inp"
  shows "\<exists>s. buf_steps strings_Read n (buf_init (strings_NewReader inp)) = Some s
    \<and> bf_ch s = ch ((nextch ^^ n) (source_init inp)) \<and> buf_pos s = src_pos ((nextch ^^ n) (source_init inp))
    \<and> bf_errs s = errs ((nextch ^^ n) (source_init inp)) \<and> bf_panicked s = None"
proof -
  have "panicked (source_init inp) = None" "data (source_init inp) = inp" by (simp_all add: source_init_def)
  with buf_steps_rel [OF str_rel_init, of inp n] assms nextch_iter_frame [where n = n and a = "source_init inp"]
  show ?thesis by (auto simp: buf_rel_def buf_same_def buf_pos_def src_pos_def)
qed

theorem buffered_reader_refines_witness:
  "byte_of 0 \<notin> set ''ab'' \<and> (\<exists>s. buf_steps strings_Read 2 (buf_init (strings_NewReader ''ab'')) = Some s
    \<and> bf_ch s = ch ((nextch ^^ 2) (source_init ''ab''))
    \<and> buf_pos s = src_pos ((nextch ^^ 2) (source_init ''ab''))
    \<and> bf_errs s = errs ((nextch ^^ 2) (source_init ''ab'')) \<and> bf_panicked s = None)"
proof -
  have n: "byte_of 0 \<notin> set ''ab''" by code_simp
  from n buffered_reader_refines [OF n] show ?thesis by blast
qed

text \<open>C35: a segment started anywhere in the input keeps its bytes across refills: what \<open>segment\<close> returns
  later is the slice of the input from the start of the segment to the current character.\<close>

theorem segment_survives_refills:
  assumes "byte_of 0 \<notin> set inp"
  shows "\<exists>s t. buf_steps strings_Read k (buf_init (strings_NewReader inp)) = Some s
    \<and> buf_steps strings_Read n (buf_start s) = Some t
    \<and> buf_segment t = segment ((nextch ^^ n) (start ((nextch ^^ k) (source_init inp))))"
proof -
  let ?a = "(nextch ^^ k) (source_init inp)"
  have i: "panicked (source_init inp) = None" "data (source_init inp) = inp" by (simp_all add: source_init_def)
  obtain s where s: "buf_steps strings_Read k (buf_init (strings_NewReader inp)) = Some s" "str_rel s ?a"
    using buf_steps_rel [OF str_rel_init, of inp k] i assms by auto
  have a: "panicked ?a = None" "data ?a = inp" "src_inv ?a"
    using i nextch_iter_frame [where n = k and a = "source_init inp"] src_inv_init by simp_all
  have f: "panicked (start ?a) = None" "data (start ?a) = inp" "src_inv (start ?a)" "0 \<le> seg_b (start ?a)"
    using a start_src_inv [OF a(3)] by (auto simp: start_def src_inv_def)
  obtain t where t: "buf_steps strings_Read n (buf_start s) = Some t" "str_rel t ((nextch ^^ n) (start ?a))"
    using buf_steps_rel [OF buf_start_rel [OF s(2)], of n] f assms by auto
  have "buf_segment t = segment ((nextch ^^ n) (start ?a))"
    using buf_segment_rel [OF t(2)] f nextch_iter_frame [where n = n and a = "start ?a"] by simp
  with s(1) t(1) show ?thesis by blast
qed

theorem segment_survives_refills_witness:
  "byte_of 0 \<notin> set ''abc'' \<and> (\<exists>s t. buf_steps strings_Read 1 (buf_init (strings_NewReader ''abc'')) = Some s
    \<and> buf_steps strings_Read 2 (buf_start s) = Some t
    \<and> buf_segment t = segment ((nextch ^^ 2) (start ((nextch ^^ 1) (source_init ''abc'')))))"
proof -
  have n: "byte_of 0 \<notin> set ''abc''" by code_simp
  from n segment_survives_refills [OF n] show ?thesis by blast
qed

text \<open>A NUL byte at the place where the buffer is refilled takes the path of multi-byte characters:
  the buffered reader delivers it as a character and reports nothing, while a NUL anywhere else is
  reported as invalid and skipped.\<close>

lemma nul_at_refill_unreported:
  "(\<exists>s. buf_nextch strings_Read (buf_init (strings_NewReader (byte_of 0 # inp))) = Some s
     \<and> bf_ch s = 0 \<and> bf_errs s = [])
   \<and> (\<exists>es. errs (nextch (source_init (byte_of 0 # inp))) = (1, 1, ''invalid NUL character'', False) # es)"
  using buf_nextch_nul nextch_nul by blast

end
