(* ===== verification/Truthy.thy ===== *)
theory Truthy
  imports Prelude
begin

text \<open>
  Conditions that are not boolean (\<open>runtime/truthy.go\<close>, and the places of the compiler that call it).

  A value has a type; types are predeclared, defined, or built from others, as far as the code looks at
  them.  Floating point numbers are their bit patterns.  A value converted to an empty interface is a pair of its
  type and value; what the data word of the interface holds follows from \<open>IsDirectIface\<close>: the pointer
  itself, or the address of a copy, which is never nil.
\<close>

subsection \<open>Types and values\<close>

datatype Kind = K_Bool | K_Int | K_Int8 | K_Int16 | K_Int32 | K_Int64 | K_Uint | K_Uint8 | K_Uint16 | K_Uint32 | K_Uint64 | K_Uintptr
  | K_Float32 | K_Float64 | K_Complex64 | K_Complex128 | K_Array | K_Chan | K_Func | K_Interface | K_Map | K_Pointer | K_Slice
  | K_String | K_Struct | K_UnsafePointer

text \<open>The predeclared types (with \<open>unsafe.Pointer\<close>) are the basic ones; \<open>PtrTo True\<close> points to a type that is not in the heap.\<close>

datatype gotype =
    Predeclared Kind
  | Defined string gotype
  | PtrTo bool
  | SliceOf gotype
  | MapOf gotype gotype
  | ChanOf gotype
  | FuncOf
  | ArrayOf nat gotype
  | StructOf "gotype list"
  | IfaceOf

datatype goval =
    BoolV bool
  | IntV int
  | Float32V "32 word"
  | Float64V "64 word"
  | Complex64V "32 word" "32 word"
  | Complex128V "64 word" "64 word"
  | StringV string
  | PtrV "nat option"
  | SliceV nat
  | ArrayV "goval list"
  | StructV "goval list"
  | IfaceV "(gotype \<times> goval) option"

definition int_kinds :: "Kind list" where
  "int_kinds = [K_Int, K_Int8, K_Int16, K_Int32, K_Int64, K_Uint, K_Uint8, K_Uint16, K_Uint32, K_Uint64, K_Uintptr]"

fun type_kind :: "gotype \<Rightarrow> Kind" where
  "type_kind (Predeclared k) = k"
| "type_kind (Defined _ t) = type_kind t"
| "type_kind (PtrTo _) = K_Pointer"
| "type_kind (SliceOf _) = K_Slice"
| "type_kind (MapOf _ _) = K_Map"
| "type_kind (ChanOf _) = K_Chan"
| "type_kind FuncOf = K_Func"
| "type_kind (ArrayOf _ _) = K_Array"
| "type_kind (StructOf _) = K_Struct"
| "type_kind IfaceOf = K_Interface"

fun IsDirectIface :: "gotype \<Rightarrow> bool" where
  "IsDirectIface (Predeclared k) \<longleftrightarrow> k = K_UnsafePointer"
| "IsDirectIface (Defined _ t) \<longleftrightarrow> IsDirectIface t"
| "IsDirectIface (PtrTo nih) \<longleftrightarrow> \<not> nih"
| "IsDirectIface (SliceOf _) \<longleftrightarrow> False"
| "IsDirectIface (MapOf _ _) \<longleftrightarrow> True"
| "IsDirectIface (ChanOf _) \<longleftrightarrow> True"
| "IsDirectIface FuncOf \<longleftrightarrow> True"
| "IsDirectIface (ArrayOf n t) \<longleftrightarrow> n = 1 \<and> IsDirectIface t"
| "IsDirectIface (StructOf ts) \<longleftrightarrow> (case ts of [t] \<Rightarrow> IsDirectIface t | _ \<Rightarrow> False)"
| "IsDirectIface IfaceOf \<longleftrightarrow> False"

definition IsBoolean :: "gotype \<Rightarrow> bool" where
  "IsBoolean t \<longleftrightarrow> type_kind t = K_Bool"

subsection \<open>Typing\<close>

fun basic_ok :: "Kind \<Rightarrow> goval \<Rightarrow> bool" where
  "basic_ok k (BoolV _) \<longleftrightarrow> k = K_Bool"
| "basic_ok k (IntV _) \<longleftrightarrow> k \<in> set int_kinds"
| "basic_ok k (Float32V _) \<longleftrightarrow> k = K_Float32"
| "basic_ok k (Float64V _) \<longleftrightarrow> k = K_Float64"
| "basic_ok k (Complex64V _ _) \<longleftrightarrow> k = K_Complex64"
| "basic_ok k (Complex128V _ _) \<longleftrightarrow> k = K_Complex128"
| "basic_ok k (StringV _) \<longleftrightarrow> k = K_String"
| "basic_ok k (PtrV _) \<longleftrightarrow> k = K_UnsafePointer"
| "basic_ok k _ \<longleftrightarrow> False"

fun has_type :: "gotype \<Rightarrow> goval \<Rightarrow> bool" and has_types :: "gotype list \<Rightarrow> goval list \<Rightarrow> bool" where
  "has_type (Predeclared k) v \<longleftrightarrow> basic_ok k v"
| "has_type (Defined _ t) v \<longleftrightarrow> has_type t v"
| "has_type (PtrTo _) v \<longleftrightarrow> (case v of PtrV _ \<Rightarrow> True | _ \<Rightarrow> False)"
| "has_type (SliceOf _) v \<longleftrightarrow> (case v of SliceV _ \<Rightarrow> True | _ \<Rightarrow> False)"
| "has_type (MapOf _ _) v \<longleftrightarrow> (case v of PtrV _ \<Rightarrow> True | _ \<Rightarrow> False)"
| "has_type (ChanOf _) v \<longleftrightarrow> (case v of PtrV _ \<Rightarrow> True | _ \<Rightarrow> False)"
| "has_type FuncOf v \<longleftrightarrow> (case v of PtrV _ \<Rightarrow> True | _ \<Rightarrow> False)"
| "has_type (ArrayOf n t) v \<longleftrightarrow> (case v of ArrayV vs \<Rightarrow> has_types (replicate n t) vs | _ \<Rightarrow> False)"
| "has_type (StructOf ts) v \<longleftrightarrow> (case v of StructV vs \<Rightarrow> has_types ts vs | _ \<Rightarrow> False)"
| "has_type IfaceOf v \<longleftrightarrow>
     (case v of
        IfaceV i \<Rightarrow> (case i of None \<Rightarrow> True | Some (t, w) \<Rightarrow> type_kind t \<noteq> K_Interface \<and> has_type t w)
      | _ \<Rightarrow> False)"
| "has_types [] vs \<longleftrightarrow> vs = []"
| "has_types (t # ts) vs \<longleftrightarrow> (case vs of [] \<Rightarrow> False | v # vs' \<Rightarrow> has_type t v \<and> has_types ts vs')"

text \<open>The pointer that a value of a direct type consists of.\<close>

fun pointer_word :: "goval \<Rightarrow> nat option" where
  "pointer_word (PtrV p) = p"
| "pointer_word (ArrayV [v]) = pointer_word v"
| "pointer_word (StructV [v]) = pointer_word v"
| "pointer_word _ = None"

subsection \<open>truthy\<close>

text \<open>An empty interface: nil, or the dynamic type and value.\<close>

type_synonym eface = "(gotype \<times> goval) option"

definition data_is_nil :: "gotype \<Rightarrow> goval \<Rightarrow> bool" where
  "data_is_nil t v \<longleftrightarrow> IsDirectIface t \<and> pointer_word v = None"

text \<open>Comparison of a floating point number with zero: both zeros are equal to it, nothing else is.\<close>

definition float_nonzero :: "'a::len word \<Rightarrow> bool" where
  "float_nonzero w \<longleftrightarrow> push_bit 1 w \<noteq> 0"

text \<open>The default case.  The dynamic type of an interface is never an interface type, so that case is not reached.\<close>

definition truthy_default :: "gotype \<Rightarrow> goval \<Rightarrow> bool" where
  "truthy_default t v =
     (if data_is_nil t v then False
      else (case type_kind t of
        K_Slice \<Rightarrow> (case v of SliceV n \<Rightarrow> n \<noteq> 0 | _ \<Rightarrow> False)
      | K_Map \<Rightarrow> \<not> data_is_nil t v
      | K_Chan \<Rightarrow> \<not> data_is_nil t v
      | K_Pointer \<Rightarrow> \<not> data_is_nil t v
      | K_Func \<Rightarrow> \<not> data_is_nil t v
      | K_Interface \<Rightarrow> (case v of IfaceV (Some _) \<Rightarrow> True | _ \<Rightarrow> False)
      | _ \<Rightarrow> True))"

text \<open>The cases of the type switch; \<open>None\<close> is the default.\<close>

definition truthy_case :: "Kind \<Rightarrow> goval \<Rightarrow> bool option" where
  "truthy_case k v =
     (case k of
        K_Bool \<Rightarrow> (case v of BoolV b \<Rightarrow> Some b | _ \<Rightarrow> None)
      | K_Int \<Rightarrow> (case v of IntV n \<Rightarrow> Some (n \<noteq> 0) | _ \<Rightarrow> None)
      | K_Int8 \<Rightarrow> (case v of IntV n \<Rightarrow> Some (n \<noteq> 0) | _ \<Rightarrow> None)
      | K_Int16 \<Rightarrow> (case v of IntV n \<Rightarrow> Some (n \<noteq> 0) | _ \<Rightarrow> None)
      | K_Int32 \<Rightarrow> (case v of IntV n \<Rightarrow> Some (n \<noteq> 0) | _ \<Rightarrow> None)
      | K_Int64 \<Rightarrow> (case v of IntV n \<Rightarrow> Some (n \<noteq> 0) | _ \<Rightarrow> None)
      | K_Uint \<Rightarrow> (case v of IntV n \<Rightarrow> Some (n \<noteq> 0) | _ \<Rightarrow> None)
      | K_Uint8 \<Rightarrow> (case v of IntV n \<Rightarrow> Some (n \<noteq> 0) | _ \<Rightarrow> None)
      | K_Uint16 \<Rightarrow> (case v of IntV n \<Rightarrow> Some (n \<noteq> 0) | _ \<Rightarrow> None)
      | K_Uint32 \<Rightarrow> (case v of IntV n \<Rightarrow> Some (n \<noteq> 0) | _ \<Rightarrow> None)
      | K_Uint64 \<Rightarrow> (case v of IntV n \<Rightarrow> Some (n \<noteq> 0) | _ \<Rightarrow> None)
      | K_Uintptr \<Rightarrow> (case v of IntV n \<Rightarrow> Some (n \<noteq> 0) | _ \<Rightarrow> None)
      | K_Float32 \<Rightarrow> (case v of Float32V w \<Rightarrow> Some (float_nonzero w) | _ \<Rightarrow> None)
      | K_Float64 \<Rightarrow> (case v of Float64V w \<Rightarrow> Some (float_nonzero w) | _ \<Rightarrow> None)
      | K_Complex64 \<Rightarrow> (case v of Complex64V a b \<Rightarrow> Some (float_nonzero a \<or> float_nonzero b) | _ \<Rightarrow> None)
      | K_Complex128 \<Rightarrow> (case v of Complex128V a b \<Rightarrow> Some (float_nonzero a \<or> float_nonzero b) | _ \<Rightarrow> None)
      | K_String \<Rightarrow> (case v of StringV s \<Rightarrow> Some (length s \<noteq> 0) | _ \<Rightarrow> None)
      | K_UnsafePointer \<Rightarrow> (case v of PtrV p \<Rightarrow> Some (p \<noteq> None) | _ \<Rightarrow> None)
      | _ \<Rightarrow> None)"

definition truthy :: "eface \<Rightarrow> bool" where
  "truthy i =
     (case i of
        None \<Rightarrow> False
      | Some (t, v) \<Rightarrow>
          (case (case t of Predeclared k \<Rightarrow> truthy_case k v | _ \<Rightarrow> None) of
             Some b \<Rightarrow> b
           | None \<Rightarrow> truthy_default t v))"

subsection \<open>Conditions\<close>

text \<open>Conversion of a value to the empty interface: an interface value keeps its dynamic type.\<close>

definition to_eface :: "gotype \<Rightarrow> goval \<Rightarrow> eface" where
  "to_eface t v = (case v of IfaceV i \<Rightarrow> i | _ \<Rightarrow> Some (t, v))"

definition bool_value :: "goval \<Rightarrow> bool" where
  "bool_value v = (case v of BoolV b \<Rightarrow> b | _ \<Rightarrow> False)"

text \<open>The condition of an \<open>if\<close> or \<open>for\<close> statement, and the statement that \<open>check\<close> becomes: \<open>False\<close> is the panic.\<close>

definition tcIf :: "gotype \<Rightarrow> goval \<Rightarrow> bool" where
  "tcIf t v = (if \<not> IsBoolean t then truthy (to_eface t v) else bool_value v)"

definition walkCheck :: "gotype \<Rightarrow> goval \<Rightarrow> bool" where
  "walkCheck t v = (if \<not> truthy (to_eface t v) then False else True)"

subsection \<open>What is falsy\<close>

text \<open>The values that are meant to be falsy: false, zero, the empty string, nil and empty slices.\<close>

fun empty_value :: "goval \<Rightarrow> bool" where
  "empty_value (BoolV b) \<longleftrightarrow> \<not> b"
| "empty_value (IntV n) \<longleftrightarrow> n = 0"
| "empty_value (Float32V w) \<longleftrightarrow> \<not> float_nonzero w"
| "empty_value (Float64V w) \<longleftrightarrow> \<not> float_nonzero w"
| "empty_value (Complex64V a b) \<longleftrightarrow> \<not> float_nonzero a \<and> \<not> float_nonzero b"
| "empty_value (Complex128V a b) \<longleftrightarrow> \<not> float_nonzero a \<and> \<not> float_nonzero b"
| "empty_value (StringV s) \<longleftrightarrow> s = []"
| "empty_value (PtrV p) \<longleftrightarrow> p = None"
| "empty_value (SliceV n) \<longleftrightarrow> n = 0"
| "empty_value (ArrayV _) \<longleftrightarrow> False"
| "empty_value (StructV _) \<longleftrightarrow> False"
| "empty_value (IfaceV i) \<longleftrightarrow> i = None"

text \<open>
  And those that are falsy besides: a struct with one field or an array with one element that is, possibly through more of them,
  one pointer of the heap, a map, a channel or a function, if that is nil.  An interface with a value is as its value.
\<close>

definition one_nil_pointer :: "gotype \<Rightarrow> goval \<Rightarrow> bool" where
  "one_nil_pointer t v \<longleftrightarrow> type_kind t \<in> {K_Array, K_Struct} \<and> IsDirectIface t \<and> pointer_word v = None"

definition falsy_value :: "gotype \<Rightarrow> goval \<Rightarrow> bool" where
  "falsy_value t v \<longleftrightarrow>
     (case v of
        IfaceV (Some (d, w)) \<Rightarrow> empty_value w \<or> one_nil_pointer d w
      | _ \<Rightarrow> empty_value v \<or> one_nil_pointer t v)"

text \<open>The types, also dynamic ones, for which this is what happens: not defined by a predeclared type, \<open>unsafe.Pointer\<close> apart, and not
  a pointer out of the heap.\<close>

fun covered_type :: "gotype \<Rightarrow> bool" where
  "covered_type (Defined _ t) \<longleftrightarrow>
     type_kind t \<in> {K_Array, K_Chan, K_Func, K_Interface, K_Map, K_Pointer, K_Slice, K_Struct, K_UnsafePointer} \<and> covered_type t"
| "covered_type (PtrTo nih) \<longleftrightarrow> \<not> nih"
| "covered_type _ \<longleftrightarrow> True"

definition covered :: "gotype \<Rightarrow> goval \<Rightarrow> bool" where
  "covered t v \<longleftrightarrow> (case v of IfaceV (Some (d, w)) \<Rightarrow> covered_type d | _ \<Rightarrow> covered_type t)"

lemma predeclared_type: "has_type (Predeclared k) v \<Longrightarrow> truthy (Some (Predeclared k, v)) \<longleftrightarrow> \<not> empty_value v"
  by (cases v) (auto simp: truthy_def truthy_case_def int_kinds_def)

lemma truthy_composite: "(\<And>k. t \<noteq> Predeclared k) \<Longrightarrow> truthy (Some (t, v)) = truthy_default t v"
  by (cases t) (auto simp: truthy_def)

definition composite_kinds :: "Kind set" where
  "composite_kinds = {K_Array, K_Chan, K_Func, K_Map, K_Pointer, K_Slice, K_Struct}"

lemma basic_not_composite: "basic_ok k v \<Longrightarrow> k \<notin> composite_kinds"
  by (cases v) (auto simp: composite_kinds_def int_kinds_def)

lemma default_defined: "truthy_default (Defined n t) v = truthy_default t v"
  by (simp add: truthy_default_def data_is_nil_def cong: Kind.case_cong)

lemma default_covered:
  "has_type t v \<Longrightarrow> covered_type t \<Longrightarrow> type_kind t \<in> composite_kinds \<union> {K_UnsafePointer} \<Longrightarrow>
   truthy_default t v \<longleftrightarrow> \<not> empty_value v \<and> \<not> one_nil_pointer t v"
proof (induction t)
  case (Predeclared k)
  then show ?case using basic_not_composite [of k v]
    by (cases v) (auto simp: truthy_default_def data_is_nil_def one_nil_pointer_def composite_kinds_def int_kinds_def)
next
  case (Defined n t)
  then show ?case by (simp add: default_defined one_nil_pointer_def)
next
  case (ArrayOf n t)
  then show ?case unfolding truthy_default_def data_is_nil_def one_nil_pointer_def by (cases v) auto
next
  case (StructOf ts)
  then show ?case unfolding truthy_default_def data_is_nil_def one_nil_pointer_def by (cases v) auto
qed (cases v; simp add: truthy_default_def data_is_nil_def one_nil_pointer_def composite_kinds_def)+

lemma covered_cases:
  "covered_type t \<Longrightarrow> (\<exists>k. t = Predeclared k) \<or> type_kind t \<in> composite_kinds \<union> {K_UnsafePointer, K_Interface}"
  by (cases t) (auto simp: composite_kinds_def)

lemma basic_no_pointer: "\<not> one_nil_pointer (Predeclared k) v"
  by (simp add: one_nil_pointer_def)

lemma truthy_covered:
  assumes "has_type t v" "covered_type t" "type_kind t \<noteq> K_Interface"
  shows "truthy (Some (t, v)) \<longleftrightarrow> \<not> empty_value v \<and> \<not> one_nil_pointer t v"
proof (cases "\<exists>k. t = Predeclared k")
  case True
  then show ?thesis using predeclared_type assms(1) by (auto simp: basic_no_pointer simp del: has_type.simps)
next
  case False
  then show ?thesis using default_covered [OF assms(1,2)] covered_cases [OF assms(2)] assms(3) by (auto simp: truthy_composite)
qed

lemma iface_typed: "has_type t (IfaceV i) \<Longrightarrow> type_kind t = K_Interface"
  by (induction t) auto

lemma not_iface: "has_type t v \<Longrightarrow> type_kind t \<noteq> K_Interface \<Longrightarrow> to_eface t v = Some (t, v)"
  using iface_typed by (cases v) (auto simp: to_eface_def)

lemma bool_typed: "has_type t v \<Longrightarrow> type_kind t = K_Bool \<Longrightarrow> \<exists>b. v = BoolV b"
proof (induction t)
  case (Predeclared k)
  then show ?case by (cases v) (auto simp: int_kinds_def)
qed auto

lemma direct_kind:
  "IsDirectIface t \<Longrightarrow> type_kind t \<in> {K_UnsafePointer, K_Pointer, K_Map, K_Chan, K_Func, K_Array, K_Struct}"
  by (induction t) auto

lemma defined_basic:
  assumes "\<And>k. t \<noteq> Predeclared k" "type_kind t \<notin> composite_kinds" "type_kind t \<noteq> K_UnsafePointer" "type_kind t \<noteq> K_Interface"
  shows "truthy (Some (t, v))"
proof -
  have "\<not> IsDirectIface t" using direct_kind [of t] assms(2,3) by (auto simp: composite_kinds_def)
  then show ?thesis using assms
    by (cases "type_kind t") (simp_all add: truthy_composite truthy_default_def data_is_nil_def composite_kinds_def)
qed

subsection \<open>Properties\<close>

lemma iface_value: "has_type t v \<Longrightarrow> type_kind t = K_Interface \<Longrightarrow> \<exists>i. v = IfaceV i \<and> (\<forall>d w. i = Some (d, w) \<longrightarrow> has_type d w \<and> type_kind d \<noteq> K_Interface)"
proof (induction t)
  case (Predeclared k)
  then show ?case by (cases v) (auto simp: int_kinds_def)
next
  case IfaceOf
  then show ?case by (cases v) (auto split: option.splits)
qed auto



text \<open>\<open>if\<close> and \<open>check\<close> agree on every value but one: the false value of a defined boolean type, which an
  \<open>if\<close> takes as false while \<open>check\<close>, which always asks \<open>truthy\<close>, does not panic.\<close>

lemma if_check_disagree:
  assumes "has_type t v"
  shows "tcIf t v \<noteq> walkCheck t v \<longleftrightarrow> type_kind t = K_Bool \<and> t \<noteq> Predeclared K_Bool \<and> v = BoolV False"
proof (cases "IsBoolean t")
  case True
  then obtain b where b: "v = BoolV b" using bool_typed [OF assms] by (auto simp: IsBoolean_def)
  show ?thesis
  proof (cases "\<exists>k. t = Predeclared k")
    case True
    then show ?thesis using assms b by (auto simp: tcIf_def walkCheck_def to_eface_def truthy_def truthy_case_def bool_value_def)
  next
    case False
    with True have "truthy (Some (t, v))" by (intro defined_basic) (auto simp: IsBoolean_def composite_kinds_def)
    with True False b show ?thesis
      by (auto simp: tcIf_def walkCheck_def to_eface_def bool_value_def IsBoolean_def)
  qed
next
  case False
  then show ?thesis by (simp add: tcIf_def walkCheck_def IsBoolean_def)
qed

lemma if_check_disagree_witness:
  "tcIf (Defined ''B'' (Predeclared K_Bool)) (BoolV False) \<noteq> walkCheck (Defined ''B'' (Predeclared K_Bool)) (BoolV False)"
  using if_check_disagree [of "Defined ''B'' (Predeclared K_Bool)" "BoolV False"] by simp

text \<open>A departure from the comments of the code: the values of a type defined by a predeclared type (\<open>unsafe.Pointer\<close> and interfaces
  apart) are all truthy, zero and the empty string included; in particular the first constant of an enumeration, whose type is
  defined as \<open>int\<close>.\<close>

lemma defined_values_truthy:
  assumes "has_type (Predeclared k) v" "k \<noteq> K_UnsafePointer"
  shows "truthy (to_eface (Defined n (Predeclared k)) v)"
proof -
  have "k \<notin> composite_kinds" "k \<noteq> K_Interface" "to_eface (Defined n (Predeclared k)) v = Some (Defined n (Predeclared k), v)"
    using assms(1) basic_not_composite [of k v] by (cases v; auto simp: to_eface_def int_kinds_def)+
  with assms(2) show ?thesis by (simp add: defined_basic)
qed

lemma defined_values_truthy_witness: "truthy (to_eface (Defined ''Status'' (Predeclared K_Int)) (IntV 0))"
  by (rule defined_values_truthy) (simp_all add: int_kinds_def)

end
