(* ===== verification/Magic.thy ===== *)
theory Magic
  imports Prelude "HOL-Library.Signed_Division"
begin

text \<open>
  Strength reduction of divisions by constants (\<open>ssa/magic.go\<close>): the multipliers and shifts for unsigned and
  signed division, and the constants of the tests for divisibility.  A \<open>big.Int\<close> is an \<^typ>\<open>int\<close>, a
  \<open>uint64\<close> or an \<open>int64\<close> a 64-bit word, a panic is \<^const>\<open>None\<close>.  The theorems are the formulas in the comments of the
  code, for every width up to 64 bits.
\<close>

subsection \<open>Integers of arbitrary size\<close>

fun bitLen :: "int \<Rightarrow> nat" where
  "bitLen x = (if x \<le> 0 then 0 else Suc (bitLen (x div 2)))"

declare bitLen.simps [simp del]

text \<open>Division of \<open>big.Int\<close>, which is Euclidean: the quotient and remainder truncated towards zero are adjusted if the remainder is
  negative.\<close>

definition big_Div :: "int \<Rightarrow> int \<Rightarrow> int" where
  "big_Div x y =
     (let z = x sdiv y;
          r = x smod y
      in if r < 0 then (if y < 0 then z + 1 else z - 1) else z)"

lemma big_Div_div: "0 \<le> x \<Longrightarrow> 0 < y \<Longrightarrow> big_Div x y = x div y"
  by (simp add: big_Div_def Let_def signed_divide_int_def signed_modulo_int_def sgn_if abs_if not_less pos_mod_sign)

lemma big_Div_ceil:
  assumes "0 < c"
  shows "big_Div (2 ^ k + c - 1) c = (2 ^ k + c - 1) div c" "big_Div (2 * 2 ^ k + c - 1) c = (2 * 2 ^ k + c - 1) div c"
proof -
  have "0 < (2::int) ^ k" by simp
  with assms have "0 \<le> 2 ^ k + c - 1" "0 \<le> 2 * 2 ^ k + c - 1" by linarith+
  with assms show "big_Div (2 ^ k + c - 1) c = (2 ^ k + c - 1) div c" "big_Div (2 * 2 ^ k + c - 1) c = (2 * 2 ^ k + c - 1) div c"
    by (simp_all add: big_Div_div)
qed

definition big_BitLen :: "int \<Rightarrow> nat" where
  "big_BitLen x = bitLen \<bar>x\<bar>"

definition trailingZeros64 :: "64 word \<Rightarrow> nat" where
  "trailingZeros64 x = length (takeWhile (\<lambda>i. \<not> bit x i) [0..<64])"

subsection \<open>Unsigned division\<close>

definition zero_extended :: "nat \<Rightarrow> 64 word \<Rightarrow> 64 word" where
  "zero_extended n c = drop_bit (64 - n) (push_bit (64 - n) c)"

definition umagicOK :: "nat \<Rightarrow> 64 word \<Rightarrow> bool" where
  "umagicOK n c = (let d = zero_extended n c in d AND (d - 1) \<noteq> 0)"

definition umagicOK8 :: "8 word \<Rightarrow> bool" where
  "umagicOK8 c = (c AND (c - 1) \<noteq> 0)"

definition umagicOK16 :: "16 word \<Rightarrow> bool" where
  "umagicOK16 c = (c AND (c - 1) \<noteq> 0)"

definition umagicOK32 :: "32 word \<Rightarrow> bool" where
  "umagicOK32 c = (c AND (c - 1) \<noteq> 0)"

definition umagicOK64 :: "64 word \<Rightarrow> bool" where
  "umagicOK64 c = (c AND (c - 1) \<noteq> 0)"

record umagicData =
  us :: int
  um :: "64 word"

definition umagic :: "nat \<Rightarrow> 64 word \<Rightarrow> umagicData option" where
  "umagic n c =
    (let d = zero_extended n c;
         C = uint d;
         s = big_BitLen C;
         M = 2 ^ (n + s) + C - 1
     in if C = 0 then None
        else let M = big_Div M C
             in if \<not> bit M n then None
                else Some \<lparr>us = int s, um = word_of_int (unset_bit n M)\<rparr>)"

definition umagic8 :: "8 word \<Rightarrow> umagicData option" where
  "umagic8 c = umagic 8 (scast c)"

definition umagic16 :: "16 word \<Rightarrow> umagicData option" where
  "umagic16 c = umagic 16 (scast c)"

definition umagic32 :: "32 word \<Rightarrow> umagicData option" where
  "umagic32 c = umagic 32 (scast c)"

definition umagic64 :: "64 word \<Rightarrow> umagicData option" where
  "umagic64 c = umagic 64 c"

subsection \<open>Signed division\<close>

definition smagicOK :: "nat \<Rightarrow> 64 word \<Rightarrow> bool" where
  "smagicOK n c = (if sint c < 0 then False else c AND (c - 1) \<noteq> 0)"

definition smagicOK8 :: "8 word \<Rightarrow> bool" where
  "smagicOK8 c = smagicOK 8 (scast c)"

definition smagicOK16 :: "16 word \<Rightarrow> bool" where
  "smagicOK16 c = smagicOK 16 (scast c)"

definition smagicOK32 :: "32 word \<Rightarrow> bool" where
  "smagicOK32 c = smagicOK 32 (scast c)"

definition smagicOK64 :: "64 word \<Rightarrow> bool" where
  "smagicOK64 c = smagicOK 64 c"

record smagicData =
  ss :: int
  sm :: "64 word"

definition smagic :: "nat \<Rightarrow> 64 word \<Rightarrow> smagicData option" where
  "smagic n c =
    (let C = sint c;
         s = int (big_BitLen C) - 1;
         M = 2 ^ nat (int n + s) + C - 1
     in if C = 0 then None
        else let M = big_Div M C
             in if bit M n then None
                else if \<not> bit M (n - 1) then None
                else Some \<lparr>ss = s, sm = word_of_int M\<rparr>)"

definition smagic8 :: "8 word \<Rightarrow> smagicData option" where
  "smagic8 c = smagic 8 (scast c)"

definition smagic16 :: "16 word \<Rightarrow> smagicData option" where
  "smagic16 c = smagic 16 (scast c)"

definition smagic32 :: "32 word \<Rightarrow> smagicData option" where
  "smagic32 c = smagic 32 (scast c)"

definition smagic64 :: "64 word \<Rightarrow> smagicData option" where
  "smagic64 c = smagic 64 c"

subsection \<open>Divisibility\<close>

definition udivisibleOK :: "nat \<Rightarrow> 64 word \<Rightarrow> bool" where
  "udivisibleOK n c = (let d = zero_extended n c in d AND (d - 1) \<noteq> 0)"

definition udivisibleOK8 :: "8 word \<Rightarrow> bool" where
  "udivisibleOK8 c = udivisibleOK 8 (scast c)"

definition udivisibleOK16 :: "16 word \<Rightarrow> bool" where
  "udivisibleOK16 c = udivisibleOK 16 (scast c)"

definition udivisibleOK32 :: "32 word \<Rightarrow> bool" where
  "udivisibleOK32 c = udivisibleOK 32 (scast c)"

definition udivisibleOK64 :: "64 word \<Rightarrow> bool" where
  "udivisibleOK64 c = udivisibleOK 64 c"

record udivisibleData =
  uk :: int
  udm :: "64 word"
  umax :: "64 word"

definition newton :: "64 word \<Rightarrow> 64 word \<Rightarrow> 64 word" where
  "newton d0 m = m * (2 - m * d0)"

definition udivisible :: "nat \<Rightarrow> 64 word \<Rightarrow> udivisibleData" where
  "udivisible n c =
    (let d = zero_extended n c;
         k = trailingZeros64 d;
         d0 = drop_bit k d;
         msk = drop_bit (64 - n) (NOT 0);
         m = d0;
         m = newton d0 m;
         m = newton d0 m;
         m = newton d0 m;
         m = newton d0 m;
         m = newton d0 m;
         m = m AND msk
     in \<lparr>uk = int k, udm = m, umax = msk div d\<rparr>)"

definition udivisible8 :: "8 word \<Rightarrow> udivisibleData" where
  "udivisible8 c = udivisible 8 (scast c)"

definition udivisible16 :: "16 word \<Rightarrow> udivisibleData" where
  "udivisible16 c = udivisible 16 (scast c)"

definition udivisible32 :: "32 word \<Rightarrow> udivisibleData" where
  "udivisible32 c = udivisible 32 (scast c)"

definition udivisible64 :: "64 word \<Rightarrow> udivisibleData" where
  "udivisible64 c = udivisible 64 c"

definition sdivisibleOK :: "nat \<Rightarrow> 64 word \<Rightarrow> bool" where
  "sdivisibleOK n c = (if sint c < 0 then False else c AND (c - 1) \<noteq> 0)"

definition sdivisibleOK8 :: "8 word \<Rightarrow> bool" where
  "sdivisibleOK8 c = sdivisibleOK 8 (scast c)"

definition sdivisibleOK16 :: "16 word \<Rightarrow> bool" where
  "sdivisibleOK16 c = sdivisibleOK 16 (scast c)"

definition sdivisibleOK32 :: "32 word \<Rightarrow> bool" where
  "sdivisibleOK32 c = sdivisibleOK 32 (scast c)"

definition sdivisibleOK64 :: "64 word \<Rightarrow> bool" where
  "sdivisibleOK64 c = sdivisibleOK 64 c"

record sdivisibleData =
  sk :: int
  sdm :: "64 word"
  sa :: "64 word"
  smax :: "64 word"

definition sdivisible :: "nat \<Rightarrow> 64 word \<Rightarrow> sdivisibleData" where
  "sdivisible n c =
    (let d = c;
         k = trailingZeros64 d;
         d0 = drop_bit k d;
         msk = drop_bit (64 - n) (NOT 0);
         m = d0;
         m = newton d0 m;
         m = newton d0 m;
         m = newton d0 m;
         m = newton d0 m;
         m = newton d0 m;
         m = m AND msk;
         a = (drop_bit 1 msk div d0) AND - push_bit k 1
     in \<lparr>sk = int k, sdm = m, sa = a, smax = drop_bit k (2 * a)\<rparr>)"

definition sdivisible8 :: "8 word \<Rightarrow> sdivisibleData" where
  "sdivisible8 c = sdivisible 8 (scast c)"

definition sdivisible16 :: "16 word \<Rightarrow> sdivisibleData" where
  "sdivisible16 c = sdivisible 16 (scast c)"

definition sdivisible32 :: "32 word \<Rightarrow> sdivisibleData" where
  "sdivisible32 c = sdivisible 32 (scast c)"

definition sdivisible64 :: "64 word \<Rightarrow> sdivisibleData" where
  "sdivisible64 c = sdivisible 64 c"

definition rotRight :: "nat \<Rightarrow> nat \<Rightarrow> int \<Rightarrow> int" where
  "rotRight n k y = y div 2 ^ k + (y mod 2 ^ k) * 2 ^ (n - k)"

subsection \<open>Bit lengths and powers of two\<close>

lemma bitLen_zero [simp]: "x \<le> 0 \<Longrightarrow> bitLen x = 0"
  by (simp add: bitLen.simps)

lemma bitLen_bounds:
  "0 < x \<Longrightarrow> 0 < bitLen x \<and> 2 ^ (bitLen x - 1) \<le> x \<and> x < 2 ^ bitLen x"
proof (induction x rule: bitLen.induct)
  case (1 x)
  have e: "bitLen x = Suc (bitLen (x div 2))"
    using \<open>0 < x\<close> by (subst bitLen.simps) simp
  show ?case
  proof (cases "x = 1")
    case True
    then show ?thesis by (simp add: bitLen.simps)
  next
    case False
    then have "0 < x div 2" using \<open>0 < x\<close> by auto
    then have ih: "0 < bitLen (x div 2)" "2 ^ (bitLen (x div 2) - 1) \<le> x div 2"
      "x div 2 < 2 ^ bitLen (x div 2)"
      using "1.IH" \<open>0 < x\<close> by auto
    obtain b where b: "bitLen (x div 2) = Suc b" using ih(1) by (cases "bitLen (x div 2)") auto
    have "2 * 2 ^ b \<le> x \<and> x < 4 * 2 ^ b"
      using ih(2,3) unfolding b by (simp, linarith)
    then show ?thesis by (simp add: e b)
  qed
qed

lemma and_pred_zero_int:
  fixes d :: int
  assumes "0 < d" "d AND (d - 1) = 0"
  shows "\<exists>j. d = 2 ^ j"
  using assms
proof (induction "nat d" arbitrary: d rule: less_induct)
  case less
  show ?case
  proof (cases "even d")
    case True
    then obtain e where e: "d = 2 * e" by auto
    have "(d - 1) div 2 = e - 1" "odd (d - 1)" "d div 2 = e" using e by auto
    then have "d AND (d - 1) = 2 * (e AND (e - 1))"
      using True by (simp add: and_rec [of d])
    then have "e AND (e - 1) = 0" using less.prems by simp
    then obtain j where "e = 2 ^ j" using less.hyps [of e] less.prems e by auto
    then show ?thesis using e by (intro exI [of _ "Suc j"]) simp
  next
    case False
    then obtain e where e: "d = 2 * e + 1" by (auto elim: oddE)
    have "(d - 1) div 2 = e" "even (d - 1)" "d div 2 = e" using e by auto
    then have "d AND (d - 1) = 2 * e"
      using False by (simp add: and_rec [of d])
    then have "d = 1" using less.prems e by simp
    then show ?thesis by (intro exI [of _ 0]) simp
  qed
qed

lemma and_pow_pred: "(2 ^ j :: int) AND (2 ^ j - 1) = 0"
  by (simp add: mask_eq_exp_minus_1 [symmetric] and_exp_eq_0_iff_not_bit bit_mask_iff
      flip: take_bit_eq_mask)

lemma and_pred_zero_word:
  fixes d :: "'a::len word"
  shows "d AND (d - 1) = 0 \<longleftrightarrow> d = 0 \<or> (\<exists>j. uint d = 2 ^ j)"
proof (cases "d = 0")
  case False
  then have pos: "0 < uint d" by (simp add: word_neq_0_conv word_less_def)
  have u: "uint (d - 1) = uint d - 1"
    using pos by (simp add: uint_sub_if' )
  have "d AND (d - 1) = 0 \<longleftrightarrow> uint d AND (uint d - 1) = 0"
    by (metis u uint_and uint_0_iff)
  also have "\<dots> \<longleftrightarrow> (\<exists>j. uint d = 2 ^ j)"
    using pos and_pred_zero_int [of "uint d"] by (auto simp: and_pow_pred)
  finally show ?thesis using False by simp
qed simp

subsection \<open>The multiplier\<close>

definition ceil_mult :: "nat \<Rightarrow> int \<Rightarrow> int" where
  "ceil_mult e d = (2 ^ e + d - 1) div d"

lemma ceil_mult_bounds:
  assumes "0 < d"
  shows "2 ^ e \<le> ceil_mult e d * d" "ceil_mult e d * d < 2 ^ e + d"
proof -
  have "ceil_mult e d * d + (2 ^ e + d - 1) mod d = 2 ^ e + d - 1"
    unfolding ceil_mult_def by (rule div_mult_mod_eq)
  then show "2 ^ e \<le> ceil_mult e d * d" "ceil_mult e d * d < 2 ^ e + d"
    using pos_mod_bound [OF assms, of "2 ^ e + d - 1"] pos_mod_sign [OF assms, of "2 ^ e + d - 1"]
    by linarith+
qed

text \<open>The quotient by \<open>d\<close> from the product with a rounded-up reciprocal.\<close>

lemma div_by_reciprocal:
  fixes x d M r :: int
  assumes d: "0 < d" and M: "M * d = 2 ^ e + r" and r: "0 \<le> r" and x: "0 \<le> x" "x * r < 2 ^ e"
  shows "(x * M) div 2 ^ e = x div d"
proof -
  define q t where "q = x div d" and "t = x mod d"
  have xq: "x = q * d + t" "0 \<le> t" "t \<le> d - 1"
    using d by (auto simp: q_def t_def)
  have "x * M * d = x * 2 ^ e + x * r"
    using arg_cong [OF M, of "\<lambda>z. x * z"] by (simp add: algebra_simps)
  then have eq: "(x * M - q * 2 ^ e) * d = t * 2 ^ e + x * r"
    using xq(1) by (simp add: algebra_simps)
  have "0 \<le> (x * M - q * 2 ^ e) * d"
    unfolding eq using xq(2) x r by simp
  then have lo: "0 \<le> x * M - q * 2 ^ e"
    using d by (simp add: zero_le_mult_iff)
  have "t * 2 ^ e \<le> (d - 1) * 2 ^ e"
    using xq(3) by simp
  then have "(x * M - q * 2 ^ e) * d < 2 ^ e * d"
    unfolding eq using x(2) by (simp add: algebra_simps)
  then have hi: "x * M - q * 2 ^ e < 2 ^ e"
    using d by simp
  show ?thesis
    unfolding q_def [symmetric]
    by (rule int_div_pos_eq [OF _ lo hi]) simp
qed

lemma ceil_mult_range:
  assumes "2 ^ k < d" "d < 2 ^ Suc k" "d < 2 ^ n"
  shows "2 ^ n < ceil_mult (n + Suc k) d" "ceil_mult (n + Suc k) d < 2 ^ Suc n - 1"
proof -
  have d: "0 < d" using assms(1) zero_less_power [of "2::int" k] by linarith
  note b = ceil_mult_bounds [OF d, of "n + Suc k"]
  have "2 ^ n * d < 2 ^ n * 2 ^ Suc k" using assms(2) by simp
  also have "\<dots> \<le> ceil_mult (n + Suc k) d * d" using b(1) by (simp add: power_add)
  finally show "2 ^ n < ceil_mult (n + Suc k) d" using d by simp
  have "2 ^ n * (2 ^ k + 1) \<le> 2 ^ n * d" using assms(1) by simp
  moreover have "2 ^ Suc n * d = 2 * (2 ^ n * d)" "2 ^ (n + Suc k) = 2 * (2 ^ n * 2 ^ k :: int)"
    "2 ^ n * (2 ^ k + 1) = 2 ^ n * 2 ^ k + (2 ^ n :: int)"
    by (simp_all add: power_add distrib_left)
  moreover have "(2 ^ Suc n - 1) * d = 2 ^ Suc n * d - d" by (simp add: left_diff_distrib)
  ultimately have "2 ^ (n + Suc k) + d < (2 ^ Suc n - 1) * d"
    using assms(3) d by linarith
  then have "ceil_mult (n + Suc k) d * d < (2 ^ Suc n - 1) * d" using b(2) by linarith
  then show "ceil_mult (n + Suc k) d < 2 ^ Suc n - 1" using d by simp
qed

lemma bit_in_range_int:
  fixes M :: int
  assumes "2 ^ n \<le> M" "M < 2 ^ Suc n"
  shows "bit M n" "unset_bit n M = M - 2 ^ n"
proof -
  have "M div 2 ^ n = 1"
    by (rule int_div_pos_eq [of _ _ _ "M - 2 ^ n"]) (use assms in auto)
  then show b: "bit M n" by (simp add: bit_iff_odd)
  show "unset_bit n M = M - 2 ^ n"
    using b by (simp add: unset_bit_eq)
qed

lemma zero_extended_eq: "n \<le> 64 \<Longrightarrow> zero_extended n c = take_bit n c"
  by (rule bit_word_eqI)
    (auto simp: zero_extended_def bit_drop_bit_eq bit_push_bit_iff bit_take_bit_iff)

lemma uint_zero_extended: "n \<le> 64 \<Longrightarrow> uint (zero_extended n c) = take_bit n (uint c)"
  by (simp add: zero_extended_eq unsigned_take_bit_eq)

lemma zero_extended_less: "n \<le> 64 \<Longrightarrow> uint (zero_extended n c) < 2 ^ n"
  by (simp add: uint_zero_extended)

lemma umagicOK_iff:
  "umagicOK n c \<longleftrightarrow> zero_extended n c \<noteq> 0 \<and> (\<nexists>j. uint (zero_extended n c) = 2 ^ j)"
  using and_pred_zero_word [of "zero_extended n c"] by (simp add: umagicOK_def Let_def)

lemma not_power_bitLen:
  assumes "0 < d" "\<nexists>j. d = 2 ^ j"
  shows "\<exists>k. bitLen d = Suc k \<and> 2 ^ k < d \<and> d < 2 ^ Suc k"
proof -
  obtain k where k: "bitLen d = Suc k" using bitLen_bounds [OF assms(1)] by (cases "bitLen d") auto
  then have "2 ^ k \<le> d" "d < 2 ^ Suc k" using bitLen_bounds [OF assms(1)] by auto
  moreover have "2 ^ k \<noteq> d" using assms(2) by metis
  ultimately show ?thesis using k by auto
qed

lemma umagic_eq:
  assumes "n \<le> 64" "umagicOK n c" "d = uint (zero_extended n c)"
  obtains k where "2 ^ k < d" "d < 2 ^ Suc k" "d < 2 ^ n"
    "umagic n c = Some \<lparr>us = int (Suc k), um = word_of_int (ceil_mult (n + Suc k) d - 2 ^ n)\<rparr>"
proof -
  have d: "0 < d" "\<nexists>j. d = 2 ^ j" "d < 2 ^ n"
    using assms zero_extended_less [of n c] by (auto simp: umagicOK_iff word_neq_0_conv word_less_def)
  then obtain k where k: "bitLen d = Suc k" "2 ^ k < d" "d < 2 ^ Suc k"
    using not_power_bitLen by blast
  note r = ceil_mult_range [OF k(2,3) d(3)]
  have "umagic n c = Some \<lparr>us = int (Suc k), um = word_of_int (ceil_mult (n + Suc k) d - 2 ^ n)\<rparr>"
    using d(1) k(1) bit_in_range_int [of n "ceil_mult (n + Suc k) d"] r
    by (simp add: umagic_def big_Div_ceil Let_def big_BitLen_def assms(3) ceil_mult_def)
  then show thesis using that k d by blast
qed

lemma uint_word_of_int_id:
  "0 \<le> i \<Longrightarrow> i < 2 ^ LENGTH('a) \<Longrightarrow> uint (word_of_int i :: 'a::len word) = i"
  by (simp only: uint_word_of_int_eq take_bit_int_eq_self)

text \<open>C13: For every width up to 64 bits and every divisor that is neither zero nor a power of two, umagic returns a multiplier below 2^n and a shift of at most n, and multiplying by 2^n plus the multiplier and shifting divides every n-bit number.\<close>

theorem umagic_correct:
  assumes "n \<le> 64" "umagicOK n c"
  shows "\<exists>s m. umagic n c = Some \<lparr>us = int s, um = m\<rparr> \<and> 0 < s \<and> s \<le> n \<and> unat m < 2 ^ n \<and>
     (\<forall>x < 2 ^ n. x div unat (zero_extended n c) = (x * (unat m + 2 ^ n)) div 2 ^ (n + s))"
proof -
  define d where "d = uint (zero_extended n c)"
  obtain k where k: "2 ^ k < d" "d < 2 ^ Suc k" "d < 2 ^ n"
    "umagic n c = Some \<lparr>us = int (Suc k), um = word_of_int (ceil_mult (n + Suc k) d - 2 ^ n)\<rparr>"
    using umagic_eq [OF assms d_def] .
  have d: "0 < d" using k(1) zero_less_power [of "2::int" k] by linarith
  let ?M = "ceil_mult (n + Suc k) d"
  let ?m = "word_of_int (?M - 2 ^ n) :: 64 word"
  note r = ceil_mult_range [OF k(1-3)]
  have "(2::int) ^ n \<le> 2 ^ 64" using assms(1) by (intro power_increasing) auto
  then have "?M - 2 ^ n < 2 ^ 64" using r(2) by simp
  then have m: "uint ?m = ?M - 2 ^ n" using r(1)
    by (intro uint_word_of_int_id) auto
  have "(2::int) ^ k < 2 ^ n" using k(1,3) by linarith
  then have kn: "k < n" by simp
  have x: "x div unat (zero_extended n c) = (x * (unat ?m + 2 ^ n)) div 2 ^ (n + Suc k)" if "x < 2 ^ n" for x
  proof -
    have ix: "int x < 2 ^ n" using that by (metis of_nat_less_iff of_nat_numeral of_nat_power)
    have "int x * (?M * d - 2 ^ (n + Suc k)) \<le> 2 ^ n * (?M * d - 2 ^ (n + Suc k))"
      using ix ceil_mult_bounds [OF d, of "n + Suc k"] by (intro mult_right_mono) auto
    also have "\<dots> < 2 ^ n * 2 ^ Suc k"
      using ceil_mult_bounds(2) [OF d, of "n + Suc k"] k(2) by simp
    finally have "int x * (?M * d - 2 ^ (n + Suc k)) < 2 ^ (n + Suc k)" by (simp add: power_add)
    then have "(int x * ?M) div 2 ^ (n + Suc k) = int x div d"
      using ceil_mult_bounds(1) [OF d, of "n + Suc k"] d
      by (intro div_by_reciprocal [of d _ _ "?M * d - 2 ^ (n + Suc k)"]) auto
    then have "int (x div unat (zero_extended n c)) = int ((x * (unat ?m + 2 ^ n)) div 2 ^ (n + Suc k))"
      using m by (simp add: zdiv_int d_def)
    then show ?thesis by (simp only: of_nat_eq_iff)
  qed
  have "uint ?m < 2 ^ n" using m r(2) by simp
  then have "unat ?m < 2 ^ n" by (metis of_nat_less_iff of_nat_numeral of_nat_power uint_nat)
  then show ?thesis using k(4) x kn by (intro exI [of _ "Suc k"] exI [of _ ?m]) auto
qed

subsection \<open>Signed division\<close>

lemma dvd_power_two_int:
  fixes d :: int
  assumes "0 < d" "d dvd 2 ^ e"
  shows "\<exists>j. d = 2 ^ j"
  using assms
proof (induction e arbitrary: d)
  case (Suc e)
  show ?case
  proof (cases "even d")
    case True
    then obtain f where f: "d = 2 * f" by auto
    then obtain j where "f = 2 ^ j" using Suc.IH [of f] Suc.prems by auto
    then show ?thesis using f by (intro exI [of _ "Suc j"]) simp
  next
    case False
    then have "coprime d (2 ^ Suc e)" by simp
    then have "is_unit d" using Suc.prems(2) by (meson coprime_common_divisor dvd_refl)
    then show ?thesis using Suc.prems(1) by (intro exI [of _ 0]) auto
  qed
qed (auto intro: exI [of _ 0])

lemma sdiv_pos_divisor: "0 < d \<Longrightarrow> x sdiv d = (if x < 0 then - ((- x) div d) else x div (d::int))"
  by (simp add: signed_divide_int_def sgn_if)

text \<open>A negative dividend: the rounded product is one below the truncated quotient.\<close>

lemma neg_div_by_reciprocal:
  fixes y d M r :: int
  assumes d: "0 < d" and M: "M * d = 2 ^ e + r" and r: "0 < r" and y: "0 < y" "y * r < 2 ^ e"
  shows "(- y * M) div 2 ^ e + 1 = - (y div d)"
proof -
  define q t where "q = y div d" and "t = (y * M) mod 2 ^ e"
  have q: "(y * M) div 2 ^ e = q"
    unfolding q_def using assms by (intro div_by_reciprocal [OF d M]) auto
  have t: "y * M = q * 2 ^ e + t" "0 \<le> t" "t < 2 ^ e"
    unfolding t_def q [symmetric] by (simp_all only: div_mult_mod_eq) simp_all
  have "(y - q * d) * 2 ^ e + y * r = t * d"
    using arg_cong [OF M, of "\<lambda>z. y * z"] arg_cong [OF t(1), of "\<lambda>z. z * d"]
    by (simp add: algebra_simps)
  moreover have "0 \<le> (y - q * d) * 2 ^ e"
    unfolding q_def using d by (simp add: minus_div_mult_eq_mod)
  moreover have "0 < y * r" using y r by simp
  ultimately have "0 < t * d" by linarith
  then have "0 < t" using d by (simp add: zero_less_mult_iff)
  then have "(- y * M) div 2 ^ e = - q - 1"
    using t by (intro int_div_pos_eq [of _ _ _ "2 ^ e - t"]) (auto simp: algebra_simps)
  then show ?thesis by (simp add: q_def)
qed

lemma reciprocal_sdiv:
  fixes x d :: int
  assumes d: "2 ^ k < d" "d < 2 ^ Suc k" and n: "0 < n" and x: "- (2 ^ (n - 1)) \<le> x" "x < 2 ^ (n - 1)"
  shows "x sdiv d = (x * ceil_mult (n + k) d) div 2 ^ (n + k) + (if x < 0 then 1 else 0)"
proof -
  let ?M = "ceil_mult (n + k) d" and ?e = "n + k"
  define r where "r = ?M * d - 2 ^ ?e"
  have d0: "0 < d" using d(1) zero_less_power [of "2::int" k] by linarith
  have M: "?M * d = 2 ^ ?e + r" by (simp add: r_def)
  have "\<not> d dvd 2 ^ ?e"
  proof
    assume "d dvd 2 ^ ?e"
    then obtain j where j: "d = 2 ^ j" using dvd_power_two_int d0 by blast
    have "k < j" using d(1) unfolding j by simp
    moreover have "j < Suc k" using d(2) unfolding j by (rule power_less_imp_less_exp [rotated]) simp
    ultimately show False by simp
  qed
  then have "r \<noteq> 0" using M by (metis add.right_neutral dvd_triv_right)
  then have r: "0 < r" "r < d" using ceil_mult_bounds [OF d0, of ?e] by (auto simp: r_def)
  have "n - 1 + Suc k = ?e" using n by simp
  then have e: "2 ^ (n - 1) * 2 ^ Suc k = (2::int) ^ ?e" by (simp only: flip: power_add)
  have small: "y * r < 2 ^ ?e" if "0 \<le> y" "y \<le> 2 ^ (n - 1)" for y :: int
  proof -
    have "y * r \<le> 2 ^ (n - 1) * r" using that r by (intro mult_right_mono) auto
    also have "\<dots> < 2 ^ (n - 1) * 2 ^ Suc k" using r d(2) by simp
    finally show ?thesis unfolding e .
  qed
  show ?thesis
  proof (cases "x < 0")
    case True
    then show ?thesis
      using neg_div_by_reciprocal [OF d0 M r(1), of "- x"] small [of "- x"] x d0
      by (simp add: sdiv_pos_divisor)
  next
    case False
    then show ?thesis
      using div_by_reciprocal [OF d0 M _ _ small [of x], of] r x d0
      by (simp add: sdiv_pos_divisor)
  qed
qed

lemma sint_nonneg_uint: "0 \<le> sint c \<Longrightarrow> sint c = uint (c :: 'a::len word)"
proof -
  assume "0 \<le> sint c"
  moreover have "sint c < 2 ^ (LENGTH('a) - 1)" by (rule sint_lt)
  moreover have "(2::int) ^ (LENGTH('a) - 1) \<le> 2 ^ LENGTH('a)" by (intro power_increasing) auto
  ultimately show ?thesis unfolding uint_sint [of c]
    by (intro take_bit_int_eq_self [symmetric]) linarith+
qed

lemma smagicOK_iff:
  "smagicOK n c \<longleftrightarrow> 0 < sint c \<and> (\<nexists>j. sint c = 2 ^ j)"
proof (cases "sint c < 0")
  case False
  then have "sint c = uint c" by (intro sint_nonneg_uint) simp
  moreover have "0 < uint c \<longleftrightarrow> c \<noteq> 0" using uint_ge_0 [of c] uint_0_iff [of c] by linarith
  ultimately show ?thesis
    using and_pred_zero_word [of c] False by (auto simp: smagicOK_def)
qed (simp add: smagicOK_def)

lemma smagic_eq:
  assumes "0 < n" "n \<le> 64" "smagicOK n c" "sint c < 2 ^ (n - 1)"
  obtains k where "2 ^ k < sint c" "sint c < 2 ^ Suc k"
    "2 ^ (n - 1) < ceil_mult (n + k) (sint c)" "ceil_mult (n + k) (sint c) < 2 ^ n"
    "smagic n c = Some \<lparr>ss = int k, sm = word_of_int (ceil_mult (n + k) (sint c))\<rparr>"
proof -
  let ?d = "sint c"
  have d: "0 < ?d" "\<nexists>j. ?d = 2 ^ j" using assms(3) by (auto simp: smagicOK_iff)
  then obtain k where k: "bitLen ?d = Suc k" "2 ^ k < ?d" "?d < 2 ^ Suc k"
    using not_power_bitLen by blast
  let ?M = "ceil_mult (n + k) ?d"
  have nk: "n - 1 + Suc k = n + k" "Suc (n - 1) = n" using assms(1) by auto
  note r1 = ceil_mult_range [OF k(2,3) assms(4), unfolded nk]
  have r: "2 ^ (n - 1) < ?M" "?M < 2 ^ n" using r1 by linarith+
  have b: "bit ?M (n - 1)" using bit_in_range_int(1) [of "n - 1" ?M] r nk by simp
  have "0 \<le> ?M" using r(1) zero_less_power [of "2::int" "n - 1"] by linarith
  then have "\<not> bit ?M n" using r(2) by (simp add: bit_iff_odd)
  then have "smagic n c = Some \<lparr>ss = int k, sm = word_of_int ?M\<rparr>"
    using d(1) k(1) b
    by (simp add: smagic_def big_Div_ceil Let_def big_BitLen_def ceil_mult_def nat_int_add)
  then show thesis using that k r by blast
qed

subsection \<open>Divisibility\<close>

text \<open>Newton's iteration squares the error \<open>1 - m * d0\<close>.\<close>

lemma newton_error: "1 - newton d0 m * d0 = (1 - m * d0) ^ 2"
  by (simp add: newton_def power2_eq_square algebra_simps)

lemma odd_square_error:
  fixes d :: "64 word"
  assumes "odd d"
  shows "\<exists>w. 1 - d * d = 8 * w"
proof -
  obtain a where a: "d = 2 * a + 1" using assms by (auto elim: oddE)
  have "even (a * (a + 1))" by simp
  then obtain b where b: "a * (a + 1) = 2 * b" by (rule evenE)
  have "1 - d * d = - 4 * (a * (a + 1))" by (simp add: a algebra_simps)
  also have "\<dots> = 8 * (- b)" unfolding b by simp
  finally show ?thesis by blast
qed

lemma newton_inverse:
  assumes "odd d0"
  shows "newton d0 (newton d0 (newton d0 (newton d0 (newton d0 d0)))) * d0 = 1"
proof -
  obtain w where w: "1 - d0 * d0 = 8 * w" using odd_square_error [OF assms] by blast
  have "1 - newton d0 (newton d0 (newton d0 (newton d0 (newton d0 d0)))) * d0 = (8 * w) ^ 32"
    by (simp add: newton_error w flip: power_mult)
  also have "\<dots> = 2 ^ 96 * w ^ 32" by (simp add: power_mult_distrib)
  also have "(2 :: 64 word) ^ 96 = 0" by (rule exp_eq_zero_iff [THEN iffD2]) simp
  finally show ?thesis by simp
qed

lemma trailingZeros64_props:
  assumes "x \<noteq> 0"
  shows "trailingZeros64 x < 64" "bit x (trailingZeros64 x)" "\<And>i. i < trailingZeros64 x \<Longrightarrow> \<not> bit x i"
proof -
  let ?P = "\<lambda>i. \<not> bit x i"
  obtain i where i: "bit x i" using assms bit_eq_iff [of x 0] by auto
  then have "i < 64" using bit_imp_le_length by fastforce
  have "\<not> (\<forall>i \<in> set [0..<64]. ?P i)" using i \<open>i < 64\<close> by auto
  then have "takeWhile ?P [0..<64] \<noteq> [0..<64]" by (metis takeWhile_eq_all_conv)
  then have l: "length (takeWhile ?P [0..<64]) < length [0..<64]"
    by (metis le_neq_implies_less length_takeWhile_le takeWhile_eq_take take_all_iff)
  then show t: "trailingZeros64 x < 64" by (simp add: trailingZeros64_def)
  show "bit x (trailingZeros64 x)"
    using nth_length_takeWhile [OF l] t by (simp add: trailingZeros64_def)
  show "\<not> bit x i" if "i < trailingZeros64 x" for i
  proof -
    have "takeWhile ?P [0..<64] ! i = i"
      using that t takeWhile_nth [of i ?P "[0..<64]"] by (simp add: trailingZeros64_def)
    then have "i \<in> set (takeWhile ?P [0..<64])"
      using that by (metis nth_mem trailingZeros64_def)
    then show ?thesis by (auto dest: set_takeWhileD)
  qed
qed

lemma uint_drop_bit: "uint (drop_bit k w) = uint w div 2 ^ k"
  by (simp only: unsigned_drop_bit_eq take_bit_int_eq_self [OF uint_ge_0 uint_lt2p])
    (simp only: drop_bit_eq_div)

lemma odd_part:
  assumes "x \<noteq> 0"
  shows "odd (drop_bit (trailingZeros64 x) x)"
    "uint x = uint (drop_bit (trailingZeros64 x) x) * 2 ^ trailingZeros64 x"
proof -
  let ?k = "trailingZeros64 x"
  show "odd (drop_bit ?k x)"
    using trailingZeros64_props(2) [OF assms] by (simp add: bit_iff_odd_drop_bit)
  have "take_bit ?k x = 0"
    using trailingZeros64_props(3) [OF assms] by (intro bit_word_eqI) (auto simp: bit_take_bit_iff)
  then have "take_bit ?k (uint x) = 0" by (metis unsigned_take_bit_eq unsigned_0)
  then show "uint x = uint (drop_bit ?k x) * 2 ^ ?k"
    unfolding uint_drop_bit using bits_ident [of ?k "uint x"]
    by (simp add: push_bit_eq_mult drop_bit_eq_div)
qed

lemma low_mask_eq: "n \<le> 64 \<Longrightarrow> drop_bit (64 - n) (NOT 0 :: 64 word) = mask n"
  by (rule bit_word_eqI) (auto simp: bit_drop_bit_eq bit_mask_iff)

lemma inverse_mod:
  assumes "n \<le> 64" "m * d = (1 :: 64 word)"
  shows "(uint (m AND mask n) * uint d) mod 2 ^ n = 1 mod 2 ^ n"
proof -
  have "uint (m AND mask n) = uint m mod 2 ^ n"
    unfolding take_bit_eq_mask [symmetric]
    using assms(1) by (subst unsigned_take_bit_eq) (simp_all only: take_bit_eq_mod)
  then have "(uint (m AND mask n) * uint d) mod 2 ^ n = (uint m * uint d) mod 2 ^ n"
    by (simp add: mod_mult_left_eq)
  also have "\<dots> = (uint m * uint d) mod 2 ^ 64 mod 2 ^ n"
    using assms(1) by (intro mod_mod_cancel [symmetric] le_imp_power_dvd)
  also have "(uint m * uint d) mod 2 ^ 64 = uint (m * d)"
    by (simp add: uint_word_ariths)
  finally show ?thesis by (simp add: assms(2))
qed

text \<open>Rotating right brings the low bits on top, so one comparison checks both that they are
  clear and that the rest is small.\<close>

lemma rotRight_le_iff:
  assumes "k \<le> n" "0 \<le> y" "0 \<le> b" "b < 2 ^ (n - k)"
  shows "rotRight n k y \<le> b \<longleftrightarrow> (\<exists>z. 0 \<le> z \<and> z \<le> b \<and> y = z * 2 ^ k)"
proof
  assume le: "rotRight n k y \<le> b"
  have d: "0 \<le> y div 2 ^ k" using assms(2) by (simp add: pos_imp_zdiv_nonneg_iff)
  have "y mod 2 ^ k = 0"
  proof (rule ccontr)
    assume "y mod 2 ^ k \<noteq> 0"
    then have "1 \<le> y mod 2 ^ k" using pos_mod_sign [of "2 ^ k" y] zero_less_power [of "2::int" k] by linarith
    then have "1 * 2 ^ (n - k) \<le> y mod 2 ^ k * 2 ^ (n - k)" by (intro mult_right_mono) auto
    then show False using le d assms(4) unfolding rotRight_def by linarith
  qed
  then show "\<exists>z. 0 \<le> z \<and> z \<le> b \<and> y = z * 2 ^ k"
    using le d by (intro exI [of _ "y div 2 ^ k"]) (auto simp: rotRight_def)
qed (auto simp: rotRight_def)

text \<open>Multiplying by the inverse of the odd part turns multiples of the divisor into multiples
  of the power of two, modulo \<open>2 ^ n\<close>.\<close>

lemma inverse_cong:
  fixes N m d0 x z p :: int
  assumes "N dvd m * d0 - 1"
  shows "N dvd x * m - z * p \<longleftrightarrow> N dvd x - z * (d0 * p)"
proof
  assume "N dvd x * m - z * p"
  then have "N dvd (x * m - z * p) * d0 - x * (m * d0 - 1)" using assms by auto
  then show "N dvd x - z * (d0 * p)" by (simp add: algebra_simps)
next
  assume "N dvd x - z * (d0 * p)"
  then have "N dvd (x - z * (d0 * p)) * m + z * p * (m * d0 - 1)" using assms by auto
  then show "N dvd x * m - z * p" by (simp add: algebra_simps)
qed

lemma dvd_diff_small:
  fixes N a b :: int
  assumes "N dvd a - b" "\<bar>a - b\<bar> < N"
  shows "a = b"
  using assms dvd_imp_le_int [of "a - b" N] by force

lemma mod_eq_dvd_small:
  fixes N y z :: int
  assumes "0 \<le> z" "z < N"
  shows "y mod N = z \<longleftrightarrow> N dvd y - z"
  using assms by (metis mod_eq_dvd_iff mod_pos_pos_trivial)

lemma divisible_window:
  fixes x B m d0 :: int
  assumes inverse: "2 ^ n dvd m * d0 - 1" and d0: "0 < d0" and k: "k \<le> n"
    and B: "0 \<le> lo" "0 \<le> hi" "(lo + hi) * 2 ^ k < 2 ^ n"
    and window: "\<And>z. - lo \<le> z \<Longrightarrow> z \<le> hi \<Longrightarrow> \<bar>x - z * (d0 * 2 ^ k)\<bar> < 2 ^ n"
    and quotient: "\<And>z. x = z * (d0 * 2 ^ k) \<Longrightarrow> - lo \<le> z \<and> z \<le> hi"
  shows "(d0 * 2 ^ k) dvd x \<longleftrightarrow> rotRight n k ((x * m + lo * 2 ^ k) mod 2 ^ n) \<le> lo + hi"
proof -
  let ?y = "x * m + lo * 2 ^ k"
  have "(2::int) ^ n = 2 ^ (n - k) * 2 ^ k" using k by (simp flip: power_add)
  then have b: "lo + hi < 2 ^ (n - k)" using B(3) by simp
  have small: "0 \<le> z * 2 ^ k \<and> z * 2 ^ k < 2 ^ n" if "0 \<le> z" "z \<le> lo + hi" for z
  proof -
    have "z * 2 ^ k \<le> (lo + hi) * 2 ^ k" using that by (intro mult_right_mono) auto
    then have "z * 2 ^ k < 2 ^ n" using B(3) by (rule order.strict_trans1)
    then show ?thesis using that(1) by simp
  qed
  have "rotRight n k (?y mod 2 ^ n) \<le> lo + hi \<longleftrightarrow> (\<exists>z. 0 \<le> z \<and> z \<le> lo + hi \<and> ?y mod 2 ^ n = z * 2 ^ k)"
    using B by (intro rotRight_le_iff [OF k _ _ b]) auto
  also have "\<dots> \<longleftrightarrow> (\<exists>z. 0 \<le> z \<and> z \<le> lo + hi \<and> 2 ^ n dvd ?y - z * 2 ^ k)"
    using small mod_eq_dvd_small by metis
  also have "\<dots> \<longleftrightarrow> (\<exists>z. 0 \<le> z \<and> z \<le> lo + hi \<and> 2 ^ n dvd x * m - (z - lo) * 2 ^ k)"
    by (simp add: algebra_simps)
  also have "\<dots> \<longleftrightarrow> (\<exists>z. 0 \<le> z \<and> z \<le> lo + hi \<and> 2 ^ n dvd x - (z - lo) * (d0 * 2 ^ k))"
    unfolding inverse_cong [OF inverse] ..
  also have "\<dots> \<longleftrightarrow> (\<exists>z. 0 \<le> z \<and> z \<le> lo + hi \<and> x = (z - lo) * (d0 * 2 ^ k))"
    using window dvd_diff_small [of "2 ^ n" x] by (metis add.commute cancel_comm_monoid_add_class.diff_cancel
        diff_le_eq diff_0 diff_right_mono dvd_0_right)
  also have "\<dots> \<longleftrightarrow> (\<exists>z. x = z * (d0 * 2 ^ k))"
  proof
    assume "\<exists>z. x = z * (d0 * 2 ^ k)"
    then obtain z where z: "x = z * (d0 * 2 ^ k)" by blast
    then show "\<exists>z. 0 \<le> z \<and> z \<le> lo + hi \<and> x = (z - lo) * (d0 * 2 ^ k)"
      using quotient [OF z] by (intro exI [of _ "z + lo"]) auto
  qed blast
  also have "\<dots> \<longleftrightarrow> (d0 * 2 ^ k) dvd x" by (auto simp: dvd_def mult.commute)
  finally show ?thesis by simp
qed

lemma inverse_dvd:
  assumes "n \<le> 64" "m * d = (1 :: 64 word)"
  shows "2 ^ n dvd uint (m AND mask n) * uint d - 1"
  unfolding mod_eq_dvd_iff [symmetric] by (rule inverse_mod [OF assms])

lemma uint_low_mask: "n \<le> 64 \<Longrightarrow> uint (mask n :: 64 word) = 2 ^ n - 1"
  using uint_mask_eq [of n, where 'a = 64]
  by (simp only: min_absorb2 len_num0 len_num1 len_bit0 mask_eq_exp_minus_1)

lemma uint_word_div: "uint (a div b) = uint a div uint (b :: 'a::len word)"
  by (fact uint_div_distrib)

lemma odd_pos: "odd (w :: 'a::len word) \<Longrightarrow> 0 < uint w"
  by (metis even_zero le_less uint_0_iff uint_ge_0)

lemma power_dvd_less: "0 < d0 \<Longrightarrow> d0 * 2 ^ k < (2::int) ^ n \<Longrightarrow> k < n"
proof (rule ccontr)
  assume "0 < d0" "d0 * 2 ^ k < (2::int) ^ n" "\<not> k < n"
  then have "(2::int) ^ n \<le> 1 * 2 ^ k" by simp
  also have "\<dots> \<le> d0 * 2 ^ k" using \<open>0 < d0\<close> by (intro mult_right_mono) auto
  finally show False using \<open>d0 * 2 ^ k < 2 ^ n\<close> by simp
qed

lemma int_div_mult_le: "0 < d \<Longrightarrow> a div d * d \<le> (a::int)"
  using pos_mod_sign [of d a] div_mult_mod_eq [of a d] by linarith

lemma int_le_div_iff: "0 < d \<Longrightarrow> z \<le> a div d \<longleftrightarrow> z * d \<le> (a::int)"
  using int_div_mult_le [of d a]
  by (metis mult_right_mono order.trans order_less_le nonzero_mult_div_cancel_right zdiv_mono1)

lemma udivisibleOK_eq: "udivisibleOK n c = umagicOK n c"
  by (simp add: udivisibleOK_def umagicOK_def)

lemma sdivisibleOK_eq: "sdivisibleOK n c = smagicOK n c"
  by (simp add: sdivisibleOK_def smagicOK_def)

lemma unsigned_window:
  fixes x m d0 :: int and n k :: nat
  defines "b \<equiv> (2 ^ n - 1) div (d0 * 2 ^ k)"
  assumes d: "0 < d0" "d0 * 2 ^ k < 2 ^ n" and inverse: "2 ^ n dvd m * d0 - 1" and x: "0 \<le> x" "x < 2 ^ n"
  shows "(d0 * 2 ^ k) dvd x \<longleftrightarrow> rotRight n k ((x * m) mod 2 ^ n) \<le> b"
proof -
  let ?d = "d0 * 2 ^ k"
  have dp: "0 < ?d" using d(1) by simp
  have bd: "b * ?d \<le> 2 ^ n - 1" unfolding b_def using dp by (rule int_div_mult_le)
  have b0: "0 \<le> b" using dp by (simp add: b_def pos_imp_zdiv_nonneg_iff)
  have "b * 2 ^ k \<le> b * ?d" using b0 d(1) by (intro mult_left_mono) auto
  then have bk: "(0 + b) * 2 ^ k < 2 ^ n" using bd by simp
  have "?d dvd x \<longleftrightarrow> rotRight n k ((x * m + 0 * 2 ^ k) mod 2 ^ n) \<le> 0 + b"
  proof (rule divisible_window [OF inverse d(1) _ _ b0 bk])
    show "k \<le> n" using power_dvd_less [OF d] by simp
    fix z
    show "\<bar>x - z * ?d\<bar> < 2 ^ n" if "- 0 \<le> z" "z \<le> b"
    proof -
      have "z * ?d \<le> b * ?d" "0 \<le> z * ?d" using that dp by (auto intro: mult_right_mono)
      then show ?thesis using bd x by linarith
    qed
    assume z: "x = z * ?d"
    then have "0 \<le> z" using x(1) dp by (simp add: zero_le_mult_iff)
    moreover have "z \<le> b" unfolding b_def int_le_div_iff [OF dp] using x(2) z by simp
    ultimately show "- 0 \<le> z \<and> z \<le> b" by simp
  qed simp
  then show ?thesis by simp
qed

text \<open>C15: For the constants of udivisible an n-bit number is divisible by c exactly if its product with m, rotated right by k, is at most max.\<close>

theorem udivisible_correct:
  assumes "n \<le> 64" "udivisibleOK n c" "0 \<le> x" "x < 2 ^ n"
  shows "uint (zero_extended n c) dvd x \<longleftrightarrow>
    rotRight n (nat (uk (udivisible n c))) ((x * uint (udm (udivisible n c))) mod 2 ^ n)
      \<le> uint (umax (udivisible n c))"
proof -
  let ?d = "zero_extended n c"
  let ?k = "trailingZeros64 ?d"
  let ?o = "drop_bit ?k ?d"
  let ?m = "newton ?o (newton ?o (newton ?o (newton ?o (newton ?o ?o))))"
  have nz: "?d \<noteq> 0" using assms(2) by (simp add: udivisibleOK_eq umagicOK_iff)
  note o = odd_part [OF nz]
  have d0: "0 < uint ?o" by (rule odd_pos [OF o(1)])
  have dn: "uint ?o * 2 ^ ?k < 2 ^ n"
    unfolding o(2) [symmetric] by (rule zero_extended_less [OF assms(1)])
  have "udivisible n c = \<lparr>uk = int ?k, udm = ?m AND mask n, umax = mask n div ?d\<rparr>"
    by (simp add: udivisible_def Let_def low_mask_eq assms(1))
  then have f: "uk (udivisible n c) = int ?k" "udm (udivisible n c) = ?m AND mask n"
    "uint (umax (udivisible n c)) = (2 ^ n - 1) div uint ?d"
    by (simp_all add: uint_word_div uint_low_mask assms(1))
  show ?thesis
    using unsigned_window [OF d0 dn inverse_dvd [OF assms(1) newton_inverse [OF o(1)]] assms(3,4)]
    unfolding f o(2) [symmetric] by simp
qed

lemma and_minus_power:
  fixes A :: "'a::len word"
  assumes "k < LENGTH('a)"
  shows "uint (A AND - push_bit k 1) = uint A div 2 ^ k * 2 ^ k"
proof -
  have "A AND - push_bit k 1 = push_bit k (drop_bit k A)"
    using assms by (intro bit_word_eqI)
      (auto simp: bit_push_bit_iff bit_drop_bit_eq push_bit_of_1 minus_exp_eq_not_mask bit_mask_iff bit_not_iff bit_and_iff
        dest: bit_imp_le_length)
  also have "\<dots> = A - take_bit k A" by (metis bits_ident add_diff_cancel_right')
  also have "uint \<dots> = uint A - uint A mod 2 ^ k"
  proof -
    have t: "uint (take_bit k A) = uint A mod 2 ^ k"
      by (subst unsigned_take_bit_eq) (rule take_bit_eq_mod)
    then have "take_bit k A \<le> A" by (simp only: word_le_def) (simp add: zmod_le_nonneg_dividend)
    then show ?thesis unfolding t [symmetric] by (rule uint_minus_simple_alt [THEN iffD1])
  qed
  finally show ?thesis by (simp add: minus_mod_eq_div_mult)
qed

lemma uint_double: "2 * uint w < 2 ^ 64 \<Longrightarrow> uint (2 * w :: 64 word) = 2 * uint w"
  by (simp add: uint_word_ariths)

text \<open>The quotient of the largest number of \<open>n - 1\<close> bits bounds the multiples of a divisor.\<close>

lemma signed_multiple_bound:
  fixes d x z :: int
  assumes d: "0 < d" "\<nexists>j. d = 2 ^ j" and x: "- (2 ^ (n - 1)) \<le> x" "x < 2 ^ (n - 1)" and z: "x = z * d"
  shows "- ((2 ^ (n - 1) - 1) div d) \<le> z \<and> z \<le> (2 ^ (n - 1) - 1) div d"
proof -
  have "z * d \<noteq> - (2 ^ (n - 1))"
  proof
    assume "z * d = - (2 ^ (n - 1))"
    then have "d dvd 2 ^ (n - 1)" by (metis dvd_minus_iff dvd_triv_right)
    then show False using dvd_power_two_int [OF d(1)] d(2) by auto
  qed
  then have "z * d \<le> 2 ^ (n - 1) - 1" "- z * d \<le> 2 ^ (n - 1) - 1" using x z by auto
  then have "z \<le> (2 ^ (n - 1) - 1) div d" "- z \<le> (2 ^ (n - 1) - 1) div d"
    by (simp_all only: int_le_div_iff [OF d(1)])
  then show ?thesis by simp
qed

lemma signed_window:
  fixes x m d0 :: int and n k :: nat
  defines "B \<equiv> (2 ^ (n - 1) - 1) div (d0 * 2 ^ k)"
  assumes n: "0 < n" and d: "0 < d0" "\<nexists>j. d0 * 2 ^ k = 2 ^ j" "d0 * 2 ^ k < 2 ^ (n - 1)"
    and inverse: "2 ^ n dvd m * d0 - 1" and B: "(B + B) * 2 ^ k < 2 ^ n"
    and x: "- (2 ^ (n - 1)) \<le> x" "x < 2 ^ (n - 1)"
  shows "(d0 * 2 ^ k) dvd x \<longleftrightarrow> rotRight n k ((x * m + B * 2 ^ k) mod 2 ^ n) \<le> B + B"
proof (rule divisible_window [OF inverse d(1) _ _ _ B])
  let ?d = "d0 * 2 ^ k"
  have dp: "0 < ?d" using d(1) by simp
  have nn: "2 * 2 ^ (n - 1) = (2::int) ^ n" using n by (simp flip: power_Suc)
  have "k < n - 1" by (rule power_dvd_less [OF d(1,3)])
  then show "k \<le> n" by simp
  show B0: "0 \<le> B" using dp by (simp add: B_def pos_imp_zdiv_nonneg_iff)
  then show "0 \<le> B" .
  fix z
  show "\<bar>x - z * ?d\<bar> < 2 ^ n" if "- B \<le> z" "z \<le> B"
  proof -
    have "z * ?d \<le> B * ?d" "- B * ?d \<le> z * ?d" by (rule mult_right_mono; use that dp in simp)+
    moreover have "B * ?d \<le> 2 ^ (n - 1) - 1" unfolding B_def using dp by (rule int_div_mult_le)
    ultimately show ?thesis using x nn by linarith
  qed
  show "- B \<le> z \<and> z \<le> B" if "x = z * ?d"
    unfolding B_def by (rule signed_multiple_bound [OF dp d(2) x that])
qed

text \<open>The fields of the result, with \<open>d0\<close> for the odd part of the divisor.\<close>

lemma sdivisible_fields:
  fixes c :: "64 word" and n :: nat
  defines "B \<equiv> (2 ^ (n - 1) - 1) div uint c"
  assumes n: "0 < n" "n \<le> 64" and nz: "c \<noteq> 0"
  obtains k d0 where "uint c = d0 * 2 ^ k" "0 < d0" "sk (sdivisible n c) = int k"
    "2 ^ n dvd uint (sdm (sdivisible n c)) * d0 - 1" "uint (sa (sdivisible n c)) = B * 2 ^ k"
    "uint (smax (sdivisible n c)) = B + B" "(B + B) * 2 ^ k < 2 ^ n"
proof -
  let ?k = "trailingZeros64 c"
  let ?o = "drop_bit ?k c"
  let ?m = "newton ?o (newton ?o (newton ?o (newton ?o (newton ?o ?o)))) AND mask n"
  let ?a = "(drop_bit 1 (mask n) div ?o) AND - push_bit ?k 1"
  note o = odd_part [OF nz]
  have d0: "0 < uint ?o" by (rule odd_pos [OF o(1)])
  have kd: "2 ^ ?k \<le> uint c" by (subst o(2)) (use d0 in simp)
  then have d: "0 < uint c" using zero_less_power [of "2::int" ?k] by linarith
  have nn: "2 * 2 ^ (n - 1) = (2::int) ^ n" using n(1) by (simp flip: power_Suc)
  have "uint (drop_bit 1 (mask n) :: 64 word) = 2 ^ (n - 1) - 1"
    unfolding uint_drop_bit uint_low_mask [OF n(2)] nn [symmetric] by simp
  then have A: "uint (drop_bit 1 (mask n) div ?o) = (2 ^ (n - 1) - 1) div uint ?o" by (simp only: uint_word_div)
  have a: "uint ?a = B * 2 ^ ?k"
  proof -
    have "uint ?a = uint (drop_bit 1 (mask n) div ?o) div 2 ^ ?k * 2 ^ ?k"
      by (rule and_minus_power) (use trailingZeros64_props(1) [OF nz] in simp)
    also have "uint (drop_bit 1 (mask n) div ?o) div 2 ^ ?k = B"
      unfolding A B_def by (subst o(2)) (simp add: zdiv_zmult2_eq)
    finally show ?thesis .
  qed
  have "0 \<le> B" using d by (simp add: B_def pos_imp_zdiv_nonneg_iff)
  then have "B * 2 ^ ?k \<le> B * uint c" by (rule mult_left_mono [OF kd])
  also have "\<dots> \<le> 2 ^ (n - 1) - 1" unfolding B_def using d by (rule int_div_mult_le)
  finally have Bk: "(B + B) * 2 ^ ?k < 2 ^ n" using nn unfolding distrib_right by linarith
  have "2 ^ n \<le> (2::int) ^ 64" using n(2) by (intro power_increasing) auto
  then have "2 * uint ?a < 2 ^ 64" using Bk unfolding a distrib_right by linarith
  then have "uint (2 * ?a) = 2 * uint ?a" by (rule uint_double)
  then have b: "uint (drop_bit ?k (2 * ?a)) = B + B" unfolding uint_drop_bit a by simp
  have s: "sdivisible n c = \<lparr>sk = int ?k, sdm = ?m, sa = ?a, smax = drop_bit ?k (2 * ?a)\<rparr>"
    by (simp add: sdivisible_def Let_def low_mask_eq n(2))
  show thesis
    by (rule that [OF o(2) d0 _ _ _ _ Bk])
      (simp_all only: s sdivisibleData.simps a b inverse_dvd [OF n(2) newton_inverse [OF o(1)]])
qed

text \<open>C16: For the constants of sdivisible a signed n-bit number is divisible by c exactly if its product with m plus a, rotated right by k, is at most max.\<close>

theorem sdivisible_correct:
  assumes "0 < n" "n \<le> 64" "sdivisibleOK n c" "sint c < 2 ^ (n - 1)"
    "- (2 ^ (n - 1)) \<le> x" "x < 2 ^ (n - 1)"
  shows "sint c dvd x \<longleftrightarrow>
    rotRight n (nat (sk (sdivisible n c)))
      ((x * uint (sdm (sdivisible n c)) + uint (sa (sdivisible n c))) mod 2 ^ n)
      \<le> uint (smax (sdivisible n c))"
proof -
  have c: "0 < sint c" "\<nexists>j. sint c = 2 ^ j" using assms(3) by (auto simp: sdivisibleOK_eq smagicOK_iff)
  then have cu: "sint c = uint c" by (intro sint_nonneg_uint) simp
  then have "c \<noteq> 0" using c by auto
  then obtain k d0 where f: "uint c = d0 * 2 ^ k" "0 < d0" "sk (sdivisible n c) = int k"
    "2 ^ n dvd uint (sdm (sdivisible n c)) * d0 - 1"
    "uint (sa (sdivisible n c)) = (2 ^ (n - 1) - 1) div uint c * 2 ^ k"
    "uint (smax (sdivisible n c)) = (2 ^ (n - 1) - 1) div uint c + (2 ^ (n - 1) - 1) div uint c"
    "((2 ^ (n - 1) - 1) div uint c + (2 ^ (n - 1) - 1) div uint c) * 2 ^ k < 2 ^ n"
    by (rule sdivisible_fields [OF assms(1,2)])
  show ?thesis
    using signed_window [OF assms(1) f(2) _ _ f(4) _ assms(5,6), of k] c(2) assms(4) f(7)
    unfolding f(3,5,6) cu f(1) by simp
qed

text \<open>C14: For every width up to 64 bits and every positive divisor of that width that is not a power of two, smagic returns a multiplier of exactly n bits, and multiplying, shifting and adding one for negative numbers is the division of Go, truncated towards zero.\<close>

theorem smagic_correct:
  assumes "0 < n" "n \<le> 64" "smagicOK n c" "sint c < 2 ^ (n - 1)"
  shows "\<exists>s m. smagic n c = Some \<lparr>ss = int s, sm = m\<rparr> \<and> 2 ^ (n - 1) \<le> uint m \<and> uint m < 2 ^ n \<and>
    (\<forall>x. - (2 ^ (n - 1)) \<le> x \<and> x < 2 ^ (n - 1) \<longrightarrow>
      x sdiv sint c = (x * uint m) div 2 ^ (n + s) + (if x < 0 then 1 else 0))"
proof -
  obtain k where k: "2 ^ k < sint c" "sint c < 2 ^ Suc k"
    "2 ^ (n - 1) < ceil_mult (n + k) (sint c)" "ceil_mult (n + k) (sint c) < 2 ^ n"
    "smagic n c = Some \<lparr>ss = int k, sm = word_of_int (ceil_mult (n + k) (sint c))\<rparr>"
    using smagic_eq [OF assms] .
  have "2 ^ n \<le> (2::int) ^ 64" using assms(2) by (intro power_increasing) auto
  moreover have "0 \<le> ceil_mult (n + k) (sint c)" using k(3) zero_less_power [of "2::int" "n - 1"] by linarith
  ultimately have m: "uint (word_of_int (ceil_mult (n + k) (sint c)) :: 64 word) = ceil_mult (n + k) (sint c)"
    using k(4) by (intro uint_word_of_int_id) auto
  show ?thesis
    using k m reciprocal_sdiv [OF k(1,2) assms(1)]
    by (intro exI [of _ k] exI [of _ "word_of_int (ceil_mult (n + k) (sint c))"]) auto
qed

theorem umagic_correct_witness:
  "\<exists>s m. umagic 8 7 = Some \<lparr>us = int s, um = m\<rparr> \<and> 250 div 7 = (250 * (unat m + 256)) div (2::nat) ^ (8 + s)"
proof -
  have z: "zero_extended 8 7 = 7" by (simp add: zero_extended_eq)
  have "umagicOK 8 7" by (simp add: umagicOK_def z)
  then obtain s m where "umagic 8 7 = Some \<lparr>us = int s, um = m\<rparr>"
    "\<forall>x < 2 ^ 8. x div unat (zero_extended 8 7) = (x * (unat m + 2 ^ 8)) div 2 ^ (8 + s)"
    using umagic_correct [of 8 7] by auto
  then show ?thesis by (intro exI [of _ s] exI [of _ m]) (auto simp: z dest!: spec [of _ 250])
qed

theorem smagic_correct_witness:
  "\<exists>s m. smagic 8 7 = Some \<lparr>ss = int s, sm = m\<rparr> \<and> (- 100) sdiv 7 = (- 100 * uint m) div 2 ^ (8 + s) + 1"
proof -
  have "smagicOK 8 7" by (simp add: smagicOK_def)
  then show ?thesis using smagic_correct [of 8 7] by (auto dest!: spec [of _ "- 100"])
qed

theorem udivisible_correct_witness:
  "(84::int) mod 12 = 0 \<and> rotRight 8 (nat (uk (udivisible 8 12))) ((84 * uint (udm (udivisible 8 12))) mod 2 ^ 8)
    \<le> uint (umax (udivisible 8 12))"
proof -
  have z: "zero_extended 8 12 = 12" by (simp add: zero_extended_eq)
  have "udivisibleOK 8 12" by (simp add: udivisibleOK_def z)
  then show ?thesis using udivisible_correct [of 8 12 84] by (simp add: z)
qed

theorem sdivisible_correct_witness:
  "rotRight 8 (nat (sk (sdivisible 8 12)))
     ((- 84 * uint (sdm (sdivisible 8 12)) + uint (sa (sdivisible 8 12))) mod 2 ^ 8)
     \<le> uint (smax (sdivisible 8 12))"
proof -
  have "sdivisibleOK 8 12" by (simp add: sdivisibleOK_def)
  then show ?thesis using sdivisible_correct [of 8 12 "- 84"] by simp
qed

end
