(* ===== verification/Strength.thy ===== *)
theory Strength
  imports Magic
begin

text \<open>
  The rules of the generic SSA rewriter for unsigned division and remainder by constants
  (\<open>ssa/rewritegeneric.go\<close>, \<open>rewriteValuegeneric_OpDiv8u\<close> to \<open>rewriteValuegeneric_OpMod64u\<close>).  A value is a tree of operations;
  a constructor such as \<open>OpDivu w\<close> stands for the operations of the code for the widths 8, 16, 32 and
  64 (\<open>OpDiv8u\<close> and so on; a shift by \<open>x64\<close> for \<open>OpLsh\<close> and \<open>OpRshU\<close>), and \<open>OpArg\<close> for any other value.  Types and blocks of values are left
  out.  \<open>ev\<close> is the meaning of the operations: an operation of width \<open>w\<close> reads the low \<open>w\<close> bits of its arguments,
  and has no value where it panics or where its documentation assumes what does not hold (\<open>Avg32u\<close> and \<open>Avg64u\<close>
  may assume that the first argument is at least the second).  The rules of a function are tried in order; a rule
  rewrites, does not match, or panics.
\<close>

section \<open>Values and rules\<close>

datatype val =
    OpArg nat
  | OpConst nat "64 word"
  | OpTrunc nat nat val
  | OpZeroExt nat nat val
  | OpAdd nat val val
  | OpSub nat val val
  | OpMul nat val val
  | OpHmulu nat val val
  | OpAvgu nat val val
  | OpDivu nat val val
  | OpModu nat val val
  | OpAnd nat val val
  | OpLsh nat val val
  | OpRshU nat val val

record config =
  RegSize :: int
  useAvg :: bool
  useHmul :: bool

datatype rewrite = Panic | NoMatch | Rewritten val

definition lift2 :: "(int \<Rightarrow> int \<Rightarrow> int option) \<Rightarrow> int option \<Rightarrow> int option \<Rightarrow> int option" where
  "lift2 f a b = (case a of None \<Rightarrow> None | Some x \<Rightarrow> case b of None \<Rightarrow> None | Some y \<Rightarrow> f x y)"

fun ev :: "(nat \<Rightarrow> int) \<Rightarrow> val \<Rightarrow> int option" where
  "ev env (OpArg i) = Some (env i)"
| "ev env (OpConst w aux) = Some (uint aux mod 2 ^ w)"
| "ev env (OpTrunc f t a) = map_option (\<lambda>x. x mod 2 ^ t) (ev env a)"
| "ev env (OpZeroExt f t a) = map_option (\<lambda>x. x mod 2 ^ f) (ev env a)"
| "ev env (OpAdd w a b) = lift2 (\<lambda>x y. Some ((x + y) mod 2 ^ w)) (ev env a) (ev env b)"
| "ev env (OpSub w a b) = lift2 (\<lambda>x y. Some ((x - y) mod 2 ^ w)) (ev env a) (ev env b)"
| "ev env (OpMul w a b) = lift2 (\<lambda>x y. Some ((x * y) mod 2 ^ w)) (ev env a) (ev env b)"
| "ev env (OpHmulu w a b) =
    lift2 (\<lambda>x y. Some ((x mod 2 ^ w) * (y mod 2 ^ w) div 2 ^ w)) (ev env a) (ev env b)"
| "ev env (OpAvgu w a b) =
    lift2 (\<lambda>x y. if x mod 2 ^ w < y mod 2 ^ w then None
                  else Some ((x mod 2 ^ w + y mod 2 ^ w) div 2)) (ev env a) (ev env b)"
| "ev env (OpDivu w a b) =
    lift2 (\<lambda>x y. if y mod 2 ^ w = 0 then None
                  else Some (x mod 2 ^ w div (y mod 2 ^ w))) (ev env a) (ev env b)"
| "ev env (OpModu w a b) =
    lift2 (\<lambda>x y. if y mod 2 ^ w = 0 then None
                  else Some (x mod 2 ^ w mod (y mod 2 ^ w))) (ev env a) (ev env b)"
| "ev env (OpAnd w a b) =
    lift2 (\<lambda>x y. Some ((x mod 2 ^ w) AND (y mod 2 ^ w))) (ev env a) (ev env b)"
| "ev env (OpLsh w a b) =
    lift2 (\<lambda>x y. Some (x * 2 ^ nat (y mod 2 ^ 64) mod 2 ^ w)) (ev env a) (ev env b)"
| "ev env (OpRshU w a b) =
    lift2 (\<lambda>x y. Some (x mod 2 ^ w div 2 ^ nat (y mod 2 ^ 64))) (ev env a) (ev env b)"

definition auxIntTo :: "64 word \<Rightarrow> 'a::len word" where
  "auxIntTo i = ucast i"

definition toAuxInt :: "'a::len word \<Rightarrow> 64 word" where
  "toAuxInt i = scast i"

definition isPowerOfTwo :: "'a::len word \<Rightarrow> bool" where
  "isPowerOfTwo n = (0 < sint n \<and> n AND (n - 1) = 0)"

definition logn :: "'a::len word \<Rightarrow> int" where
  "logn n = int (bitLen (uint n)) - 1"

fun try_rules :: "rewrite list \<Rightarrow> rewrite" where
  "try_rules [] = NoMatch"
| "try_rules (r # rs) = (case r of NoMatch \<Rightarrow> try_rules rs | _ \<Rightarrow> r)"

definition match_const :: "nat \<Rightarrow> val \<Rightarrow> (64 word \<Rightarrow> rewrite) \<Rightarrow> rewrite" where
  "match_const w v f = (case v of OpConst w' a \<Rightarrow> if w' = w then f a else NoMatch | _ \<Rightarrow> NoMatch)"

definition is_const :: "nat \<Rightarrow> val \<Rightarrow> bool" where
  "is_const w v = (case v of OpConst w' a \<Rightarrow> w' = w | _ \<Rightarrow> False)"

definition cond :: "bool \<Rightarrow> rewrite \<Rightarrow> rewrite" where
  "cond b r = (if b then r else NoMatch)"

definition with_umagic :: "umagicData option \<Rightarrow> (umagicData \<Rightarrow> rewrite) \<Rightarrow> rewrite" where
  "with_umagic m f = (case m of None \<Rightarrow> Panic | Some u \<Rightarrow> f u)"

definition const64 :: "int \<Rightarrow> val" where
  "const64 i = OpConst 64 (word_of_int i)"

definition const32 :: "64 word \<Rightarrow> val" where
  "const32 u = OpConst 32 (toAuxInt (ucast u :: 32 word))"

section \<open>Unsigned division\<close>

definition rewriteValuegeneric_OpDiv8u :: "val \<Rightarrow> val \<Rightarrow> rewrite" where
  "rewriteValuegeneric_OpDiv8u v_0 v_1 = try_rules
    [match_const 8 v_0 (\<lambda>a. match_const 8 v_1 (\<lambda>b.
       let c = auxIntTo a :: 8 word; d = auxIntTo b
       in cond (d \<noteq> 0) (Rewritten (OpConst 8 (toAuxInt (c div d)))))),
     match_const 8 v_1 (\<lambda>a. let c = auxIntTo a :: 8 word
       in cond (isPowerOfTwo c) (Rewritten (OpRshU 8 v_0 (const64 (logn c))))),
     match_const 8 v_1 (\<lambda>a. let c = auxIntTo a :: 8 word
       in cond (umagicOK8 c) (with_umagic (umagic8 c) (\<lambda>u. Rewritten
         (OpTrunc 32 8
           (OpRshU 32 (OpMul 32 (const32 (2 ^ 8 + um u)) (OpZeroExt 8 32 v_0))
             (const64 (8 + us u)))))))]"

definition rewriteValuegeneric_OpDiv16u :: "config \<Rightarrow> val \<Rightarrow> val \<Rightarrow> rewrite" where
  "rewriteValuegeneric_OpDiv16u conf v_0 v_1 = try_rules
    [match_const 16 v_0 (\<lambda>a. match_const 16 v_1 (\<lambda>b.
       let c = auxIntTo a :: 16 word; d = auxIntTo b
       in cond (d \<noteq> 0) (Rewritten (OpConst 16 (toAuxInt (c div d)))))),
     match_const 16 v_1 (\<lambda>a. let c = auxIntTo a :: 16 word
       in cond (isPowerOfTwo c) (Rewritten (OpRshU 16 v_0 (const64 (logn c))))),
     match_const 16 v_1 (\<lambda>a. let c = auxIntTo a :: 16 word
       in cond (umagicOK16 c \<and> RegSize conf = 8) (with_umagic (umagic16 c) (\<lambda>u. Rewritten
         (OpTrunc 64 16
           (OpRshU 64 (OpMul 64 (OpConst 64 (2 ^ 16 + um u)) (OpZeroExt 16 64 v_0))
             (const64 (16 + us u))))))),
     match_const 16 v_1 (\<lambda>a. let c = auxIntTo a :: 16 word
       in cond (umagicOK16 c \<and> RegSize conf = 4) (with_umagic (umagic16 c) (\<lambda>u.
         cond (um u AND 1 = 0) (Rewritten
           (OpTrunc 32 16
             (OpRshU 32 (OpMul 32 (const32 (2 ^ 15 + um u div 2)) (OpZeroExt 16 32 v_0))
               (const64 (16 + us u - 1)))))))),
     match_const 16 v_1 (\<lambda>a. let c = auxIntTo a :: 16 word
       in cond (umagicOK16 c \<and> RegSize conf = 4 \<and> c AND 1 = 0) (with_umagic (umagic16 c) (\<lambda>u.
         Rewritten
           (OpTrunc 32 16
             (OpRshU 32
               (OpMul 32 (const32 (2 ^ 15 + (um u + 1) div 2))
                 (OpRshU 32 (OpZeroExt 16 32 v_0) (const64 1)))
               (const64 (16 + us u - 2))))))),
     match_const 16 v_1 (\<lambda>a. let c = auxIntTo a :: 16 word
       in cond (umagicOK16 c \<and> RegSize conf = 4 \<and> useAvg conf) (with_umagic (umagic16 c) (\<lambda>u.
         Rewritten
           (OpTrunc 32 16
             (OpRshU 32
               (OpAvgu 32 (OpLsh 32 (OpZeroExt 16 32 v_0) (const64 16))
                 (OpMul 32 (const32 (um u)) (OpZeroExt 16 32 v_0)))
               (const64 (16 + us u - 1)))))))]"

definition rewriteValuegeneric_OpDiv32u :: "config \<Rightarrow> val \<Rightarrow> val \<Rightarrow> rewrite" where
  "rewriteValuegeneric_OpDiv32u conf v_0 v_1 = try_rules
    [match_const 32 v_0 (\<lambda>a. match_const 32 v_1 (\<lambda>b.
       let c = auxIntTo a :: 32 word; d = auxIntTo b
       in cond (d \<noteq> 0) (Rewritten (OpConst 32 (toAuxInt (c div d)))))),
     match_const 32 v_1 (\<lambda>a. let c = auxIntTo a :: 32 word
       in cond (isPowerOfTwo c) (Rewritten (OpRshU 32 v_0 (const64 (logn c))))),
     match_const 32 v_1 (\<lambda>a. let c = auxIntTo a :: 32 word
       in cond (umagicOK32 c \<and> RegSize conf = 4) (with_umagic (umagic32 c) (\<lambda>u.
         cond (um u AND 1 = 0 \<and> useHmul conf) (Rewritten
           (OpRshU 32 (OpHmulu 32 (const32 (2 ^ 31 + um u div 2)) v_0) (const64 (us u - 1))))))),
     match_const 32 v_1 (\<lambda>a. let c = auxIntTo a :: 32 word
       in cond (umagicOK32 c \<and> RegSize conf = 4 \<and> c AND 1 = 0 \<and> useHmul conf)
         (with_umagic (umagic32 c) (\<lambda>u. Rewritten
           (OpRshU 32
             (OpHmulu 32 (const32 (2 ^ 31 + (um u + 1) div 2)) (OpRshU 32 v_0 (const64 1)))
             (const64 (us u - 2)))))),
     match_const 32 v_1 (\<lambda>a. let c = auxIntTo a :: 32 word
       in cond (umagicOK32 c \<and> RegSize conf = 4 \<and> useAvg conf \<and> useHmul conf)
         (with_umagic (umagic32 c) (\<lambda>u. Rewritten
           (OpRshU 32 (OpAvgu 32 v_0 (OpHmulu 32 (const32 (um u)) v_0)) (const64 (us u - 1)))))),
     match_const 32 v_1 (\<lambda>a. let c = auxIntTo a :: 32 word
       in cond (umagicOK32 c \<and> RegSize conf = 8) (with_umagic (umagic32 c) (\<lambda>u.
         cond (um u AND 1 = 0) (Rewritten
           (OpTrunc 64 32
             (OpRshU 64 (OpMul 64 (OpConst 64 (2 ^ 31 + um u div 2)) (OpZeroExt 32 64 v_0))
               (const64 (32 + us u - 1)))))))),
     match_const 32 v_1 (\<lambda>a. let c = auxIntTo a :: 32 word
       in cond (umagicOK32 c \<and> RegSize conf = 8 \<and> c AND 1 = 0) (with_umagic (umagic32 c) (\<lambda>u.
         Rewritten
           (OpTrunc 64 32
             (OpRshU 64
               (OpMul 64 (OpConst 64 (2 ^ 31 + (um u + 1) div 2))
                 (OpRshU 64 (OpZeroExt 32 64 v_0) (const64 1)))
               (const64 (32 + us u - 2))))))),
     match_const 32 v_1 (\<lambda>a. let c = auxIntTo a :: 32 word
       in cond (umagicOK32 c \<and> RegSize conf = 8 \<and> useAvg conf) (with_umagic (umagic32 c) (\<lambda>u.
         Rewritten
           (OpTrunc 64 32
             (OpRshU 64
               (OpAvgu 64 (OpLsh 64 (OpZeroExt 32 64 v_0) (const64 32))
                 (OpMul 64 (OpConst 64 (um u)) (OpZeroExt 32 64 v_0)))
               (const64 (32 + us u - 1)))))))]"

definition rewriteValuegeneric_OpDiv64u :: "config \<Rightarrow> val \<Rightarrow> val \<Rightarrow> rewrite" where
  "rewriteValuegeneric_OpDiv64u conf v_0 v_1 = try_rules
    [match_const 64 v_0 (\<lambda>a. match_const 64 v_1 (\<lambda>b.
       let c = auxIntTo a :: 64 word; d = auxIntTo b
       in cond (d \<noteq> 0) (Rewritten (OpConst 64 (toAuxInt (c div d)))))),
     match_const 64 v_1 (\<lambda>a. let c = auxIntTo a :: 64 word
       in cond (isPowerOfTwo c) (Rewritten (OpRshU 64 v_0 (const64 (logn c))))),
     match_const 64 v_1 (\<lambda>a. let c = auxIntTo a :: 64 word
       in cond (c = - (2 ^ 63)) (Rewritten (OpRshU 64 v_0 (const64 63)))),
     match_const 64 v_1 (\<lambda>a. let c = auxIntTo a :: 64 word
       in cond (0 < sint c \<and> sint c \<le> 0xFFFF \<and> umagicOK32 (ucast c) \<and> RegSize conf = 4 \<and> useHmul conf)
         (let v7 = const64 32;
              v5 = OpTrunc 64 32 (OpRshU 64 v_0 v7);
              v8 = const32 c;
              v2 = OpLsh 64 (OpZeroExt 32 64 (OpDivu 32 v5 v8)) v7;
              v11 = OpTrunc 64 32 v_0;
              v9 = OpZeroExt 32 64 (OpDivu 32 v11 v8);
              v1 = OpAdd 64 v2 v9;
              v14 = OpModu 32 v5 v8;
              v12 = OpMul 64 (OpZeroExt 32 64 v14) (const64 (2 ^ 32 div sint c));
              v0 = OpAdd 64 v1 v12;
              v20 = OpMul 32 v14 (const32 (word_of_int (2 ^ 32 mod sint c)));
              v18 = OpAdd 32 (OpModu 32 v11 v8) v20;
              v16 = OpZeroExt 32 64 (OpDivu 32 v18 v8)
          in Rewritten (OpAdd 64 v0 v16))),
     match_const 64 v_1 (\<lambda>a. let c = auxIntTo a :: 64 word
       in cond (umagicOK64 c \<and> RegSize conf = 8) (with_umagic (umagic64 c) (\<lambda>u.
         cond (um u AND 1 = 0 \<and> useHmul conf) (Rewritten
           (OpRshU 64 (OpHmulu 64 (OpConst 64 (2 ^ 63 + um u div 2)) v_0) (const64 (us u - 1))))))),
     match_const 64 v_1 (\<lambda>a. let c = auxIntTo a :: 64 word
       in cond (umagicOK64 c \<and> RegSize conf = 8 \<and> c AND 1 = 0 \<and> useHmul conf)
         (with_umagic (umagic64 c) (\<lambda>u. Rewritten
           (OpRshU 64
             (OpHmulu 64 (OpConst 64 (2 ^ 63 + (um u + 1) div 2)) (OpRshU 64 v_0 (const64 1)))
             (const64 (us u - 2)))))),
     match_const 64 v_1 (\<lambda>a. let c = auxIntTo a :: 64 word
       in cond (umagicOK64 c \<and> RegSize conf = 8 \<and> useAvg conf \<and> useHmul conf)
         (with_umagic (umagic64 c) (\<lambda>u. Rewritten
           (OpRshU 64 (OpAvgu 64 v_0 (OpHmulu 64 (OpConst 64 (um u)) v_0)) (const64 (us u - 1))))))]"

section \<open>Unsigned remainder\<close>

definition rewriteValuegeneric_OpMod8u :: "val \<Rightarrow> val \<Rightarrow> rewrite" where
  "rewriteValuegeneric_OpMod8u v_0 v_1 = try_rules
    [match_const 8 v_0 (\<lambda>a. match_const 8 v_1 (\<lambda>b.
       let c = auxIntTo a :: 8 word; d = auxIntTo b
       in cond (d \<noteq> 0) (Rewritten (OpConst 8 (toAuxInt (c mod d)))))),
     match_const 8 v_1 (\<lambda>a. let c = auxIntTo a :: 8 word
       in cond (isPowerOfTwo c) (Rewritten (OpAnd 8 v_0 (OpConst 8 (toAuxInt (c - 1)))))),
     match_const 8 v_1 (\<lambda>a. let c = auxIntTo a :: 8 word; v2 = OpConst 8 (toAuxInt c)
       in cond (\<not> is_const 8 v_0 \<and> 0 < sint c \<and> umagicOK8 c)
         (Rewritten (OpSub 8 v_0 (OpMul 8 (OpDivu 8 v_0 v2) v2))))]"

definition rewriteValuegeneric_OpMod16u :: "val \<Rightarrow> val \<Rightarrow> rewrite" where
  "rewriteValuegeneric_OpMod16u v_0 v_1 = try_rules
    [match_const 16 v_0 (\<lambda>a. match_const 16 v_1 (\<lambda>b.
       let c = auxIntTo a :: 16 word; d = auxIntTo b
       in cond (d \<noteq> 0) (Rewritten (OpConst 16 (toAuxInt (c mod d)))))),
     match_const 16 v_1 (\<lambda>a. let c = auxIntTo a :: 16 word
       in cond (isPowerOfTwo c) (Rewritten (OpAnd 16 v_0 (OpConst 16 (toAuxInt (c - 1)))))),
     match_const 16 v_1 (\<lambda>a. let c = auxIntTo a :: 16 word; v2 = OpConst 16 (toAuxInt c)
       in cond (\<not> is_const 16 v_0 \<and> 0 < sint c \<and> umagicOK16 c)
         (Rewritten (OpSub 16 v_0 (OpMul 16 (OpDivu 16 v_0 v2) v2))))]"

definition rewriteValuegeneric_OpMod32u :: "val \<Rightarrow> val \<Rightarrow> rewrite" where
  "rewriteValuegeneric_OpMod32u v_0 v_1 = try_rules
    [match_const 32 v_0 (\<lambda>a. match_const 32 v_1 (\<lambda>b.
       let c = auxIntTo a :: 32 word; d = auxIntTo b
       in cond (d \<noteq> 0) (Rewritten (OpConst 32 (toAuxInt (c mod d)))))),
     match_const 32 v_1 (\<lambda>a. let c = auxIntTo a :: 32 word
       in cond (isPowerOfTwo c) (Rewritten (OpAnd 32 v_0 (OpConst 32 (toAuxInt (c - 1)))))),
     match_const 32 v_1 (\<lambda>a. let c = auxIntTo a :: 32 word; v2 = OpConst 32 (toAuxInt c)
       in cond (\<not> is_const 32 v_0 \<and> 0 < sint c \<and> umagicOK32 c)
         (Rewritten (OpSub 32 v_0 (OpMul 32 (OpDivu 32 v_0 v2) v2))))]"

definition rewriteValuegeneric_OpMod64u :: "val \<Rightarrow> val \<Rightarrow> rewrite" where
  "rewriteValuegeneric_OpMod64u v_0 v_1 = try_rules
    [match_const 64 v_0 (\<lambda>a. match_const 64 v_1 (\<lambda>b.
       let c = auxIntTo a :: 64 word; d = auxIntTo b
       in cond (d \<noteq> 0) (Rewritten (OpConst 64 (toAuxInt (c mod d)))))),
     match_const 64 v_1 (\<lambda>a. let c = auxIntTo a :: 64 word
       in cond (isPowerOfTwo c) (Rewritten (OpAnd 64 v_0 (OpConst 64 (toAuxInt (c - 1)))))),
     match_const 64 v_1 (\<lambda>a. let c = auxIntTo a :: 64 word
       in cond (c = - (2 ^ 63)) (Rewritten (OpAnd 64 v_0 (OpConst 64 (2 ^ 63 - 1))))),
     match_const 64 v_1 (\<lambda>a. let c = auxIntTo a :: 64 word; v2 = OpConst 64 (toAuxInt c)
       in cond (\<not> is_const 64 v_0 \<and> 0 < sint c \<and> umagicOK64 c)
         (Rewritten (OpSub 64 v_0 (OpMul 64 (OpDivu 64 v_0 v2) v2))))]"

section \<open>Soundness\<close>

definition sound :: "val \<Rightarrow> rewrite \<Rightarrow> bool" where
  "sound v r = (r \<noteq> Panic \<and>
     (\<forall>v'. r = Rewritten v' \<longrightarrow> (\<forall>env x. ev env v = Some x \<longrightarrow> ev env v' = Some x)))"

lemma sound_Nil: "sound v (try_rules [])"
  by (simp add: sound_def)

lemma sound_Cons: "sound v r \<Longrightarrow> sound v (try_rules rs) \<Longrightarrow> sound v (try_rules (r # rs))"
  by (simp add: sound_def split: rewrite.split)

lemma sound_match_const:
  "(\<And>a. u = OpConst w a \<Longrightarrow> sound v (f a)) \<Longrightarrow> sound v (match_const w u f)"
  by (auto simp: match_const_def sound_def split: val.split)

lemma sound_cond: "(b \<Longrightarrow> sound v r) \<Longrightarrow> sound v (cond b r)"
  by (simp add: cond_def sound_def)

lemma sound_with_umagic: "m = Some u \<Longrightarrow> sound v (f u) \<Longrightarrow> sound v (with_umagic m f)"
  by (simp add: with_umagic_def)

lemma sound_Rewritten:
  "(\<And>env x. ev env v = Some x \<Longrightarrow> ev env v' = Some x) \<Longrightarrow> sound v (Rewritten v')"
  by (simp add: sound_def)

lemma lift2_Some [simp]: "lift2 f (Some x) (Some y) = f x y"
  by (simp add: lift2_def)

lemma lift2_eq_Some: "lift2 f a b = Some z \<longleftrightarrow> (\<exists>x y. a = Some x \<and> b = Some y \<and> f x y = Some z)"
  by (auto simp: lift2_def split: option.split)

lemma uint_auxIntTo:
  "uint (auxIntTo a :: 'a::len word) = uint a mod 2 ^ LENGTH('a)"
  unfolding auxIntTo_def unsigned_ucast_eq by (rule take_bit_eq_mod)

lemma uint_toAuxInt:
  fixes c :: "'a::len word"
  assumes "LENGTH('a) \<le> 64"
  shows "uint (toAuxInt c) mod 2 ^ LENGTH('a) = uint c"
proof -
  have "ucast (toAuxInt c) = c" using assms unfolding toAuxInt_def
    by (intro bit_word_eqI) (auto simp: bit_unsigned_iff bit_signed_iff min_def not_less le_less
        Suc_le_eq dest: order.antisym split: if_splits)
  then show ?thesis using uint_auxIntTo [of "toAuxInt c", where 'a = 'a] by (simp add: auxIntTo_def)
qed

lemma ev_const64: "0 \<le> i \<Longrightarrow> i < 2 ^ 64 \<Longrightarrow> ev env (const64 i) = Some i"
  using uint_word_of_int_id [of i, where 'a = 64] by (simp add: const64_def)

lemma ev_const32: "ev env (const32 u) = Some (uint u mod 2 ^ 32)"
proof -
  have "uint (toAuxInt (ucast u :: 32 word)) mod 2 ^ 32 = uint (ucast u :: 32 word)"
    using uint_toAuxInt [of "ucast u :: 32 word"] by simp
  then show ?thesis using uint_auxIntTo [of u, where 'a = 32] by (simp add: const32_def auxIntTo_def)
qed

text \<open>A rule for a division by a constant.\<close>

lemma sound_Divu:
  fixes c :: "'a::len word"
  assumes "c = auxIntTo a" "w = LENGTH('a)"
    "\<And>env y. ev env v = Some y \<Longrightarrow> uint c \<noteq> 0 \<Longrightarrow> ev env v' = Some (y mod 2 ^ w div uint c)"
  shows "sound (OpDivu w v (OpConst w a)) (Rewritten v')"
proof (rule sound_Rewritten)
  fix env x
  have u: "uint a mod 2 ^ w = uint c" by (simp only: assms(1,2) uint_auxIntTo)
  then have "uint c mod 2 ^ w = uint c" by (metis mod_mod_trivial)
  with u show "ev env (OpDivu w v (OpConst w a)) = Some x \<Longrightarrow> ev env v' = Some x"
    using assms(3) by (auto simp: lift2_eq_Some simp del: uint_0_iff split: if_splits)
qed

lemma sound_Modu:
  fixes c :: "'a::len word"
  assumes "c = auxIntTo a" "w = LENGTH('a)"
    "\<And>env y. ev env v = Some y \<Longrightarrow> uint c \<noteq> 0 \<Longrightarrow> ev env v' = Some (y mod 2 ^ w mod uint c)"
  shows "sound (OpModu w v (OpConst w a)) (Rewritten v')"
proof (rule sound_Rewritten)
  fix env x
  have u: "uint a mod 2 ^ w = uint c" by (simp only: assms(1,2) uint_auxIntTo)
  then have "uint c mod 2 ^ w = uint c" by (metis mod_mod_trivial)
  with u show "ev env (OpModu w v (OpConst w a)) = Some x \<Longrightarrow> ev env v' = Some x"
    using assms(3) by (auto simp: lift2_eq_Some simp del: uint_0_iff split: if_splits)
qed

lemma isPowerOfTwo_log:
  fixes c :: "'a::len word"
  assumes "isPowerOfTwo c"
  obtains j where "uint c = 2 ^ j" "logn c = int j" "j < LENGTH('a)"
proof -
  have "c \<noteq> 0" using assms by (auto simp: isPowerOfTwo_def)
  then obtain j where j: "uint c = 2 ^ j"
    using assms and_pred_zero_word [of c] by (auto simp: isPowerOfTwo_def)
  have "2 ^ (bitLen (2 ^ j) - 1) \<le> (2::int) ^ j" "(2::int) ^ j < 2 ^ bitLen (2 ^ j)" "0 < bitLen (2 ^ j)"
    using bitLen_bounds [of "2 ^ j"] by auto
  then have "bitLen (2 ^ j) = Suc j" by (simp add: power_increasing_iff)
  moreover have "(2::int) ^ j < 2 ^ LENGTH('a)" using uint_lt2p [of c] j by simp
  ultimately show thesis using that j by (simp add: logn_def)
qed

lemma rule_fold_Divu:
  assumes "w = LENGTH('a::len)" "w \<le> 64"
  shows "sound (OpDivu w v_0 v_1) (match_const w v_0 (\<lambda>a. match_const w v_1 (\<lambda>b.
     let c = auxIntTo a :: 'a word; d = auxIntTo b
     in cond (d \<noteq> 0) (Rewritten (OpConst w (toAuxInt (c div d)))))))"
  unfolding Let_def
proof (intro sound_match_const sound_cond, clarify)
  fix a b
  have "uint a mod 2 ^ w = uint (auxIntTo a :: 'a word)" by (simp only: assms(1) uint_auxIntTo)
  then show "sound (OpDivu w (OpConst w a) (OpConst w b))
      (Rewritten (OpConst w (toAuxInt (auxIntTo a div auxIntTo b :: 'a word))))"
    using assms by (intro sound_Divu [OF refl assms(1)]) (simp add: uint_toAuxInt uint_word_div)
qed

lemma rule_power_Divu:
  assumes "w = LENGTH('a::len)" "w \<le> 64"
  shows "sound (OpDivu w v_0 v_1) (match_const w v_1 (\<lambda>a. let c = auxIntTo a :: 'a word
     in cond (isPowerOfTwo c) (Rewritten (OpRshU w v_0 (const64 (logn c))))))"
  unfolding Let_def
proof (intro sound_match_const sound_cond, clarify)
  fix a assume "isPowerOfTwo (auxIntTo a :: 'a word)"
  then obtain j where j: "uint (auxIntTo a :: 'a word) = 2 ^ j" "logn (auxIntTo a :: 'a word) = int j" "j < LENGTH('a)"
    by (rule isPowerOfTwo_log)
  show "sound (OpDivu w v_0 (OpConst w a)) (Rewritten (OpRshU w v_0 (const64 (logn (auxIntTo a :: 'a word)))))"
    using assms j by (intro sound_Divu [OF refl assms(1)]) (simp add: ev_const64)
qed

section \<open>The multiplier of a word\<close>

lemma uint_zero_extended_scast:
  fixes c :: "'a::len word"
  assumes "LENGTH('a) \<le> 64"
  shows "uint (zero_extended LENGTH('a) (scast c)) = uint c"
  using uint_toAuxInt [OF assms, of c] uint_zero_extended [OF assms, of "scast c"]
  by (simp add: toAuxInt_def take_bit_eq_mod)

lemma umagicOK_word:
  fixes c :: "'a::len word"
  assumes "LENGTH('a) \<le> 64"
  shows "umagicOK LENGTH('a) (scast c) \<longleftrightarrow> c AND (c - 1) \<noteq> 0"
proof -
  have "zero_extended LENGTH('a) (scast c) = 0 \<longleftrightarrow> c = 0"
    using uint_zero_extended_scast [OF assms, of c] by (metis uint_0_iff)
  then show ?thesis
    unfolding umagicOK_iff and_pred_zero_word [of c] uint_zero_extended_scast [OF assms] by blast
qed

text \<open>The facts a rule needs of the multiplier \<open>m\<close> and the shift \<open>s\<close> of a divisor \<open>d\<close>.\<close>

definition good_magic :: "nat \<Rightarrow> int \<Rightarrow> nat \<Rightarrow> int \<Rightarrow> bool" where
  "good_magic n d s m = (0 < d \<and> d < 2 ^ n \<and> 0 < s \<and> s \<le> n \<and> 0 \<le> m \<and> m + 1 < 2 ^ n \<and>
     2 ^ (s - 1) < d \<and> d < 2 ^ s \<and> 2 ^ n + m = ceil_mult (n + s) d)"

lemma umagic_word:
  fixes c :: "'a::len word"
  assumes "LENGTH('a) \<le> 64" "c AND (c - 1) \<noteq> 0"
  obtains s m where "umagic LENGTH('a) (scast c) = Some \<lparr>us = int s, um = word_of_int m\<rparr>"
    "good_magic LENGTH('a) (uint c) s m"
proof -
  have ok: "umagicOK LENGTH('a) (scast c)" using assms by (simp add: umagicOK_word)
  obtain k where k: "2 ^ k < uint c" "uint c < 2 ^ Suc k" "uint c < 2 ^ LENGTH('a)"
    "umagic LENGTH('a) (scast c) = Some \<lparr>us = int (Suc k),
       um = word_of_int (ceil_mult (LENGTH('a) + Suc k) (uint c) - 2 ^ LENGTH('a))\<rparr>"
    using umagic_eq [OF assms(1) ok uint_zero_extended_scast [OF assms(1), symmetric]] .
  have "(2::int) ^ k < 2 ^ LENGTH('a)" using k by linarith
  then have "k < LENGTH('a)" by simp
  moreover have "0 < uint c" using k(1) zero_less_power [of "2::int" k] by linarith
  ultimately have "good_magic LENGTH('a) (uint c) (Suc k) (ceil_mult (LENGTH('a) + Suc k) (uint c) - 2 ^ LENGTH('a))"
    using k(1-3) ceil_mult_range [OF k(1-3)] by (simp add: good_magic_def)
  then show thesis using that k(4) by blast
qed

lemma good_magic_div:
  assumes "good_magic n d s m" "0 \<le> x" "x < 2 ^ n"
  shows "((2 ^ n + m) * x) div 2 ^ (n + s) = x div d"
proof -
  let ?M = "ceil_mult (n + s) d"
  have g: "0 < d" "d < 2 ^ s" "2 ^ n + m = ?M" using assms(1) by (auto simp: good_magic_def)
  note b = ceil_mult_bounds [OF g(1), of "n + s"]
  have "x * (?M * d - 2 ^ (n + s)) \<le> 2 ^ n * (?M * d - 2 ^ (n + s))"
    using assms(3) b by (intro mult_right_mono) auto
  also have "\<dots> < 2 ^ n * 2 ^ s" using b(2) g(2) by simp
  finally have "x * (?M * d - 2 ^ (n + s)) < 2 ^ (n + s)" by (simp add: power_add)
  then have "(x * ?M) div 2 ^ (n + s) = x div d"
    using b(1) g(1) assms(2) by (intro div_by_reciprocal [of d _ _ "?M * d - 2 ^ (n + s)"]) auto
  then show ?thesis by (simp add: g(3) mult.commute)
qed

text \<open>An even multiplier loses its last bit.\<close>

lemma good_magic_half:
  assumes "good_magic n d s m" "0 < n" "even m" "0 \<le> x" "x < 2 ^ n"
  shows "((2 ^ (n - 1) + m div 2) * x) div 2 ^ (n + s - 1) = x div d"
proof -
  have s: "0 < s" using assms(1) by (simp add: good_magic_def)
  have "2 ^ n + m = 2 * (2 ^ (n - 1) + m div 2)"
    using assms(2,3) by (simp flip: power_Suc)
  moreover have "(2::int) ^ (n + s) = 2 * 2 ^ (n + s - 1)" using s by (simp flip: power_Suc)
  ultimately have "((2 ^ n + m) * x) div 2 ^ (n + s) = ((2 ^ (n - 1) + m div 2) * x) div 2 ^ (n + s - 1)"
    by (simp only: mult.assoc) simp
  then show ?thesis using good_magic_div [OF assms(1,4,5)] by simp
qed

text \<open>An even divisor lets both lose a bit.\<close>

lemma ceil_half:
  fixes P e :: int
  assumes "0 < e"
  shows "(2 * P + 2 * e - 1) div (2 * e) = (P + e - 1) div e"
proof -
  have "(2 * P + 2 * e - 1) div (2 * e) = (2 * P + 2 * e - 1) div 2 div e"
    by (rule zdiv_zmult2_eq) (use assms in simp)
  also have "(2 * P + 2 * e - 1) div 2 = P + e - 1" by presburger
  finally show ?thesis .
qed

lemma ceil_mult_half:
  assumes "0 < e"
  shows "(ceil_mult (Suc (Suc q)) (2 * e) + 1) div 2 = ceil_mult q e"
proof -
  let ?Q = "2 ^ q :: int"
  have "ceil_mult (Suc (Suc q)) (2 * e) = (2 * (2 * ?Q) + 2 * e - 1) div (2 * e)"
    by (simp add: ceil_mult_def)
  also have "\<dots> = (2 * ?Q + e - 1) div e" by (rule ceil_half [OF assms])
  finally have "ceil_mult (Suc (Suc q)) (2 * e) + 1 = (2 * ?Q + e - 1) div e + 1" by simp
  also have "\<dots> = (2 * ?Q + 2 * e - 1) div e"
    using div_add_self2 [of e "2 * ?Q + e - 1"] assms by (simp add: algebra_simps)
  also have "\<dots> div 2 = (2 * ?Q + 2 * e - 1) div (2 * e)"
    by (metis mult.commute zdiv_zmult2_eq zero_le_numeral)
  also have "\<dots> = ceil_mult q e" unfolding ceil_mult_def by (rule ceil_half [OF assms])
  finally show ?thesis .
qed

lemma good_magic_even:
  assumes g: "good_magic n d s m" and d: "even d" and n: "0 < n" and x: "0 \<le> x" "x < 2 ^ n"
  shows "2 \<le> s" "((2 ^ (n - 1) + (m + 1) div 2) * (x div 2)) div 2 ^ (n + s - 2) = x div d"
proof -
  obtain e where e: "d = 2 * e" using d by auto
  have f: "0 < e" "2 ^ (s - 1) < 2 * e" "2 * e < 2 ^ s" "2 ^ n + m = ceil_mult (n + s) (2 * e)" "0 < s"
    using g e by (auto simp: good_magic_def)
  have "s \<noteq> 1" using f by auto
  then show s: "2 \<le> s" using f(5) by simp
  define q where "q = n + s - 2"
  have q: "n + s = Suc (Suc q)" using s by (simp add: q_def)
  have "2 ^ n + m + 1 = 2 * 2 ^ (n - 1) + (m + 1)" using n by (simp flip: power_Suc)
  then have "2 ^ (n - 1) + (m + 1) div 2 = (2 ^ n + m + 1) div 2" by simp
  also have "\<dots> = ceil_mult q e" unfolding f(4) q by (rule ceil_mult_half [OF f(1)])
  finally have M: "2 ^ (n - 1) + (m + 1) div 2 = ceil_mult q e" .
  note b = ceil_mult_bounds [OF f(1), of q]
  have "(2::int) ^ s = 2 * 2 ^ (s - 1)" "(2::int) ^ n = 2 * 2 ^ (n - 1)" using f(5) n by (simp_all flip: power_Suc)
  then have e2: "e < 2 ^ (s - 1)" and x2: "x div 2 \<le> 2 ^ (n - 1)" using f(3) x by linarith+
  have "x div 2 * (ceil_mult q e * e - 2 ^ q) \<le> 2 ^ (n - 1) * (ceil_mult q e * e - 2 ^ q)"
    using x2 b by (intro mult_right_mono) auto
  also have "\<dots> < 2 ^ (n - 1) * 2 ^ (s - 1)" using b(2) e2 by simp
  also have "\<dots> = 2 ^ q" using n f(5) by (simp add: q_def flip: power_add)
  finally have "(x div 2 * ceil_mult q e) div 2 ^ q = x div 2 div e"
    using b(1) f(1) x by (intro div_by_reciprocal [of e _ _ "ceil_mult q e * e - 2 ^ q"]) auto
  also have "\<dots> = x div d" unfolding e by (rule zdiv_zmult2_eq [symmetric]) (use f(1) in simp)
  finally show "((2 ^ (n - 1) + (m + 1) div 2) * (x div 2)) div 2 ^ (n + s - 2) = x div d"
    unfolding M q_def [symmetric] by (simp add: mult.commute)
qed

text \<open>The average of the dividend and the high half of the product.\<close>

lemma good_magic_le:
  assumes "good_magic n d s m" "0 \<le> x"
  shows "0 \<le> m * x" "m * x \<le> x * 2 ^ n"
proof -
  have m: "0 \<le> m" "m \<le> 2 ^ n" using assms(1) by (auto simp: good_magic_def)
  then show "0 \<le> m * x" using assms(2) by simp
  have "x * m \<le> x * 2 ^ n" using m assms(2) by (intro mult_left_mono) auto
  then show "m * x \<le> x * 2 ^ n" by (simp only: mult.commute)
qed

lemma good_magic_avg_low:
  assumes "good_magic n d s m" "0 \<le> x" "x < 2 ^ n"
  shows "(x * 2 ^ n + m * x) div 2 div 2 ^ (n + s - 1) = x div d"
proof -
  have "n + s = Suc (n + s - 1)" using assms(1) by (simp add: good_magic_def)
  then have "(2::int) ^ (n + s) = 2 * 2 ^ (n + s - 1)" by (metis power_Suc)
  then have "(x * 2 ^ n + m * x) div 2 div 2 ^ (n + s - 1) = (x * 2 ^ n + m * x) div 2 ^ (n + s)"
    by (simp add: zdiv_zmult2_eq)
  also have "\<dots> = x div d" using good_magic_div [OF assms] by (simp add: algebra_simps)
  finally show ?thesis .
qed

lemma good_magic_avg_high:
  assumes "good_magic n d s m" "0 \<le> x" "x < 2 ^ n"
  shows "(x + (m * x) div 2 ^ n) div 2 div 2 ^ (s - 1) = x div d" "m * x div 2 ^ n \<le> x"
proof -
  have "s = Suc (s - 1)" using assms(1) by (simp add: good_magic_def)
  then have "(2::int) ^ s = 2 * 2 ^ (s - 1)" by (metis power_Suc)
  then have "(x + (m * x) div 2 ^ n) div 2 div 2 ^ (s - 1) = (x + (m * x) div 2 ^ n) div 2 ^ s"
    by (simp add: zdiv_zmult2_eq)
  also have "\<dots> = ((2 ^ n + m) * x) div 2 ^ n div 2 ^ s"
    by (simp add: distrib_right)
  also have "\<dots> = x div d"
    using good_magic_div [OF assms] by (simp add: power_add zdiv_zmult2_eq)
  finally show "(x + (m * x) div 2 ^ n) div 2 div 2 ^ (s - 1) = x div d" .
  have "m * x div 2 ^ n \<le> (x * 2 ^ n) div 2 ^ n"
    using good_magic_le [OF assms(1,2)] by (intro zdiv_mono1) auto
  then show "m * x div 2 ^ n \<le> x" by simp
qed

section \<open>The rules\<close>

lemma uint_add_small:
  "uint a + uint b < 2 ^ LENGTH('a) \<Longrightarrow> uint (a + b) = uint a + uint (b :: 'a::len word)"
  by (simp only: uint_add_lem)

lemma uint_pow2: "j < LENGTH('a) \<Longrightarrow> uint (2 ^ j :: 'a::len word) = 2 ^ j"
  using uint_word_of_int_id [of "2 ^ j", where 'a = 'a] by simp

lemma even_um: "u AND 1 = 0 \<longleftrightarrow> even (uint (u :: 'a::len word))"
proof -
  have "odd u \<longleftrightarrow> odd (uint u)" by (metis bit_0 bit_uint_iff len_gt_0)
  then show ?thesis by (auto simp: and_one_eq simp flip: even_iff_mod_2_eq_zero)
qed

text \<open>The multiplier and the constants built from it.\<close>

lemma uint_multipliers:
  assumes g: "good_magic n d s m" and n: "0 < n" "n \<le> 64"
  shows "uint (word_of_int m :: 64 word) = m"
    and "uint (word_of_int m div 2 :: 64 word) = m div 2"
    and "uint ((word_of_int m + 1) div 2 :: 64 word) = (m + 1) div 2"
    and "uint (2 ^ (n - 1) + word_of_int m div 2 :: 64 word) = 2 ^ (n - 1) + m div 2"
    and "uint (2 ^ (n - 1) + (word_of_int m + 1) div 2 :: 64 word) = 2 ^ (n - 1) + (m + 1) div 2"
    and "n < 64 \<Longrightarrow> uint (2 ^ n + word_of_int m :: 64 word) = 2 ^ n + m"
proof -
  have m: "0 \<le> m" "m + 1 < 2 ^ n" using g by (auto simp: good_magic_def)
  have p: "2 ^ n \<le> (2::int) ^ 64" using n by (intro power_increasing) auto
  have h: "2 * 2 ^ (n - 1) = (2::int) ^ n" using n by (simp flip: power_Suc)
  show um: "uint (word_of_int m :: 64 word) = m" using m p by (intro uint_word_of_int_id) auto
  show u2: "uint (word_of_int m div 2 :: 64 word) = m div 2" by (simp add: uint_word_div um)
  have "uint (word_of_int m + 1 :: 64 word) = m + 1"
    using m p um uint_add_small [of "word_of_int m :: 64 word" 1] by simp
  then show u3: "uint ((word_of_int m + 1) div 2 :: 64 word) = (m + 1) div 2"
    by (simp add: uint_word_div)
  have e: "uint (2 ^ (n - 1) :: 64 word) = 2 ^ (n - 1)" using n by (intro uint_pow2) auto
  show "uint (2 ^ (n - 1) + word_of_int m div 2 :: 64 word) = 2 ^ (n - 1) + m div 2"
    using uint_add_small [of "2 ^ (n - 1) :: 64 word" "word_of_int m div 2"] unfolding e u2
    using m p h by simp
  show "uint (2 ^ (n - 1) + (word_of_int m + 1) div 2 :: 64 word) = 2 ^ (n - 1) + (m + 1) div 2"
    using uint_add_small [of "2 ^ (n - 1) :: 64 word" "(word_of_int m + 1) div 2"] unfolding e u3
    using m p h by simp
  show "uint (2 ^ n + word_of_int m :: 64 word) = 2 ^ n + m" if n64: "n < 64"
  proof -
    have "2 ^ Suc n \<le> (2::int) ^ 64" using n64 by (intro power_increasing) auto
    moreover have "uint (2 ^ n :: 64 word) = 2 ^ n" using n64 by (intro uint_pow2) auto
    ultimately show ?thesis
      using uint_add_small [of "2 ^ n :: 64 word" "word_of_int m"] m um by simp
  qed
qed

text \<open>The evaluation of the right-hand sides, for an \<open>n\<close>-bit dividend \<open>y\<close>, a constant \<open>C\<close> and a
  multiplication of \<open>W\<close> bits.\<close>

lemma prod_less: "0 \<le> a \<Longrightarrow> a \<le> 2 ^ i \<Longrightarrow> 0 \<le> b \<Longrightarrow> b < 2 ^ j \<Longrightarrow> a * b < (2::int) ^ (i + j)"
proof -
  assume a: "0 \<le> a" "a \<le> 2 ^ i" and b: "0 \<le> b" "b < 2 ^ j"
  have "a * b \<le> 2 ^ i * b" using a b by (intro mult_right_mono) auto
  also have "\<dots> < 2 ^ i * 2 ^ j" using b by simp
  finally show ?thesis by (simp add: power_add)
qed

lemma less_pow: "a < (2::int) ^ i \<Longrightarrow> i \<le> j \<Longrightarrow> a < 2 ^ j"
  by (meson one_le_numeral order_less_le_trans power_increasing)

lemma good_magic_s: "good_magic n d s m \<Longrightarrow> 0 < s \<and> s \<le> n"
  by (simp add: good_magic_def)

lemma good_magic_quotient:
  assumes "good_magic n d s m"
  shows "0 \<le> y mod 2 ^ n div d" "y mod 2 ^ n div d < 2 ^ n" "y mod 2 ^ n div d mod 2 ^ n = y mod 2 ^ n div d"
proof -
  let ?x = "y mod 2 ^ n"
  have d: "0 < d" using assms by (simp add: good_magic_def)
  have x: "0 \<le> ?x" "?x < 2 ^ n" by auto
  show q: "0 \<le> ?x div d" using d x by (simp add: pos_imp_zdiv_nonneg_iff)
  have "?x div d \<le> ?x" using d x div_le_dividend zdiv_mono2 [of ?x 1 d] by simp
  then show "?x div d < 2 ^ n" using x by linarith
  then show "?x div d mod 2 ^ n = ?x div d" using q by simp
qed

lemma good_magic_shift:
  assumes "good_magic n d s m" "n \<le> 64"
  shows "ev env (const64 (int n + int s)) = Some (int (n + s))"
    "ev env (const64 (int n + int s - 1)) = Some (int (n + s - 1))"
    "2 \<le> s \<Longrightarrow> ev env (const64 (int n + int s - 2)) = Some (int (n + s - 2))"
    "ev env (const64 (int s - 1)) = Some (int (s - 1))"
    "2 \<le> s \<Longrightarrow> ev env (const64 (int s - 2)) = Some (int (s - 2))"
  using assms by (auto simp: good_magic_def ev_const64 of_nat_diff)

lemma ev_RshU:
  assumes "ev env a = Some z" "ev env b = Some (int k)" "k \<le> 128" "0 \<le> z" "z < 2 ^ w"
  shows "ev env (OpRshU w a b) = Some (z div 2 ^ k)"
  using assms by simp

lemma ev_Mul:
  assumes "ev env a = Some x" "ev env b = Some y" "0 \<le> x * y" "x * y < 2 ^ w"
  shows "ev env (OpMul w a b) = Some (x * y)"
  using assms by simp

lemma ev_Hmulu:
  assumes "ev env a = Some x" "ev env b = Some y" "0 \<le> x" "x < 2 ^ w"
  shows "ev env (OpHmulu w a b) = Some (x * (y mod 2 ^ w) div 2 ^ w)"
  using assms by simp

lemma ev_Avgu:
  assumes "ev env a = Some x" "ev env b = Some y" "0 \<le> y" "y \<le> x mod 2 ^ w"
  shows "ev env (OpAvgu w a b) = Some ((x mod 2 ^ w + y) div 2)"
proof -
  have "x mod 2 ^ w < 2 ^ w" by simp
  then have "y mod 2 ^ w = y" using assms(3,4) by (intro mod_pos_pos_trivial) linarith+
  then show ?thesis using assms by simp
qed

lemma ev_Trunc:
  assumes "ev env a = Some x" "x mod 2 ^ t = x"
  shows "ev env (OpTrunc f t a) = Some x"
  using assms by simp

lemma ev_ZeroExt: "ev env v = Some y \<Longrightarrow> ev env (OpZeroExt n W v) = Some (y mod 2 ^ n)"
  by simp

lemma ev_mul_direct:
  assumes g: "good_magic n d s m" and n: "n \<le> 64" and W: "Suc (n + n) \<le> W"
    and C: "ev env C = Some (2 ^ n + m)" and y: "ev env v = Some y"
  shows "ev env (OpTrunc W n (OpRshU W (OpMul W C (OpZeroExt n W v)) (const64 (int n + int s)))) =
    Some (y mod 2 ^ n div d)"
proof -
  let ?x = "y mod 2 ^ n"
  have K: "0 \<le> 2 ^ n + m" "2 ^ n + m \<le> 2 ^ Suc n" using g by (auto simp: good_magic_def)
  then have "(2 ^ n + m) * ?x < 2 ^ (Suc n + n)" by (intro prod_less) auto
  then have p: "(2 ^ n + m) * ?x < 2 ^ W" by (rule less_pow) (use W in simp)
  have p0: "0 \<le> (2 ^ n + m) * ?x" using K by simp
  have k: "n + s \<le> 128" using g n by (simp add: good_magic_def)
  have q: "(2 ^ n + m) * ?x div 2 ^ (n + s) = ?x div d" by (rule good_magic_div [OF g]) auto
  show ?thesis
    by (rule ev_Trunc [OF _ good_magic_quotient(3) [OF g]],
        rule ev_RshU [OF ev_Mul [OF C ev_ZeroExt [OF y] p0 p] good_magic_shift(1) [OF g n] k p0 p,
          unfolded q])
qed

lemma ev_mul_half:
  assumes g: "good_magic n d s m" "even m" and n: "0 < n" "n \<le> 64" and W: "n + n \<le> W"
    and C: "ev env C = Some (2 ^ (n - 1) + m div 2)" and y: "ev env v = Some y"
  shows "ev env (OpTrunc W n (OpRshU W (OpMul W C (OpZeroExt n W v)) (const64 (int n + int s - 1)))) =
    Some (y mod 2 ^ n div d)"
proof -
  let ?x = "y mod 2 ^ n" and ?K = "2 ^ (n - 1) + m div 2"
  have "2 * 2 ^ (n - 1) = (2::int) ^ n" using n by (simp flip: power_Suc)
  then have K: "0 \<le> ?K" "?K \<le> 2 ^ n" using g by (auto simp: good_magic_def)
  then have "?K * ?x < 2 ^ (n + n)" by (intro prod_less) auto
  then have p: "?K * ?x < 2 ^ W" by (rule less_pow) (use W in simp)
  have p0: "0 \<le> ?K * ?x" using K by simp
  have k: "n + s - 1 \<le> 128" using good_magic_s [OF g(1)] n by linarith
  have q: "?K * ?x div 2 ^ (n + s - 1) = ?x div d" by (rule good_magic_half [OF g(1) n(1) g(2)]) auto
  show ?thesis
    by (rule ev_Trunc [OF _ good_magic_quotient(3) [OF g(1)]],
        rule ev_RshU [OF ev_Mul [OF C ev_ZeroExt [OF y] p0 p] good_magic_shift(2) [OF g(1) n(2)] k p0 p,
          unfolded q])
qed

lemma ev_mul_even:
  assumes g: "good_magic n d s m" "even d" and n: "0 < n" "n \<le> 64" and W: "n + n \<le> W"
    and C: "ev env C = Some (2 ^ (n - 1) + (m + 1) div 2)" and y: "ev env v = Some y"
  shows "ev env (OpTrunc W n (OpRshU W (OpMul W C (OpRshU W (OpZeroExt n W v) (const64 1)))
      (const64 (int n + int s - 2)))) = Some (y mod 2 ^ n div d)"
proof -
  let ?x = "y mod 2 ^ n" and ?K = "2 ^ (n - 1) + (m + 1) div 2"
  have "2 * 2 ^ (n - 1) = (2::int) ^ n" using n by (simp flip: power_Suc)
  then have K: "0 \<le> ?K" "?K \<le> 2 ^ n" using g(1) by (auto simp: good_magic_def)
  have x: "0 \<le> ?x" "?x < 2 ^ n" by auto
  then have x2: "0 \<le> ?x div 2" "?x div 2 < 2 ^ n" by linarith+
  then have "?K * (?x div 2) < 2 ^ (n + n)" using K by (intro prod_less)
  then have p: "?K * (?x div 2) < 2 ^ W" by (rule less_pow) (use W in simp)
  have p0: "0 \<le> ?K * (?x div 2)" using K x2 by simp
  have k: "n + s - 2 \<le> 128" using good_magic_s [OF g(1)] n by linarith
  have xW: "?x < 2 ^ W" using x(2) by (rule less_pow) (use W in simp)
  have h: "ev env (OpRshU W (OpZeroExt n W v) (const64 1)) = Some (?x div 2)"
    using ev_RshU [OF ev_ZeroExt [OF y] _ _ x(1) xW, of "const64 1" 1] by (simp add: ev_const64)
  note e = good_magic_even [OF g n(1) x]
  show ?thesis
    by (rule ev_Trunc [OF _ good_magic_quotient(3) [OF g(1)]],
        rule ev_RshU [OF ev_Mul [OF C h p0 p] good_magic_shift(3) [OF g(1) n(2) e(1)] k p0 p,
          unfolded e(2)])
qed

lemma ev_avg_low:
  assumes g: "good_magic n d s m" and n: "n \<le> 64" and W: "W = n + n"
    and C: "ev env C = Some m" and y: "ev env v = Some y"
  shows "ev env (OpTrunc W n (OpRshU W
      (OpAvgu W (OpLsh W (OpZeroExt n W v) (const64 (int n))) (OpMul W C (OpZeroExt n W v)))
      (const64 (int n + int s - 1)))) = Some (y mod 2 ^ n div d)"
proof -
  let ?x = "y mod 2 ^ n"
  have x: "0 \<le> ?x" "?x < 2 ^ n" by auto
  note le = good_magic_le [OF g x(1)]
  have "?x * 2 ^ n < 2 ^ n * 2 ^ n" using x by simp
  then have xW: "?x * 2 ^ n < 2 ^ W" by (simp add: W power_add)
  then have xm: "?x * 2 ^ n mod 2 ^ W = ?x * 2 ^ n" using x by (intro mod_pos_pos_trivial) auto
  have l: "ev env (OpLsh W (OpZeroExt n W v) (const64 (int n))) = Some (?x * 2 ^ n)"
    using y n xm by (simp add: ev_const64)
  have mul: "ev env (OpMul W C (OpZeroExt n W v)) = Some (m * ?x)"
    using le xW by (intro ev_Mul [OF C ev_ZeroExt [OF y]]) auto
  have avg: "ev env (OpAvgu W (OpLsh W (OpZeroExt n W v) (const64 (int n))) (OpMul W C (OpZeroExt n W v)))
      = Some ((?x * 2 ^ n + m * ?x) div 2)"
    using ev_Avgu [OF l mul le(1), of W] le(2) xm by simp
  have p0: "0 \<le> (?x * 2 ^ n + m * ?x) div 2" using le by simp
  have p: "(?x * 2 ^ n + m * ?x) div 2 < 2 ^ W" using le xW by linarith
  have k: "n + s - 1 \<le> 128" using good_magic_s [OF g(1)] n by linarith
  show ?thesis
    by (rule ev_Trunc [OF _ good_magic_quotient(3) [OF g]],
        rule ev_RshU [OF avg good_magic_shift(2) [OF g n] k p0 p, unfolded good_magic_avg_low [OF g x]])
qed

lemma hmul_shift: "a div 2 ^ n div 2 ^ k = a div (2::int) ^ (n + k)"
  by (simp add: power_add zdiv_zmult2_eq)

lemma hmul_range:
  assumes "0 \<le> a" "a \<le> 2 ^ n" "0 \<le> b" "b < 2 ^ n"
  shows "0 \<le> a * b div 2 ^ n" "a * b div (2::int) ^ n < 2 ^ n"
proof -
  show "0 \<le> a * b div 2 ^ n" using assms by (simp add: pos_imp_zdiv_nonneg_iff)
  have "a * b < 2 ^ (n + n)" by (rule prod_less [OF assms])
  then have "\<not> 2 ^ n * 2 ^ n \<le> a * b" by (simp add: power_add)
  then show "a * b div (2::int) ^ n < 2 ^ n" by (simp add: int_le_div_iff flip: not_le)
qed

lemma ev_hmul_half:
  assumes g: "good_magic n d s m" "even m" and n: "0 < n" "n \<le> 64"
    and C: "ev env C = Some (2 ^ (n - 1) + m div 2)" and y: "ev env v = Some y"
  shows "ev env (OpRshU n (OpHmulu n C v) (const64 (int s - 1))) = Some (y mod 2 ^ n div d)"
proof -
  let ?x = "y mod 2 ^ n" and ?K = "2 ^ (n - 1) + m div 2"
  have "2 * 2 ^ (n - 1) = (2::int) ^ n" using n by (simp flip: power_Suc)
  then have K: "0 \<le> ?K" "?K < 2 ^ n" using g by (auto simp: good_magic_def)
  have r: "0 \<le> ?K * ?x div 2 ^ n" "?K * ?x div 2 ^ n < 2 ^ n" using K by (intro hmul_range; simp)+
  have k: "s - 1 \<le> 128" "n + (s - 1) = n + s - 1" using g n by (auto simp: good_magic_def)
  have q: "?K * ?x div 2 ^ (n + s - 1) = ?x div d" by (rule good_magic_half [OF g(1) n(1) g(2)]) auto
  show ?thesis
    by (rule ev_RshU [OF ev_Hmulu [OF C y K] good_magic_shift(4) [OF g(1) n(2)] k(1) r,
          unfolded hmul_shift k(2) q])
qed

lemma ev_hmul_even:
  assumes g: "good_magic n d s m" "even d" and n: "0 < n" "n \<le> 64"
    and C: "ev env C = Some (2 ^ (n - 1) + (m + 1) div 2)" and y: "ev env v = Some y"
  shows "ev env (OpRshU n (OpHmulu n C (OpRshU n v (const64 1))) (const64 (int s - 2))) =
    Some (y mod 2 ^ n div d)"
proof -
  let ?x = "y mod 2 ^ n" and ?K = "2 ^ (n - 1) + (m + 1) div 2"
  have "2 * 2 ^ (n - 1) = (2::int) ^ n" using n by (simp flip: power_Suc)
  then have K: "0 \<le> ?K" "?K < 2 ^ n" using g by (auto simp: good_magic_def)
  have x: "0 \<le> ?x" "?x < 2 ^ n" by auto
  then have x2: "0 \<le> ?x div 2" "?x div 2 < 2 ^ n" by linarith+
  have r: "0 \<le> ?K * (?x div 2) div 2 ^ n" "?K * (?x div 2) div 2 ^ n < 2 ^ n"
    using K x2 by (intro hmul_range; simp)+
  note e = good_magic_even [OF g n(1) x]
  have k: "s - 2 \<le> 128" "n + (s - 2) = n + s - 2" using g n e(1) by (auto simp: good_magic_def)
  have h: "ev env (OpRshU n v (const64 1)) = Some (?x div 2)" using y by (simp add: ev_const64)
  have x2m: "?x div 2 mod 2 ^ n = ?x div 2" using x2 by simp
  show ?thesis
    by (rule ev_RshU [OF ev_Hmulu [OF C h K, unfolded x2m] good_magic_shift(5) [OF g(1) n(2) e(1)] k(1) r,
          unfolded hmul_shift k(2) e(2)])
qed

lemma ev_hmul_avg:
  assumes g: "good_magic n d s m" and n: "n \<le> 64"
    and C: "ev env C = Some m" and y: "ev env v = Some y"
  shows "ev env (OpRshU n (OpAvgu n v (OpHmulu n C v)) (const64 (int s - 1))) = Some (y mod 2 ^ n div d)"
proof -
  let ?x = "y mod 2 ^ n"
  have x: "0 \<le> ?x" "?x < 2 ^ n" by auto
  have K: "0 \<le> m" "m < 2 ^ n" using g by (auto simp: good_magic_def)
  have r: "0 \<le> m * ?x div 2 ^ n" "m * ?x div 2 ^ n < 2 ^ n" using K by (intro hmul_range; simp)+
  note a = good_magic_avg_high [OF g x]
  have avg: "ev env (OpAvgu n v (OpHmulu n C v)) = Some ((?x + m * ?x div 2 ^ n) div 2)"
    by (rule ev_Avgu [OF y ev_Hmulu [OF C y K] r(1) a(2)])
  have p: "0 \<le> (?x + m * ?x div 2 ^ n) div 2" "(?x + m * ?x div 2 ^ n) div 2 < 2 ^ n"
    using r x a(2) by linarith+
  have k: "s - 1 \<le> 128" using good_magic_s [OF g(1)] n by linarith
  show ?thesis
    by (rule ev_RshU [OF avg good_magic_shift(4) [OF g n] k p, unfolded a(1)])
qed

section \<open>Soundness of the division rules\<close>

declare ev.simps [simp del]

lemma sound_magic:
  fixes c :: "'a::len word"
  assumes "w = LENGTH('a)" "w \<le> 64" "c AND (c - 1) \<noteq> 0"
    "\<And>s m. good_magic w (uint c) s m \<Longrightarrow> sound v (f \<lparr>us = int s, um = word_of_int m\<rparr>)"
  shows "sound v (with_umagic (umagic w (scast c)) f)"
  using umagic_word [of c] assms by (metis sound_with_umagic)

lemma even_word: "c AND 1 = 0 \<Longrightarrow> even (uint (c :: 'a::len word))"
  by (simp add: even_um)

lemma good_magic_le_pow: "good_magic n d s m \<Longrightarrow> m < 2 ^ n"
  by (simp add: good_magic_def)

lemma rule_umagic:
  assumes w: "w = LENGTH('a::len)" "w \<le> 64"
    and b: "\<And>c. b c \<Longrightarrow> c AND (c - 1) \<noteq> 0"
    and ev: "\<And>(c :: 'a word) s m env y. good_magic w (uint c) s m \<Longrightarrow> b c \<Longrightarrow>
      q \<lparr>us = int s, um = word_of_int m\<rparr> \<Longrightarrow> ev env v_0 = Some y \<Longrightarrow>
      ev env (f \<lparr>us = int s, um = word_of_int m\<rparr>) = Some (y mod 2 ^ w div uint c)"
  shows "sound (OpDivu w v_0 v_1) (match_const w v_1 (\<lambda>a. let c = auxIntTo a :: 'a word
     in cond (b c) (with_umagic (umagic w (scast c)) (\<lambda>u. cond (q u) (Rewritten (f u))))))"
  unfolding Let_def
proof (intro sound_match_const sound_cond sound_magic [OF w])
  fix a s m
  assume "v_1 = OpConst w a" "b (auxIntTo a)" and g: "good_magic w (uint (auxIntTo a :: 'a word)) s m"
    and q: "q \<lparr>us = int s, um = word_of_int m\<rparr>"
  then show "sound (OpDivu w v_0 v_1) (Rewritten (f \<lparr>us = int s, um = word_of_int m\<rparr>))"
    using ev by (simp add: sound_Divu [OF refl w(1)])
qed (rule b)

lemma cond_True: "cond True r = r"
  by (simp add: cond_def)

lemmas rule_umagic_always = rule_umagic [where q = "\<lambda>u. True", unfolded cond_True]

text \<open>The constants as the rules write them, at their width \<open>W\<close>.\<close>

definition const_of :: "(64 word \<Rightarrow> val) \<Rightarrow> nat \<Rightarrow> bool" where
  "const_of K W = (\<forall>env u. ev env (K u) = Some (uint u mod 2 ^ W))"

lemma const_of_32: "const_of const32 32"
  by (simp add: const_of_def ev_const32)

lemma const_of_64: "const_of (OpConst 64) 64"
  by (simp add: const_of_def ev.simps)

lemma const_of_ev:
  "const_of K W \<Longrightarrow> uint u = z \<Longrightarrow> z < 2 ^ W \<Longrightarrow> ev env (K u) = Some z"
  using uint_ge_0 [of u] by (auto simp: const_of_def)

lemma good_magic_consts:
  assumes "good_magic w d s m" "0 < w"
  shows "m < 2 ^ w" "2 ^ (w - 1) + m div 2 < 2 ^ w" "2 ^ (w - 1) + (m + 1) div 2 < 2 ^ w"
    "2 ^ w + m < 2 ^ Suc w"
proof -
  have "2 * 2 ^ (w - 1) = (2::int) ^ w" using assms by (simp flip: power_Suc)
  then show "m < 2 ^ w" "2 ^ (w - 1) + m div 2 < 2 ^ w" "2 ^ (w - 1) + (m + 1) div 2 < 2 ^ w"
    "2 ^ w + m < 2 ^ Suc w"
    using assms by (auto simp: good_magic_def)
qed

lemma rule_mul_direct:
  assumes w: "w = LENGTH('a::len)" "0 < w" "w < 64" and W: "Suc (w + w) \<le> W" and K: "const_of K W"
    and b: "\<And>c. b c \<Longrightarrow> c AND (c - 1) \<noteq> 0"
    and p: "p = 2 ^ w" and i: "i = int w"
  shows "sound (OpDivu w v_0 v_1) (match_const w v_1 (\<lambda>a. let c = auxIntTo a :: 'a word
     in cond (b c) (with_umagic (umagic w (scast c)) (\<lambda>u.
       Rewritten (OpTrunc W w (OpRshU W (OpMul W (K (p + um u)) (OpZeroExt w W v_0)) (const64 (i + us u))))))))"
proof (rule rule_umagic_always [OF w(1)])
  show w64: "w \<le> 64" using w(3) by simp
  fix c :: "'a word" and s m env y
  assume g: "good_magic w (uint c) s m" and bc: "b c" and y: "ev env v_0 = Some y"
  have C: "ev env (K (2 ^ w + word_of_int m)) = Some (2 ^ w + m)"
    by (rule const_of_ev [OF K uint_multipliers(6) [OF g w(2) w64 w(3)]]) (rule less_pow [OF good_magic_consts(4) [OF g w(2)]], use W in simp)
  show "ev env (OpTrunc W w (OpRshU W (OpMul W (K (p + um \<lparr>us = int s, um = word_of_int m\<rparr>)) (OpZeroExt w W v_0)) (const64 (i + us \<lparr>us = int s, um = word_of_int m\<rparr>)))) = Some (y mod 2 ^ w div uint c)"
    using ev_mul_direct [OF g w64 W C y] by (simp only: p i umagicData.simps)
qed (rule b)

lemma rule_mul_half:
  assumes w: "w = LENGTH('a::len)" "0 < w" "w \<le> 64" and W: "w + w \<le> W" and K: "const_of K W"
    and b: "\<And>c. b c \<Longrightarrow> c AND (c - 1) \<noteq> 0"
    and q: "\<And>u. q u \<Longrightarrow> um u AND 1 = 0"
    and p: "p = 2 ^ (w - 1)" and i: "i = int w"
  shows "sound (OpDivu w v_0 v_1) (match_const w v_1 (\<lambda>a. let c = auxIntTo a :: 'a word
     in cond (b c) (with_umagic (umagic w (scast c)) (\<lambda>u.
       cond (q u) (Rewritten (OpTrunc W w (OpRshU W (OpMul W (K (p + um u div 2)) (OpZeroExt w W v_0)) (const64 (i + us u - 1)))))))))"
proof (rule rule_umagic [OF w(1)])
  show w64: "w \<le> 64" using w(3) by simp
  fix c :: "'a word" and s m env y
  assume g: "good_magic w (uint c) s m" and bc: "b c" and qu: "q \<lparr>us = int s, um = word_of_int m\<rparr>" and y: "ev env v_0 = Some y"
  have "even m" using q [OF qu] uint_multipliers(1) [OF g w(2) w64] by (simp add: even_um)
  have C: "ev env (K (2 ^ (w - 1) + word_of_int m div 2)) = Some (2 ^ (w - 1) + m div 2)"
    by (rule const_of_ev [OF K uint_multipliers(4) [OF g w(2) w64]]) (rule less_pow [OF good_magic_consts(2) [OF g w(2)]], use W in simp)
  show "ev env (OpTrunc W w (OpRshU W (OpMul W (K (p + um \<lparr>us = int s, um = word_of_int m\<rparr> div 2)) (OpZeroExt w W v_0)) (const64 (i + us \<lparr>us = int s, um = word_of_int m\<rparr> - 1)))) = Some (y mod 2 ^ w div uint c)"
    using ev_mul_half [OF g \<open>even m\<close> w(2) w64 W C y] by (simp only: p i umagicData.simps)
qed (rule b)

lemma rule_mul_even:
  assumes w: "w = LENGTH('a::len)" "0 < w" "w \<le> 64" and W: "w + w \<le> W" and K: "const_of K W"
    and b: "\<And>c. b c \<Longrightarrow> c AND (c - 1) \<noteq> 0"
    and e: "\<And>c. b c \<Longrightarrow> c AND 1 = 0"
    and p: "p = 2 ^ (w - 1)" and i: "i = int w"
  shows "sound (OpDivu w v_0 v_1) (match_const w v_1 (\<lambda>a. let c = auxIntTo a :: 'a word
     in cond (b c) (with_umagic (umagic w (scast c)) (\<lambda>u.
       Rewritten (OpTrunc W w (OpRshU W (OpMul W (K (p + (um u + 1) div 2)) (OpRshU W (OpZeroExt w W v_0) (const64 1))) (const64 (i + us u - 2))))))))"
proof (rule rule_umagic_always [OF w(1)])
  show w64: "w \<le> 64" using w(3) by simp
  fix c :: "'a word" and s m env y
  assume g: "good_magic w (uint c) s m" and bc: "b c" and y: "ev env v_0 = Some y"
  have "even (uint c)" using e [OF bc] by (rule even_word)
  have C: "ev env (K (2 ^ (w - 1) + (word_of_int m + 1) div 2)) = Some (2 ^ (w - 1) + (m + 1) div 2)"
    by (rule const_of_ev [OF K uint_multipliers(5) [OF g w(2) w64]]) (rule less_pow [OF good_magic_consts(3) [OF g w(2)]], use W in simp)
  show "ev env (OpTrunc W w (OpRshU W (OpMul W (K (p + (um \<lparr>us = int s, um = word_of_int m\<rparr> + 1) div 2)) (OpRshU W (OpZeroExt w W v_0) (const64 1))) (const64 (i + us \<lparr>us = int s, um = word_of_int m\<rparr> - 2)))) = Some (y mod 2 ^ w div uint c)"
    using ev_mul_even [OF g \<open>even (uint c)\<close> w(2) w64 W C y] by (simp only: p i umagicData.simps)
qed (rule b)

lemma rule_avg_low:
  assumes w: "w = LENGTH('a::len)" "0 < w" "w \<le> 64" and W: "W = w + w" and K: "const_of K W"
    and b: "\<And>c. b c \<Longrightarrow> c AND (c - 1) \<noteq> 0"
    and i: "i = int w"
  shows "sound (OpDivu w v_0 v_1) (match_const w v_1 (\<lambda>a. let c = auxIntTo a :: 'a word
     in cond (b c) (with_umagic (umagic w (scast c)) (\<lambda>u.
       Rewritten (OpTrunc W w (OpRshU W (OpAvgu W (OpLsh W (OpZeroExt w W v_0) (const64 i)) (OpMul W (K (um u)) (OpZeroExt w W v_0))) (const64 (i + us u - 1))))))))"
proof (rule rule_umagic_always [OF w(1)])
  show w64: "w \<le> 64" using w(3) by simp
  fix c :: "'a word" and s m env y
  assume g: "good_magic w (uint c) s m" and bc: "b c" and y: "ev env v_0 = Some y"
  have C: "ev env (K (word_of_int m)) = Some (m)"
    by (rule const_of_ev [OF K uint_multipliers(1) [OF g w(2) w64]]) (rule less_pow [OF good_magic_consts(1) [OF g w(2)]], use W in simp)
  show "ev env (OpTrunc W w (OpRshU W (OpAvgu W (OpLsh W (OpZeroExt w W v_0) (const64 i)) (OpMul W (K (um \<lparr>us = int s, um = word_of_int m\<rparr>)) (OpZeroExt w W v_0))) (const64 (i + us \<lparr>us = int s, um = word_of_int m\<rparr> - 1)))) = Some (y mod 2 ^ w div uint c)"
    using ev_avg_low [OF g w64 W C y] by (simp only: i umagicData.simps)
qed (rule b)

lemma rule_hmul_half:
  assumes w: "w = LENGTH('a::len)" "0 < w" "w \<le> 64" and W: "W = w" and K: "const_of K W"
    and b: "\<And>c. b c \<Longrightarrow> c AND (c - 1) \<noteq> 0"
    and q: "\<And>u. q u \<Longrightarrow> um u AND 1 = 0"
    and p: "p = 2 ^ (w - 1)"
  shows "sound (OpDivu w v_0 v_1) (match_const w v_1 (\<lambda>a. let c = auxIntTo a :: 'a word
     in cond (b c) (with_umagic (umagic w (scast c)) (\<lambda>u.
       cond (q u) (Rewritten (OpRshU w (OpHmulu w (K (p + um u div 2)) v_0) (const64 (us u - 1))))))))"
proof (rule rule_umagic [OF w(1)])
  show w64: "w \<le> 64" using w(3) by simp
  fix c :: "'a word" and s m env y
  assume g: "good_magic w (uint c) s m" and bc: "b c" and qu: "q \<lparr>us = int s, um = word_of_int m\<rparr>" and y: "ev env v_0 = Some y"
  have "even m" using q [OF qu] uint_multipliers(1) [OF g w(2) w64] by (simp add: even_um)
  have C: "ev env (K (2 ^ (w - 1) + word_of_int m div 2)) = Some (2 ^ (w - 1) + m div 2)"
    by (rule const_of_ev [OF K uint_multipliers(4) [OF g w(2) w64]]) (rule less_pow [OF good_magic_consts(2) [OF g w(2)]], use W in simp)
  show "ev env (OpRshU w (OpHmulu w (K (p + um \<lparr>us = int s, um = word_of_int m\<rparr> div 2)) v_0) (const64 (us \<lparr>us = int s, um = word_of_int m\<rparr> - 1))) = Some (y mod 2 ^ w div uint c)"
    using ev_hmul_half [OF g \<open>even m\<close> w(2) w64 C y] by (simp only: p umagicData.simps)
qed (rule b)

lemma rule_hmul_even:
  assumes w: "w = LENGTH('a::len)" "0 < w" "w \<le> 64" and W: "W = w" and K: "const_of K W"
    and b: "\<And>c. b c \<Longrightarrow> c AND (c - 1) \<noteq> 0"
    and e: "\<And>c. b c \<Longrightarrow> c AND 1 = 0"
    and p: "p = 2 ^ (w - 1)"
  shows "sound (OpDivu w v_0 v_1) (match_const w v_1 (\<lambda>a. let c = auxIntTo a :: 'a word
     in cond (b c) (with_umagic (umagic w (scast c)) (\<lambda>u.
       Rewritten (OpRshU w (OpHmulu w (K (p + (um u + 1) div 2)) (OpRshU w v_0 (const64 1))) (const64 (us u - 2)))))))"
proof (rule rule_umagic_always [OF w(1)])
  show w64: "w \<le> 64" using w(3) by simp
  fix c :: "'a word" and s m env y
  assume g: "good_magic w (uint c) s m" and bc: "b c" and y: "ev env v_0 = Some y"
  have "even (uint c)" using e [OF bc] by (rule even_word)
  have C: "ev env (K (2 ^ (w - 1) + (word_of_int m + 1) div 2)) = Some (2 ^ (w - 1) + (m + 1) div 2)"
    by (rule const_of_ev [OF K uint_multipliers(5) [OF g w(2) w64]]) (rule less_pow [OF good_magic_consts(3) [OF g w(2)]], use W in simp)
  show "ev env (OpRshU w (OpHmulu w (K (p + (um \<lparr>us = int s, um = word_of_int m\<rparr> + 1) div 2)) (OpRshU w v_0 (const64 1))) (const64 (us \<lparr>us = int s, um = word_of_int m\<rparr> - 2))) = Some (y mod 2 ^ w div uint c)"
    using ev_hmul_even [OF g \<open>even (uint c)\<close> w(2) w64 C y] by (simp only: p umagicData.simps)
qed (rule b)

lemma rule_hmul_avg:
  assumes w: "w = LENGTH('a::len)" "0 < w" "w \<le> 64" and W: "W = w" and K: "const_of K W"
    and b: "\<And>c. b c \<Longrightarrow> c AND (c - 1) \<noteq> 0"
  shows "sound (OpDivu w v_0 v_1) (match_const w v_1 (\<lambda>a. let c = auxIntTo a :: 'a word
     in cond (b c) (with_umagic (umagic w (scast c)) (\<lambda>u.
       Rewritten (OpRshU w (OpAvgu w v_0 (OpHmulu w (K (um u)) v_0)) (const64 (us u - 1)))))))"
proof (rule rule_umagic_always [OF w(1)])
  show w64: "w \<le> 64" using w(3) by simp
  fix c :: "'a word" and s m env y
  assume g: "good_magic w (uint c) s m" and bc: "b c" and y: "ev env v_0 = Some y"
  have C: "ev env (K (word_of_int m)) = Some (m)"
    by (rule const_of_ev [OF K uint_multipliers(1) [OF g w(2) w64]]) (rule less_pow [OF good_magic_consts(1) [OF g w(2)]], use W in simp)
  show "ev env (OpRshU w (OpAvgu w v_0 (OpHmulu w (K (um \<lparr>us = int s, um = word_of_int m\<rparr>)) v_0)) (const64 (us \<lparr>us = int s, um = word_of_int m\<rparr> - 1))) = Some (y mod 2 ^ w div uint c)"
    using ev_hmul_avg [OF g w64 C y] by (simp only: umagicData.simps)
qed (rule b)

lemma Div8u_sound: "sound (OpDivu 8 v_0 v_1) (rewriteValuegeneric_OpDiv8u v_0 v_1)"
  unfolding rewriteValuegeneric_OpDiv8u_def umagic8_def
  by (intro sound_Cons sound_Nil rule_fold_Divu rule_power_Divu
      rule_mul_direct [OF _ _ _ _ const_of_32]; simp add: umagicOK8_def)

lemma Div16u_sound: "sound (OpDivu 16 v_0 v_1) (rewriteValuegeneric_OpDiv16u conf v_0 v_1)"
  unfolding rewriteValuegeneric_OpDiv16u_def umagic16_def
  by (intro sound_Cons sound_Nil rule_fold_Divu rule_power_Divu
      rule_mul_direct [OF _ _ _ _ const_of_64] rule_mul_half [OF _ _ _ _ const_of_32]
      rule_mul_even [OF _ _ _ _ const_of_32] rule_avg_low [OF _ _ _ _ const_of_32];
      simp add: umagicOK16_def)

lemma Div32u_sound: "sound (OpDivu 32 v_0 v_1) (rewriteValuegeneric_OpDiv32u conf v_0 v_1)"
  unfolding rewriteValuegeneric_OpDiv32u_def umagic32_def
  by (intro sound_Cons sound_Nil rule_fold_Divu rule_power_Divu
      rule_hmul_half [OF _ _ _ _ const_of_32] rule_hmul_even [OF _ _ _ _ const_of_32]
      rule_hmul_avg [OF _ _ _ _ const_of_32] rule_mul_half [OF _ _ _ _ const_of_64]
      rule_mul_even [OF _ _ _ _ const_of_64] rule_avg_low [OF _ _ _ _ const_of_64];
      simp add: umagicOK32_def)

text \<open>A 64-bit division in three 32-bit ones.\<close>

lemma three_divisions:
  fixes x c :: int
  assumes c: "0 < c"
  shows "x div c = x div 2 ^ 32 div c * 2 ^ 32 + x mod 2 ^ 32 div c + (x div 2 ^ 32 mod c) * (2 ^ 32 div c)
    + (x mod 2 ^ 32 mod c + (x div 2 ^ 32 mod c) * (2 ^ 32 mod c)) div c"
proof -
  define B hi lo where "B = (2::int) ^ 32" and "hi = x div B" and "lo = x mod B"
  define t where "t = lo mod c + hi mod c * (B mod c)"
  have "hi mod c * B = hi mod c * (B div c * c + B mod c)" by simp
  then have "hi mod c * B = c * (hi mod c * (B div c)) + hi mod c * (B mod c)"
    unfolding distrib_left by (simp only: mult.commute mult.left_commute)
  moreover have "(hi div c * c + hi mod c) * B = hi * B" by simp
  then have "c * (hi div c * B) + hi mod c * B = hi * B"
    unfolding distrib_right by (simp only: mult.commute mult.left_commute)
  moreover have "c * (lo div c) + lo mod c = lo" "hi * B + lo = x" by (simp_all add: hi_def lo_def)
  ultimately have "x = t + c * (hi div c * B + lo div c + hi mod c * (B div c))"
    unfolding t_def distrib_left by linarith
  then have "x div c = t div c + (hi div c * B + lo div c + hi mod c * (B div c))"
    using c by (metis div_mult_self2 less_irrefl add.commute)
  then show ?thesis by (simp add: t_def B_def hi_def lo_def)
qed

text \<open>The remainder that the last division takes fits in 32 bits.\<close>

lemma three_divisions_rest:
  fixes c h l r :: int
  assumes "0 < c" "c \<le> 65535"
  shows "0 \<le> l mod c + h mod c * (r mod c)" "l mod c + h mod c * (r mod c) < 2 ^ 32"
    "0 \<le> h mod c * (r mod c)" "h mod c * (r mod c) < 2 ^ 32"
proof -
  have mc: "0 \<le> z mod c \<and> z mod c \<le> 65534" for z
    using pos_mod_bound [OF assms(1), of z] pos_mod_sign [OF assms(1), of z] assms(2) by linarith
  have "h mod c * (r mod c) \<le> 65534 * 65534" using mc by (intro mult_mono) auto
  moreover have "0 \<le> h mod c * (r mod c)" using mc by simp
  ultimately show "0 \<le> l mod c + h mod c * (r mod c)" "l mod c + h mod c * (r mod c) < 2 ^ 32"
    "0 \<le> h mod c * (r mod c)" "h mod c * (r mod c) < 2 ^ 32"
    using mc [of l] by simp_all
qed

lemma ev_div32:
  assumes "ev env v8 = Some c" "0 < c" "c \<le> 65535" "ev env v = Some z" "0 \<le> z" "z < 2 ^ 32"
  shows "ev env (OpZeroExt 32 64 (OpDivu 32 v v8)) = Some (z div c)" "ev env (OpModu 32 v v8) = Some (z mod c)"
    "ev env (OpZeroExt 32 64 (OpModu 32 v v8)) = Some (z mod c)"
proof -
  have "z div c \<le> z" "0 \<le> z div c" using assms(2,5) zdiv_mono2 [of z 1 c] by (simp_all add: pos_imp_zdiv_nonneg_iff)
  moreover have "0 \<le> z mod c" "z mod c < 65535"
    using pos_mod_bound [OF assms(2), of z] pos_mod_sign [OF assms(2), of z] assms(3) by linarith+
  ultimately show "ev env (OpZeroExt 32 64 (OpDivu 32 v v8)) = Some (z div c)" "ev env (OpModu 32 v v8) = Some (z mod c)"
    "ev env (OpZeroExt 32 64 (OpModu 32 v v8)) = Some (z mod c)"
    using assms by (simp_all add: ev.simps)
qed

lemma ev_three_divisions:
  assumes c: "ev env v8 = Some c" "0 < c" "c \<le> 65535"
    and x: "0 \<le> x" "x < 2 ^ 64" and e5: "ev env v5 = Some (x div 2 ^ 32)" and e11: "ev env v11 = Some (x mod 2 ^ 32)"
    and Q: "ev env vq = Some (2 ^ 32 div c)" and R: "ev env vr = Some (2 ^ 32 mod c)"
  shows "ev env (OpAdd 64 (OpAdd 64 (OpAdd 64 (OpLsh 64 (OpZeroExt 32 64 (OpDivu 32 v5 v8)) (const64 32))
      (OpZeroExt 32 64 (OpDivu 32 v11 v8))) (OpMul 64 (OpZeroExt 32 64 (OpModu 32 v5 v8)) vq))
      (OpZeroExt 32 64 (OpDivu 32 (OpAdd 32 (OpModu 32 v11 v8) (OpMul 32 (OpModu 32 v5 v8) vr)) v8)))
    = Some (x div c)"
proof -
  let ?hi = "x div 2 ^ 32" and ?lo = "x mod 2 ^ 32"
  let ?t = "?lo mod c + ?hi mod c * (2 ^ 32 mod c)"
  have hi: "0 \<le> ?hi" "?hi < 2 ^ 32" and lo: "0 \<le> ?lo" "?lo < 2 ^ 32" using x by auto
  note r = three_divisions_rest(1,2) [OF c(2,3), of ?lo ?hi "2 ^ 32"]
    three_divisions_rest(3,4) [OF c(2,3), of ?hi "2 ^ 32"]
  note dh = ev_div32 [OF c e5 hi] and dl = ev_div32 [OF c e11 lo]
  have "ev env (OpAdd 32 (OpModu 32 v11 v8) (OpMul 32 (OpModu 32 v5 v8) vr)) = Some ?t"
    using dl(2) ev_Mul [OF dh(2) R r(3,4)] r(1,2) by (simp add: ev.simps)
  note d = ev_div32(1) [OF c this r(1,2)]
  have "x div c \<le> x" "0 \<le> x div c" using c(2) x(1) zdiv_mono2 [of x 1 c] by (simp_all add: pos_imp_zdiv_nonneg_iff)
  then have "x div c mod 2 ^ 64 = x div c" using x(2) by simp
  then have "(?hi div c * 2 ^ 32 + ?lo div c + ?hi mod c * (2 ^ 32 div c) + ?t div c) mod 2 ^ 64 = x div c"
    using three_divisions [OF c(2), of x] by (simp only:)
  then show ?thesis
    using dh(1,3) dl(1) d Q by (simp add: ev.simps(5) ev.simps(7) ev.simps(13) ev_const64 mod_simps)
qed

lemma rule_three_divisions:
  "sound (OpDivu 64 v_0 v_1) (match_const 64 v_1 (\<lambda>a. let c = auxIntTo a :: 64 word
       in cond (0 < sint c \<and> sint c \<le> 0xFFFF \<and> umagicOK32 (ucast c) \<and> RegSize conf = 4 \<and> useHmul conf)
         (let v7 = const64 32;
              v5 = OpTrunc 64 32 (OpRshU 64 v_0 v7);
              v8 = const32 c;
              v2 = OpLsh 64 (OpZeroExt 32 64 (OpDivu 32 v5 v8)) v7;
              v11 = OpTrunc 64 32 v_0;
              v9 = OpZeroExt 32 64 (OpDivu 32 v11 v8);
              v1 = OpAdd 64 v2 v9;
              v14 = OpModu 32 v5 v8;
              v12 = OpMul 64 (OpZeroExt 32 64 v14) (const64 (2 ^ 32 div sint c));
              v0 = OpAdd 64 v1 v12;
              v20 = OpMul 32 v14 (const32 (word_of_int (2 ^ 32 mod sint c)));
              v18 = OpAdd 32 (OpModu 32 v11 v8) v20;
              v16 = OpZeroExt 32 64 (OpDivu 32 v18 v8)
          in Rewritten (OpAdd 64 v0 v16))))"
  unfolding Let_def
proof (intro sound_match_const sound_cond, elim conjE, hypsubst, rule sound_Divu [OF refl])
  fix a :: "64 word" and env :: "nat \<Rightarrow> int" and y :: int
  let ?a = "auxIntTo a :: 64 word" and ?x = "y mod 2 ^ 64"
  assume a: "0 < sint ?a" "sint ?a \<le> 0xFFFF" and y: "ev env v_0 = Some y"
  then have u: "sint ?a = uint ?a" by (intro sint_nonneg_uint) simp
  then have c: "0 < uint ?a" "uint ?a \<le> 65535" using a by simp_all
  have e8: "ev env (const32 ?a) = Some (uint ?a)" using c by (simp add: ev_const32)
  have "?x div 2 ^ 32 < 2 ^ 32" "0 \<le> ?x div 2 ^ 32" by auto
  then have e5: "ev env (OpTrunc 64 32 (OpRshU 64 v_0 (const64 32))) = Some (?x div 2 ^ 32)"
    using y by (simp add: ev.simps ev_const64)
  have e11: "ev env (OpTrunc 64 32 v_0) = Some (?x mod 2 ^ 32)"
    using y by (simp add: ev.simps mod_mod_cancel)
  have "2 ^ 32 div uint ?a \<le> 2 ^ 32" "0 \<le> 2 ^ 32 div uint ?a"
    using c zdiv_mono2 [of "2 ^ 32" 1 "uint ?a"] by (simp_all add: pos_imp_zdiv_nonneg_iff)
  then have Q: "ev env (const64 (2 ^ 32 div sint ?a)) = Some (2 ^ 32 div uint ?a)"
    unfolding u by (intro ev_const64) auto
  have "0 \<le> 2 ^ 32 mod uint ?a" "2 ^ 32 mod uint ?a < 65535"
    using pos_mod_bound [OF c(1), of "2 ^ 32"] pos_mod_sign [OF c(1), of "2 ^ 32"] c(2) by linarith+
  then have R: "ev env (const32 (word_of_int (2 ^ 32 mod sint ?a))) = Some (2 ^ 32 mod uint ?a)"
    using uint_word_of_int_id [of "2 ^ 32 mod uint ?a", where 'a = 64] unfolding u by (simp add: ev_const32)
  show "ev env (OpAdd 64 (OpAdd 64 (OpAdd 64 (OpLsh 64 (OpZeroExt 32 64 (OpDivu 32 (OpTrunc 64 32
      (OpRshU 64 v_0 (const64 32))) (const32 ?a))) (const64 32))
      (OpZeroExt 32 64 (OpDivu 32 (OpTrunc 64 32 v_0) (const32 ?a))))
      (OpMul 64 (OpZeroExt 32 64 (OpModu 32 (OpTrunc 64 32 (OpRshU 64 v_0 (const64 32)))
        (const32 ?a))) (const64 (2 ^ 32 div sint ?a))))
      (OpZeroExt 32 64 (OpDivu 32 (OpAdd 32 (OpModu 32 (OpTrunc 64 32 v_0) (const32 ?a))
        (OpMul 32 (OpModu 32 (OpTrunc 64 32 (OpRshU 64 v_0 (const64 32))) (const32 ?a))
        (const32 (word_of_int (2 ^ 32 mod sint ?a))))) (const32 ?a)))) = Some (?x div uint ?a)"
    by (rule ev_three_divisions [OF e8 c _ _ e5 e11 Q R]) simp_all
qed simp

lemma rule_top_bit_Divu:
  "sound (OpDivu 64 v_0 v_1) (match_const 64 v_1 (\<lambda>a. let c = auxIntTo a :: 64 word
       in cond (c = - (2 ^ 63)) (Rewritten (OpRshU 64 v_0 (const64 63)))))"
  unfolding Let_def
proof (intro sound_match_const sound_cond, hypsubst, rule sound_Divu [OF refl])
  fix a env y
  assume "auxIntTo a = (- (2 ^ 63) :: 64 word)" "ev env v_0 = Some y"
  then show "ev env (OpRshU 64 v_0 (const64 63)) = Some (y mod 2 ^ 64 div uint (auxIntTo a :: 64 word))"
    by (simp add: ev.simps ev_const64)
qed simp

lemma umagic64_scast: "umagic64 c = umagic 64 (scast c)"
  by (simp add: umagic64_def)

lemma Div64u_sound: "sound (OpDivu 64 v_0 v_1) (rewriteValuegeneric_OpDiv64u conf v_0 v_1)"
  unfolding rewriteValuegeneric_OpDiv64u_def umagic64_scast
  by (intro sound_Cons sound_Nil rule_fold_Divu rule_power_Divu rule_top_bit_Divu
      rule_three_divisions rule_hmul_half [OF _ _ _ _ const_of_64]
      rule_hmul_even [OF _ _ _ _ const_of_64] rule_hmul_avg [OF _ _ _ _ const_of_64];
      simp add: umagicOK64_def)

section \<open>Soundness of the remainder rules\<close>

lemma rule_fold_Modu:
  assumes "w = LENGTH('a::len)" "w \<le> 64"
  shows "sound (OpModu w v_0 v_1) (match_const w v_0 (\<lambda>a. match_const w v_1 (\<lambda>b.
     let c = auxIntTo a :: 'a word; d = auxIntTo b
     in cond (d \<noteq> 0) (Rewritten (OpConst w (toAuxInt (c mod d)))))))"
  unfolding Let_def
proof (intro sound_match_const sound_cond, clarify)
  fix a b
  have "uint a mod 2 ^ w = uint (auxIntTo a :: 'a word)" by (simp only: assms(1) uint_auxIntTo)
  then show "sound (OpModu w (OpConst w a) (OpConst w b))
      (Rewritten (OpConst w (toAuxInt (auxIntTo a mod auxIntTo b :: 'a word))))"
    using assms by (intro sound_Modu [OF refl assms(1)]) (simp add: uint_toAuxInt uint_mod ev.simps)
qed

lemma ev_and_low:
  "ev env v = Some y \<Longrightarrow> ev env u = Some (2 ^ j - 1) \<Longrightarrow> j < w \<Longrightarrow>
   ev env (OpAnd w v u) = Some (y mod 2 ^ w mod 2 ^ j)"
proof -
  assume y: "ev env v = Some y" "ev env u = Some (2 ^ j - 1)" and j: "j < w"
  have "(2::int) ^ j \<le> 2 ^ w" using j by (intro power_increasing) auto
  then have "(2 ^ j - 1) mod 2 ^ w = (2::int) ^ j - 1"
    by (intro mod_pos_pos_trivial) (simp, linarith)
  then show ?thesis using y
    by (simp add: ev.simps flip: mask_eq_exp_minus_1 take_bit_eq_mask take_bit_eq_mod)
qed

lemma uint_pred: "uint (c :: 'a::len word) = 2 ^ j \<Longrightarrow> uint (c - 1) = 2 ^ j - 1"
  by (simp add: uint_sub_if')

lemma rule_power_Modu:
  assumes "w = LENGTH('a::len)" "w \<le> 64"
  shows "sound (OpModu w v_0 v_1) (match_const w v_1 (\<lambda>a. let c = auxIntTo a :: 'a word
     in cond (isPowerOfTwo c) (Rewritten (OpAnd w v_0 (OpConst w (toAuxInt (c - 1)))))))"
  unfolding Let_def
proof (intro sound_match_const sound_cond, clarify)
  fix a assume "isPowerOfTwo (auxIntTo a :: 'a word)"
  then obtain j where j: "uint (auxIntTo a :: 'a word) = 2 ^ j" "j < LENGTH('a)"
    by (rule isPowerOfTwo_log)
  have "ev env (OpConst w (toAuxInt (auxIntTo a - 1 :: 'a word))) = Some (2 ^ j - 1)" for env
    using assms uint_toAuxInt [of "auxIntTo a - 1 :: 'a word"] uint_pred [OF j(1)] by (simp add: ev.simps)
  then show "sound (OpModu w v_0 (OpConst w a))
      (Rewritten (OpAnd w v_0 (OpConst w (toAuxInt (auxIntTo a - 1 :: 'a word)))))"
    using j assms by (intro sound_Modu [OF refl assms(1)]) (simp add: ev_and_low)
qed

lemma rule_top_bit_Modu:
  "sound (OpModu 64 v_0 v_1) (match_const 64 v_1 (\<lambda>a. let c = auxIntTo a :: 64 word
       in cond (c = - (2 ^ 63)) (Rewritten (OpAnd 64 v_0 (OpConst 64 (2 ^ 63 - 1))))))"
  unfolding Let_def
proof (intro sound_match_const sound_cond, hypsubst, rule sound_Modu [OF refl])
  fix a env y
  assume a: "auxIntTo a = (- (2 ^ 63) :: 64 word)" and y: "ev env v_0 = Some y"
  have "ev env (OpConst 64 (2 ^ 63 - 1)) = Some (2 ^ 63 - 1)" by (simp add: ev.simps)
  from ev_and_low [OF y this, of 64]
  show "ev env (OpAnd 64 v_0 (OpConst 64 (2 ^ 63 - 1))) = Some (y mod 2 ^ 64 mod uint (auxIntTo a :: 64 word))"
    by (simp add: a)
qed simp

lemma rule_magic_Modu:
  assumes "w = LENGTH('a::len)" "w \<le> 64"
  shows "sound (OpModu w v_0 v_1) (match_const w v_1 (\<lambda>a. let c = auxIntTo a :: 'a word;
        v2 = OpConst w (toAuxInt c)
     in cond (b c) (Rewritten (OpSub w v_0 (OpMul w (OpDivu w v_0 v2) v2)))))"
  unfolding Let_def
proof (intro sound_match_const sound_cond, hypsubst, rule sound_Modu [OF refl assms(1)])
  fix a env y
  let ?c = "uint (auxIntTo a :: 'a word)" and ?v = "OpConst w (toAuxInt (auxIntTo a :: 'a word))"
  assume y: "ev env v_0 = Some y" and c: "?c \<noteq> 0"
  have cw: "?c < 2 ^ w" "0 \<le> ?c" unfolding assms(1) by simp_all
  have v: "ev env ?v = Some ?c"
    using assms uint_toAuxInt [of "auxIntTo a :: 'a word"] by (simp add: ev.simps)
  let ?x = "y mod 2 ^ w"
  have "ev env (OpSub w v_0 (OpMul w (OpDivu w v_0 ?v) ?v)) = Some ((?x - ?x div ?c * ?c) mod 2 ^ w)"
    using y v c cw by (simp add: ev.simps mod_simps)
  also have "?x - ?x div ?c * ?c = ?x mod ?c" by (rule minus_div_mult_eq_mod)
  also have "?x mod ?c mod 2 ^ w = ?x mod ?c"
    using pos_mod_bound [of ?c ?x] pos_mod_sign [of ?c ?x] c cw by (intro mod_pos_pos_trivial) linarith+
  finally show "ev env (OpSub w v_0 (OpMul w (OpDivu w v_0 ?v) ?v)) = Some (?x mod ?c)" .
qed

lemma Modu_sound:
  "sound (OpModu 8 v_0 v_1) (rewriteValuegeneric_OpMod8u v_0 v_1)"
  "sound (OpModu 16 v_0 v_1) (rewriteValuegeneric_OpMod16u v_0 v_1)"
  "sound (OpModu 32 v_0 v_1) (rewriteValuegeneric_OpMod32u v_0 v_1)"
  "sound (OpModu 64 v_0 v_1) (rewriteValuegeneric_OpMod64u v_0 v_1)"
  unfolding rewriteValuegeneric_OpMod8u_def rewriteValuegeneric_OpMod16u_def
    rewriteValuegeneric_OpMod32u_def rewriteValuegeneric_OpMod64u_def
  by (intro sound_Cons sound_Nil rule_fold_Modu rule_power_Modu rule_top_bit_Modu rule_magic_Modu; simp)+

section \<open>Which divisions are reduced\<close>

lemma try_rules_NoMatch: "try_rules rs = NoMatch \<longleftrightarrow> list_all (\<lambda>r. r = NoMatch) rs"
  by (induction rs) (auto split: rewrite.split)

lemma cond_NoMatch: "cond b r = NoMatch \<longleftrightarrow> b \<longrightarrow> r = NoMatch"
  by (simp add: cond_def)

lemma match_const_skip: "\<not> is_const w v \<Longrightarrow> match_const w v f = NoMatch"
  by (simp add: match_const_def is_const_def split: val.splits)

lemma match_const_hit: "match_const w (OpConst w a) f = f a"
  by (simp add: match_const_def)

lemma with_umagic_NoMatch:
  fixes c :: "'a::len word"
  assumes "w = LENGTH('a)" "w \<le> 64" "c AND (c - 1) \<noteq> 0" "\<And>u. f u \<noteq> NoMatch"
  shows "with_umagic (umagic w (scast c)) f \<noteq> NoMatch"
  using umagic_word [of c] assms by (metis option.case(2) with_umagic_def)

lemma with_umagic64_NoMatch:
  "a AND (a - 1) \<noteq> 0 \<Longrightarrow> (\<And>u. f u \<noteq> NoMatch) \<Longrightarrow> with_umagic (umagic 64 a) f \<noteq> NoMatch"
  using with_umagic_NoMatch [of 64 a f] by simp

lemma minus_top_bit_64: "(- (2 ^ 63) :: 64 word) = 2 ^ 63"
  by simp

lemma top_bit_word:
  fixes c :: "'a::len word"
  shows "\<not> isPowerOfTwo c \<and> c AND (c - 1) = 0 \<longleftrightarrow> c = 0 \<or> c = 2 ^ (LENGTH('a) - 1)"
proof -
  have "sint c \<le> 0 \<longleftrightarrow> j = LENGTH('a) - 1" if j: "uint c = 2 ^ j" for j
  proof -
    have "(2::int) ^ j < 2 ^ LENGTH('a)" using uint_lt2p [of c] j by simp
    then have jl: "j < LENGTH('a)" by simp
    show ?thesis
    proof
      assume s: "sint c \<le> 0"
      show "j = LENGTH('a) - 1"
      proof (rule ccontr)
        assume "j \<noteq> LENGTH('a) - 1"
        then have "j < LENGTH('a) - 1" using jl by simp
        then have "signed_take_bit (LENGTH('a) - 1) (2 ^ j) = (2::int) ^ j"
          by (intro signed_take_bit_int_eq_self) (auto intro: order.trans [of _ 0])
        then have "sint c = 2 ^ j" by (simp add: sint_uint j)
        then show False using s zero_less_power [of "2::int" j] by linarith
      qed
    next
      assume "j = LENGTH('a) - 1"
      then show "sint c \<le> 0" using sint_nonneg_uint [of c] sint_lt [of c] j by (simp flip: not_less) force
    qed
  qed
  moreover have "c = 2 ^ (LENGTH('a) - 1) \<longleftrightarrow> uint c = 2 ^ (LENGTH('a) - 1)"
    by (metis uint_pow2 diff_less len_gt_0 zero_less_one word_uint_eq_iff)
  ultimately show ?thesis
    unfolding isPowerOfTwo_def and_pred_zero_word [of c] by (cases "c = 0") auto
qed

text \<open>C6: No rewrite of an unsigned division or remainder panics, and each gives a value that is the same as that of the division or remainder in every environment in which that has one.  This includes the overflow of the intermediate words and the condition of the averaging operations.\<close>

theorem unsigned_division_lowering:
  "sound (OpDivu 8 v_0 v_1) (rewriteValuegeneric_OpDiv8u v_0 v_1) \<and>
   sound (OpDivu 16 v_0 v_1) (rewriteValuegeneric_OpDiv16u conf v_0 v_1) \<and>
   sound (OpDivu 32 v_0 v_1) (rewriteValuegeneric_OpDiv32u conf v_0 v_1) \<and>
   sound (OpDivu 64 v_0 v_1) (rewriteValuegeneric_OpDiv64u conf v_0 v_1) \<and>
   sound (OpModu 8 v_0 v_1) (rewriteValuegeneric_OpMod8u v_0 v_1) \<and>
   sound (OpModu 16 v_0 v_1) (rewriteValuegeneric_OpMod16u v_0 v_1) \<and>
   sound (OpModu 32 v_0 v_1) (rewriteValuegeneric_OpMod32u v_0 v_1) \<and>
   sound (OpModu 64 v_0 v_1) (rewriteValuegeneric_OpMod64u v_0 v_1)"
  by (intro conjI Div8u_sound Div16u_sound Div32u_sound Div64u_sound Modu_sound)

text \<open>C25: On a 64-bit machine with the averaging and high multiplication operations every unsigned division of a value that is not constant by a constant is rewritten, except by zero and, for 8, 16 and 32 bits but not for 64 bits, by the power of two with the sign bit, which isPowerOfTwo takes for negative.\<close>

theorem division_by_constant_reduced:
  assumes "\<not> is_const 8 v" "\<not> is_const 16 v" "\<not> is_const 32 v" "\<not> is_const 64 v"
    "RegSize conf = 8" "useAvg conf" "useHmul conf"
  shows "(rewriteValuegeneric_OpDiv8u v (OpConst 8 a) = NoMatch \<longleftrightarrow> auxIntTo a \<in> {0, 2 ^ 7 :: 8 word}) \<and>
    (rewriteValuegeneric_OpDiv16u conf v (OpConst 16 a) = NoMatch \<longleftrightarrow> auxIntTo a \<in> {0, 2 ^ 15 :: 16 word}) \<and>
    (rewriteValuegeneric_OpDiv32u conf v (OpConst 32 a) = NoMatch \<longleftrightarrow> auxIntTo a \<in> {0, 2 ^ 31 :: 32 word}) \<and>
    (rewriteValuegeneric_OpDiv64u conf v (OpConst 64 a) = NoMatch \<longleftrightarrow> a = 0)"
proof (intro conjI)
  note [simp] = cond_NoMatch match_const_hit match_const_skip Let_def with_umagic_NoMatch
  show "rewriteValuegeneric_OpDiv8u v (OpConst 8 a) = NoMatch \<longleftrightarrow> auxIntTo a \<in> {0, 2 ^ 7 :: 8 word}"
    unfolding rewriteValuegeneric_OpDiv8u_def try_rules_NoMatch umagicOK8_def umagic8_def
    using top_bit_word [of "auxIntTo a :: 8 word"] assms by auto
  show "rewriteValuegeneric_OpDiv16u conf v (OpConst 16 a) = NoMatch \<longleftrightarrow> auxIntTo a \<in> {0, 2 ^ 15 :: 16 word}"
    unfolding rewriteValuegeneric_OpDiv16u_def try_rules_NoMatch umagicOK16_def umagic16_def
    using top_bit_word [of "auxIntTo a :: 16 word"] assms by auto
  show "rewriteValuegeneric_OpDiv32u conf v (OpConst 32 a) = NoMatch \<longleftrightarrow> auxIntTo a \<in> {0, 2 ^ 31 :: 32 word}"
    unfolding rewriteValuegeneric_OpDiv32u_def try_rules_NoMatch umagicOK32_def umagic32_def
    using top_bit_word [of "auxIntTo a :: 32 word"] assms by auto
  show "rewriteValuegeneric_OpDiv64u conf v (OpConst 64 a) = NoMatch \<longleftrightarrow> a = 0"
    unfolding rewriteValuegeneric_OpDiv64u_def try_rules_NoMatch umagicOK64_def umagic64_def minus_top_bit_64
    using top_bit_word [of a] assms by (auto simp: auxIntTo_def with_umagic64_NoMatch)
qed

theorem division_by_constant_reduced_witness:
  "rewriteValuegeneric_OpDiv64u \<lparr>RegSize = 8, useAvg = True, useHmul = True\<rparr> (OpArg 0) (OpConst 64 10) \<noteq> NoMatch \<and>
   rewriteValuegeneric_OpDiv8u (OpArg 0) (OpConst 8 128) = NoMatch"
  using division_by_constant_reduced [of "OpArg 0" "\<lparr>RegSize = 8, useAvg = True, useHmul = True\<rparr>" 10]
    division_by_constant_reduced [of "OpArg 0" "\<lparr>RegSize = 8, useAvg = True, useHmul = True\<rparr>" 128]
  by (simp add: is_const_def auxIntTo_def)

end
