(* ===== verification/Sparse.thy ===== *)
theory Sparse
  imports Prelude "HOL-Library.Monad_Syntax"
begin

text \<open>
  The sparse sets and maps of the SSA passes (\<open>ssa/sparseset.go\<close>, \<open>ssa/sparsemap.go\<close>): two arrays that point into each
  other.  IDs and the entries of the sparse array are 32-bit integers; an index out of range is a panic,
  \<^const>\<open>None\<close>.  The locales \<open>bounded_set\<close> and \<open>bounded_map\<close> are the interfaces, interpreted on the code.
\<close>

section \<open>Slices and 32-bit integers\<close>

definition int32 :: "int \<Rightarrow> int" where
  "int32 i = signed_take_bit 31 i"

definition slice_get :: "'a list \<Rightarrow> int \<Rightarrow> 'a option" where
  "slice_get xs i = (if 0 \<le> i \<and> i < int (length xs) then Some (xs ! nat i) else None)"

definition slice_put :: "'a list \<Rightarrow> int \<Rightarrow> 'a \<Rightarrow> 'a list option" where
  "slice_put xs i v = (if 0 \<le> i \<and> i < int (length xs) then Some (xs[nat i := v]) else None)"

definition make_slice :: "int \<Rightarrow> 'a \<Rightarrow> 'a list option" where
  "make_slice n v = (if n < 0 then None else Some (replicate (nat n) v))"

section \<open>Sparse sets\<close>

record sparseSet =
  dense :: "int list"
  sparse :: "int list"

definition newSparseSet :: "int \<Rightarrow> sparseSet option" where
  "newSparseSet n = do { sp \<leftarrow> make_slice n 0; Some \<lparr>dense = [], sparse = sp\<rparr> }"

definition set_cap :: "sparseSet \<Rightarrow> int" where
  "set_cap s = int (length (sparse s))"

definition set_size :: "sparseSet \<Rightarrow> int" where
  "set_size s = int (length (dense s))"

definition set_contains :: "sparseSet \<Rightarrow> int \<Rightarrow> bool option" where
  "set_contains s x = do {
     i \<leftarrow> slice_get (sparse s) x;
     if i < int32 (int (length (dense s))) then do { y \<leftarrow> slice_get (dense s) i; Some (y = x) }
     else Some False }"

definition set_add :: "sparseSet \<Rightarrow> int \<Rightarrow> sparseSet option" where
  "set_add s x = do {
     found \<leftarrow> set_contains s x;
     if found then Some s
     else do {
       let d = dense s @ [x];
       sp \<leftarrow> slice_put (sparse s) x (int32 (int32 (int (length d)) - 1));
       Some \<lparr>dense = d, sparse = sp\<rparr> } }"

fun add_each :: "('s \<Rightarrow> int \<Rightarrow> 's option) \<Rightarrow> 's \<Rightarrow> int list \<Rightarrow> 's option" where
  "add_each f s [] = Some s"
| "add_each f s (x # a) = do { s' \<leftarrow> f s x; add_each f s' a }"

definition set_addAll :: "sparseSet \<Rightarrow> int list \<Rightarrow> sparseSet option" where
  "set_addAll s a = add_each set_add s a"

definition set_addAllValues :: "('v \<Rightarrow> int) \<Rightarrow> sparseSet \<Rightarrow> 'v list \<Rightarrow> sparseSet option" where
  "set_addAllValues ID s a = add_each set_add s (map ID a)"

definition set_remove :: "sparseSet \<Rightarrow> int \<Rightarrow> sparseSet option" where
  "set_remove s x = do {
     i \<leftarrow> slice_get (sparse s) x;
     found \<leftarrow> set_contains s x;
     if found then do {
       y \<leftarrow> slice_get (dense s) (int (length (dense s)) - 1);
       d \<leftarrow> slice_put (dense s) i y;
       sp \<leftarrow> slice_put (sparse s) y i;
       Some \<lparr>dense = take (length d - 1) d, sparse = sp\<rparr> }
     else Some s }"

definition set_pop :: "sparseSet \<Rightarrow> (int \<times> sparseSet) option" where
  "set_pop s = do {
     x \<leftarrow> slice_get (dense s) (int (length (dense s)) - 1);
     Some (x, s\<lparr>dense := take (length (dense s) - 1) (dense s)\<rparr>) }"

definition set_clear :: "sparseSet \<Rightarrow> sparseSet" where
  "set_clear s = s\<lparr>dense := []\<rparr>"

definition set_contents :: "sparseSet \<Rightarrow> int list" where
  "set_contents s = dense s"

section \<open>Sparse maps\<close>

record sparseEntry =
  key :: int
  val :: int

record sparseMap =
  mdense :: "sparseEntry list"
  msparse :: "int list"

definition newSparseMap :: "int \<Rightarrow> sparseMap option" where
  "newSparseMap n = do { sp \<leftarrow> make_slice n 0; Some \<lparr>mdense = [], msparse = sp\<rparr> }"

definition map_cap :: "sparseMap \<Rightarrow> int" where
  "map_cap s = int (length (msparse s))"

definition map_size :: "sparseMap \<Rightarrow> int" where
  "map_size s = int (length (mdense s))"

definition map_contains :: "sparseMap \<Rightarrow> int \<Rightarrow> bool option" where
  "map_contains s k = do {
     i \<leftarrow> slice_get (msparse s) k;
     if i < int32 (int (length (mdense s))) then do { e \<leftarrow> slice_get (mdense s) i; Some (key e = k) }
     else Some False }"

definition map_get :: "sparseMap \<Rightarrow> int \<Rightarrow> int option" where
  "map_get s k = do {
     i \<leftarrow> slice_get (msparse s) k;
     found \<leftarrow> map_contains s k;
     if found then do { e \<leftarrow> slice_get (mdense s) i; Some (val e) } else Some (- 1) }"

definition map_append :: "sparseMap \<Rightarrow> int \<Rightarrow> int \<Rightarrow> sparseMap option" where
  "map_append s k v = do {
     let d = mdense s @ [\<lparr>key = k, val = v\<rparr>];
     sp \<leftarrow> slice_put (msparse s) k (int32 (int32 (int (length d)) - 1));
     Some \<lparr>mdense = d, msparse = sp\<rparr> }"

definition map_set :: "sparseMap \<Rightarrow> int \<Rightarrow> int \<Rightarrow> sparseMap option" where
  "map_set s k v = do {
     i \<leftarrow> slice_get (msparse s) k;
     found \<leftarrow> map_contains s k;
     if found then do {
       e \<leftarrow> slice_get (mdense s) i;
       d \<leftarrow> slice_put (mdense s) i (e\<lparr>val := v\<rparr>);
       Some (s\<lparr>mdense := d\<rparr>) }
     else map_append s k v }"

definition map_setBit :: "sparseMap \<Rightarrow> int \<Rightarrow> nat \<Rightarrow> sparseMap option" where
  "map_setBit s k v = (if v \<ge> 32 then None else do {
     i \<leftarrow> slice_get (msparse s) k;
     found \<leftarrow> map_contains s k;
     if found then do {
       e \<leftarrow> slice_get (mdense s) i;
       d \<leftarrow> slice_put (mdense s) i (e\<lparr>val := val e OR int32 (2 ^ v)\<rparr>);
       Some (s\<lparr>mdense := d\<rparr>) }
     else map_append s k (int32 (2 ^ v)) })"

definition map_remove :: "sparseMap \<Rightarrow> int \<Rightarrow> sparseMap option" where
  "map_remove s k = do {
     i \<leftarrow> slice_get (msparse s) k;
     found \<leftarrow> map_contains s k;
     if found then do {
       y \<leftarrow> slice_get (mdense s) (int (length (mdense s)) - 1);
       d \<leftarrow> slice_put (mdense s) i y;
       sp \<leftarrow> slice_put (msparse s) (key y) i;
       Some \<lparr>mdense = take (length d - 1) d, msparse = sp\<rparr> }
     else Some s }"

definition map_clear :: "sparseMap \<Rightarrow> sparseMap" where
  "map_clear s = s\<lparr>mdense := []\<rparr>"

definition map_contents :: "sparseMap \<Rightarrow> sparseEntry list" where
  "map_contents s = mdense s"

section \<open>The linking of the two arrays\<close>

definition linked :: "int list \<Rightarrow> int list \<Rightarrow> bool" where
  "linked ks sp = (length sp < 2 ^ 31 \<and> list_all (\<lambda>i. 0 \<le> i) sp \<and>
     list_all (\<lambda>j. 0 \<le> ks ! j \<and> ks ! j < int (length sp) \<and> sp ! nat (ks ! j) = int j) [0..<length ks])"

lemma int32_id: "- (2 ^ 31) \<le> i \<Longrightarrow> i < 2 ^ 31 \<Longrightarrow> int32 i = i"
  unfolding int32_def by (intro signed_take_bit_int_eq_self) auto

lemma linkedD:
  assumes "linked ks sp"
  shows "length sp < 2 ^ 31" "\<And>i. i < length sp \<Longrightarrow> 0 \<le> sp ! i"
    "\<And>j. j < length ks \<Longrightarrow> 0 \<le> ks ! j" "\<And>j. j < length ks \<Longrightarrow> ks ! j < int (length sp)"
    "\<And>j. j < length ks \<Longrightarrow> sp ! nat (ks ! j) = int j"
  using assms by (auto simp: linked_def list_all_length)

lemma linkedI:
  assumes "length sp < 2 ^ 31" "\<And>i. i < length sp \<Longrightarrow> 0 \<le> sp ! i"
    "\<And>j. j < length ks \<Longrightarrow> 0 \<le> ks ! j \<and> ks ! j < int (length sp) \<and> sp ! nat (ks ! j) = int j"
  shows "linked ks sp"
  using assms by (auto simp: linked_def list_all_length)

lemma linked_distinct: "linked ks sp \<Longrightarrow> distinct ks"
  unfolding distinct_conv_nth by (metis linkedD(5) of_nat_eq_iff)

lemma linked_range: "linked ks sp \<Longrightarrow> x \<in> set ks \<Longrightarrow> 0 \<le> x \<and> x < int (length sp)"
  by (metis in_set_conv_nth linkedD(3,4))

lemma linked_length:
  assumes "linked ks sp"
  shows "length ks \<le> length sp"
proof -
  have "set ks \<subseteq> {0..<int (length sp)}" using linked_range [OF assms] by auto
  then have "card (set ks) \<le> card {0..<int (length sp)}" by (intro card_mono) auto
  then show ?thesis using linked_distinct [OF assms] by (simp add: distinct_card)
qed

lemma linked_int32: "linked ks sp \<Longrightarrow> int32 (int (length ks)) = int (length ks)"
  using linked_length [of ks sp] linkedD(1) [of ks sp] by (intro int32_id) auto

text \<open>Looking up the sparse array finds the position of a member.\<close>

lemma linked_lookup:
  assumes "linked ks sp" "0 \<le> x" "x < int (length sp)"
  shows "0 \<le> sp ! nat x" "sp ! nat x < int (length ks) \<and> ks ! nat (sp ! nat x) = x \<longleftrightarrow> x \<in> set ks"
proof -
  show "0 \<le> sp ! nat x" using linkedD(2) [OF assms(1), of "nat x"] assms by simp
  then show "sp ! nat x < int (length ks) \<and> ks ! nat (sp ! nat x) = x \<longleftrightarrow> x \<in> set ks"
    using linkedD(5) [OF assms(1)] by (auto simp: in_set_conv_nth intro!: exI [of _ "nat (sp ! nat x)"])
qed

lemma linked_append:
  assumes "linked ks sp" "0 \<le> x" "x < int (length sp)" "x \<notin> set ks"
  shows "linked (ks @ [x]) (sp[nat x := int (length ks)])"
proof -
  have "sp[nat x := int (length ks)] ! nat (ks ! j) = int j" if "j < length ks" for j
  proof -
    have "ks ! j \<noteq> x" using that assms(4) by auto
    then have "nat (ks ! j) \<noteq> nat x" using linkedD(3) [OF assms(1) that] assms(2) by simp
    then show ?thesis using linkedD(5) [OF assms(1) that] by simp
  qed
  then have "j < length (ks @ [x]) \<Longrightarrow> 0 \<le> (ks @ [x]) ! j \<and> (ks @ [x]) ! j < int (length sp) \<and>
      sp[nat x := int (length ks)] ! nat ((ks @ [x]) ! j) = int j" for j
    using assms(2,3) linkedD(3,4) [OF assms(1)] by (cases "j < length ks") (auto simp: nth_append less_Suc_eq)
  then show ?thesis
    using linkedD(1,2) [OF assms(1)] assms(2,3) by (intro linkedI) (auto simp: nth_list_update)
qed

lemma linked_butlast:
  assumes "linked ks sp"
  shows "linked (take n ks) sp"
  using assms by (auto simp: linked_def list_all_length)

lemma set_move_last:
  assumes "distinct ks" "i < length ks"
  shows "set (take (length ks - 1) (ks[i := ks ! (length ks - 1)])) = set ks - {ks ! i}"
proof -
  let ?l = "length ks - 1"
  let ?y = "ks ! ?l"
  have l: "?l < length ks" using assms(2) by simp
  have inj: "ks ! j = ks ! k \<longleftrightarrow> j = k" if "j < length ks" "k < length ks" for j k
    using assms(1) that by (simp add: nth_eq_iff_index_eq)
  show "set (take ?l (ks[i := ?y])) = set ks - {ks ! i}"
  proof (intro equalityI subsetI)
    fix z assume "z \<in> set (take ?l (ks[i := ?y]))"
    then obtain j where j: "j < ?l" "z = ks[i := ?y] ! j" by (auto simp: in_set_conv_nth)
    then show "z \<in> set ks - {ks ! i}"
      using inj [of j i] inj [of ?l i] assms(2) l by (cases "j = i") auto
  next
    fix z assume "z \<in> set ks - {ks ! i}"
    then obtain j where j: "j < length ks" "z = ks ! j" "j \<noteq> i" by (auto simp: in_set_conv_nth)
    show "z \<in> set (take ?l (ks[i := ?y]))"
    proof (cases "j = ?l")
      case True
      then have "i < ?l" using j assms(2) by simp
      then show ?thesis using j True by (auto simp: in_set_conv_nth intro!: exI [of _ i])
    next
      case False
      then have "j < ?l" using j by simp
      then show ?thesis using j by (auto simp: in_set_conv_nth intro!: exI [of _ j])
    qed
  qed
qed

lemma linked_move_last:
  assumes "linked ks sp" "i < length ks"
  shows "linked (take (length ks - 1) (ks[i := ks ! (length ks - 1)])) (sp[nat (ks ! (length ks - 1)) := int i])"
    "set (take (length ks - 1) (ks[i := ks ! (length ks - 1)])) = set ks - {ks ! i}"
proof -
  let ?l = "length ks - 1"
  let ?y = "ks ! ?l"
  have l: "?l < length ks" using assms(2) by simp
  note D = linkedD [OF assms(1)]
  have y: "0 \<le> ?y" "?y < int (length sp)" using D(3,4) l by auto
  have inj: "ks ! j = ks ! k \<longleftrightarrow> j = k" if "j < length ks" "k < length ks" for j k
    using linked_distinct [OF assms(1)] that by (simp add: nth_eq_iff_index_eq)
  have s: "sp[nat ?y := int i] ! nat (ks[i := ?y] ! j) = int j" if "j < ?l" for j
  proof (cases "j = i")
    case False
    have "ks ! j \<noteq> ?y" using inj that l by simp
    then have "nat (ks ! j) \<noteq> nat ?y" using D(3) [of j] y that l by (simp add: nat_eq_iff)
    then show ?thesis using False D(5) [of j] that by simp
  qed (use y that l in simp)
  have "j < ?l \<Longrightarrow> 0 \<le> ks[i := ?y] ! j \<and> ks[i := ?y] ! j < int (length sp) \<and>
      sp[nat ?y := int i] ! nat (ks[i := ?y] ! j) = int j" for j
    using s [of j] D(3,4) [of j] y l by (cases "j = i") auto
  then show "linked (take ?l (ks[i := ?y])) (sp[nat ?y := int i])"
    using D(1,2) y by (intro linkedI) (auto simp: nth_list_update)
  show "set (take ?l (ks[i := ?y])) = set ks - {ks ! i}"
    by (rule set_move_last [OF linked_distinct [OF assms(1)] assms(2)])
qed

section \<open>The interface of an integer set\<close>

text \<open>What the passes of the compiler rely on: a set of integers below a fixed capacity.\<close>

locale bounded_set =
  fixes wf :: "'s \<Rightarrow> bool" and elems :: "'s \<Rightarrow> int set" and capacity :: "'s \<Rightarrow> int"
    and has :: "'s \<Rightarrow> int \<Rightarrow> bool option" and put :: "'s \<Rightarrow> int \<Rightarrow> 's option"
    and del :: "'s \<Rightarrow> int \<Rightarrow> 's option"
  assumes has_iff: "\<lbrakk>wf s; 0 \<le> x; x < capacity s\<rbrakk> \<Longrightarrow> has s x = Some (x \<in> elems s)"
    and put_elems: "\<lbrakk>wf s; 0 \<le> x; x < capacity s\<rbrakk> \<Longrightarrow>
      \<exists>s'. put s x = Some s' \<and> wf s' \<and> capacity s' = capacity s \<and> elems s' = insert x (elems s)"
    and del_elems: "\<lbrakk>wf s; 0 \<le> x; x < capacity s\<rbrakk> \<Longrightarrow>
      \<exists>s'. del s x = Some s' \<and> wf s' \<and> capacity s' = capacity s \<and> elems s' = elems s - {x}"
    and out_of_range: "\<not> (0 \<le> x \<and> x < capacity s) \<Longrightarrow> has s x = None \<and> put s x = None \<and> del s x = None"
begin

lemma add_each_elems:
  "\<lbrakk>wf s; \<forall>x \<in> set a. 0 \<le> x \<and> x < capacity s\<rbrakk> \<Longrightarrow>
   \<exists>s'. add_each put s a = Some s' \<and> wf s' \<and> capacity s' = capacity s \<and> elems s' = elems s \<union> set a"
proof (induction a arbitrary: s)
  case (Cons x a)
  then obtain s1 where s1: "put s x = Some s1" "wf s1" "capacity s1 = capacity s" "elems s1 = insert x (elems s)"
    using put_elems [of s x] by auto
  then obtain s2 where "add_each put s1 a = Some s2" "wf s2" "capacity s2 = capacity s1" "elems s2 = elems s1 \<union> set a"
    using Cons.IH [of s1] Cons.prems by auto
  then show ?case using s1 by auto
qed simp

lemma add_each_panics:
  "\<lbrakk>wf s; x \<in> set a; \<not> (0 \<le> x \<and> x < capacity s)\<rbrakk> \<Longrightarrow> add_each put s a = None"
proof (induction a arbitrary: s)
  case (Cons z a)
  show ?case
  proof (cases "0 \<le> z \<and> z < capacity s")
    case True
    then obtain s1 where "put s z = Some s1" "wf s1" "capacity s1 = capacity s"
      using put_elems [of s z] Cons.prems by auto
    then show ?thesis using Cons True by auto
  qed (simp add: out_of_range)
qed simp

lemma put_del:
  assumes "wf s" "0 \<le> x" "x < capacity s" "x \<notin> elems s"
  shows "\<exists>s1 s2. put s x = Some s1 \<and> del s1 x = Some s2 \<and> elems s2 = elems s"
  using put_elems [OF assms(1-3)] del_elems assms by force

end

definition set_wf :: "sparseSet \<Rightarrow> bool" where
  "set_wf s = linked (dense s) (sparse s)"

definition set_elems :: "sparseSet \<Rightarrow> int set" where
  "set_elems s = set (dense s)"

lemma slice_get_in [simp]: "0 \<le> i \<Longrightarrow> i < int (length xs) \<Longrightarrow> slice_get xs i = Some (xs ! nat i)"
  by (simp add: slice_get_def)

lemma slice_put_in [simp]: "0 \<le> i \<Longrightarrow> i < int (length xs) \<Longrightarrow> slice_put xs i v = Some (xs[nat i := v])"
  by (simp add: slice_put_def)

lemma slice_get_last [simp]:
  "xs \<noteq> [] \<Longrightarrow> slice_get xs (int (length xs) - 1) = Some (xs ! (length xs - 1))"
  by (cases xs) (simp_all add: slice_get_def)

lemma nat_last_index [simp]: "xs \<noteq> [] \<Longrightarrow> nat (int (length xs) - 1) = length xs - 1"
  by (cases xs) simp_all

lemma set_contains_linked:
  assumes "linked (dense s) (sparse s)" "0 \<le> x" "x < set_cap s"
  shows "set_contains s x = Some (x \<in> set (dense s))"
  using linked_lookup [OF assms(1,2)] linked_int32 [OF assms(1)] assms(2,3)
  by (auto simp: set_contains_def set_cap_def)

lemma int32_last:
  "linked ks sp \<Longrightarrow> 0 \<le> x \<Longrightarrow> x < int (length sp) \<Longrightarrow> x \<notin> set ks \<Longrightarrow>
   int32 (int32 (int (length (ks @ [x]))) - 1) = int (length ks)"
  using linked_length [OF linked_append, of ks sp x] linkedD(1) [of ks sp]
  by (simp add: int32_id)

lemma set_add_linked:
  assumes "linked (dense s) (sparse s)" "0 \<le> x" "x < set_cap s" "x \<notin> set (dense s)"
  shows "set_add s x = Some \<lparr>dense = dense s @ [x], sparse = (sparse s)[nat x := int (length (dense s))]\<rparr>"
  using int32_last [OF assms(1,2) _ assms(4)] set_contains_linked [OF assms(1-3)] assms
  by (simp add: set_add_def set_cap_def Let_def)

interpretation sset: bounded_set set_wf set_elems set_cap set_contains set_add set_remove
proof
  fix s x
  assume w: "set_wf s" "0 \<le> x" "x < set_cap s"
  then have l: "linked (dense s) (sparse s)" by (simp add: set_wf_def)
  note c = set_contains_linked [OF l w(2,3)]
  show "set_contains s x = Some (x \<in> set_elems s)" by (simp add: c set_elems_def)
  show "\<exists>s'. set_add s x = Some s' \<and> set_wf s' \<and> set_cap s' = set_cap s \<and> set_elems s' = insert x (set_elems s)"
  proof (cases "x \<in> set (dense s)")
    case True
    then show ?thesis using w by (auto simp: set_add_def c set_elems_def)
  next
    case False
    then show ?thesis
      using set_add_linked [OF l w(2,3)] linked_append [OF l w(2)] w
      by (simp add: set_wf_def set_elems_def set_cap_def)
  qed
  show "\<exists>s'. set_remove s x = Some s' \<and> set_wf s' \<and> set_cap s' = set_cap s \<and> set_elems s' = set_elems s - {x}"
  proof (cases "x \<in> set (dense s)")
    case True
    define i where "i = sparse s ! nat x"
    have i: "0 \<le> i" "i < int (length (dense s))" "dense s ! nat i = x"
      using linked_lookup [OF l w(2)] w(3) True by (auto simp: i_def set_cap_def)
    then have n: "nat i < length (dense s)" and ne: "dense s \<noteq> []" by auto
    have y: "0 \<le> dense s ! (length (dense s) - 1)" "dense s ! (length (dense s) - 1) < int (length (sparse s))"
      using linkedD(3,4) [OF l, of "length (dense s) - 1"] n by auto
    note m = linked_move_last [OF l n]
    show ?thesis
      using m y i ne c True w
      by (simp add: set_remove_def set_wf_def set_elems_def set_cap_def i_def)
  qed (use w in \<open>simp add: set_remove_def c set_elems_def set_cap_def\<close>)
next
  fix x s
  assume "\<not> (0 \<le> x \<and> x < set_cap s)"
  then show "set_contains s x = None \<and> set_add s x = None \<and> set_remove s x = None"
    by (auto simp: set_contains_def set_add_def set_remove_def slice_get_def set_cap_def)
qed

section \<open>The interface of an integer map\<close>

locale bounded_map =
  fixes wf :: "'s \<Rightarrow> bool" and lookup :: "'s \<Rightarrow> int \<Rightarrow> int option" and capacity :: "'s \<Rightarrow> int"
    and get :: "'s \<Rightarrow> int \<Rightarrow> int option" and upd :: "'s \<Rightarrow> int \<Rightarrow> int \<Rightarrow> 's option"
    and del :: "'s \<Rightarrow> int \<Rightarrow> 's option"
  assumes get_lookup: "\<lbrakk>wf s; 0 \<le> k; k < capacity s\<rbrakk> \<Longrightarrow>
      get s k = Some (case lookup s k of None \<Rightarrow> - 1 | Some v \<Rightarrow> v)"
    and upd_lookup: "\<lbrakk>wf s; 0 \<le> k; k < capacity s\<rbrakk> \<Longrightarrow>
      \<exists>s'. upd s k v = Some s' \<and> wf s' \<and> capacity s' = capacity s \<and> lookup s' = (lookup s)(k \<mapsto> v)"
    and del_lookup: "\<lbrakk>wf s; 0 \<le> k; k < capacity s\<rbrakk> \<Longrightarrow>
      \<exists>s'. del s k = Some s' \<and> wf s' \<and> capacity s' = capacity s \<and> lookup s' = (lookup s)(k := None)"
begin

lemma get_upd:
  assumes "wf s" "0 \<le> k" "k < capacity s" "0 \<le> k'" "k' < capacity s"
  shows "\<exists>s'. upd s k v = Some s' \<and> get s' k' = (if k' = k then Some v else get s k')"
  using upd_lookup [OF assms(1-3)] get_lookup assms by fastforce

lemma get_del:
  assumes "wf s" "0 \<le> k" "k < capacity s" "0 \<le> k'" "k' < capacity s"
  shows "\<exists>s'. del s k = Some s' \<and> get s' k' = (if k' = k then Some (- 1) else get s k')"
  using del_lookup [OF assms(1-3)] get_lookup assms by fastforce

end

definition map_wf :: "sparseMap \<Rightarrow> bool" where
  "map_wf s = linked (map key (mdense s)) (msparse s)"

definition map_lookup :: "sparseMap \<Rightarrow> int \<Rightarrow> int option" where
  "map_lookup s = map_of (map (\<lambda>e. (key e, val e)) (mdense s))"

lemma map_lookup_nth:
  assumes "distinct (map key es)" "i < length es"
  shows "map_of (map (\<lambda>e. (key e, val e)) es) (key (es ! i)) = Some (val (es ! i))"
  using assms by (intro map_of_is_SomeI) (auto simp: comp_def)

lemma map_lookup_None: "map_of (map (\<lambda>e. (key e, val e)) es) k = None \<longleftrightarrow> k \<notin> key ` set es"
  by (force simp: map_of_eq_None_iff)

text \<open>With distinct keys a map is determined by the set of its entries.\<close>

lemma map_lookup_eqI:
  assumes "distinct (map key es)" "\<And>k v. m k = Some v \<longleftrightarrow> (\<exists>e \<in> set es. key e = k \<and> val e = v)"
  shows "map_of (map (\<lambda>e. (key e, val e)) es) = m"
proof
  fix k
  have "map_of (map (\<lambda>e. (key e, val e)) es) k = Some v \<longleftrightarrow> m k = Some v" for v
    using assms by (subst map_of_eq_Some_iff) (auto simp: comp_def)
  then show "map_of (map (\<lambda>e. (key e, val e)) es) k = m k" by (metis option.exhaust)
qed

lemma map_contains_linked:
  assumes "map_wf s" "0 \<le> k" "k < map_cap s"
  shows "map_contains s k = Some (k \<in> key ` set (mdense s))"
    "k \<in> key ` set (mdense s) \<Longrightarrow>
      0 \<le> msparse s ! nat k \<and> msparse s ! nat k < int (length (mdense s)) \<and>
      key (mdense s ! nat (msparse s ! nat k)) = k"
proof -
  have l: "linked (map key (mdense s)) (msparse s)" using assms(1) by (simp add: map_wf_def)
  have c: "k < int (length (msparse s))" using assms(3) by (simp add: map_cap_def)
  note L = linked_lookup [OF l assms(2) c]
  show "map_contains s k = Some (k \<in> key ` set (mdense s))"
    using L linked_int32 [OF l] assms(2) c by (auto simp: map_contains_def nat_less_iff)
  show "k \<in> key ` set (mdense s) \<Longrightarrow>
      0 \<le> msparse s ! nat k \<and> msparse s ! nat k < int (length (mdense s)) \<and>
      key (mdense s ! nat (msparse s ! nat k)) = k"
    using L by (auto simp: nat_less_iff)
qed

lemma lookup_iff:
  "distinct (map key es) \<Longrightarrow>
   map_of (map (\<lambda>e. (key e, val e)) es) k = Some v \<longleftrightarrow> (\<exists>e \<in> set es. key e = k \<and> val e = v)"
  by (subst map_of_eq_Some_iff) (auto simp: comp_def)

lemma same_key: "distinct (map key es) \<Longrightarrow> e \<in> set es \<Longrightarrow> e' \<in> set es \<Longrightarrow> key e = key e' \<Longrightarrow> e = e'"
  by (auto simp: distinct_map dest: inj_onD)

lemma lookup_update:
  assumes "distinct (map key es)" "i < length es"
  shows "map_of (map (\<lambda>e. (key e, val e)) (es[i := (es ! i)\<lparr>val := v\<rparr>])) =
    (map_of (map (\<lambda>e. (key e, val e)) es))(key (es ! i) \<mapsto> v)"
proof (rule map_lookup_eqI)
  have k: "map key (es[i := (es ! i)\<lparr>val := v\<rparr>]) = map key es"
    using assms(2) by (metis list_update_id map_update nth_map sparseEntry.select_convs(1) sparseEntry.surjective sparseEntry.update_convs(2))
  then show "distinct (map key (es[i := (es ! i)\<lparr>val := v\<rparr>]))" using assms(1) by simp
  have s: "set (es[i := (es ! i)\<lparr>val := v\<rparr>]) = insert ((es ! i)\<lparr>val := v\<rparr>) (set es - {es ! i})"
    using assms by (intro set_update_distinct) (auto simp: distinct_map)
  show "((map_of (map (\<lambda>e. (key e, val e)) es))(key (es ! i) \<mapsto> v)) k' = Some v' \<longleftrightarrow>
      (\<exists>e \<in> set (es[i := (es ! i)\<lparr>val := v\<rparr>]). key e = k' \<and> val e = v')" for k' v'
    unfolding s using lookup_iff [OF assms(1), of k' v'] same_key [OF assms(1), of _ "es ! i"] assms(2) by auto
qed

lemma lookup_append:
  assumes "k \<notin> key ` set es"
  shows "map_of (map (\<lambda>e. (key e, val e)) (es @ [\<lparr>key = k, val = v\<rparr>])) =
    (map_of (map (\<lambda>e. (key e, val e)) es))(k \<mapsto> v)"
  using assms map_lookup_None [of es k] by (auto simp: map_add_def fun_eq_iff split: option.split)

lemma lookup_remove:
  assumes "distinct (map key es)" "i < length es"
  shows "map_of (map (\<lambda>e. (key e, val e)) (take (length es - 1) (es[i := es ! (length es - 1)]))) =
    (map_of (map (\<lambda>e. (key e, val e)) es))(key (es ! i) := None)"
proof (rule map_lookup_eqI)
  let ?t = "take (length es - 1) (es[i := es ! (length es - 1)])"
  have d: "distinct es" using assms(1) by (simp add: distinct_map)
  have s: "set ?t = set es - {es ! i}" by (rule set_move_last [OF d assms(2)])
  have "card (set ?t) = length es - 1" using s d assms(2) by (simp add: distinct_card)
  then have "distinct ?t" by (intro card_distinct) simp
  then show "distinct (map key ?t)"
    using assms(1) s by (auto simp: distinct_map inj_on_def)
  show "((map_of (map (\<lambda>e. (key e, val e)) es))(key (es ! i) := None)) k' = Some v' \<longleftrightarrow>
      (\<exists>e \<in> set ?t. key e = k' \<and> val e = v')" for k' v'
    unfolding s using lookup_iff [OF assms(1), of k' v'] same_key [OF assms(1), of _ "es ! i"] assms(2) by auto
qed

lemma map_append_linked:
  assumes "map_wf s" "0 \<le> k" "k < map_cap s" "k \<notin> key ` set (mdense s)"
  shows "\<exists>s'. map_append s k v = Some s' \<and> map_wf s' \<and> map_cap s' = map_cap s \<and>
    map_lookup s' = (map_lookup s)(k \<mapsto> v)"
proof -
  have l: "linked (map key (mdense s)) (msparse s)" using assms(1) by (simp add: map_wf_def)
  have c: "k < int (length (msparse s))" using assms(3) by (simp add: map_cap_def)
  have n: "k \<notin> set (map key (mdense s))" using assms(4) by simp
  show ?thesis
    using linked_append [OF l assms(2) c n] int32_last [OF l assms(2) c n] lookup_append [OF assms(4), of v] assms(2) c
    by (simp add: map_append_def Let_def map_wf_def map_cap_def map_lookup_def)
qed

lemma map_found:
  assumes "map_wf s" "0 \<le> k" "k < map_cap s" "k \<in> key ` set (mdense s)"
  obtains i where "i < length (mdense s)" "key (mdense s ! i) = k" "slice_get (msparse s) k = Some (int i)"
    "map_contains s k = Some True"
  using map_contains_linked [OF assms(1-3)] assms(2-4) that [of "nat (msparse s ! nat k)"]
  by (simp add: map_cap_def nat_less_iff)

lemma map_wf_distinct: "map_wf s \<Longrightarrow> distinct (map key (mdense s))"
  by (simp add: map_wf_def linked_distinct)

lemma map_set_val:
  assumes "map_wf s" "i < length (mdense s)"
  shows "map_wf (s\<lparr>mdense := (mdense s)[i := (mdense s ! i)\<lparr>val := v\<rparr>]\<rparr>)"
    "map_lookup (s\<lparr>mdense := (mdense s)[i := (mdense s ! i)\<lparr>val := v\<rparr>]\<rparr>) =
      (map_lookup s)(key (mdense s ! i) \<mapsto> v)"
proof -
  have "map key ((mdense s)[i := (mdense s ! i)\<lparr>val := v\<rparr>]) = map key (mdense s)"
    using assms(2) by (metis list_update_id map_update nth_map sparseEntry.select_convs(1)
        sparseEntry.surjective sparseEntry.update_convs(2))
  then show "map_wf (s\<lparr>mdense := (mdense s)[i := (mdense s ! i)\<lparr>val := v\<rparr>]\<rparr>)"
    using assms(1) by (simp add: map_wf_def)
  show "map_lookup (s\<lparr>mdense := (mdense s)[i := (mdense s ! i)\<lparr>val := v\<rparr>]\<rparr>) =
      (map_lookup s)(key (mdense s ! i) \<mapsto> v)"
    using lookup_update [OF map_wf_distinct [OF assms(1)] assms(2)] by (simp add: map_lookup_def)
qed

lemma map_missing:
  assumes "map_wf s" "0 \<le> k" "k < map_cap s" "k \<notin> key ` set (mdense s)"
  shows "slice_get (msparse s) k = Some (msparse s ! nat k)" "map_contains s k = Some False" "map_lookup s k = None"
  using map_contains_linked(1) [OF assms(1-3)] assms map_lookup_None [of "mdense s" k]
  by (simp_all add: map_cap_def map_lookup_def)

interpretation smap: bounded_map map_wf map_lookup map_cap map_get map_set map_remove
proof
  fix s k v
  assume w: "map_wf s" "0 \<le> k" "k < map_cap s"
  show "map_get s k = Some (case map_lookup s k of None \<Rightarrow> - 1 | Some v \<Rightarrow> v)"
  proof (cases "k \<in> key ` set (mdense s)")
    case True
    then obtain i where "i < length (mdense s)" "key (mdense s ! i) = k" "slice_get (msparse s) k = Some (int i)"
      "map_contains s k = Some True" using map_found [OF w] by blast
    then show ?thesis
      using map_lookup_nth [OF map_wf_distinct [OF w(1)], of i] by (simp add: map_get_def map_lookup_def)
  qed (simp add: map_get_def map_missing [OF w])
  show "\<exists>s'. map_set s k v = Some s' \<and> map_wf s' \<and> map_cap s' = map_cap s \<and> map_lookup s' = (map_lookup s)(k \<mapsto> v)"
  proof (cases "k \<in> key ` set (mdense s)")
    case True
    then obtain i where "i < length (mdense s)" "key (mdense s ! i) = k" "slice_get (msparse s) k = Some (int i)"
      "map_contains s k = Some True" using map_found [OF w] by blast
    then show ?thesis using map_set_val [OF w(1), of i v] by (simp add: map_set_def map_cap_def)
  qed (simp add: map_set_def map_missing [OF w] map_append_linked [OF w])
  show "\<exists>s'. map_remove s k = Some s' \<and> map_wf s' \<and> map_cap s' = map_cap s \<and> map_lookup s' = (map_lookup s)(k := None)"
  proof (cases "k \<in> key ` set (mdense s)")
    case True
    then obtain i where i: "i < length (mdense s)" "key (mdense s ! i) = k" "slice_get (msparse s) k = Some (int i)"
      "map_contains s k = Some True" using map_found [OF w] by blast
    have l: "linked (map key (mdense s)) (msparse s)" using w(1) by (simp add: map_wf_def)
    have n: "i < length (map key (mdense s))" and ne: "mdense s \<noteq> []" using i(1) by auto
    have y: "0 \<le> key (mdense s ! (length (mdense s) - 1))"
      "key (mdense s ! (length (mdense s) - 1)) < int (length (msparse s))"
      using linkedD(3,4) [OF l, of "length (mdense s) - 1"] i(1) by auto
    have "map key ((mdense s)[i := mdense s ! (length (mdense s) - 1)]) =
        (map key (mdense s))[i := map key (mdense s) ! (length (mdense s) - 1)]"
      using ne by (simp add: map_update)
    then have "linked (map key (take (length (mdense s) - 1) ((mdense s)[i := mdense s ! (length (mdense s) - 1)])))
        ((msparse s)[nat (key (mdense s ! (length (mdense s) - 1))) := int i])"
      using linked_move_last(1) [OF l n] ne by (simp add: take_map [symmetric])
    then show ?thesis
      using i y ne lookup_remove [OF map_wf_distinct [OF w(1)] i(1)]
      by (simp add: map_remove_def map_wf_def map_cap_def map_lookup_def)
  qed (use map_missing [OF w] w in \<open>simp add: map_remove_def fun_upd_idem\<close>)
qed

section \<open>The properties\<close>

lemma set_pop_linked:
  assumes "set_wf s"
  shows "(dense s = [] \<longrightarrow> set_pop s = None) \<and>
    (dense s \<noteq> [] \<longrightarrow> (\<exists>x s'. set_pop s = Some (x, s') \<and> x \<in> set_elems s \<and> set_wf s' \<and>
       set_cap s' = set_cap s \<and> set_elems s' = set_elems s - {x}))"
proof (cases "dense s = []")
  case False
  let ?l = "length (dense s) - 1"
  have "set (take ?l (dense s)) = set (dense s) - {dense s ! ?l}"
    using set_move_last [OF linked_distinct, of "dense s" "sparse s" ?l] assms False
    by (simp add: set_wf_def)
  then show ?thesis
    using False assms linked_butlast [of "dense s" "sparse s"]
    by (simp add: set_pop_def set_wf_def set_elems_def set_cap_def)
qed (simp add: set_pop_def slice_get_def)

text \<open>The states a set goes through: any sequence of the operations.\<close>

inductive set_step :: "sparseSet \<Rightarrow> sparseSet \<Rightarrow> bool" where
  add: "set_add s x = Some s' \<Longrightarrow> set_step s s'"
| addAll: "set_addAll s a = Some s' \<Longrightarrow> set_step s s'"
| remove: "set_remove s x = Some s' \<Longrightarrow> set_step s s'"
| pop: "set_pop s = Some (x, s') \<Longrightarrow> set_step s s'"
| clear: "set_step s (set_clear s)"

lemma set_in_range:
  "set_add s x = Some s' \<Longrightarrow> 0 \<le> x \<and> x < set_cap s"
  "set_remove s x = Some s' \<Longrightarrow> 0 \<le> x \<and> x < set_cap s"
  using sset.out_of_range [of x s] by (metis option.distinct(1))+

lemma set_addAll_range: "set_wf s \<Longrightarrow> set_addAll s a = Some s' \<Longrightarrow> \<forall>x \<in> set a. 0 \<le> x \<and> x < set_cap s"
  using sset.add_each_panics [of s _ a] by (auto simp: set_addAll_def)

lemma set_step_wf:
  assumes "set_step s s'" "set_wf s"
  shows "set_wf s' \<and> set_cap s' = set_cap s"
  using assms
proof cases
  case (add x)
  then show ?thesis using sset.put_elems [OF assms(2)] set_in_range(1) by force
next
  case (addAll a)
  then show ?thesis
    using sset.add_each_elems [OF assms(2) set_addAll_range [OF assms(2)]] by (force simp: set_addAll_def)
next
  case (remove x)
  then show ?thesis using sset.del_elems [OF assms(2)] set_in_range(2) by force
next
  case (pop x)
  then show ?thesis using set_pop_linked [OF assms(2)] by (cases "dense s = []") auto
next
  case clear
  then show ?thesis using assms(2) by (auto simp: set_clear_def set_wf_def set_cap_def linked_def)
qed

lemma newSparseSet_wf:
  "0 \<le> n \<Longrightarrow> n < 2 ^ 31 \<Longrightarrow> \<exists>s. newSparseSet n = Some s \<and> set_wf s \<and> set_cap s = n \<and> set_elems s = {}"
  by (auto simp: newSparseSet_def make_slice_def set_wf_def linked_def list_all_length set_cap_def set_elems_def
      nat_less_iff)

text \<open>C17: Whatever operations follow newSparseSet, the two arrays of a sparse set stay linked: every element is below the capacity, and the sparse array holds its position.  The 32-bit positions do not overflow for capacities below 2^31.\<close>

theorem sparse_set_well_formed:
  assumes "newSparseSet n = Some s0" "n < 2 ^ 31" "set_step\<^sup>*\<^sup>* s0 s"
  shows "set_wf s \<and> set_cap s = n"
  using assms(3)
proof induction
  case base
  have "0 \<le> n" using assms(1) by (auto simp: newSparseSet_def make_slice_def split: if_splits)
  then show ?case using newSparseSet_wf assms(1,2) by fastforce
next
  case (step y z)
  then show ?case using set_step_wf by blast
qed

theorem sparse_set_well_formed_witness:
  "\<exists>s0 s. newSparseSet 4 = Some s0 \<and> set_step\<^sup>*\<^sup>* s0 s \<and> set_contents s = [2] \<and> set_wf s \<and> set_cap s = 4"
proof -
  let ?a = "\<lparr>dense = [], sparse = [0, 0, 0, 0]\<rparr>"
  let ?b = "\<lparr>dense = [2], sparse = [0, 0, 0, 0]\<rparr>"
  have n: "newSparseSet 4 = Some ?a" by (simp add: newSparseSet_def make_slice_def numeral_eq_Suc)
  have "set_add ?a 2 = Some ?b"
    by (simp add: set_add_def set_contains_def slice_get_def slice_put_def int32_def Let_def numeral_eq_Suc)
  then have r: "set_step\<^sup>*\<^sup>* ?a ?b" by (intro r_into_rtranclp set_step.add)
  show ?thesis using sparse_set_well_formed [OF n _ r] n r by (auto simp: set_contents_def)
qed

text \<open>C18: A sparse set behaves as a finite set of the integers below its capacity: contains, add, addAll, remove and clear are the operations on sets, contents lists the elements without repetition, and an integer out of range is a panic.\<close>

theorem sparse_set_refines:
  assumes "set_wf s"
  shows "(\<forall>x. \<not> (0 \<le> x \<and> x < set_cap s) \<longrightarrow>
      set_contains s x = None \<and> set_add s x = None \<and> set_remove s x = None) \<and>
    (\<forall>x. 0 \<le> x \<and> x < set_cap s \<longrightarrow>
      set_contains s x = Some (x \<in> set_elems s) \<and>
      map_option set_elems (set_add s x) = Some (insert x (set_elems s)) \<and>
      map_option set_elems (set_remove s x) = Some (set_elems s - {x})) \<and>
    (\<forall>a. set a \<subseteq> {0..<set_cap s} \<longrightarrow>
      map_option set_elems (set_addAll s a) = Some (set_elems s \<union> set a)) \<and>
    set_elems (set_clear s) = {} \<and> set (set_contents s) = set_elems s \<and> distinct (set_contents s) \<and>
    set_size s = int (card (set_elems s))"
proof (intro conjI allI impI)
  fix x assume "\<not> (0 \<le> x \<and> x < set_cap s)"
  then show "set_contains s x = None" "set_add s x = None" "set_remove s x = None"
    using sset.out_of_range [of x s] by auto
next
  fix x assume x: "0 \<le> x \<and> x < set_cap s"
  then show "set_contains s x = Some (x \<in> set_elems s)" using sset.has_iff [OF assms] by auto
  show "map_option set_elems (set_add s x) = Some (insert x (set_elems s))"
    using sset.put_elems [OF assms] x by auto
  show "map_option set_elems (set_remove s x) = Some (set_elems s - {x})"
    using sset.del_elems [OF assms] x by auto
next
  fix a assume "set a \<subseteq> {0..<set_cap s}"
  then show "map_option set_elems (set_addAll s a) = Some (set_elems s \<union> set a)"
    using sset.add_each_elems [OF assms, of a] by (force simp: set_addAll_def)
next
  show "distinct (set_contents s)" using assms linked_distinct by (auto simp: set_wf_def set_contents_def)
  then show "set_size s = int (card (set_elems s))"
    by (simp add: set_size_def set_elems_def set_contents_def distinct_card)
qed (simp_all add: set_clear_def set_elems_def set_contents_def)

lemma map_setBit_lookup:
  assumes "map_wf s" "0 \<le> k" "k < map_cap s" "v < 32"
  shows "\<exists>s'. map_setBit s k v = Some s' \<and> map_wf s' \<and> map_cap s' = map_cap s \<and>
    map_lookup s' = (map_lookup s)(k \<mapsto> (case map_lookup s k of None \<Rightarrow> 0 | Some u \<Rightarrow> u) OR int32 (2 ^ v))"
proof (cases "k \<in> key ` set (mdense s)")
  case True
  then obtain i where i: "i < length (mdense s)" "key (mdense s ! i) = k" "slice_get (msparse s) k = Some (int i)"
    "map_contains s k = Some True" using map_found [OF assms(1-3)] by blast
  have "map_lookup s k = Some (val (mdense s ! i))"
    using map_lookup_nth [OF map_wf_distinct [OF assms(1)] i(1)] i(2) by (simp add: map_lookup_def)
  then show ?thesis
    using i assms(4) map_set_val [OF assms(1) i(1), of "val (mdense s ! i) OR int32 (2 ^ v)"]
    by (simp add: map_setBit_def map_cap_def)
qed (use assms(4) map_append_linked [OF assms(1-3)] in \<open>simp add: map_setBit_def map_missing [OF assms(1-3)]\<close>)

text \<open>C19: get after set returns the value that was set and leaves the other keys alone; get after remove returns -1; setBit sets a bit of the value, from zero where there is none, and panics from bit 32 on.\<close>

theorem sparse_map_get:
  assumes "map_wf s" "0 \<le> k" "k < map_cap s" "0 \<le> k'" "k' < map_cap s"
  shows "(\<exists>s'. map_set s k v = Some s' \<and> map_wf s' \<and> map_get s' k' = (if k' = k then Some v else map_get s k')) \<and>
    (\<exists>s'. map_remove s k = Some s' \<and> map_wf s' \<and> map_get s' k' = (if k' = k then Some (- 1) else map_get s k')) \<and>
    (b < 32 \<longrightarrow> (\<exists>s'. map_setBit s k b = Some s' \<and> map_wf s' \<and>
       map_lookup s' = (map_lookup s)(k \<mapsto> (case map_lookup s k of None \<Rightarrow> 0 | Some u \<Rightarrow> u) OR int32 (2 ^ b)))) \<and>
    (32 \<le> b \<longrightarrow> map_setBit s k b = None)"
proof (intro conjI impI)
  show "\<exists>s'. map_set s k v = Some s' \<and> map_wf s' \<and> map_get s' k' = (if k' = k then Some v else map_get s k')"
    using smap.get_upd [OF assms, of v] smap.upd_lookup [OF assms(1-3), of v] by auto
  show "\<exists>s'. map_remove s k = Some s' \<and> map_wf s' \<and> map_get s' k' = (if k' = k then Some (- 1) else map_get s k')"
    using smap.get_del [OF assms] smap.del_lookup [OF assms(1-3)] by auto
qed (use map_setBit_lookup [OF assms(1-3)] in \<open>auto simp: map_setBit_def\<close>)

theorem sparse_map_get_witness:
  "\<exists>s s' r. newSparseMap 3 = Some s \<and> map_set s 2 7 = Some s' \<and> map_get s' 2 = Some 7 \<and> map_get s' 1 = Some (- 1) \<and>
     map_setBit s 2 40 = None"
proof -
  let ?s = "\<lparr>mdense = [], msparse = [0, 0, 0]\<rparr>"
  have n: "newSparseMap 3 = Some ?s" by (simp add: newSparseMap_def make_slice_def numeral_eq_Suc)
  have w: "map_wf ?s" "map_cap ?s = 3" by (simp_all add: map_wf_def linked_def map_cap_def)
  have "map_get ?s 1 = Some (- 1)"
    by (simp add: map_get_def map_contains_def slice_get_def int32_def)
  then show ?thesis
    using sparse_map_get [OF w(1), of 2 2 7 40] sparse_map_get [OF w(1), of 2 1 7 40] n w(2) by auto
qed

theorem sparse_set_refines_witness:
  "\<exists>s. newSparseSet 4 = Some s \<and> set_contains s 2 = Some False \<and> map_option set_elems (set_add s 2) = Some {2} \<and>
     set_contains s 4 = None"
proof -
  obtain s where s: "newSparseSet 4 = Some s" "set_wf s" "set_cap s = 4" "set_elems s = {}"
    using newSparseSet_wf [of 4] by auto
  show ?thesis using sparse_set_refines [OF s(2)] s by auto
qed

end
