(* ===== verification/Bit_Vectors.thy ===== *)
theory Bit_Vectors
  imports Sparse "HOL-Library.Signed_Division"
begin

text \<open>
  The bit vectors of the liveness analyses (\<open>bitvec/bv.go\<close>) over 32-bit words, with the prefix \<open>bv\<close> on the
  names of the methods.  Methods that write through their receiver return the new vector.  A call of
  \<open>base.Fatalf\<close> and an index out of range are \<^const>\<open>None\<close>.  The vectors implement the interface \<open>bounded_set\<close>.
\<close>

section \<open>Vectors and operations\<close>

record BitVec =
  bvN :: int
  bvB :: "32 word list"

definition bvNew :: "int \<Rightarrow> BitVec option" where
  "bvNew n = do {
     let nword = int32 (n + 31) sdiv 32;
     b \<leftarrow> make_slice nword 0;
     Some \<lparr>bvN = n, bvB = b\<rparr> }"

record Bulk =
  bwords :: "32 word list"
  nbit :: int
  nword :: int

definition NewBulk :: "int \<Rightarrow> int \<Rightarrow> Bulk option" where
  "NewBulk nb count = (
     let nw = int32 (nb + 31) sdiv 32;
         size = nw * count
     in if int32 (size * 4) \<noteq> size * 4 then None
        else do { ws \<leftarrow> make_slice size 0; Some \<lparr>bwords = ws, nbit = nb, nword = nw\<rparr> })"

definition Bulk_Next :: "Bulk \<Rightarrow> (BitVec \<times> Bulk) option" where
  "Bulk_Next b = (if 0 \<le> nword b \<and> nword b \<le> int (length (bwords b))
     then Some (\<lparr>bvN = nbit b, bvB = take (nat (nword b)) (bwords b)\<rparr>,
                b\<lparr>bwords := drop (nat (nword b)) (bwords b)\<rparr>)
     else None)"

fun eq_words :: "32 word list \<Rightarrow> 32 word list \<Rightarrow> bool option" where
  "eq_words [] ys = Some True"
| "eq_words (x # xs) [] = None"
| "eq_words (x # xs) (y # ys) = (if x \<noteq> y then Some False else eq_words xs ys)"

definition bvEq :: "BitVec \<Rightarrow> BitVec \<Rightarrow> bool option" where
  "bvEq bv1 bv2 = (if bvN bv1 \<noteq> bvN bv2 then None else eq_words (bvB bv1) (bvB bv2))"

definition bvCopy :: "BitVec \<Rightarrow> BitVec \<Rightarrow> BitVec" where
  "bvCopy dst src = (let n = min (length (bvB dst)) (length (bvB src))
     in dst\<lparr>bvB := take n (bvB src) @ drop n (bvB dst)\<rparr>)"

definition bit_mask :: "int \<Rightarrow> 32 word" where
  "bit_mask i = push_bit (nat (i mod 32)) 1"

definition bvGet :: "BitVec \<Rightarrow> int \<Rightarrow> bool option" where
  "bvGet bv i = (if i < 0 \<or> i \<ge> bvN bv then None
     else do { w \<leftarrow> slice_get (bvB bv) (i div 32); Some (w AND bit_mask i \<noteq> 0) })"

definition bvSet :: "BitVec \<Rightarrow> int \<Rightarrow> BitVec option" where
  "bvSet bv i = (if i < 0 \<or> i \<ge> bvN bv then None
     else do { w \<leftarrow> slice_get (bvB bv) (i div 32);
               b \<leftarrow> slice_put (bvB bv) (i div 32) (w OR bit_mask i);
               Some (bv\<lparr>bvB := b\<rparr>) })"

definition bvUnset :: "BitVec \<Rightarrow> int \<Rightarrow> BitVec option" where
  "bvUnset bv i = (if i < 0 \<or> i \<ge> bvN bv then None
     else do { w \<leftarrow> slice_get (bvB bv) (i div 32);
               b \<leftarrow> slice_put (bvB bv) (i div 32) (w AND NOT (bit_mask i));
               Some (bv\<lparr>bvB := b\<rparr>) })"

definition trailingZeros32 :: "32 word \<Rightarrow> nat" where
  "trailingZeros32 w = length (takeWhile (\<lambda>i. \<not> bit w i) [0..<32])"

function next_word :: "BitVec \<Rightarrow> int \<Rightarrow> int option" where
  "next_word bv i = (if i < bvN bv then
       case slice_get (bvB bv) (i div 32) of None \<Rightarrow> None
       | Some w \<Rightarrow> if w = 0 then (if int32 (i + 32) < i then None else next_word bv (i + 32)) else Some i
     else Some i)"
  by auto
termination
  by (relation "measure (\<lambda>(bv, i). nat (bvN bv - i))") auto

definition bvNext :: "BitVec \<Rightarrow> int \<Rightarrow> int option" where
  "bvNext bv i = (if i \<ge> bvN bv then Some (- 1) else do {
     w \<leftarrow> slice_get (bvB bv) (i div 32);
     i \<leftarrow> (if drop_bit (nat (i mod 32)) w = 0 then next_word bv (int32 (i - i mod 32 + 32)) else Some i);
     if i \<ge> bvN bv then Some (- 1) else do {
       w \<leftarrow> slice_get (bvB bv) (i div 32);
       Some (int32 (i + int (trailingZeros32 (drop_bit (nat (i mod 32)) w)))) } })"

definition bvIsEmpty :: "BitVec \<Rightarrow> bool" where
  "bvIsEmpty bv = list_all (\<lambda>x. x = 0) (bvB bv)"

definition onesCount32 :: "32 word \<Rightarrow> nat" where
  "onesCount32 w = length (filter (bit w) [0..<32])"

definition bvCount :: "BitVec \<Rightarrow> int" where
  "bvCount bv = fold (\<lambda>x n. n + int (onesCount32 x)) (bvB bv) 0"

definition bvNot :: "BitVec \<Rightarrow> BitVec option" where
  "bvNot bv = (let b = map (\<lambda>x. NOT x) (bvB bv)
     in if bvN bv smod 32 \<noteq> 0 then do {
          w \<leftarrow> slice_get b (int (length b) - 1);
          b \<leftarrow> slice_put b (int (length b) - 1) (w AND (push_bit (nat (bvN bv smod 32)) 1 - 1));
          Some (bv\<lparr>bvB := b\<rparr>) }
        else Some (bv\<lparr>bvB := b\<rparr>))"

definition word_op :: "(32 word \<Rightarrow> 32 word \<Rightarrow> 32 word) \<Rightarrow> BitVec \<Rightarrow> BitVec \<Rightarrow> BitVec \<Rightarrow> BitVec option" where
  "word_op f dst src1 src2 = (if bvB src1 = [] then Some dst
     else if length (bvB dst) < length (bvB src1) \<or> length (bvB src2) < length (bvB src1) then None
     else Some (dst\<lparr>bvB := map2 f (bvB src1) (bvB src2) @ drop (length (bvB src1)) (bvB dst)\<rparr>))"

definition bvOr :: "BitVec \<Rightarrow> BitVec \<Rightarrow> BitVec \<Rightarrow> BitVec option" where
  "bvOr = word_op (\<lambda>x y. x OR y)"

definition bvAnd :: "BitVec \<Rightarrow> BitVec \<Rightarrow> BitVec \<Rightarrow> BitVec option" where
  "bvAnd = word_op (\<lambda>x y. x AND y)"

definition bvAndNot :: "BitVec \<Rightarrow> BitVec \<Rightarrow> BitVec \<Rightarrow> BitVec option" where
  "bvAndNot = word_op (\<lambda>x y. x AND NOT y)"

definition bvString :: "BitVec \<Rightarrow> string option" where
  "bvString bv = (if 2 + bvN bv < 0 then None
     else map_option (\<lambda>s. ''#*'' @ s)
       (those (map (\<lambda>i. map_option (\<lambda>b. if b then CHR ''1'' else CHR ''0'') (bvGet bv (int i))) [0..<nat (bvN bv)])))"

definition bvClear :: "BitVec \<Rightarrow> BitVec" where
  "bvClear bv = bv\<lparr>bvB := map (\<lambda>x. 0) (bvB bv)\<rparr>"

section \<open>Vectors as sets\<close>

definition bvbit :: "BitVec \<Rightarrow> nat \<Rightarrow> bool" where
  "bvbit bv j = (j < 32 * length (bvB bv) \<and> bit (bvB bv ! (j div 32)) (j mod 32))"

definition bv_wf :: "BitVec \<Rightarrow> bool" where
  "bv_wf bv = (0 \<le> bvN bv \<and> bvN bv < 2 ^ 31 - 31 \<and> int (length (bvB bv)) = (bvN bv + 31) div 32 \<and>
     list_all (\<lambda>j. \<not> bvbit bv j) [nat (bvN bv)..<32 * length (bvB bv)])"

definition members :: "BitVec \<Rightarrow> nat set" where
  "members bv = {j. bvbit bv j}"

lemma bv_wfD:
  assumes "bv_wf bv"
  shows "0 \<le> bvN bv" "bvN bv < 2 ^ 31 - 31" "int (length (bvB bv)) = (bvN bv + 31) div 32"
    "\<And>j. bvbit bv j \<Longrightarrow> j < nat (bvN bv)" "nat (bvN bv) \<le> 32 * length (bvB bv)"
    "\<And>j. j < nat (bvN bv) \<Longrightarrow> j div 32 < length (bvB bv)"
proof -
  show n: "0 \<le> bvN bv" "bvN bv < 2 ^ 31 - 31" "int (length (bvB bv)) = (bvN bv + 31) div 32"
    using assms by (auto simp: bv_wf_def)
  show l: "nat (bvN bv) \<le> 32 * length (bvB bv)" using n by linarith
  then show "j < nat (bvN bv) \<Longrightarrow> j div 32 < length (bvB bv)" for j
    by (metis div_less_iff_less_mult mult.commute order_less_le_trans zero_less_numeral)
  show "j < nat (bvN bv)" if "bvbit bv j" for j
  proof (rule ccontr)
    assume "\<not> j < nat (bvN bv)"
    moreover have "j < 32 * length (bvB bv)" using that by (simp add: bvbit_def)
    ultimately show False using assms that by (auto simp: bv_wf_def list_all_iff)
  qed
qed

lemma bv_wfI:
  assumes "0 \<le> bvN bv" "bvN bv < 2 ^ 31 - 31" "int (length (bvB bv)) = (bvN bv + 31) div 32"
    "\<And>j. bvbit bv j \<Longrightarrow> j < nat (bvN bv)"
  shows "bv_wf bv"
  using assms by (force simp: bv_wf_def list_all_iff)

lemma members_less: "bv_wf bv \<Longrightarrow> j \<in> members bv \<Longrightarrow> j < nat (bvN bv)"
  using bv_wfD(4) by (simp add: members_def)

lemma and_bit_mask: "w AND bit_mask (int j) \<noteq> 0 \<longleftrightarrow> bit w (j mod 32)"
  by (simp add: bit_mask_def nat_mod_distrib push_bit_of_1 and_exp_eq_0_iff_not_bit)

lemma bit_mask_at: "bit (bit_mask (int j)) i \<longleftrightarrow> i = j mod 32"
  by (auto simp: bit_mask_def nat_mod_distrib push_bit_of_1 bit_exp_iff)

lemma div_index:
  assumes "bv_wf bv" "0 \<le> i" "i < bvN bv"
  obtains j where "i = int j" "j < nat (bvN bv)" "j div 32 < length (bvB bv)"
    "slice_get (bvB bv) (i div 32) = Some (bvB bv ! (j div 32))"
    "\<And>w. slice_put (bvB bv) (i div 32) w = Some ((bvB bv)[j div 32 := w])"
proof -
  have j: "i = int (nat i)" "nat i < nat (bvN bv)" using assms by auto
  then have l: "nat i div 32 < length (bvB bv)" using bv_wfD(6) [OF assms(1)] by blast
  have "i div 32 = int (nat i div 32)" using assms(2) by (simp add: zdiv_int)
  then show thesis using that [OF j l] l by (simp add: slice_get_def slice_put_def)
qed

lemma bvGet_iff:
  assumes "bv_wf bv" "0 \<le> i" "i < bvN bv"
  shows "bvGet bv i = Some (nat i \<in> members bv)"
proof -
  obtain j where j: "i = int j" "j div 32 < length (bvB bv)" "slice_get (bvB bv) (i div 32) = Some (bvB bv ! (j div 32))"
    using div_index [OF assms] by metis
  have "j < 32 * length (bvB bv)" using j(2) by (metis div_less_iff_less_mult mult.commute zero_less_numeral)
  then show ?thesis
    using assms j by (simp add: bvGet_def and_bit_mask members_def bvbit_def)
qed

text \<open>Changing one word changes the bits of that word.\<close>

lemma bvbit_update:
  assumes "k < length (bvB bv)"
  shows "bvbit (bv\<lparr>bvB := (bvB bv)[k := w]\<rparr>) j \<longleftrightarrow> (if j div 32 = k then bit w (j mod 32) else bvbit bv j)"
proof -
  have "j < 32 * length (bvB bv)" if "j div 32 = k"
    using that assms by (metis div_less_iff_less_mult mult.commute zero_less_numeral)
  then show ?thesis by (auto simp: bvbit_def nth_list_update)
qed

lemma same_bit: "j div 32 = k div 32 \<Longrightarrow> j mod 32 = k mod 32 \<Longrightarrow> j = (k::nat)"
  by (metis div_mult_mod_eq)

lemma members_update:
  assumes "bv_wf bv" "k < nat (bvN bv)" "k div 32 < length (bvB bv)"
    "\<And>i. i < 32 \<Longrightarrow> bit w i \<longleftrightarrow> (if i = k mod 32 then b else bit (bvB bv ! (k div 32)) i)"
  shows "bv_wf (bv\<lparr>bvB := (bvB bv)[k div 32 := w]\<rparr>)"
    "members (bv\<lparr>bvB := (bvB bv)[k div 32 := w]\<rparr>) = (if b then insert k (members bv) else members bv - {k})"
proof -
  have e: "bvbit (bv\<lparr>bvB := (bvB bv)[k div 32 := w]\<rparr>) j \<longleftrightarrow> (if j = k then b else bvbit bv j)" for j
    using assms(3,4) same_bit [of j k] bvbit_update [OF assms(3), of w j]
    by (auto simp: bvbit_def div_less_iff_less_mult mult.commute)
  then show "members (bv\<lparr>bvB := (bvB bv)[k div 32 := w]\<rparr>) = (if b then insert k (members bv) else members bv - {k})"
    by (auto simp: members_def)
  show "bv_wf (bv\<lparr>bvB := (bvB bv)[k div 32 := w]\<rparr>)"
    using bv_wfD(1-4) [OF assms(1)] assms(2) by (intro bv_wfI) (auto simp: e split: if_splits)
qed

definition bv_elems :: "BitVec \<Rightarrow> int set" where
  "bv_elems bv = int ` members bv"

interpretation bvset: bounded_set bv_wf bv_elems bvN bvGet bvSet bvUnset
proof
  fix bv i
  assume w: "bv_wf bv" "0 \<le> i" "i < bvN bv"
  obtain j where j: "i = int j" "j < nat (bvN bv)" "j div 32 < length (bvB bv)"
    "slice_get (bvB bv) (i div 32) = Some (bvB bv ! (j div 32))"
    "\<And>w. slice_put (bvB bv) (i div 32) w = Some ((bvB bv)[j div 32 := w])"
    using div_index [OF w] by metis
  show "bvGet bv i = Some (i \<in> bv_elems bv)"
    using bvGet_iff [OF w] w(2) by (auto simp: bv_elems_def image_iff intro: bexI [of _ "nat i"])
  show "\<exists>s'. bvSet bv i = Some s' \<and> bv_wf s' \<and> bvN s' = bvN bv \<and> bv_elems s' = insert i (bv_elems bv)"
    using members_update [OF w(1) j(2,3), of "bvB bv ! (j div 32) OR bit_mask i" True] j w
    by (simp add: bvSet_def bit_or_iff bit_mask_at bv_elems_def)
  show "\<exists>s'. bvUnset bv i = Some s' \<and> bv_wf s' \<and> bvN s' = bvN bv \<and> bv_elems s' = bv_elems bv - {i}"
    using members_update [OF w(1) j(2,3), of "bvB bv ! (j div 32) AND NOT (bit_mask i)" False] j w
    by (simp add: bvUnset_def bit_and_iff bit_not_iff bit_mask_at bv_elems_def image_set_diff)
qed (auto simp: bvGet_def bvSet_def bvUnset_def)

section \<open>Operations on whole vectors\<close>

lemma members_words:
  assumes "bv_wf bv" "length ws = length (bvB bv)"
    "\<And>j. j < 32 * length ws \<Longrightarrow> bit (ws ! (j div 32)) (j mod 32) \<longleftrightarrow> j \<in> S"
    "S \<subseteq> {..<nat (bvN bv)}"
  shows "bv_wf (bv\<lparr>bvB := ws\<rparr>)" "members (bv\<lparr>bvB := ws\<rparr>) = S"
proof -
  have "nat (bvN bv) \<le> 32 * length ws" using bv_wfD(5) [OF assms(1)] assms(2) by simp
  then show m: "members (bv\<lparr>bvB := ws\<rparr>) = S"
    using assms(3,4) by (force simp: members_def bvbit_def)
  show "bv_wf (bv\<lparr>bvB := ws\<rparr>)"
    using bv_wfD(1-3) [OF assms(1)] assms(2,4) m by (intro bv_wfI) (auto simp: members_def)
qed

lemma word_op_members:
  assumes "bv_wf dst" "bv_wf src1" "bv_wf src2" "bvN src1 = bvN dst" "bvN src2 = bvN dst"
    "\<And>x y i. i < 32 \<Longrightarrow> bit (f x y) i \<longleftrightarrow> g (bit x i) (bit y i)" "\<not> g False False"
  shows "\<exists>r. word_op f dst src1 src2 = Some r \<and> bv_wf r \<and> bvN r = bvN dst \<and>
    members r = {j. g (j \<in> members src1) (j \<in> members src2)}"
proof -
  have l: "length (bvB src1) = length (bvB dst)" "length (bvB src2) = length (bvB dst)"
    using bv_wfD(3) [OF assms(1)] bv_wfD(3) [OF assms(2)] bv_wfD(3) [OF assms(3)] assms(4,5) by auto
  let ?ws = "map2 f (bvB src1) (bvB src2)"
  let ?S = "{j. g (j \<in> members src1) (j \<in> members src2)}"
  have "?S \<subseteq> members src1 \<union> members src2"
    using assms(7) by (auto intro: ccontr)
  then have S: "?S \<subseteq> {..<nat (bvN dst)}"
    using members_less [OF assms(2)] members_less [OF assms(3)] assms(4,5) by auto
  have b: "bit (?ws ! (j div 32)) (j mod 32) \<longleftrightarrow> j \<in> ?S" if "j < 32 * length ?ws" for j
    using that l assms(6) by (simp add: members_def bvbit_def div_less_iff_less_mult mult.commute)
  show ?thesis
  proof (cases "bvB src1 = []")
    case True
    then have "members dst = {}" "?S = {}" using l assms(7) by (auto simp: members_def bvbit_def)
    then show ?thesis using True assms(1) by (simp add: word_op_def)
  next
    case False
    then show ?thesis
      using members_words [OF assms(1) _ b S] l by (simp add: word_op_def)
  qed
qed

lemma words_exact:
  assumes "int l = (int n + 31) div 32" "n mod 32 = 0"
  shows "n = 32 * l"
proof -
  have "32 * l \<le> n + 31" "n + 31 < 32 * l + 32" using assms(1) by linarith+
  moreover have "n = n div 32 * 32" using assms(2) by (metis add.right_neutral div_mult_mod_eq)
  ultimately have "l = n div 32" by linarith
  then show ?thesis using \<open>n = n div 32 * 32\<close> by simp
qed

lemma words_partial:
  assumes "int l = (int n + 31) div 32" "n mod 32 \<noteq> 0"
  shows "0 < l \<and> n = 32 * (l - 1) + n mod 32"
proof -
  have "32 * l \<le> n + 31" "n + 31 < 32 * l + 32" using assms(1) by linarith+
  moreover have "n = n div 32 * 32 + n mod 32" "n mod 32 < 32" by simp_all
  ultimately have "l = n div 32 + 1" using assms(2) by linarith
  then show ?thesis by simp
qed

lemma Not_members:
  assumes "bv_wf bv"
  shows "\<exists>r. bvNot bv = Some r \<and> bv_wf r \<and> bvN r = bvN bv \<and> members r = {..<nat (bvN bv)} - members bv"
proof -
  let ?n = "nat (bvN bv)" and ?b = "map (\<lambda>x. NOT x) (bvB bv)"
  let ?l = "length (bvB bv)" and ?S = "{..<nat (bvN bv)} - members bv"
  note D = bv_wfD [OF assms]
  have s: "bvN bv smod 32 = int (?n mod 32)"
    using D(1) by (simp add: signed_modulo_int_def signed_divide_int_def sgn_if zmod_int minus_div_mult_eq_mod)
  have nb: "bit (?b ! (j div 32)) (j mod 32) \<longleftrightarrow> j \<notin> members bv" if "j < 32 * ?l" for j
    using that by (simp add: members_def bvbit_def bit_not_iff div_less_iff_less_mult mult.commute)
  have l: "int ?l = (int ?n + 31) div 32" using D(1,3) by simp
  show ?thesis
  proof (cases "?n mod 32 = 0")
    case True
    then have "?n = 32 * ?l" using words_exact [OF l] by simp
    then have "bit (?b ! (j div 32)) (j mod 32) \<longleftrightarrow> j \<in> ?S" if "j < 32 * length ?b" for j
      using nb that by simp
    from members_words [OF assms _ this] show ?thesis
      using True s by (simp add: bvNot_def)
  next
    case False
    then have last: "?n = 32 * (?l - 1) + ?n mod 32" "0 < ?l" using words_partial [OF l] by auto
    then have ne: "bvB bv \<noteq> []" by auto
    let ?w = "?b ! (?l - 1) AND (push_bit (?n mod 32) 1 - 1)"
    have w: "bit ?w i \<longleftrightarrow> i < ?n mod 32 \<and> bit (?b ! (?l - 1)) i" for i
      by (auto simp: bit_and_iff push_bit_of_1 bit_mask_iff simp flip: mask_eq_exp_minus_1 dest: bit_imp_le_length)
    have "bit (?b[?l - 1 := ?w] ! (j div 32)) (j mod 32) \<longleftrightarrow> j \<in> ?S" if j: "j < 32 * length (?b[?l - 1 := ?w])" for j
    proof (cases "j div 32 = ?l - 1")
      case True
      then have "j < ?n \<longleftrightarrow> j mod 32 < ?n mod 32" using last by (metis add_less_cancel_left mult_div_mod_eq)
      then show ?thesis using True w nb [of j] j last(2) by auto
    next
      case F: False
      then have "j div 32 < ?l - 1" using j by (simp add: div_less_iff_less_mult mult.commute)
      then have "j < 32 * (?l - 1)" by (simp add: div_less_iff_less_mult mult.commute)
      then have "j < ?n" using last(1) by linarith
      then show ?thesis using F nb [of j] j by simp
    qed
    from members_words [OF assms _ this] show ?thesis
      using False s ne by (simp add: bvNot_def Let_def)
  qed
qed

section \<open>Iteration\<close>

declare next_word.simps [simp del]

lemma next_word_done: "\<not> i < bvN bv \<Longrightarrow> next_word bv i = Some i"
  by (simp add: next_word.simps)

lemma next_word_hit:
  "i < bvN bv \<Longrightarrow> slice_get (bvB bv) (i div 32) = Some w \<Longrightarrow> w \<noteq> 0 \<Longrightarrow> next_word bv i = Some i"
  by (subst next_word.simps) simp

lemma next_word_miss:
  "i < bvN bv \<Longrightarrow> slice_get (bvB bv) (i div 32) = Some 0 \<Longrightarrow> int32 (i + 32) = i + 32 \<Longrightarrow>
   next_word bv i = next_word bv (i + 32)"
  by (subst next_word.simps) simp

lemma same_word:
  assumes "i mod 32 = 0" "i \<le> int k" "int k < i + 32" "i = int j"
  shows "k div 32 = j div 32"
proof -
  have "int (j mod 32) = 0" using assms(1,4) by (simp only: zmod_int of_nat_numeral)
  then have "j mod 32 = 0" by simp
  then obtain q where "j = 32 * q" by (auto elim: dvdE)
  moreover have "k = j + (k - j)" "k - j < 32" using assms(2-4) by auto
  ultimately show ?thesis by (metis add.commute div_less div_mult_self2 zero_neq_numeral add_0 nonzero_mult_div_cancel_left)
qed

definition next_ok :: "BitVec \<Rightarrow> int \<Rightarrow> int \<Rightarrow> bool" where
  "next_ok bv i i' = (i \<le> i' \<and> i' mod 32 = 0 \<and>
     (\<forall>j \<in> members bv. i \<le> int j \<longrightarrow> i' \<le> int j) \<and> (i' < bvN bv \<longrightarrow> bvB bv ! nat (i' div 32) \<noteq> 0))"

lemma next_word_spec:
  "bv_wf bv \<Longrightarrow> 0 \<le> i \<Longrightarrow> i mod 32 = 0 \<Longrightarrow> \<exists>i'. next_word bv i = Some i' \<and> next_ok bv i i'"
proof (induction bv i rule: next_word.induct)
  case (1 bv i)
  show ?case
  proof (cases "i < bvN bv")
    case False
    have "int j < bvN bv" if "j \<in> members bv" for j using members_less [OF "1.prems"(1) that] by simp
    then have "next_ok bv i i" using False "1.prems"(3) by (auto simp: next_ok_def)
    then show ?thesis using next_word_done [OF False] by blast
  next
    case True
    obtain j where j: "i = int j" "slice_get (bvB bv) (i div 32) = Some (bvB bv ! (j div 32))"
      using div_index [OF "1.prems"(1,2) True] by metis
    show ?thesis
    proof (cases "bvB bv ! (j div 32) = 0")
      case F: False
      have "nat (i div 32) = j div 32" using j(1) by (simp add: nat_div_distrib)
      then have "next_ok bv i i" using F "1.prems"(3) by (simp add: next_ok_def)
      then show ?thesis using next_word_hit [OF True j(2) F] by blast
    next
      case Z: True
      have o: "int32 (i + 32) = i + 32"
        using True bv_wfD(2) [OF "1.prems"(1)] "1.prems"(2) by (intro int32_id) auto
      have A: "\<not> int32 (i + 32) < i" "0 \<le> i + 32" "(i + 32) mod 32 = 0" using o "1.prems"(2,3) by auto
      obtain i' where i': "next_word bv (i + 32) = Some i'" "next_ok bv (i + 32) i'"
        using "1.IH" [OF True j(2) Z A(1) "1.prems"(1) A(2,3)] by (elim exE conjE)
      have m: "i + 32 \<le> int k" if k: "k \<in> members bv" "i \<le> int k" for k
      proof (rule ccontr)
        assume "\<not> i + 32 \<le> int k"
        then have "k div 32 = j div 32" using same_word [OF "1.prems"(3) k(2) _ j(1)] by simp
        then show False using k(1) Z by (simp add: members_def bvbit_def)
      qed
      have "next_ok bv i i'" using i'(2) m unfolding next_ok_def by fastforce
      moreover have "next_word bv i = Some i'" using next_word_miss [OF True _ o] j(2) Z i'(1) by simp
      ultimately show ?thesis by blast
    qed
  qed
qed

lemma trailingZeros32_spec:
  assumes "w \<noteq> 0"
  shows "trailingZeros32 w < 32" "bit w (trailingZeros32 w)" "\<And>i. i < trailingZeros32 w \<Longrightarrow> \<not> bit w i"
proof -
  let ?P = "\<lambda>i. \<not> bit w i"
  obtain i where i: "bit w i" using assms bit_eq_iff [of w 0] by auto
  then have "i < 32" using bit_imp_le_length by fastforce
  then have "takeWhile ?P [0..<32] \<noteq> [0..<32]" using i by (auto simp: takeWhile_eq_all_conv)
  then have l: "length (takeWhile ?P [0..<32]) < length [0..<32]"
    by (metis le_neq_implies_less length_takeWhile_le takeWhile_eq_take take_all_iff)
  then show t: "trailingZeros32 w < 32" by (simp add: trailingZeros32_def)
  show "bit w (trailingZeros32 w)"
    using nth_length_takeWhile [OF l] t by (simp add: trailingZeros32_def)
  show "\<not> bit w k" if "k < trailingZeros32 w" for k
  proof -
    have "takeWhile ?P [0..<32] ! k = k"
      using that t takeWhile_nth [of k ?P "[0..<32]"] by (simp add: trailingZeros32_def)
    then have "k \<in> set (takeWhile ?P [0..<32])" using that by (metis nth_mem trailingZeros32_def)
    then show ?thesis by (auto dest: set_takeWhileD)
  qed
qed

lemma word_split: "r < 32 \<Longrightarrow> (32 * q + r) div 32 = q \<and> (32 * q + r) mod 32 = (r::nat)"
  by simp

text \<open>The first bit of the rest of a word.\<close>

lemma first_in_word:
  assumes wf: "bv_wf bv" and k: "k div 32 < length (bvB bv)" and w: "drop_bit (k mod 32) (bvB bv ! (k div 32)) \<noteq> 0"
  defines "m \<equiv> k + trailingZeros32 (drop_bit (k mod 32) (bvB bv ! (k div 32)))"
  shows "m \<in> members bv" "\<forall>j \<in> members bv. k \<le> j \<longrightarrow> m \<le> j"
proof -
  let ?w = "bvB bv ! (k div 32)" and ?r = "k mod 32"
  let ?t = "trailingZeros32 (drop_bit ?r ?w)"
  note T = trailingZeros32_spec [OF w]
  have b: "bit ?w (?r + ?t)" using T(2) by (simp add: bit_drop_bit_eq)
  then have lt: "?r + ?t < 32" using bit_imp_le_length by fastforce
  have m: "m = 32 * (k div 32) + (?r + ?t)" unfolding m_def by simp
  have d: "m div 32 = k div 32" "m mod 32 = ?r + ?t" using word_split [OF lt, of "k div 32"] by (simp_all only: m)
  have "m < 32 * length (bvB bv)" using k d(1) by (metis div_less_iff_less_mult mult.commute zero_less_numeral)
  then show "m \<in> members bv" using b d by (simp add: members_def bvbit_def)
  show "\<forall>j \<in> members bv. k \<le> j \<longrightarrow> m \<le> j"
  proof (intro ballI impI, rule ccontr)
    fix j assume j: "j \<in> members bv" "k \<le> j" "\<not> m \<le> j"
    have e: "j = 32 * (k div 32) + (?r + (j - k))" using j(2) by simp
    have jt: "j - k < ?t" using j(2,3) unfolding m_def by simp
    then have "?r + (j - k) < 32" using lt by simp
    then have "j div 32 = k div 32" "j mod 32 = ?r + (j - k)"
      using word_split [of "?r + (j - k)" "k div 32"] e by metis+
    then have "bit ?w (?r + (j - k))" using j(1) by (simp add: members_def bvbit_def)
    then show False using T(3) [OF jt] by (simp add: bit_drop_bit_eq)
  qed
qed

lemma no_bit_in_word:
  assumes "drop_bit (k mod 32) (bvB bv ! (k div 32)) = 0" "j \<in> members bv" "k \<le> j"
  shows "32 * (k div 32) + 32 \<le> j"
proof (rule ccontr)
  assume n: "\<not> 32 * (k div 32) + 32 \<le> j"
  have e: "j = 32 * (k div 32) + (k mod 32 + (j - k))" using assms(3) by simp
  then have "k mod 32 + (j - k) < 32" using n by linarith
  then have "j div 32 = k div 32" "j mod 32 = k mod 32 + (j - k)"
    using word_split [of "k mod 32 + (j - k)" "k div 32"] e by metis+
  then have "bit (drop_bit (k mod 32) (bvB bv ! (k div 32))) (j - k)"
    using assms(2) by (simp add: members_def bvbit_def bit_drop_bit_eq)
  then show False using assms(1) by simp
qed

definition least_from :: "BitVec \<Rightarrow> int \<Rightarrow> int \<Rightarrow> bool" where
  "least_from bv i r = (if r = - 1 then \<forall>j \<in> bv_elems bv. j < i
     else r \<in> bv_elems bv \<and> i \<le> r \<and> (\<forall>j \<in> bv_elems bv. i \<le> j \<longrightarrow> r \<le> j))"

lemma Next_word_end:
  assumes wf: "bv_wf bv" and i: "0 \<le> i" "i < bvN bv"
    and w: "drop_bit (nat (i mod 32)) (bvB bv ! nat (i div 32)) \<noteq> 0"
  shows "\<exists>r. slice_get (bvB bv) (i div 32) \<bind> (\<lambda>w. Some (int32 (i + int (trailingZeros32 (drop_bit (nat (i mod 32)) w))))) = Some r
    \<and> r \<noteq> - 1 \<and> least_from bv i r"
proof -
  obtain k where k: "i = int k" "k div 32 < length (bvB bv)" "slice_get (bvB bv) (i div 32) = Some (bvB bv ! (k div 32))"
    using div_index [OF wf i] by metis
  have n: "nat (i mod 32) = k mod 32" "nat (i div 32) = k div 32"
    using k(1) by (simp_all add: nat_mod_distrib nat_div_distrib)
  let ?m = "k + trailingZeros32 (drop_bit (k mod 32) (bvB bv ! (k div 32)))"
  have F: "?m \<in> members bv" "\<forall>j \<in> members bv. k \<le> j \<longrightarrow> ?m \<le> j"
    using first_in_word [OF wf k(2)] w unfolding n by blast+
  have "int ?m < 2 ^ 31" using members_less [OF wf F(1)] bv_wfD(1,2) [OF wf] by linarith
  then have "int32 (int ?m) = int ?m" by (intro int32_id) auto
  then have "slice_get (bvB bv) (i div 32) \<bind> (\<lambda>w. Some (int32 (i + int (trailingZeros32 (drop_bit (nat (i mod 32)) w))))) = Some (int ?m)"
    unfolding n using k by simp
  moreover have "least_from bv i (int ?m)"
    unfolding least_from_def bv_elems_def using F(2) k(1) imageI [OF F(1), of int] by auto
  ultimately show ?thesis by fastforce
qed

lemma elems_less: "bv_wf bv \<Longrightarrow> j \<in> bv_elems bv \<Longrightarrow> 0 \<le> j \<and> j < bvN bv"
  using members_less by (fastforce simp: bv_elems_def)

lemma Next_least:
  assumes wf: "bv_wf bv" and i: "0 \<le> i"
  shows "\<exists>r. bvNext bv i = Some r \<and> least_from bv i r"
proof (cases "i < bvN bv")
  case False
  then show ?thesis using elems_less [OF wf] by (force simp: bvNext_def least_from_def)
next
  case True
  obtain k where k: "i = int k" "k div 32 < length (bvB bv)" "slice_get (bvB bv) (i div 32) = Some (bvB bv ! (k div 32))"
    using div_index [OF wf i True] by metis
  have n: "nat (i mod 32) = k mod 32" "nat (i div 32) = k div 32"
    using k(1) by (simp_all add: nat_mod_distrib nat_div_distrib)
  show ?thesis
  proof (cases "drop_bit (k mod 32) (bvB bv ! (k div 32)) = 0")
    case F: False
    then show ?thesis
      using Next_word_end [OF wf i True] k(3) True by (auto simp: bvNext_def n)
  next
    case Z: True
    let ?i = "i - i mod 32 + 32"
    have b: "?i = int (32 * (k div 32) + 32)" using k(1) by (simp add: minus_mod_eq_mult_div zdiv_int)
    have "int32 ?i = ?i"
      using True i bv_wfD(2) [OF wf] pos_mod_sign [of 32 i] pos_mod_bound [of 32 i] by (intro int32_id) linarith+
    moreover have "0 \<le> ?i" "?i mod 32 = 0" unfolding b by auto
    ultimately obtain i' where i': "next_word bv (int32 ?i) = Some i'" "next_ok bv ?i i'"
      using next_word_spec [OF wf, of ?i] by auto
    have ge: "?i \<le> j" if j: "j \<in> bv_elems bv" "i \<le> j" for j
    proof -
      obtain x where x: "x \<in> members bv" "j = int x" using j(1) by (auto simp: bv_elems_def)
      then have "32 * (k div 32) + 32 \<le> x" using no_bit_in_word [OF Z] j(2) k(1) by simp
      then show ?thesis unfolding b x(2) by (simp only: of_nat_le_iff)
    qed
    have lf: "least_from bv i r" if "least_from bv i' r" for r
      using that i'(2) ge unfolding least_from_def next_ok_def bv_elems_def by (auto split: if_splits) force+
    show ?thesis
    proof (cases "i' < bvN bv")
      case False
      then have "least_from bv i' (- 1)" using elems_less [OF wf] by (force simp: least_from_def)
      then have "least_from bv i (- 1)" by (rule lf)
      moreover have "bvNext bv i = Some (- 1)" using True k(3) Z i'(1) False by (simp add: bvNext_def n)
      ultimately show ?thesis by blast
    next
      case T: True
      have z: "0 \<le> i'" "i' mod 32 = 0" "bvB bv ! nat (i' div 32) \<noteq> 0"
        using i'(2) T i pos_mod_bound [of 32 i] by (auto simp: next_ok_def)
      then have "drop_bit (nat (i' mod 32)) (bvB bv ! nat (i' div 32)) \<noteq> 0" by simp
      from Next_word_end [OF wf z(1) T this]
      show ?thesis using lf True k(3) Z i'(1) T by (auto simp: bvNext_def n)
    qed
  qed
qed

section \<open>Comparison and counting\<close>

definition word_bits :: "32 word list \<Rightarrow> nat set" where
  "word_bits ws = {j. j < 32 * length ws \<and> bit (ws ! (j div 32)) (j mod 32)}"

lemma members_word_bits: "members bv = word_bits (bvB bv)"
  by (simp add: members_def bvbit_def word_bits_def)

lemma word_bits_snoc:
  "word_bits (ws @ [w]) = word_bits ws \<union> (\<lambda>i. 32 * length ws + i) ` {i. i < 32 \<and> bit w i}"
proof (intro set_eqI)
  fix j
  show "j \<in> word_bits (ws @ [w]) \<longleftrightarrow> j \<in> word_bits ws \<union> (\<lambda>i. 32 * length ws + i) ` {i. i < 32 \<and> bit w i}"
  proof (cases "j < 32 * length ws")
    case True
    then have "j div 32 < length ws" by (simp add: div_less_iff_less_mult mult.commute)
    then show ?thesis using True by (auto simp: word_bits_def nth_append)
  next
    case False
    then obtain i where i: "j = 32 * length ws + i" by (metis le_add_diff_inverse not_le)
    then show ?thesis by (cases "i < 32") (auto simp: word_bits_def nth_append)
  qed
qed

lemma onesCount32_card: "onesCount32 w = card {i. i < 32 \<and> bit w i}"
proof -
  have "onesCount32 w = card (set (filter (bit w) [0..<32]))"
    unfolding onesCount32_def by (rule distinct_card [symmetric]) simp
  also have "set (filter (bit w) [0..<32]) = {i. i < 32 \<and> bit w i}" by auto
  finally show ?thesis .
qed

lemma card_word_bits: "finite (word_bits ws) \<and> int (card (word_bits ws)) = fold (\<lambda>x n. n + int (onesCount32 x)) ws 0"
proof (induction ws rule: rev_induct)
  case (snoc w ws)
  let ?T = "(\<lambda>i. 32 * length ws + i) ` {i. i < 32 \<and> bit w i}"
  have "word_bits ws \<inter> ?T = {}" by (auto simp: word_bits_def)
  moreover have "card ?T = onesCount32 w" by (simp add: onesCount32_card card_image inj_on_def)
  moreover have "finite ?T" by simp
  ultimately show ?case using snoc unfolding word_bits_snoc by (simp add: card_Un_disjoint)
qed (simp add: word_bits_def)

lemma Count_members: "bvCount bv = int (card (members bv))"
  using card_word_bits [of "bvB bv"] by (simp add: bvCount_def members_word_bits)

lemma word_bits_eq_iff:
  assumes "length xs = length ys"
  shows "word_bits xs = word_bits ys \<longleftrightarrow> xs = ys"
proof
  assume e: "word_bits xs = word_bits ys"
  show "xs = ys"
  proof (rule nth_equalityI [OF assms], rule bit_word_eqI)
    fix k i assume k: "k < length xs" and "i < LENGTH(32)"
    then have i: "i < 32" by simp
    have "32 * k + i \<in> word_bits xs \<longleftrightarrow> 32 * k + i \<in> word_bits ys" using e by simp
    then show "bit (xs ! k) i \<longleftrightarrow> bit (ys ! k) i"
      using k i assms word_split [OF i, of k] by (simp add: word_bits_def)
  qed
qed simp

lemma eq_words_same: "length xs = length ys \<Longrightarrow> eq_words xs ys = Some (xs = ys)"
  by (induction xs ys rule: list_induct2) auto

lemma Eq_members:
  assumes "bv_wf bv1" "bv_wf bv2" "bvN bv1 = bvN bv2"
  shows "bvEq bv1 bv2 = Some (members bv1 = members bv2)"
proof -
  have "length (bvB bv1) = length (bvB bv2)"
    using bv_wfD(3) [OF assms(1)] bv_wfD(3) [OF assms(2)] assms(3) by simp
  then show ?thesis using assms(3) by (simp add: bvEq_def eq_words_same members_word_bits word_bits_eq_iff)
qed

lemma IsEmpty_members: "bvIsEmpty bv \<longleftrightarrow> members bv = {}"
proof -
  have "word_bits (bvB bv) = {} \<longleftrightarrow> bvB bv = map (\<lambda>x. 0) (bvB bv)"
    using word_bits_eq_iff [of "bvB bv" "map (\<lambda>x. 0) (bvB bv)"]
    by (simp add: word_bits_def div_less_iff_less_mult mult.commute cong: conj_cong)
  also have "\<dots> \<longleftrightarrow> bvIsEmpty bv"
    by (auto simp: bvIsEmpty_def list_all_length list_eq_iff_nth_eq)
  finally show ?thesis by (simp add: members_word_bits)
qed

lemma New_wf:
  assumes "0 \<le> n" "n < 2 ^ 31 - 31"
  shows "\<exists>bv. bvNew n = Some bv \<and> bv_wf bv \<and> bvN bv = n \<and> members bv = {}"
proof -
  have "int32 (n + 31) = n + 31" using assms by (intro int32_id) auto
  then have d: "int32 (n + 31) sdiv 32 = (n + 31) div 32" "0 \<le> (n + 31) div 32"
    using assms by (simp_all add: signed_divide_int_def sgn_if)
  let ?bv = "\<lparr>bvN = n, bvB = replicate (nat ((n + 31) div 32)) 0\<rparr>"
  have "\<not> bvbit ?bv j" for j by (auto simp: bvbit_def div_less_iff_less_mult mult.commute)
  then have "members ?bv = {}" "bv_wf ?bv" using assms d(2) by (auto simp: members_def intro!: bv_wfI)
  then show ?thesis using d by (simp add: bvNew_def make_slice_def)
qed

section \<open>The properties\<close>

text \<open>C20: A bit vector behaves as a set of the integers below its length: Get, Set and Unset are membership, insertion and deletion and fail exactly out of range; Or, And, AndNot and Not are union, intersection, difference and complement and keep the bits past the length clear; Eq, IsEmpty and Count compare and count the elements.\<close>

theorem bitvec_refines_sets:
  assumes "bv_wf a" "bv_wf b" "bv_wf dst" "bvN a = bvN dst" "bvN b = bvN dst"
  shows "(\<forall>i. 0 \<le> i \<and> i < bvN a \<longrightarrow> bvGet a i = Some (i \<in> bv_elems a) \<and>
      (\<exists>r. bvSet a i = Some r \<and> bv_wf r \<and> bv_elems r = insert i (bv_elems a)) \<and>
      (\<exists>r. bvUnset a i = Some r \<and> bv_wf r \<and> bv_elems r = bv_elems a - {i})) \<and>
    (\<forall>i. \<not> (0 \<le> i \<and> i < bvN a) \<longrightarrow> bvGet a i = None \<and> bvSet a i = None \<and> bvUnset a i = None) \<and>
    (\<exists>r. bvOr dst a b = Some r \<and> bv_wf r \<and> members r = members a \<union> members b) \<and>
    (\<exists>r. bvAnd dst a b = Some r \<and> bv_wf r \<and> members r = members a \<inter> members b) \<and>
    (\<exists>r. bvAndNot dst a b = Some r \<and> bv_wf r \<and> members r = members a - members b) \<and>
    (\<exists>r. bvNot a = Some r \<and> bv_wf r \<and> members r = {..<nat (bvN a)} - members a) \<and>
    bvEq a b = Some (members a = members b) \<and> bvIsEmpty a = (members a = {}) \<and>
    bvCount a = int (card (members a))"
proof (intro conjI allI impI)
  fix i assume i: "0 \<le> i \<and> i < bvN a"
  show "bvGet a i = Some (i \<in> bv_elems a)" using bvset.has_iff [OF assms(1)] i by simp
  show "\<exists>r. bvSet a i = Some r \<and> bv_wf r \<and> bv_elems r = insert i (bv_elems a)"
    using bvset.put_elems [OF assms(1)] i by blast
  show "\<exists>r. bvUnset a i = Some r \<and> bv_wf r \<and> bv_elems r = bv_elems a - {i}"
    using bvset.del_elems [OF assms(1)] i by blast
next
  show "\<exists>r. bvOr dst a b = Some r \<and> bv_wf r \<and> members r = members a \<union> members b"
    using word_op_members [OF assms(3,1,2,4,5), of "\<lambda>x y. x OR y" "\<lambda>p q. p \<or> q"]
    by (auto simp: bvOr_def bit_or_iff)
  show "\<exists>r. bvAnd dst a b = Some r \<and> bv_wf r \<and> members r = members a \<inter> members b"
    using word_op_members [OF assms(3,1,2,4,5), of "\<lambda>x y. x AND y" "\<lambda>p q. p \<and> q"]
    by (auto simp: bvAnd_def bit_and_iff)
  show "\<exists>r. bvAndNot dst a b = Some r \<and> bv_wf r \<and> members r = members a - members b"
    using word_op_members [OF assms(3,1,2,4,5), of "\<lambda>x y. x AND NOT y" "\<lambda>p q. p \<and> \<not> q"]
    by (auto simp: bvAndNot_def bit_and_iff bit_not_iff)
  show "\<exists>r. bvNot a = Some r \<and> bv_wf r \<and> members r = {..<nat (bvN a)} - members a"
    using Not_members [OF assms(1)] by blast
  show "bvEq a b = Some (members a = members b)" using Eq_members assms by simp
qed (use bvset.out_of_range [of _ a] in \<open>auto simp: IsEmpty_members Count_members\<close>)

text \<open>C21: For an argument that is not negative Next returns the least element that is not below it, or -1 if there is none; it does not fail on any well-formed vector.\<close>

theorem bitvec_next:
  assumes "bv_wf bv" "0 \<le> i"
  shows "\<exists>r. bvNext bv i = Some r \<and>
    (if r = - 1 then \<forall>j \<in> bv_elems bv. j < i
     else r \<in> bv_elems bv \<and> i \<le> r \<and> (\<forall>j \<in> bv_elems bv. i \<le> j \<longrightarrow> r \<le> j))"
  using Next_least [OF assms] by (simp only: least_from_def)

theorem bitvec_refines_sets_witness:
  "\<exists>a dst r. bvNew 40 = Some dst \<and> bvSet dst 35 = Some a \<and> bv_elems a = {35} \<and>
     bvOr dst a dst = Some r \<and> members r = members a"
proof -
  obtain d where d: "bvNew 40 = Some d" "bv_wf d" "bvN d = 40" "members d = {}" using New_wf [of 40] by auto
  obtain a where a: "bvSet d 35 = Some a" "bv_wf a" "bvN a = 40" "bv_elems a = {35}"
    using bvset.put_elems [OF d(2), of 35] d by (auto simp: bv_elems_def)
  show ?thesis using bitvec_refines_sets [OF a(2) d(2) d(2)] a d by auto
qed

theorem bitvec_next_witness:
  "\<exists>d a. bvNew 40 = Some d \<and> bvSet d 35 = Some a \<and> bvNext a 3 = Some 35 \<and> bvNext a 36 = Some (- 1)"
proof -
  obtain d where d: "bvNew 40 = Some d" "bv_wf d" "bvN d = 40" "members d = {}" using New_wf [of 40] by auto
  obtain a where a: "bvSet d 35 = Some a" "bv_wf a" "bv_elems a = {35}"
    using bvset.put_elems [OF d(2), of 35] d by (auto simp: bv_elems_def)
  show ?thesis using bitvec_next [OF a(2), of 3] bitvec_next [OF a(2), of 36] a d(1)
    by (auto split: if_splits)
qed

end
