(* ===== verification/Int_Conv.thy ===== *)
theory Int_Conv
  imports Prelude
begin

text \<open>
  Formatting and parsing of integers (\<open>strconv/itoa.go\<close>, \<open>strconv/atoi.go\<close>) on a 64-bit machine.  A \<open>uint64\<close> is
  a \<^typ>\<open>nat\<close> with the reduction modulo \<open>2 ^ 64\<close> written out, an \<open>int64\<close> an \<^typ>\<open>int\<close> with \<open>int64_of\<close> where it can
  wrap around.  The code fills a buffer from its end; here the digits are put in front of the string.  The panic for
  a bad base is \<^const>\<open>None\<close>.  The loops of \<open>formatBits\<close> are functions of their own, whose guards \<open>2 \<le> b\<close> and
  \<open>0 < shift\<close> hold wherever \<open>formatBits\<close> calls them.  The texts of the errors for a bad base and bit size are
  constructors with the number.
\<close>

section \<open>Formatting\<close>

definition digit_chars :: string where
  "digit_chars = ''0123456789abcdefghijklmnopqrstuvwxyz''"

definition smallsString :: string where
  "smallsString = ''00010203040506070809'' @ ''10111213141516171819'' @ ''20212223242526272829'' @
    ''30313233343536373839'' @ ''40414243444546474849'' @ ''50515253545556575859'' @
    ''60616263646566676869'' @ ''70717273747576777879'' @ ''80818283848586878889'' @
    ''90919293949596979899''"

definition small_str :: "nat \<Rightarrow> string" where
  "small_str i = (if i < 10 then take 1 (drop i digit_chars) else take 2 (drop (i * 2) smallsString))"

fun format_ten :: "nat \<Rightarrow> string \<Rightarrow> string" where
  "format_ten us a = (if us \<ge> 100 then
       let is = us mod 100 * 2 in format_ten (us div 100) (smallsString ! is # smallsString ! (is + 1) # a)
     else let is = us * 2; a = smallsString ! (is + 1) # a
       in if us \<ge> 10 then smallsString ! is # a else a)"

function format_shift :: "nat \<Rightarrow> nat \<Rightarrow> nat \<Rightarrow> string \<Rightarrow> string" where
  "format_shift shift b u a = (if 0 < shift \<and> 0 < b \<and> u \<ge> b then
       format_shift shift b (u div 2 ^ shift) (digit_chars ! (u AND (b - 1)) # a)
     else digit_chars ! u # a)"
  by pat_completeness auto
termination
  by (relation "measure (\<lambda>(shift, b, u, a). u)") (auto intro!: div_less_dividend simp flip: One_nat_def)

fun format_general :: "nat \<Rightarrow> nat \<Rightarrow> string \<Rightarrow> string" where
  "format_general b u a = (if 2 \<le> b \<and> u \<ge> b then
       let q = u div b in format_general b q (digit_chars ! (u - q * b) # a)
     else digit_chars ! u # a)"

declare format_ten.simps [simp del] format_shift.simps [simp del] format_general.simps [simp del]

definition trailing_zeros :: "nat \<Rightarrow> nat" where
  "trailing_zeros x = length (takeWhile (\<lambda>i. \<not> bit x i) [0..<64])"

definition formatBits :: "nat \<Rightarrow> nat \<Rightarrow> bool \<Rightarrow> string option" where
  "formatBits u base neg =
    (if base < 2 \<or> base > length digit_chars then None
     else let u = (if neg then (2 ^ 64 - u) mod 2 ^ 64 else u);
              a = (if base = 10 then format_ten u []
                   else if base AND (base - 1) = 0 then format_shift (trailing_zeros base) base u []
                   else format_general base u [])
          in Some (if neg then CHR ''-'' # a else a))"

definition FormatUint :: "nat \<Rightarrow> nat \<Rightarrow> string option" where
  "FormatUint i base = (if i < 100 \<and> base = 10 then Some (small_str i) else formatBits i base False)"

definition FormatInt :: "int \<Rightarrow> nat \<Rightarrow> string option" where
  "FormatInt i base = (if 0 \<le> i \<and> i < 100 \<and> base = 10 then Some (small_str (nat i))
     else formatBits (nat (i mod 2 ^ 64)) base (i < 0))"

definition Itoa :: "int \<Rightarrow> string option" where
  "Itoa i = FormatInt i 10"

definition AppendInt :: "string \<Rightarrow> int \<Rightarrow> nat \<Rightarrow> string option" where
  "AppendInt dst i base = (if 0 \<le> i \<and> i < 100 \<and> base = 10 then Some (dst @ small_str (nat i))
     else map_option (\<lambda>s. dst @ s) (formatBits (nat (i mod 2 ^ 64)) base (i < 0)))"

definition AppendUint :: "string \<Rightarrow> nat \<Rightarrow> nat \<Rightarrow> string option" where
  "AppendUint dst i base = (if i < 100 \<and> base = 10 then Some (dst @ small_str i)
     else map_option (\<lambda>s. dst @ s) (formatBits i base False))"

section \<open>Parsing\<close>

datatype reason = ErrRange | ErrSyntax | InvalidBase int | InvalidBitSize int

record NumError =
  Func :: string
  Num :: string
  Err :: reason

definition syntaxErrorNum :: "string \<Rightarrow> string \<Rightarrow> NumError" where
  "syntaxErrorNum fn str = \<lparr>Func = fn, Num = str, Err = ErrSyntax\<rparr>"

definition rangeError :: "string \<Rightarrow> string \<Rightarrow> NumError" where
  "rangeError fn str = \<lparr>Func = fn, Num = str, Err = ErrRange\<rparr>"

definition baseError :: "string \<Rightarrow> string \<Rightarrow> int \<Rightarrow> NumError" where
  "baseError fn str base = \<lparr>Func = fn, Num = str, Err = InvalidBase base\<rparr>"

definition bitSizeError :: "string \<Rightarrow> string \<Rightarrow> int \<Rightarrow> NumError" where
  "bitSizeError fn str bs = \<lparr>Func = fn, Num = str, Err = InvalidBitSize bs\<rparr>"

definition lower_byte :: "char \<Rightarrow> int" where
  "lower_byte c = rune_of c OR 32"

definition digit_value :: "char \<Rightarrow> int option" where
  "digit_value c = (if 48 \<le> rune_of c \<and> rune_of c \<le> 57 then Some (rune_of c - 48)
     else if 97 \<le> lower_byte c \<and> lower_byte c \<le> 122 then Some (lower_byte c - 97 + 10)
     else None)"

definition under_class :: "bool \<Rightarrow> char \<Rightarrow> bool" where
  "under_class hex c = ((48 \<le> rune_of c \<and> rune_of c \<le> 57) \<or> (hex \<and> 97 \<le> lower_byte c \<and> lower_byte c \<le> 102))"

fun underscore_loop :: "bool \<Rightarrow> char \<Rightarrow> string \<Rightarrow> bool" where
  "underscore_loop hex saw [] = (saw \<noteq> CHR ''_'')"
| "underscore_loop hex saw (c # s) =
     (if under_class hex c then underscore_loop hex (CHR ''0'') s
      else if c = CHR ''_'' then (if saw \<noteq> CHR ''0'' then False else underscore_loop hex (CHR ''_'') s)
      else if saw = CHR ''_'' then False
      else underscore_loop hex (CHR ''!'') s)"

definition underscoreOK :: "string \<Rightarrow> bool" where
  "underscoreOK s =
    (let s = (if length s \<ge> 1 \<and> (s ! 0 = CHR ''-'' \<or> s ! 0 = CHR ''+'') then drop 1 s else s)
     in if length s \<ge> 2 \<and> s ! 0 = CHR ''0'' \<and>
           (lower_byte (s ! 1) = 98 \<or> lower_byte (s ! 1) = 111 \<or> lower_byte (s ! 1) = 120)
        then underscore_loop (lower_byte (s ! 1) = 120) (CHR ''0'') (drop 2 s)
        else underscore_loop False (CHR ''^'') s)"

datatype parsed = Parsed nat bool | SyntaxErr | RangeErr

fun parse_loop :: "bool \<Rightarrow> int \<Rightarrow> nat \<Rightarrow> nat \<Rightarrow> bool \<Rightarrow> nat \<Rightarrow> string \<Rightarrow> parsed" where
  "parse_loop base0 base cutoff maxVal underscores n [] = Parsed n underscores"
| "parse_loop base0 base cutoff maxVal underscores n (c # s) =
     (if c = CHR ''_'' \<and> base0 then parse_loop base0 base cutoff maxVal True n s
      else case digit_value c of
        None \<Rightarrow> SyntaxErr
      | Some d \<Rightarrow>
          if d \<ge> base then SyntaxErr
          else if n \<ge> cutoff then RangeErr
          else let n = n * nat base mod 2 ^ 64; n1 = (n + nat d) mod 2 ^ 64
            in if n1 < n \<or> n1 > maxVal then RangeErr
               else parse_loop base0 base cutoff maxVal underscores n1 s)"

definition base_prefix :: "string \<Rightarrow> int \<times> string" where
  "base_prefix s =
    (if s ! 0 = CHR ''0'' then
       if length s \<ge> 3 \<and> lower_byte (s ! 1) = 98 then (2, drop 2 s)
       else if length s \<ge> 3 \<and> lower_byte (s ! 1) = 111 then (8, drop 2 s)
       else if length s \<ge> 3 \<and> lower_byte (s ! 1) = 120 then (16, drop 2 s)
       else (8, drop 1 s)
     else (10, s))"

definition parse_digits_of :: "string \<Rightarrow> int \<Rightarrow> int \<Rightarrow> int \<Rightarrow> string \<Rightarrow> nat \<times> NumError option" where
  "parse_digits_of s0 base0 base bs s =
    (let cutoff = (2 ^ 64 - 1) div nat base + 1;
         maxVal = (2 ^ nat bs mod 2 ^ 64 + (2 ^ 64 - 1)) mod 2 ^ 64
     in case parse_loop (base0 = 0) base cutoff maxVal False 0 s of
          SyntaxErr \<Rightarrow> (0, Some (syntaxErrorNum ''ParseUint'' s0))
        | RangeErr \<Rightarrow> (maxVal, Some (rangeError ''ParseUint'' s0))
        | Parsed n underscores \<Rightarrow>
            if underscores \<and> \<not> underscoreOK s0 then (0, Some (syntaxErrorNum ''ParseUint'' s0))
            else (n, None))"

definition ParseUintB :: "string \<Rightarrow> int \<Rightarrow> int \<Rightarrow> nat \<times> NumError option" where
  "ParseUintB s base bitSize =
    (if s = [] then (0, Some (syntaxErrorNum ''ParseUint'' s))
     else if \<not> (2 \<le> base \<and> base \<le> 36) \<and> base \<noteq> 0 then (0, Some (baseError ''ParseUint'' s base))
     else let (b, s') = (if base = 0 then base_prefix s else (base, s))
       in if bitSize = 0 then parse_digits_of s base b 64 s'
          else if bitSize < 0 \<or> bitSize > 64 then (0, Some (bitSizeError ''ParseUint'' s bitSize))
          else parse_digits_of s base b bitSize s')"

definition int64_of :: "int \<Rightarrow> int" where
  "int64_of i = signed_take_bit 63 i"

definition ParseInt :: "string \<Rightarrow> int \<Rightarrow> int \<Rightarrow> int \<times> NumError option" where
  "ParseInt s base bitSize =
    (if s = [] then (0, Some (syntaxErrorNum ''ParseInt'' s))
     else let neg = (s ! 0 = CHR ''-'');
              s' = (if s ! 0 = CHR ''+'' \<or> neg then drop 1 s else s);
              (un, err) = ParseUintB s' base bitSize
       in if (case err of None \<Rightarrow> False | Some e \<Rightarrow> Err e \<noteq> ErrRange)
          then (0, map_option (\<lambda>e. e\<lparr>Func := ''ParseInt'', Num := s\<rparr>) err)
          else let bs = (if bitSize = 0 then 64 else bitSize);
                   cutoff = 2 ^ nat (bs - 1) :: nat
            in if \<not> neg \<and> un \<ge> cutoff then (int64_of (int cutoff - 1), Some (rangeError ''ParseInt'' s))
               else if neg \<and> un > cutoff then (int64_of (- int64_of (int cutoff)), Some (rangeError ''ParseInt'' s))
               else (if neg then int64_of (- int64_of (int un)) else int64_of (int un), None))"

fun atoi_loop :: "string \<Rightarrow> int \<Rightarrow> int option" where
  "atoi_loop [] n = Some n"
| "atoi_loop (c # s) n = (if (rune_of c - 48) mod 256 > 9 then None
     else atoi_loop s (int64_of (n * 10 + (rune_of c - 48) mod 256)))"

definition Atoi :: "string \<Rightarrow> int \<times> NumError option" where
  "Atoi s =
    (if 0 < length s \<and> length s < 19 then
       let s' = (if s ! 0 = CHR ''-'' \<or> s ! 0 = CHR ''+'' then drop 1 s else s)
       in if length s' < 1 then (0, Some (syntaxErrorNum ''Atoi'' s))
          else case atoi_loop s' 0 of
            None \<Rightarrow> (0, Some (syntaxErrorNum ''Atoi'' s))
          | Some n \<Rightarrow> (if s ! 0 = CHR ''-'' then - n else n, None)
     else let (i64, err) = ParseInt s 10 0 in (i64, map_option (\<lambda>e. e\<lparr>Func := ''Atoi''\<rparr>) err))"

section \<open>The digits of a number\<close>

fun to_digits :: "nat \<Rightarrow> nat \<Rightarrow> nat list" where
  "to_digits b u = (if 2 \<le> b \<and> u \<ge> b then to_digits b (u div b) @ [u mod b] else [u])"

declare to_digits.simps [simp del]

definition horner :: "nat \<Rightarrow> nat list \<Rightarrow> nat \<Rightarrow> nat" where
  "horner b ds n = foldl (\<lambda>n d. n * b + d) n ds"

lemma horner_to_digits: "2 \<le> b \<Longrightarrow> horner b (to_digits b u) 0 = u"
  by (induction b u rule: to_digits.induct) (subst to_digits.simps, simp add: horner_def)

lemma to_digits_less: "2 \<le> b \<Longrightarrow> \<forall>d \<in> set (to_digits b u). d < b"
  by (induction b u rule: to_digits.induct) (subst to_digits.simps, auto)

lemma to_digits_nonempty: "to_digits b u \<noteq> []"
  by (subst to_digits.simps) simp

definition digit_str :: "nat list \<Rightarrow> string" where
  "digit_str ds = map (\<lambda>d. digit_chars ! d) ds"

lemma format_general_digits: "2 \<le> b \<Longrightarrow> format_general b u a = digit_str (to_digits b u) @ a"
proof (induction b u a rule: format_general.induct)
  case (1 b u a)
  then show ?case
    by (subst format_general.simps, subst to_digits.simps)
      (auto simp: digit_str_def Let_def minus_div_mult_eq_mod)
qed

lemma format_shift_digits:
  "0 < k \<Longrightarrow> format_shift k (2 ^ k) u a = digit_str (to_digits (2 ^ k) u) @ a"
proof (induction k "2 ^ k :: nat" u a rule: format_shift.induct)
  case (1 k u a)
  have "2 \<le> (2::nat) ^ k" using 1(2) self_le_power [of 2 k] by simp
  moreover have "u AND (2 ^ k - 1) = u mod 2 ^ k"
    by (simp only: mask_eq_exp_minus_1 [symmetric] take_bit_eq_mask [symmetric] take_bit_eq_mod)
  ultimately show ?case using 1
    by (subst format_shift.simps, subst to_digits.simps) (auto simp: digit_str_def)
qed

lemma smalls: "k < 100 \<Longrightarrow> smallsString ! (k * 2) = digit_chars ! (k div 10) \<and> smallsString ! (k * 2 + 1) = digit_chars ! (k mod 10)"
proof -
  have "list_all (\<lambda>k. smallsString ! (k * 2) = digit_chars ! (k div 10) \<and> smallsString ! (k * 2 + 1) = digit_chars ! (k mod 10)) [0..<100]"
    by code_simp
  then show "k < 100 \<Longrightarrow> ?thesis" by (simp add: list_all_iff)
qed

lemma to_digits_100: "100 \<le> u \<Longrightarrow> to_digits 10 u = to_digits 10 (u div 100) @ [u mod 100 div 10, u mod 100 mod 10]"
proof -
  assume u: "100 \<le> u"
  have q: "u div 10 div 10 = u div 100" by (simp add: div_mult2_eq [symmetric])
  have m: "u mod 100 = 10 * (u div 10 mod 10) + u mod 10" using mod_mult2_eq [of u 10 10] by simp
  have "u div 10 mod 10 = u mod 100 div 10" "u mod 10 = u mod 100 mod 10" unfolding m by simp_all
  note q this
  moreover have "10 \<le> u div 10" "10 \<le> u" using u by simp_all
  ultimately show ?thesis
    by (subst to_digits.simps, subst to_digits.simps [of _ "u div 10"]) simp
qed

lemma to_digits_small: "u < 100 \<Longrightarrow> to_digits 10 u = (if u \<ge> 10 then [u div 10, u mod 10] else [u])"
  by (subst to_digits.simps, subst to_digits.simps) auto

lemma format_ten_digits: "format_ten u a = digit_str (to_digits 10 u) @ a"
proof (induction u a rule: format_ten.induct)
  case (1 u a)
  show ?case
  proof (cases "100 \<le> u")
    case True
    have "u mod 100 < 100" by simp
    then show ?thesis using 1 [OF True refl] smalls [of "u mod 100"] True to_digits_100 [OF True]
      by (subst format_ten.simps) (simp add: digit_str_def Let_def)
  next
    case False
    then show ?thesis using smalls [of u] to_digits_small [of u]
      by (subst format_ten.simps) (auto simp: digit_str_def Let_def)
  qed
qed

lemma small_digits: "u < 100 \<Longrightarrow> small_str u = digit_str (to_digits 10 u)"
proof -
  have "list_all (\<lambda>u. small_str u = digit_str (if u \<ge> 10 then [u div 10, u mod 10] else [u])) [0..<100]"
    by code_simp
  then show "u < 100 \<Longrightarrow> ?thesis" using to_digits_small [of u] by (simp add: list_all_iff)
qed

lemma power_of_two_base:
  assumes "2 \<le> base" "base \<le> 36" "base AND (base - 1) = 0"
  shows "\<exists>k. 0 < k \<and> base = 2 ^ k \<and> trailing_zeros base = k"
proof -
  have "list_all (\<lambda>b. b AND (b - 1) = 0 \<longrightarrow> list_ex (\<lambda>k. b = 2 ^ k \<and> trailing_zeros b = k) [1..<6]) [2..<37]"
    by code_simp
  moreover have "base \<in> set [2..<37]" using assms(1,2) by (simp only: set_upt atLeastLessThan_iff) simp
  ultimately have "list_ex (\<lambda>k. base = 2 ^ k \<and> trailing_zeros base = k) [1..<6]"
    using assms(3) unfolding list_all_iff by blast
  then show ?thesis by (auto simp: list_ex_iff)
qed

lemma format_power_digits:
  "2 \<le> base \<Longrightarrow> base \<le> 36 \<Longrightarrow> base AND (base - 1) = 0 \<Longrightarrow>
   format_shift (trailing_zeros base) base u a = digit_str (to_digits base u) @ a"
proof -
  assume b: "2 \<le> base" "base \<le> 36" "base AND (base - 1) = 0"
  obtain k where k: "0 < k" "base = 2 ^ k" "trailing_zeros base = k" using power_of_two_base [OF b] by blast
  show ?thesis unfolding k(3) unfolding k(2) by (rule format_shift_digits [OF k(1)])
qed

lemma formatBits_digits:
  assumes "2 \<le> base" "base \<le> 36"
  shows "formatBits u base neg = Some ((if neg then ''-'' else []) @
    digit_str (to_digits base (if neg then (2 ^ 64 - u) mod 2 ^ 64 else u)))"
proof -
  have l: "length digit_chars = 36" by (simp add: digit_chars_def)
  show ?thesis
    using assms l format_power_digits [OF assms]
    by (simp add: formatBits_def Let_def format_ten_digits format_general_digits)
qed

lemma FormatUint_digits:
  "2 \<le> base \<Longrightarrow> base \<le> 36 \<Longrightarrow> FormatUint i base = Some (digit_str (to_digits base i))"
  by (simp add: FormatUint_def formatBits_digits small_digits)

lemma FormatInt_digits:
  assumes "2 \<le> base" "base \<le> 36" "- (2 ^ 63) \<le> i" "i < 2 ^ 63"
  shows "FormatInt i base = Some ((if i < 0 then ''-'' else []) @ digit_str (to_digits base (nat \<bar>i\<bar>)))"
proof -
  have "(2 ^ 64 - nat (i mod 2 ^ 64)) mod 2 ^ 64 = nat (- i)" if "i < 0"
  proof -
    have "i mod 2 ^ 64 = (i + 2 ^ 64) mod 2 ^ 64" by simp
    also have "\<dots> = i + 2 ^ 64" using that assms(3) by (intro mod_pos_pos_trivial) simp_all
    finally have "i mod 2 ^ 64 = i + 2 ^ 64" .
    then show ?thesis using that assms(3) by (simp add: nat_diff_distrib)
  qed
  moreover have "nat (i mod 2 ^ 64) = nat i" if "0 \<le> i" using that assms(4) by simp
  ultimately show ?thesis
    using assms(1,2) by (auto simp: FormatInt_def formatBits_digits small_digits)
qed

section \<open>Parsing digits\<close>

lemma digit_value_digits: "d < 36 \<Longrightarrow> digit_value (digit_chars ! d) = Some (int d) \<and> digit_chars ! d \<noteq> CHR ''_'' \<and>
    digit_chars ! d \<noteq> CHR ''+'' \<and> digit_chars ! d \<noteq> CHR ''-''"
proof -
  have "list_all (\<lambda>d. digit_value (digit_chars ! d) = Some (int d) \<and> digit_chars ! d \<noteq> CHR ''_'' \<and>
    digit_chars ! d \<noteq> CHR ''+'' \<and> digit_chars ! d \<noteq> CHR ''-'') [0..<36]"
    by code_simp
  then show "d < 36 \<Longrightarrow> ?thesis" by (simp add: list_all_iff)
qed

lemma horner_ge: "0 < b \<Longrightarrow> n \<le> horner b ds n"
proof (induction ds arbitrary: n)
  case (Cons d ds)
  have "n \<le> n * b + d" using Cons.prems by (simp add: trans_le_add1)
  also have "\<dots> \<le> horner b ds (n * b + d)" by (rule Cons.IH [OF Cons.prems])
  finally show ?case by (simp add: horner_def)
qed (simp add: horner_def)

lemma cutoff_iff: "0 < b \<Longrightarrow> n \<ge> (2 ^ 64 - 1) div b + 1 \<longleftrightarrow> n * b \<ge> (2 ^ 64 :: nat)"
  using div_less_iff_less_mult [of b "2 ^ 64 - 1" n] by (simp add: Suc_le_eq) linarith

lemma parse_loop_digits:
  assumes b: "2 \<le> b" "b \<le> 36" and m: "maxVal < 2 ^ 64"
  shows "n \<le> maxVal \<Longrightarrow> \<forall>d \<in> set ds. d < b \<Longrightarrow>
    parse_loop base0 (int b) ((2 ^ 64 - 1) div b + 1) maxVal us n (digit_str ds) =
      (if horner b ds n \<le> maxVal then Parsed (horner b ds n) us else RangeErr)"
proof (induction ds arbitrary: n)
  case Nil
  then show ?case by (simp add: digit_str_def horner_def)
next
  case (Cons d ds)
  have d: "d < b" "d < 36" using Cons.prems b by auto
  note v = digit_value_digits [OF d(2)]
  have h: "horner b (d # ds) n = horner b ds (n * b + d)" by (simp add: horner_def)
  have ge: "n * b + d \<le> horner b ds (n * b + d)" using b by (intro horner_ge) simp
  have step: "parse_loop base0 (int b) ((2 ^ 64 - 1) div b + 1) maxVal us n (digit_str (d # ds)) =
    (if 2 ^ 64 \<le> n * b then RangeErr else
     let n1 = (n * b + d) mod 2 ^ 64 in if n1 < n * b \<or> n1 > maxVal then RangeErr
       else parse_loop base0 (int b) ((2 ^ 64 - 1) div b + 1) maxVal us n1 (digit_str ds))"
    using v d cutoff_iff [of b n] b by (simp add: digit_str_def Let_def)
  show ?case
  proof (cases "n * b + d \<le> maxVal")
    case True
    then show ?thesis using Cons.IH [of "n * b + d"] Cons.prems m unfolding step h by (simp add: Let_def)
  next
    case False
    then have big: "\<not> horner b ds (n * b + d) \<le> maxVal" using ge by linarith
    have "n1 < n * b \<or> n1 > maxVal" if "n * b < 2 ^ 64" "n1 = (n * b + d) mod 2 ^ 64" for n1
    proof (cases "n * b + d < 2 ^ 64")
      case True
      then show ?thesis using that False by simp
    next
      case F: False
      then have "(n * b + d) mod 2 ^ 64 = n * b + d - 2 ^ 64"
        using that(1) d(2) by (subst le_mod_geq) auto
      moreover have "n * b + d < n * b + 2 ^ 64" using d(2) by simp
      ultimately show ?thesis using that F by (simp add: less_diff_conv2)
    qed
    then show ?thesis using big unfolding step h by (auto simp: Let_def)
  qed
qed

lemma pred_mod: "0 < p \<Longrightarrow> p < 2 ^ 64 \<Longrightarrow> (p mod 2 ^ 64 + (2 ^ 64 - 1)) mod 2 ^ 64 = p - (1 :: nat)"
proof -
  assume p: "0 < p" "p < 2 ^ 64"
  then obtain q where q: "p = Suc q" by (cases p) auto
  have "p mod 2 ^ 64 + (2 ^ 64 - 1) = q + 2 ^ 64" using p q by simp
  then show ?thesis using p q by simp
qed

lemma max_value: "0 < bs \<Longrightarrow> bs \<le> 64 \<Longrightarrow> (2 ^ bs mod 2 ^ 64 + (2 ^ 64 - 1)) mod 2 ^ 64 = (2 ^ bs - 1 :: nat)"
proof (cases "bs = 64")
  case False
  assume "bs \<le> 64"
  then have "(2::nat) ^ bs < 2 ^ 64" using False by (intro power_strict_increasing) auto
  then show ?thesis by (intro pred_mod) simp_all
qed simp

lemma parse_digits_of_digits:
  assumes b: "2 \<le> b" "b \<le> 36" and bs: "0 < bs" "bs \<le> 64" and ds: "\<forall>d \<in> set ds. d < b"
  shows "parse_digits_of s0 base0 (int b) (int bs) (digit_str ds) =
    (if horner b ds 0 < 2 ^ bs then (horner b ds 0, None)
     else (2 ^ bs - 1, Some (rangeError ''ParseUint'' s0)))"
proof -
  have "(2::nat) ^ bs \<le> 2 ^ 64" using bs(2) by (intro power_increasing) auto
  then have m: "2 ^ bs - 1 < (2 ^ 64 :: nat)" by (simp add: less_eq_Suc_le [symmetric])
  have pl: "parse_loop (base0 = 0) (int b) ((2 ^ 64 - 1) div b + 1) (2 ^ bs - 1) False 0 (digit_str ds) =
      (if horner b ds 0 \<le> 2 ^ bs - 1 then Parsed (horner b ds 0) False else RangeErr)"
    by (rule parse_loop_digits [OF b m _ ds]) simp
  have "horner b ds 0 \<le> 2 ^ bs - 1 \<longleftrightarrow> horner b ds 0 < 2 ^ bs" by (auto simp: less_diff_conv2 Suc_le_eq le_diff_conv2)
  then show ?thesis
    unfolding parse_digits_of_def Let_def nat_int max_value [OF bs] pl by simp
qed

lemma ParseUintB_digits:
  assumes b: "2 \<le> b" "b \<le> 36" and bs: "0 < bs" "bs \<le> 64" and ds: "\<forall>d \<in> set ds. d < b" "ds \<noteq> []"
  shows "ParseUintB (digit_str ds) (int b) (int bs) =
    (if horner b ds 0 < 2 ^ bs then (horner b ds 0, None)
     else (2 ^ bs - 1, Some (rangeError ''ParseUint'' (digit_str ds))))"
  using parse_digits_of_digits [OF b bs ds(1)] b bs ds(2) by (simp add: ParseUintB_def digit_str_def)

lemma ParseUintB_format:
  assumes "2 \<le> b" "b \<le> 36" "i < 2 ^ 64"
  shows "ParseUintB (digit_str (to_digits b i)) (int b) 64 = (i, None)"
  using ParseUintB_digits [OF assms(1,2), of 64 "to_digits b i"] to_digits_less [OF assms(1), of i]
    to_digits_nonempty [of b i] horner_to_digits [OF assms(1), of i] assms(3) by simp

lemma digit_str_head:
  assumes "ds \<noteq> []" "\<forall>d \<in> set ds. d < 36"
  shows "digit_str ds ! 0 \<noteq> CHR ''-''" "digit_str ds ! 0 \<noteq> CHR ''+''" "digit_str ds \<noteq> []"
  using assms digit_value_digits [of "hd ds"] by (cases ds; simp add: digit_str_def)+

lemma ParseInt_format:
  assumes b: "2 \<le> b" "b \<le> 36" and i: "- (2 ^ 63) \<le> i" "i < 2 ^ 63"
  shows "ParseInt ((if i < 0 then ''-'' else []) @ digit_str (to_digits b (nat \<bar>i\<bar>))) (int b) 64 = (i, None)"
proof -
  let ?u = "nat \<bar>i\<bar>" and ?s = "digit_str (to_digits b (nat \<bar>i\<bar>))"
  have u: "?u < 2 ^ 64" using i by simp
  have "\<forall>d \<in> set (to_digits b ?u). d < 36" using to_digits_less [OF b(1)] b(2) by fastforce
  note h = digit_str_head [OF to_digits_nonempty this]
  note p = ParseUintB_format [OF b u]
  show ?thesis
  proof (cases "i < 0")
    case True
    have "int64_of (- int64_of (int ?u)) = i"
    proof (cases "i = - (2 ^ 63)")
      case False
      then have "int64_of (int ?u) = int ?u" "int64_of (- int ?u) = - int ?u"
        unfolding int64_of_def using i True by (intro signed_take_bit_int_eq_self; simp)+
      then show ?thesis using True by simp
    qed (simp add: int64_of_def)
    then show ?thesis using True i p h by (simp add: ParseInt_def)
  next
    case False
    then have "int64_of (int ?u) = i" unfolding int64_of_def using i by (simp add: signed_take_bit_int_eq_self)
    then show ?thesis using False i p h by (simp add: ParseInt_def)
  qed
qed

section \<open>Atoi\<close>

lemma atoi_digit:
  "(rune_of c - 48) mod 256 \<le> 9 \<longleftrightarrow> 48 \<le> rune_of c \<and> rune_of c \<le> 57"
proof -
  have "(rune_of c - 48) mod 256 = (if 48 \<le> rune_of c then rune_of c - 48 else rune_of c + 208)"
  proof (cases "48 \<le> rune_of c")
    case False
    have e: "rune_of c + 208 = (rune_of c - 48) + 256" by simp
    have "(rune_of c + 208) mod 256 = (rune_of c - 48) mod 256" unfolding e by (rule mod_add_self2)
    moreover have "(rune_of c + 208) mod 256 = rune_of c + 208"
      using False rune_of_nonneg [of c] by (intro mod_pos_pos_trivial) linarith+
    ultimately show ?thesis using False by simp
  next
    case True
    have "(rune_of c - 48) mod 256 = rune_of c - 48"
      using True rune_of_less_256 [of c] by (intro mod_pos_pos_trivial) linarith+
    then show ?thesis using True by simp
  qed
  then show ?thesis by auto (use rune_of_nonneg [of c] in linarith)
qed

lemma digit_value_ten:
  "(48 \<le> rune_of c \<and> rune_of c \<le> 57 \<longrightarrow> digit_value c = Some (rune_of c - 48)) \<and>
   (\<not> (48 \<le> rune_of c \<and> rune_of c \<le> 57) \<longrightarrow> digit_value c = None \<or> (\<exists>d \<ge> 10. digit_value c = Some d))"
  by (auto simp: digit_value_def)

lemma atoi_loop_parse:
  "n < 10 ^ k \<Longrightarrow> k + length s \<le> 18 \<Longrightarrow>
   (case atoi_loop s (int n) of
      None \<Rightarrow> parse_loop False 10 ((2 ^ 64 - 1) div 10 + 1) (2 ^ 64 - 1) False n s = SyntaxErr
    | Some m \<Rightarrow> 0 \<le> m \<and> m < 10 ^ 18 \<and>
        parse_loop False 10 ((2 ^ 64 - 1) div 10 + 1) (2 ^ 64 - 1) False n s = Parsed (nat m) False)"
proof (induction s arbitrary: n k)
  case Nil
  have "(10::nat) ^ k \<le> 10 ^ 18" using Nil.prems(2) by (intro power_increasing) auto
  then have "n < 10 ^ 18" using Nil.prems(1) by linarith
  then show ?case by simp
next
  case (Cons c s)
  have "(10::nat) ^ Suc k \<le> 10 ^ 18" using Cons.prems(2) by (intro power_increasing) auto
  moreover have n10: "n * 10 + 9 < 10 ^ Suc k" using Cons.prems(1) by simp
  ultimately have n: "n * 10 + 9 < 10 ^ 18" by linarith
  show ?case
  proof (cases "48 \<le> rune_of c \<and> rune_of c \<le> 57")
    case False
    then have "(rune_of c - 48) mod 256 > 9" by (simp only: atoi_digit not_le [symmetric] simp_thms)
    moreover have "parse_loop False 10 ((2 ^ 64 - 1) div 10 + 1) (2 ^ 64 - 1) False n (c # s) = SyntaxErr"
      using digit_value_ten [of c] False by auto
    ultimately show ?thesis by simp
  next
    case True
    define d where "d = nat (rune_of c - 48)"
    have d: "rune_of c - 48 = int d" "d \<le> 9" using True by (auto simp: d_def)
    have m: "(rune_of c - 48) mod 256 = int d" using d by simp
    have "int64_of (int n * 10 + int d) = int (n * 10 + d)"
      unfolding int64_of_def using n d(2) by (subst signed_take_bit_int_eq_self) simp_all
    then have a: "atoi_loop (c # s) (int n) = atoi_loop s (int (n * 10 + d))" using d(2) by (simp add: m)
    have v: "digit_value c = Some (int d)" using digit_value_ten [of c] True d(1) by simp
    have p: "parse_loop False 10 ((2 ^ 64 - 1) div 10 + 1) (2 ^ 64 - 1) False n (c # s) =
        parse_loop False 10 ((2 ^ 64 - 1) div 10 + 1) (2 ^ 64 - 1) False (n * 10 + d) s"
      using v d(2) n by (simp add: Let_def)
    have "n * 10 + d < 10 ^ Suc k" using n10 d(2) by linarith
    from Cons.IH [OF this] Cons.prems(2) show ?thesis unfolding a p by simp
  qed
qed

lemma ParseUintB_ten:
  assumes "s \<noteq> []" "length s \<le> 18"
  shows "ParseUintB s 10 0 = (case atoi_loop s 0 of None \<Rightarrow> (0, Some (syntaxErrorNum ''ParseUint'' s)) | Some m \<Rightarrow> (nat m, None))"
  using atoi_loop_parse [of 0 0 s] assms
  by (simp add: ParseUintB_def parse_digits_of_def Let_def split: option.splits)

lemma ParseInt_ten:
  assumes "s \<noteq> []" "length s \<le> 18" "s' = (if s ! 0 = CHR ''-'' \<or> s ! 0 = CHR ''+'' then drop 1 s else s)"
  shows "ParseInt s 10 0 = (if s' = [] then (0, Some (syntaxErrorNum ''ParseInt'' s))
    else case atoi_loop s' 0 of None \<Rightarrow> (0, Some (syntaxErrorNum ''ParseInt'' s))
      | Some m \<Rightarrow> (if s ! 0 = CHR ''-'' then - m else m, None))"
proof -
  have e: "ParseInt s 10 0 = (case ParseUintB s' 10 0 of (un, err) \<Rightarrow>
      if (case err of None \<Rightarrow> False | Some e \<Rightarrow> Err e \<noteq> ErrRange)
      then (0, map_option (\<lambda>e. e\<lparr>Func := ''ParseInt'', Num := s\<rparr>) err)
      else if s ! 0 \<noteq> CHR ''-'' \<and> un \<ge> 2 ^ 63 then (int64_of (2 ^ 63 - 1), Some (rangeError ''ParseInt'' s))
      else if s ! 0 = CHR ''-'' \<and> un > 2 ^ 63 then (int64_of (- int64_of (2 ^ 63)), Some (rangeError ''ParseInt'' s))
      else (if s ! 0 = CHR ''-'' then int64_of (- int64_of (int un)) else int64_of (int un), None))"
    using assms(1) unfolding ParseInt_def assms(3) Let_def by (simp add: disj_commute split: prod.split)
  show ?thesis
  proof (cases "s' = []")
    case True
    then show ?thesis by (simp add: e ParseUintB_def syntaxErrorNum_def)
  next
    case False
    have l: "length s' \<le> 18" using assms(2,3) by auto
    note p = ParseUintB_ten [OF False l]
    show ?thesis
    proof (cases "atoi_loop s' 0")
      case None
      then show ?thesis using False by (simp add: e p syntaxErrorNum_def)
    next
      case (Some m)
      have m: "0 \<le> m" "m < 10 ^ 18" using atoi_loop_parse [of 0 0 s'] l Some by auto
      have "int64_of m = m" "int64_of (- m) = - m"
        unfolding int64_of_def using m by (intro signed_take_bit_int_eq_self; simp)+
      moreover have "nat m < 2 ^ 63" using m by (simp add: nat_less_iff)
      ultimately show ?thesis using False Some m(1) by (simp add: e p)
    qed
  qed
qed

section \<open>The properties\<close>

text \<open>C22: In every base from 2 to 36 ParseUint reads back what FormatUint writes, for every 64-bit number, and ParseInt what FormatInt writes, for every signed one: neither the smallest number nor the largest overflows in between.\<close>

theorem parse_format_roundtrip:
  assumes "2 \<le> base" "base \<le> 36"
  shows "(\<forall>i < 2 ^ 64. \<exists>s. FormatUint i base = Some s \<and> ParseUintB s (int base) 64 = (i, None)) \<and>
    (\<forall>i. - (2 ^ 63) \<le> i \<and> i < 2 ^ 63 \<longrightarrow>
       (\<exists>s. FormatInt i base = Some s \<and> ParseInt s (int base) 64 = (i, None)))"
  using FormatUint_digits [OF assms] ParseUintB_format [OF assms] FormatInt_digits [OF assms]
    ParseInt_format [OF assms] by auto

theorem parse_format_roundtrip_witness:
  "\<exists>s. FormatInt (- 255) 16 = Some s \<and> ParseInt s 16 64 = (- 255, None)"
  using parse_format_roundtrip [of 16] by (auto dest!: spec [of _ "- 255"])

text \<open>C23: On a non-empty string of digits of the base, letters in lower case, ParseUint returns the number the digits denote if it fits into the bit size, and otherwise the largest number of that size with a range error: the test with the cutoff and the test for a wrapped sum miss no overflow and report none that is not one.\<close>

theorem parse_uint_exact:
  assumes "2 \<le> b" "b \<le> 36" "0 < bs" "bs \<le> 64" "\<forall>d \<in> set ds. d < b" "ds \<noteq> []"
  shows "ParseUintB (digit_str ds) (int b) (int bs) =
    (if horner b ds 0 < 2 ^ bs then (horner b ds 0, None)
     else (2 ^ bs - 1, Some (rangeError ''ParseUint'' (digit_str ds))))"
  by (rule ParseUintB_digits [OF assms])

theorem parse_uint_exact_witness:
  "ParseUintB (digit_str [2, 5, 5]) 10 8 = (255, None) \<and>
   ParseUintB (digit_str [2, 5, 6]) 10 8 = (255, Some (rangeError ''ParseUint'' (digit_str [2, 5, 6])))"
  using parse_uint_exact [of 10 8 "[2, 5, 5]"] parse_uint_exact [of 10 8 "[2, 5, 6]"] by (simp add: horner_def)

text \<open>C24: On every string, with its fast path for up to 18 bytes, Atoi returns the value and the error of ParseInt for base 10 and bit size 0, with its own name in the error.\<close>

theorem atoi_is_parse_int:
  "Atoi s = (fst (ParseInt s 10 0), map_option (\<lambda>e. e\<lparr>Func := ''Atoi''\<rparr>) (snd (ParseInt s 10 0)))"
proof (cases "0 < length s \<and> length s < 19")
  case True
  then show ?thesis
    using ParseInt_ten [of s] by (auto simp: Atoi_def Let_def syntaxErrorNum_def split: option.splits)
next
  case False
  then show ?thesis by (auto simp: Atoi_def split: prod.splits)
qed

end
