(* ===== verification/Spec2Isabelle.thy ===== *)
theory Spec2Isabelle
  imports Tree_Props Literal_Values Source_Buffer Truthy Strength Bit_Vectors Int_Conv
begin

text \<open>
  Verification of the front end of the Goo compiler, and of the parts of its back end that divide by
  constants and keep sets.

  Goo is a fork of the Go distribution.  What it adds to the language (word operators, the number
  sign as index operator and comment, enums, implicit main, literals) is in the front end under
  \<open>src/src/cmd/compile/internal/syntax\<close>, which turns the bytes of a source file into a syntax tree.  This
  development models it from the bottom up, one theory per part.

  \<^bold>\<open>Parts and theories.\<close>
  \<^item> \<open>Prelude\<close>: bytes, runes, decimal printing, the collections of facts.
  \<^item> \<open>Tokens\<close> (\<open>tokens.go\<close>, \<open>token_string.go\<close>, the keyword table of \<open>scanner.go\<close>): the enumerations, token
    sets as 64-bit words, the perfect hash of the keywords.
  \<^item> \<open>Utf8\<close>, \<open>Utf8_Strings\<close> (\<open>unicode/utf8/utf8.go\<close>): decoding and encoding with the tables of the code, and the
    functions on whole byte slices.
  \<^item> \<open>Unicode_Tables\<close>, \<open>Unicode\<close> (\<open>unicode\<close>, \<open>strconv\<close>, \<open>fmt\<close>): the range tables, the searches in them, and
    the formatting of a character in an error message.
  \<^item> \<open>Source\<close>, \<open>Source_Track\<close> (\<open>source.go\<close>): the character reader over the whole input, its invariant, and
    its line and column counting.
  \<^item> \<open>Source_Buffer\<close> (\<open>source.go\<close>, \<open>strings/reader.go\<close>): the same reader with the buffer of the code in
    front of an \<open>io.Reader\<close>.  The locale \<open>io_reader\<close> is the contract of the reader, interpreted on
    \<open>strings.Reader\<close>; the relation \<open>buf_rel\<close> is the refinement.
  \<^item> \<open>Scanner\<close>, \<open>Scanner_Props\<close>, \<open>Scanner_Prec\<close>, \<open>Literals\<close> (\<open>scanner.go\<close>): the tokenizer and its properties.
  \<^item> \<open>Quote\<close> (\<open>strconv/quote.go\<close>): quoting and unquoting of strings.  \<open>Literal_Values\<close>: the scanner's check of string literals
    against \<open>Unquote\<close>, which the compiler evaluates them with.
  \<^item> \<open>Pos\<close> (\<open>pos.go\<close>): positions and position bases; the locale \<open>three_way\<close> is the contract of a
    comparison, interpreted on \<open>Cmp\<close>.
  \<^item> \<open>Nodes\<close> (\<open>nodes.go\<close>): the syntax tree.
  \<^item> \<open>Branches\<close> (\<open>branches.go\<close>): labels and branch statements.
  \<^item> \<open>Parser_State\<close> (\<open>parser.go\<close> up to the productions): the state of the parser, errors, directives and
    pragmas, tokens and recovery, lists.  \<open>Parser_Types\<close>: types, parameters, common productions.
    \<open>Parser_Expr\<close>: expressions and Goo's literals.  \<open>Parser_Stmt\<close>: simple statements and control flow.  \<open>Parser\<close>:
    declarations, enumerations, statements, source files, and \<open>Parse\<close> (\<open>syntax.go\<close>).
  \<^item> \<open>Parser_Runs\<close>: a calculus of total correctness for productions.  \<open>Parser_Progress\<close>: every production
    in it.  The locales \<open>type_calls\<close>, \<open>expr_calls\<close>, \<open>stmt_calls\<close> are the contracts of the recursive productions,
    each extending the one before; they are interpreted on the fuel that \<open>Parse\<close> uses.
  \<^item> \<open>Parser_Prec\<close>, \<open>Parser_Params\<close>, \<open>Parser_Props\<close>: operator precedence, parameter lists, and the properties
    of \<open>Parse\<close>.
  \<^item> \<open>Walk\<close> (\<open>walk.go\<close>): the children of every kind of node, \<open>Walk\<close> and \<open>Inspect\<close>.  \<open>Positions\<close> (\<open>positions.go\<close>): the loops of
    \<open>StartPos\<close> and \<open>EndPos\<close>.
  \<^item> \<open>Printer\<close>, \<open>Printer_Props\<close> (\<open>printer.go\<close>): the printer, from the calls of \<open>print\<close> for a node to the pending
    white space, and its properties.  \<open>Tree_Props\<close>: what holds of the trees of the parser in the printer.
  \<^item> \<open>Truthy\<close> (\<open>runtime/truthy.go\<close> and its callers in the compiler): conditions that are not boolean.
  \<^item> \<open>Magic\<close> (\<open>ssa/magic.go\<close>): the constants that replace divisions.  \<open>Strength\<close> (\<open>ssa/rewritegeneric.go\<close>): the rewrite rules that use
    them for unsigned divisions and remainders, over a tree of operations with a meaning.
  \<^item> \<open>Sparse\<close> (\<open>ssa/sparseset.go\<close>, \<open>ssa/sparsemap.go\<close>): sparse sets and maps; the locales \<open>bounded_set\<close> and \<open>bounded_map\<close> are
    what the passes rely on.  \<open>Bit_Vectors\<close> (\<open>bitvec/bv.go\<close>): bit vectors, which implement \<open>bounded_set\<close> too.
  \<^item> \<open>Int_Conv\<close> (\<open>strconv/itoa.go\<close>, \<open>strconv/atoi.go\<close>): the formatting and parsing of integers in every base, with the errors.

  \<^bold>\<open>How the code is represented.\<close>  A Go struct is a record (\<open>scanner\<close> extends \<open>source\<close> as the code embeds it),
  an enumeration a datatype, a method a function from the old to the new state, with its result first
  if it has one.  Handler calls are recorded in order in the state; a Go panic is a field that no
  operation clears, and a theorem says that it stays empty.  Loops are recursive functions whose
  termination is proved from the input that is left, so no fuel is needed below the parser; the two loops that the
  code alone does not bound (the walk up the position bases, reading from an arbitrary reader) are partial
  functions into \<open>option\<close>, and theorems show that they return.  \<open>uint32\<close> arithmetic in escapes and positions is on
  32-bit words; runes, lines and columns of the reader are integers, since the code never lets them
  reach the limits of their types.  Pointers that the code compares are numbers: position bases by the
  order of their creation, statements by an address.

  The parser is one big recursion through its productions.  Each production is a function that takes
  the recursive ones from a record \<open>procs\<close>; the record is closed by functions with fuel (\<open>knot\<close>), one unit for each
  call, and the loops take their fuel from the bytes that are left (\<open>loop_fuel\<close>).  Running out sets a flag,
  and \<open>parse_terminates\<close> shows that it is never set: \<open>knot_fuel\<close>, eight units per byte and twenty more, is enough,
  since a production that calls itself has read a token before.  Go's panic on the first error without a handler
  is a field too: the model goes on after it, and \<open>Parse\<close> throws away what it computes then.  The printer,
  whose output occurs in messages, and the package that reads build constraints are parameters of the parser
  (\<open>externs\<close>); \<open>printer_externs\<close> is the instance with the model of the printer.

  The printer is in two steps: the arguments of the calls of \<open>print\<close> for a node, down to tokens and
  control symbols, which depend on the tree only, and the effect of these on the state.  Its recursion, like that
  of the walker, ends because the nodes get smaller.

  \<^bold>\<open>What is shown.\<close>  UTF-8 decoding inverts encoding and is exact on invalid input; \<open>FullRune\<close> is exactly the
  condition the refill needs, and the buffered reader refines the reader of the whole input, for inputs without
  NUL.  The reader's positions count lines and bytes.  Scanning ends within a bound linear in the
  input, never panics (out of the bounds of a slice or an index included), and keeps the invariant; semicolons are inserted by the
  rule of the language; the text of a raw string runs to the next backquote, and a segment keeps its bytes across refills; separators and escapes are checked exactly.  A body that
  \<open>checkBranches\<close> accepts has all its jumps resolved and its labels used.  The parser returns on every input, reads
  all of it where it returns a tree, and reports errors as \<open>Parse\<close> promises; it builds operator trees by
  precedence and parameter lists that are named throughout or not at all; enumerations get constants
  that agree with their names.  Trees are walked in pre-order, as a recursion over
  the declarations of the nodes gives it, and every traversable tree has an
  end position.  The printer panics exactly where it has no case, on names without text and on labels that nothing encloses, and leaves
  out only semicolons that the scanner inserts again; the parentheses around the operand of an address operation are lost, since the
  parser removes them.  \<open>Valid\<close> and \<open>DecodeLastRune\<close>
  agree with the encoding of runes; \<open>Unquote\<close> inverts the quoting functions on all byte strings and evaluates every string
  literal, interpreted or raw, that the scanner accepts.  Conditions take exactly the empty values as false (structs
  and arrays that are one nil pointer among them), outside types defined by predeclared ones.  The multipliers of \<open>umagic\<close> and \<open>smagic\<close> divide every number of their width, the tests of
  \<open>udivisible\<close> and \<open>sdivisible\<close> decide divisibility, and the rewrites of unsigned divisions and remainders keep the value; sparse
  sets, sparse maps and bit vectors keep their invariants and behave as sets and maps.  Integers are read back as they were written,
  in every base, and the overflows of parsing are found exactly.  Where the code departs from its
  documentation, theorems by evaluation record what it does.

  \<^bold>\<open>Not modelled.\<close>  The errors of the writer that \<open>Fprint\<close> prints to (the output is a string), the tree dumper, the parser's tracing,
  \<open>ParseFile\<close>, which opens a file, and the functions of the parser that nothing calls (\<open>enumDecl\<close>, \<open>createEnumNameMap\<close>,
  \<open>needsFmtImport\<close>); the type checker, the back end apart from the parts above (in particular the rules for signed division), the runtime apart from \<open>truthy\<close>, the go command and the rest of the
  standard library.  An I/O
  error other than the end of the file is modelled in the buffer but excluded by the contract of the
  reader.  The size of a buffer is not limited by memory.
\<close>

end
